(* ===== verification/JsBase.thy ===== *)
theory JsBase
  imports Main "HOL-Library.AList" "HOL-Library.Sublist" "HOL-Library.List_Lexorder"
    "HOL-Library.Char_ord"
begin

text \<open>
  The JavaScript values and standard-library operations the toolbox modules use, and the generic
  lemmas on lists, ordered maps, first-seen deduplication and stable sorting that every component
  theory shares.

  Conventions of the whole development:
  \<^item> a JavaScript string is the list of bytes of its UTF-8 encoding; white space (\<open>trim\<close>,
    \<open>\s\<close>) is the ASCII white space and case mapping is the ASCII one;
  \<^item> a finite number is an integer (no module modelled here computes with fractions); the
    non-finite numbers are constructors of their own;
  \<^item> a \<open>Map\<close>, a \<open>Set\<close> or a plain object used as a dictionary keeps insertion order, so it is
    an association list (or a distinct list) and is written with \<open>AList.update\<close>;
  \<^item> \<open>throw\<close> is the left injection of a sum.
\<close>

named_theorems js_simps \<open>rewrite rules for the JavaScript primitives\<close>
named_theorems alist_simps \<open>lookup and domain of insertion-ordered maps\<close>

section \<open>Values\<close>

datatype jnum = Fin int | NaN | PosInf | NegInf

datatype jsval =
    JUndef
  | JNull
  | JBool bool
  | JNum jnum
  | JStr string
  | JArr "jsval list"
  | JObj "(string \<times> jsval) list"

type_synonym 'v dict = "(string \<times> 'v) list"

text \<open>\<open>v?.[k]\<close>: the own property \<open>k\<close> of an object, and \<open>undefined\<close> on anything else.\<close>

definition prop_of :: "jsval \<Rightarrow> string \<Rightarrow> jsval" where
  "prop_of v k =
     (case v of JObj kvs \<Rightarrow> (case map_of kvs k of Some x \<Rightarrow> x | None \<Rightarrow> JUndef) | _ \<Rightarrow> JUndef)"

definition has_key :: "jsval \<Rightarrow> string \<Rightarrow> bool" where
  "has_key v k = (case v of JObj kvs \<Rightarrow> k \<in> fst ` set kvs | _ \<Rightarrow> False)"

definition nullish :: "jsval \<Rightarrow> bool" where
  "nullish v = (v = JUndef \<or> v = JNull)"

text \<open>\<open>a ?? b\<close>.\<close>

definition coalesce :: "jsval \<Rightarrow> jsval \<Rightarrow> jsval" where
  "coalesce a b = (if nullish a then b else a)"

fun truthy :: "jsval \<Rightarrow> bool" where
  "truthy JUndef = False"
| "truthy JNull = False"
| "truthy (JBool b) = b"
| "truthy (JNum n) = (n \<noteq> Fin 0 \<and> n \<noteq> NaN)"
| "truthy (JStr s) = (s \<noteq> [])"
| "truthy (JArr _) = True"
| "truthy (JObj _) = True"

definition is_object :: "jsval \<Rightarrow> bool" where
  "is_object v = (case v of JObj _ \<Rightarrow> True | JArr _ \<Rightarrow> True | _ \<Rightarrow> False)"

definition is_plain_object :: "jsval \<Rightarrow> bool" where
  "is_plain_object v = (case v of JObj _ \<Rightarrow> True | _ \<Rightarrow> False)"

definition is_array :: "jsval \<Rightarrow> bool" where
  "is_array v = (case v of JArr _ \<Rightarrow> True | _ \<Rightarrow> False)"

definition is_string :: "jsval \<Rightarrow> bool" where
  "is_string v = (case v of JStr _ \<Rightarrow> True | _ \<Rightarrow> False)"

text \<open>\<open>Array.isArray(v) ? v : []\<close> and \<open>typeof v === 'string' ? v : ''\<close>.\<close>

definition array_or_empty :: "jsval \<Rightarrow> jsval list" where
  "array_or_empty v = (case v of JArr xs \<Rightarrow> xs | _ \<Rightarrow> [])"

definition string_or_empty :: "jsval \<Rightarrow> string" where
  "string_or_empty v = (case v of JStr s \<Rightarrow> s | _ \<Rightarrow> [])"

text \<open>\<open>Number.isFinite(v) ? v : d\<close>.\<close>

definition finite_or :: "int \<Rightarrow> jsval \<Rightarrow> int" where
  "finite_or d v = (case v of JNum (Fin i) \<Rightarrow> i | _ \<Rightarrow> d)"

definition entries_of :: "jsval \<Rightarrow> jsval dict" where
  "entries_of v = (case v of JObj kvs \<Rightarrow> kvs | _ \<Rightarrow> [])"

lemma prop_of_simps [simp]:
  "prop_of (JObj kvs) k = (case map_of kvs k of Some x \<Rightarrow> x | None \<Rightarrow> JUndef)"
  "prop_of JUndef k = JUndef" "prop_of JNull k = JUndef" "prop_of (JBool b) k = JUndef"
  "prop_of (JNum n) k = JUndef" "prop_of (JStr s) k = JUndef" "prop_of (JArr xs) k = JUndef"
  by (simp_all add: prop_of_def)

lemma nullish_simps [simp]:
  "nullish JUndef" "nullish JNull" "\<not> nullish (JBool b)" "\<not> nullish (JNum n)"
  "\<not> nullish (JStr s)" "\<not> nullish (JArr xs)" "\<not> nullish (JObj kvs)"
  by (simp_all add: nullish_def)

lemma coalesce_simps [simp]:
  "coalesce JUndef b = b" "coalesce JNull b = b" "coalesce (JBool c) b = JBool c"
  "coalesce (JNum n) b = JNum n" "coalesce (JStr s) b = JStr s"
  "coalesce (JArr xs) b = JArr xs" "coalesce (JObj kvs) b = JObj kvs"
  by (simp_all add: coalesce_def)

section \<open>Strings\<close>

definition is_ws :: "char \<Rightarrow> bool" where
  "is_ws c = (c = CHR '' '' \<or> c = CHR 0x09 \<or> c = CHR 0x0A \<or> c = CHR 0x0B \<or> c = CHR 0x0C \<or> c = CHR 0x0D)"

definition trim :: "string \<Rightarrow> string" where
  "trim s = rev (dropWhile is_ws (rev (dropWhile is_ws s)))"

definition lower_char :: "char \<Rightarrow> char" where
  "lower_char c = (let n = (of_char c :: nat) in if 65 \<le> n \<and> n \<le> 90 then char_of (n + 32) else c)"

definition upper_char :: "char \<Rightarrow> char" where
  "upper_char c = (let n = (of_char c :: nat) in if 97 \<le> n \<and> n \<le> 122 then char_of (n - 32) else c)"

definition to_lower :: "string \<Rightarrow> string" where
  "to_lower s = map lower_char s"

definition to_upper :: "string \<Rightarrow> string" where
  "to_upper s = map upper_char s"

definition starts_with :: "string \<Rightarrow> string \<Rightarrow> bool" where
  "starts_with s p = (take (length p) s = p)"

fun str_contains :: "string \<Rightarrow> string \<Rightarrow> bool" where
  "str_contains [] p = (p = [])"
| "str_contains (c # cs) p = (starts_with (c # cs) p \<or> str_contains cs p)"

fun join :: "string \<Rightarrow> string list \<Rightarrow> string" where
  "join sep [] = []"
| "join sep [x] = x"
| "join sep (x # y # ys) = x @ sep @ join sep (y # ys)"

text \<open>\<open>s.split(c)\<close> for a one-character separator.\<close>

fun split_on :: "char \<Rightarrow> string \<Rightarrow> string list" where
  "split_on c [] = [[]]"
| "split_on c (d # ds) =
     (if d = c then [] # split_on c ds
      else (case split_on c ds of [] \<Rightarrow> [[d]] | w # ws \<Rightarrow> (d # w) # ws))"

definition digit_char :: "nat \<Rightarrow> char" where
  "digit_char n = ''0123456789'' ! n"

fun show_nat :: "nat \<Rightarrow> string" where
  "show_nat n = (if n < 10 then [digit_char n] else show_nat (n div 10) @ [digit_char (n mod 10)])"

declare show_nat.simps [simp del]

definition show_int :: "int \<Rightarrow> string" where
  "show_int i = (if i < 0 then ''-'' @ show_nat (nat (- i)) else show_nat (nat i))"

definition is_digit :: "char \<Rightarrow> bool" where
  "is_digit c = (48 \<le> (of_char c :: nat) \<and> (of_char c :: nat) \<le> 57)"

text \<open>\<open>String(v)\<close>.\<close>

fun js_string :: "jsval \<Rightarrow> string" where
  "js_string JUndef = ''undefined''"
| "js_string JNull = ''null''"
| "js_string (JBool b) = (if b then ''true'' else ''false'')"
| "js_string (JNum (Fin i)) = show_int i"
| "js_string (JNum NaN) = ''NaN''"
| "js_string (JNum PosInf) = ''Infinity''"
| "js_string (JNum NegInf) = ''-Infinity''"
| "js_string (JStr s) = s"
| "js_string (JArr xs) = join '','' (map (\<lambda>x. if nullish x then [] else js_string x) xs)"
| "js_string (JObj kvs) = ''[object Object]''"

text \<open>
  \<open>Number(v)\<close>: a string is trimmed, the empty string is 0, an optionally signed run of decimal
  digits is its value; the other numeric spellings (fractions, exponents, radix prefixes) are not
  modelled and read as \<open>NaN\<close>.
\<close>

definition decimal_val :: "string \<Rightarrow> int option" where
  "decimal_val s =
     (if s \<noteq> [] \<and> list_all is_digit s
      then Some (foldl (\<lambda>acc c. 10 * acc + (int (of_char c) - 48)) 0 s) else None)"

definition string_number :: "string \<Rightarrow> jnum" where
  "string_number s =
     (let t = trim s in
      if t = [] then Fin 0
      else if t = ''Infinity'' \<or> t = ''+Infinity'' then PosInf
      else if t = ''-Infinity'' then NegInf
      else if hd t = CHR ''-'' then (case decimal_val (tl t) of Some i \<Rightarrow> Fin (- i) | None \<Rightarrow> NaN)
      else if hd t = CHR ''+'' then (case decimal_val (tl t) of Some i \<Rightarrow> Fin i | None \<Rightarrow> NaN)
      else (case decimal_val t of Some i \<Rightarrow> Fin i | None \<Rightarrow> NaN))"

fun js_number :: "jsval \<Rightarrow> jnum" where
  "js_number JUndef = NaN"
| "js_number JNull = Fin 0"
| "js_number (JBool b) = Fin (if b then 1 else 0)"
| "js_number (JNum n) = n"
| "js_number (JStr s) = string_number s"
| "js_number (JArr xs) = string_number (js_string (JArr xs))"
| "js_number (JObj kvs) = NaN"

text \<open>\<open>a > 0\<close> on a number.\<close>

fun jnum_pos :: "jnum \<Rightarrow> bool" where
  "jnum_pos (Fin i) = (0 < i)"
| "jnum_pos PosInf = True"
| "jnum_pos NegInf = False"
| "jnum_pos NaN = False"

text \<open>\<open>a < b\<close>: two strings by their characters, anything else by number; \<open>NaN\<close> compares false.\<close>

fun jnum_less :: "jnum \<Rightarrow> jnum \<Rightarrow> bool" where
  "jnum_less (Fin i) (Fin j) = (i < j)"
| "jnum_less NaN _ = False"
| "jnum_less _ NaN = False"
| "jnum_less PosInf _ = False"
| "jnum_less (Fin i) PosInf = True"
| "jnum_less (Fin i) NegInf = False"
| "jnum_less NegInf NegInf = False"
| "jnum_less NegInf _ = True"

definition js_less :: "jsval \<Rightarrow> jsval \<Rightarrow> bool" where
  "js_less a b =
     (case (a, b) of (JStr s, JStr t) \<Rightarrow> s < t | _ \<Rightarrow> jnum_less (js_number a) (js_number b))"

text \<open>A destructuring default applies to \<open>undefined\<close> only.\<close>

definition opt_default :: "jsval \<Rightarrow> string \<Rightarrow> jsval \<Rightarrow> jsval" where
  "opt_default opts k d = (let v = prop_of opts k in if v = JUndef then d else v)"

text \<open>\<open>typeof v === 'string' \&\& v.trim().length > 0\<close>.\<close>

definition is_nonempty_string :: "jsval \<Rightarrow> bool" where
  "is_nonempty_string v = (case v of JStr s \<Rightarrow> trim s \<noteq> [] | _ \<Rightarrow> False)"

lemma is_nonempty_string_simps [simp]:
  "is_nonempty_string (JStr s) = (trim s \<noteq> [])"
  "\<not> is_nonempty_string JUndef" "\<not> is_nonempty_string JNull" "\<not> is_nonempty_string (JBool b)"
  "\<not> is_nonempty_string (JNum n)" "\<not> is_nonempty_string (JArr xs)"
  "\<not> is_nonempty_string (JObj kvs)"
  by (simp_all add: is_nonempty_string_def)

lemma trim_Nil [simp]: "trim [] = []"
  by (simp add: trim_def)

lemma trim_nonempty: "trim s \<noteq> [] \<Longrightarrow> s \<noteq> []"
  by auto

lemma trim_trim [simp]: "trim (trim s) = trim s"
proof -
  define t where "t = rev (dropWhile is_ws s)"
  have hd_t: "t = [] \<or> \<not> is_ws (last t)"
    by (metis t_def hd_dropWhile last_rev rev.simps(1) rev_rev_ident)
  have "dropWhile is_ws (rev (dropWhile is_ws t)) = rev (dropWhile is_ws t)"
  proof (cases "dropWhile is_ws t = []")
    case True then show ?thesis by (simp only: rev.simps dropWhile.simps)
  next
    case False
    then have "t \<noteq> []" by auto
    with hd_t have "\<not> is_ws (last t)" by blast
    moreover have "last (dropWhile is_ws t) = last t"
      using False by (metis last_appendR takeWhile_dropWhile_id)
    ultimately have "\<not> is_ws (hd (rev (dropWhile is_ws t)))"
      using False by (simp add: hd_rev)
    with False show ?thesis
      by (metis dropWhile_eq_Nil_conv dropWhile_eq_self_iff)
  qed
  moreover have "dropWhile is_ws (dropWhile is_ws t) = dropWhile is_ws t"
    by (rule dropWhile_idem)
  ultimately show ?thesis
    by (simp add: trim_def t_def)
qed

lemma split_on_no_sep: "v \<in> set (split_on c s) \<Longrightarrow> c \<notin> set v"
proof (induction c s arbitrary: v rule: split_on.induct)
  case (2 c d ds)
  then show ?case by (auto split: if_splits list.splits)
qed simp

lemma split_on_not_Nil [simp]: "split_on c s \<noteq> []"
  by (cases s) (auto split: list.splits)

lemma split_on_append: "c \<notin> set v \<Longrightarrow> split_on c (v @ c # s) = v # split_on c s"
  by (induction v) auto

lemma split_on_whole: "c \<notin> set v \<Longrightarrow> split_on c v = [v]"
  by (induction v) auto

lemma split_on_join:
  "vs \<noteq> [] \<Longrightarrow> \<forall>v \<in> set vs. c \<notin> set v \<Longrightarrow> split_on c (join [c] vs) = vs"
proof (induction "[c]" vs rule: join.induct)
  case (3 x y ys)
  then show ?case by (simp add: split_on_append)
qed (simp_all add: split_on_whole)

lemma set_trim: "set (trim s) \<subseteq> set s"
  by (auto simp: trim_def dest!: set_dropWhileD)

section \<open>First-seen deduplication\<close>

text \<open>\<open>[...new Set(xs)]\<close>: each value once, at its first position.\<close>

fun uniq :: "'a list \<Rightarrow> 'a list" where
  "uniq [] = []"
| "uniq (x # xs) = x # removeAll x (uniq xs)"

lemma set_uniq [simp]: "set (uniq xs) = set xs"
  by (induction xs) auto

lemma distinct_removeAll': "distinct xs \<Longrightarrow> distinct (removeAll x xs)"
  by (simp add: distinct_removeAll)

lemma distinct_uniq [simp]: "distinct (uniq xs)"
  by (induction xs) (auto simp: distinct_removeAll')

lemma uniq_distinct: "distinct xs \<Longrightarrow> uniq xs = xs"
  by (induction xs) auto

lemma uniq_idem [simp]: "uniq (uniq xs) = uniq xs"
  by (simp add: uniq_distinct)

lemma uniq_eq_Nil [simp]: "uniq xs = [] \<longleftrightarrow> xs = []"
  by (cases xs) auto

lemma filter_uniq: "filter P (uniq xs) = uniq (filter P xs)"
proof (induction xs)
  case (Cons x xs)
  have "filter P (removeAll x (uniq xs)) = removeAll x (filter P (uniq xs))"
    by (simp add: removeAll_filter_not_eq conj_commute)
  with Cons show ?case
    by (auto simp: removeAll_id)
qed simp

text \<open>The loop the source writes out: a \<open>seen\<close> set and an output list.\<close>

fun uniq_loop :: "'a list \<Rightarrow> 'a list \<Rightarrow> 'a list" where
  "uniq_loop seen [] = []"
| "uniq_loop seen (x # xs) =
     (if x \<in> set seen then uniq_loop seen xs else x # uniq_loop (x # seen) xs)"

lemma uniq_loop_eq: "uniq_loop seen xs = filter (\<lambda>y. y \<notin> set seen) (uniq xs)"
proof (induction xs arbitrary: seen)
  case (Cons x xs)
  have "filter (\<lambda>y. y \<notin> set (x # seen)) (uniq xs)
      = filter (\<lambda>y. y \<notin> set seen) (removeAll x (uniq xs))"
    by (auto simp: removeAll_filter_not_eq intro: filter_cong)
  moreover have "x \<in> set seen \<Longrightarrow>
      filter (\<lambda>y. y \<notin> set seen) (removeAll x (uniq xs)) = filter (\<lambda>y. y \<notin> set seen) (uniq xs)"
    by (auto simp: removeAll_filter_not_eq intro: filter_cong)
  ultimately show ?case
    using Cons.IH by simp
qed simp

corollary uniq_loop_Nil: "uniq_loop [] xs = uniq xs"
  by (simp add: uniq_loop_eq)

text \<open>\<open>list.includes(x) ? list : [...list, x]\<close> and the list minus a set of ids.\<close>

definition add_id :: "'a list \<Rightarrow> 'a \<Rightarrow> 'a list" where
  "add_id xs x = (if x \<in> set xs then xs else xs @ [x])"

definition without_ids :: "'a list \<Rightarrow> 'a list \<Rightarrow> 'a list" where
  "without_ids xs ys = filter (\<lambda>x. x \<notin> set ys) xs"

lemma set_add_id [simp]: "set (add_id xs x) = insert x (set xs)"
  by (auto simp: add_id_def)

lemma distinct_add_id [simp]: "distinct (add_id xs x) = distinct xs"
  by (auto simp: add_id_def)

lemma set_without_ids [simp]: "set (without_ids xs ys) = set xs - set ys"
  by (auto simp: without_ids_def)

lemma distinct_without_ids [simp]: "distinct xs \<Longrightarrow> distinct (without_ids xs ys)"
  by (simp add: without_ids_def)

lemma without_ids_disjoint: "set xs \<inter> set ys = {} \<Longrightarrow> without_ids xs ys = xs"
  by (auto simp: without_ids_def filter_id_conv)

lemma length_without_ids_le: "length (without_ids xs ys) \<le> length xs"
  by (simp add: without_ids_def)

section \<open>Insertion-ordered maps\<close>

locale ordered_map =
  fixes lookup :: "'m \<Rightarrow> 'k \<Rightarrow> 'v option"
    and put :: "'k \<Rightarrow> 'v \<Rightarrow> 'm \<Rightarrow> 'm"
    and keys :: "'m \<Rightarrow> 'k list"
  assumes lookup_put: "lookup (put k v m) j = (if j = k then Some v else lookup m j)"
    and keys_put: "keys (put k v m) = (if k \<in> set (keys m) then keys m else keys m @ [k])"
    and lookup_keys: "lookup m k = None \<longleftrightarrow> k \<notin> set (keys m)"
begin

lemma lookup_put_same: "lookup (put k v m) k = Some v"
  by (simp add: lookup_put)

lemma lookup_put_other: "j \<noteq> k \<Longrightarrow> lookup (put k v m) j = lookup m j"
  by (simp add: lookup_put)

lemma set_keys_put: "set (keys (put k v m)) = insert k (set (keys m))"
  by (auto simp: keys_put)

lemma distinct_keys_put: "distinct (keys m) \<Longrightarrow> distinct (keys (put k v m))"
  by (simp add: keys_put)

lemma keys_foldr_put:
  "set (keys (foldr (\<lambda>x. put (f x) (g x)) xs m)) = f ` set xs \<union> set (keys m)"
  by (induction xs) (auto simp: set_keys_put)

end

lemma map_of_None_keys: "map_of al k = None \<longleftrightarrow> k \<notin> set (map fst al)"
  by (simp add: map_of_eq_None_iff)

interpretation amap: ordered_map map_of AList.update "map fst"
proof unfold_locales
  fix k j :: 'a and v :: 'b and al
  show "map_of (AList.update k v al) j = (if j = k then Some v else map_of al j)"
    by (simp add: update_conv')
  show "map fst (AList.update k v al) =
      (if k \<in> set (map fst al) then map fst al else map fst al @ [k])"
    by (induction al) auto
  show "map_of al k = None \<longleftrightarrow> k \<notin> set (map fst al)"
    by (rule map_of_None_keys)
qed

lemma alist_update_new: "k \<notin> fst ` set al \<Longrightarrow> AList.update k v al = al @ [(k, v)]"
  by (induction al) auto

lemmas [alist_simps] = amap.lookup_put amap.keys_put amap.set_keys_put

section \<open>Stable sorting by a comparator\<close>

text \<open>
  \<open>xs.sort(cmp)\<close> is stable; for a consistent comparator the result is determined, and for an
  inconsistent one the language leaves the order to the implementation (binary insertion, as the
  engine runs it on short arrays, inserts to the right of everything not greater).
\<close>

fun insert_by :: "('a \<Rightarrow> 'a \<Rightarrow> int) \<Rightarrow> 'a \<Rightarrow> 'a list \<Rightarrow> 'a list" where
  "insert_by cmp x [] = [x]"
| "insert_by cmp x (y # ys) = (if cmp x y \<le> 0 then x # y # ys else y # insert_by cmp x ys)"

definition sort_by :: "('a \<Rightarrow> 'a \<Rightarrow> int) \<Rightarrow> 'a list \<Rightarrow> 'a list" where
  "sort_by cmp xs = foldr (insert_by cmp) xs []"

lemma sort_by_simps [simp]:
  "sort_by cmp [] = []" "sort_by cmp (x # xs) = insert_by cmp x (sort_by cmp xs)"
  by (simp_all add: sort_by_def)

lemma set_insert_by [simp]: "set (insert_by cmp x xs) = insert x (set xs)"
  by (induction xs) auto

lemma set_sort_by [simp]: "set (sort_by cmp xs) = set xs"
  by (induction xs) auto

lemma length_insert_by [simp]: "length (insert_by cmp x xs) = Suc (length xs)"
  by (induction xs) auto

lemma length_sort_by [simp]: "length (sort_by cmp xs) = length xs"
  by (induction xs) auto

lemma insert_by_not_Nil [simp]: "insert_by cmp x xs \<noteq> []"
  by (cases xs) auto

lemma sort_by_eq_Nil [simp]: "sort_by cmp xs = [] \<longleftrightarrow> xs = []"
  by (cases xs) auto

lemma distinct_insert_by: "distinct (insert_by cmp x xs) \<longleftrightarrow> x \<notin> set xs \<and> distinct xs"
  by (induction xs) auto

lemma distinct_sort_by [simp]: "distinct (sort_by cmp xs) = distinct xs"
  by (induction xs) (auto simp: distinct_insert_by)

lemma distinct_map_insert_by:
  "distinct (map f (insert_by cmp x xs)) \<longleftrightarrow> f x \<notin> f ` set xs \<and> distinct (map f xs)"
  by (induction xs) auto

lemma distinct_map_sort_by [simp]: "distinct (map f (sort_by cmp xs)) = distinct (map f xs)"
  by (induction xs) (auto simp: distinct_map_insert_by)

text \<open>
  The contract a comparator must keep on the values it is applied to: a total preorder written as
  a sign. A sort by a comparator that keeps it is sorted, and the order is transitive.
\<close>

locale comparator =
  fixes cmp :: "'a \<Rightarrow> 'a \<Rightarrow> int" and dom :: "'a set"
  assumes total: "x \<in> dom \<Longrightarrow> y \<in> dom \<Longrightarrow> cmp x y \<le> 0 \<or> cmp y x \<le> 0"
    and trans: "x \<in> dom \<Longrightarrow> y \<in> dom \<Longrightarrow> z \<in> dom \<Longrightarrow>
      cmp x y \<le> 0 \<Longrightarrow> cmp y z \<le> 0 \<Longrightarrow> cmp x z \<le> 0"
begin

lemma sorted_insert_by:
  assumes "sorted_wrt (\<lambda>a b. cmp a b \<le> 0) xs" "set xs \<subseteq> dom" "x \<in> dom"
  shows "sorted_wrt (\<lambda>a b. cmp a b \<le> 0) (insert_by cmp x xs)"
  using assms
proof (induction xs)
  case (Cons y ys)
  show ?case
  proof (cases "cmp x y \<le> 0")
    case True
    then have "\<forall>z\<in>set ys. cmp x z \<le> 0"
      using Cons.prems trans[of x y] by auto
    with True Cons.prems show ?thesis by simp
  next
    case False
    then have "cmp y x \<le> 0"
      using total[of x y] Cons.prems by auto
    with False Cons show ?thesis by auto
  qed
qed simp

lemma sorted_sort_by:
  "set xs \<subseteq> dom \<Longrightarrow> sorted_wrt (\<lambda>a b. cmp a b \<le> 0) (sort_by cmp xs)"
  by (induction xs) (simp_all add: sorted_insert_by)

lemma head_minimal:
  assumes "set xs \<subseteq> dom" "xs \<noteq> []" "y \<in> set xs"
  shows "cmp (hd (sort_by cmp xs)) y \<le> 0"
proof -
  obtain h t where ht: "sort_by cmp xs = h # t"
    using assms(2) by (metis sort_by_eq_Nil neq_Nil_conv)
  have "sorted_wrt (\<lambda>a b. cmp a b \<le> 0) (h # t)"
    using sorted_sort_by[OF assms(1)] ht by simp
  moreover have "y \<in> set (h # t)"
    using assms(3) ht by (metis set_sort_by)
  moreover have "cmp h h \<le> 0"
    using total[of h h] assms(1) ht by (metis list.set_intros(1) set_sort_by subsetD)
  ultimately show ?thesis
    using ht by auto
qed

lemma restrict_dom: "A \<subseteq> dom \<Longrightarrow> comparator cmp A"
proof unfold_locales
  fix x y z assume A: "A \<subseteq> dom" and x: "x \<in> A" and y: "y \<in> A"
  show "cmp x y \<le> 0 \<or> cmp y x \<le> 0"
    by (rule total[OF subsetD[OF A x] subsetD[OF A y]])
  assume z: "z \<in> A" and le: "cmp x y \<le> 0" "cmp y z \<le> 0"
  show "cmp x z \<le> 0"
    by (rule trans[OF subsetD[OF A x] subsetD[OF A y] subsetD[OF A z] le])
qed

lemma sorted_unique:
  assumes antisym: "\<And>x y. x \<in> dom \<Longrightarrow> y \<in> dom \<Longrightarrow> cmp x y \<le> 0 \<Longrightarrow> cmp y x \<le> 0 \<Longrightarrow> x = y"
    and "sorted_wrt (\<lambda>a b. cmp a b \<le> 0) xs" "sorted_wrt (\<lambda>a b. cmp a b \<le> 0) ys"
    and "distinct xs" "distinct ys" "set xs = set ys" "set xs \<subseteq> dom"
  shows "xs = ys"
  using assms(2-)
proof (induction xs arbitrary: ys)
  case (Cons x xs)
  then obtain y ys' where ys: "ys = y # ys'" by (cases ys) auto
  have "x = y"
  proof (rule ccontr)
    assume "x \<noteq> y"
    then have "x \<in> set ys'" "y \<in> set xs" using Cons.prems ys by auto
    then have "cmp x y \<le> 0" "cmp y x \<le> 0" using Cons.prems ys by auto
    with antisym[of x y] \<open>x \<noteq> y\<close> Cons.prems ys show False by auto
  qed
  moreover from this have "set xs = set ys'" using Cons.prems ys by (auto dest: equalityD1)
  ultimately show ?case using Cons.IH[of ys'] Cons.prems ys by auto
qed simp

end

text \<open>
  A comparator whose sign flips with its arguments. Such comparators compose: the chain of \<open>||\<close> over
  a list of them keeps the contract.
\<close>

lemma sgn_flip_total: "sgn b = - sgn (a :: int) \<Longrightarrow> a \<le> 0 \<or> b \<le> 0"
  by (auto simp: sgn_if split: if_splits)

locale sign_comparator = comparator +
  assumes flip: "x \<in> dom \<Longrightarrow> y \<in> dom \<Longrightarrow> sgn (cmp y x) = - sgn (cmp x y)"
begin

lemma flip_less: "x \<in> dom \<Longrightarrow> y \<in> dom \<Longrightarrow> cmp x y < 0 \<longleftrightarrow> 0 < cmp y x"
  using flip[of x y] by (auto simp: sgn_if split: if_splits)

lemma flip_zero: "x \<in> dom \<Longrightarrow> y \<in> dom \<Longrightarrow> cmp x y = 0 \<longleftrightarrow> cmp y x = 0"
  using flip[of x y] by (auto simp: sgn_if split: if_splits)

lemma chain:
  assumes "sign_comparator c dom"
  shows "sign_comparator (\<lambda>x y. if cmp x y \<noteq> 0 then cmp x y else c x y) dom"
proof -
  have ct: "x \<in> dom \<Longrightarrow> y \<in> dom \<Longrightarrow> z \<in> dom \<Longrightarrow> c x y \<le> 0 \<Longrightarrow> c y z \<le> 0 \<Longrightarrow> c x z \<le> 0" for x y z
    using assms comparator.trans[of c dom x y z] by (simp add: sign_comparator_def)
  have cf: "x \<in> dom \<Longrightarrow> y \<in> dom \<Longrightarrow> sgn (c y x) = - sgn (c x y)" for x y
    using assms sign_comparator.flip[of c dom x y] by simp
  define L where "L x y = (if cmp x y \<noteq> 0 then cmp x y else c x y)" for x y
  have L_flip: "sgn (L y x) = - sgn (L x y)" if xy: "x \<in> dom" "y \<in> dom" for x y
    using flip[OF xy] cf[OF xy] flip_zero[OF xy] by (cases "cmp x y = 0") (simp_all add: L_def)
  have L_le: "cmp x y \<le> 0" "cmp x y = 0 \<Longrightarrow> c x y \<le> 0" if "L x y \<le> 0" for x y
    using that by (cases "cmp x y = 0"; simp add: L_def)+
  have L_trans: "L x z \<le> 0" if d: "x \<in> dom" "y \<in> dom" "z \<in> dom" and le: "L x y \<le> 0" "L y z \<le> 0" for x y z
  proof (cases "cmp x z = 0")
    case True
    have le1: "cmp x y \<le> 0" "cmp y z \<le> 0" using le L_le(1) by blast+
    have zx: "cmp z x \<le> 0" using True flip_zero[OF d(1,3)] by simp
    have "cmp y x \<le> 0" by (rule trans[OF d(2,3,1) le1(2) zx])
    moreover have "cmp z y \<le> 0" by (rule trans[OF d(3,1,2) zx le1(1)])
    ultimately have zero: "cmp x y = 0" "cmp y z = 0"
      using le1 flip_less[OF d(1,2)] flip_less[OF d(2,3)] by linarith+
    have "c x z \<le> 0" by (rule ct[OF d L_le(2)[OF le(1) zero(1)] L_le(2)[OF le(2) zero(2)]])
    then show ?thesis using True by (simp add: L_def)
  next
    case False
    have "cmp x z \<le> 0" by (rule trans[OF d L_le(1)[OF le(1)] L_le(1)[OF le(2)]])
    then show ?thesis using False by (simp add: L_def)
  qed
  have "sign_comparator L dom"
    by unfold_locales (use L_flip L_trans sgn_flip_total in blast)+
  then show ?thesis by (simp add: L_def[abs_def])
qed

end

lemma difference_sign: "sign_comparator (\<lambda>x y. f x - f y :: int) D"
  by unfold_locales (auto simp: sgn_if)

lemma difference_sign': "sign_comparator (\<lambda>x y. f y - f x :: int) D"
  by unfold_locales (auto simp: sgn_if)

section \<open>Fallible traversals\<close>

text \<open>\<open>xs.map(f)\<close> and \<open>xs.filter(p)\<close> with a callback that may throw: the first error ends the call.\<close>

fun map_result :: "('a \<Rightarrow> 'e + 'b) \<Rightarrow> 'a list \<Rightarrow> 'e + 'b list" where
  "map_result f [] = Inr []"
| "map_result f (x # xs) =
     (case f x of Inl e \<Rightarrow> Inl e
      | Inr y \<Rightarrow> (case map_result f xs of Inl e \<Rightarrow> Inl e | Inr ys \<Rightarrow> Inr (y # ys)))"

fun filter_result :: "('a \<Rightarrow> 'e + bool) \<Rightarrow> 'a list \<Rightarrow> 'e + 'a list" where
  "filter_result p [] = Inr []"
| "filter_result p (x # xs) =
     (case p x of Inl e \<Rightarrow> Inl e
      | Inr b \<Rightarrow> (case filter_result p xs of Inl e \<Rightarrow> Inl e
                  | Inr ys \<Rightarrow> Inr (if b then x # ys else ys)))"

lemma map_result_length: "map_result f xs = Inr ys \<Longrightarrow> length ys = length xs"
  by (induction xs arbitrary: ys) (auto split: sum.splits)

lemma map_result_all: "map_result f xs = Inr ys \<Longrightarrow> (\<And>x y. f x = Inr y \<Longrightarrow> P y) \<Longrightarrow> \<forall>y \<in> set ys. P y"
  by (induction xs arbitrary: ys) (auto split: sum.splits)

lemma map_result_set:
  "map_result f xs = Inr ys \<Longrightarrow> y \<in> set ys \<longleftrightarrow> (\<exists>x \<in> set xs. f x = Inr y)"
proof (induction xs arbitrary: ys)
  case (Cons x xs)
  then obtain z zs where *: "f x = Inr z" "map_result f xs = Inr zs" "ys = z # zs"
    by (auto split: sum.splits)
  show ?case using Cons.IH[OF *(2)] *(1,3) by auto
qed simp

lemma map_result_succeeds: "(\<exists>ys. map_result f xs = Inr ys) \<longleftrightarrow> (\<forall>x \<in> set xs. \<exists>y. f x = Inr y)"
proof (induction xs)
  case (Cons x xs)
  then show ?case by (cases "f x"; cases "map_result f xs") simp_all
qed simp

lemma filter_result_set:
  "filter_result p xs = Inr ys \<Longrightarrow> y \<in> set ys \<longleftrightarrow> y \<in> set xs \<and> p y = Inr True"
proof (induction xs arbitrary: ys)
  case (Cons x xs)
  then obtain b zs where *: "p x = Inr b" "filter_result p xs = Inr zs"
    "ys = (if b then x # zs else zs)"
    by (auto split: sum.splits)
  show ?case using Cons.IH[OF *(2)] *(1,3) by (cases "y = x") auto
qed simp

lemma filter_result_succeeds:
  "(\<exists>ys. filter_result p xs = Inr ys) \<longleftrightarrow> (\<forall>x \<in> set xs. \<exists>b. p x = Inr b)"
proof (induction xs)
  case (Cons x xs)
  then show ?case by (cases "p x"; cases "filter_result p xs") simp_all
qed simp

section \<open>Dates\<close>

text \<open>
  \<open>Date.parse\<close> on the ISO 8601 forms the trackers emit: a date, or a date and a time with
  optional fraction and \<open>Z\<close> or an offset (the process runs in UTC, so a time without an offset
  is UTC). Anything else is \<open>NaN\<close> here, the value \<open>None\<close>.
\<close>

definition days_from_civil :: "int \<Rightarrow> int \<Rightarrow> int \<Rightarrow> int" where
  "days_from_civil y m d =
     (let y' = (if m \<le> 2 then y - 1 else y);
          era = y' div 400;
          yoe = y' - era * 400;
          mp = (m + 9) mod 12;
          doy = (153 * mp + 2) div 5 + d - 1;
          doe = yoe * 365 + yoe div 4 - yoe div 100 + doy
      in era * 146097 + doe - 719468)"

definition parse_ymd :: "string \<Rightarrow> int option" where
  "parse_ymd s =
     (if length s = 10 \<and> s ! 4 = CHR ''-'' \<and> s ! 7 = CHR ''-''
      then (case (decimal_val (take 4 s), decimal_val (take 2 (drop 5 s)), decimal_val (drop 8 s)) of
              (Some y, Some m, Some d) \<Rightarrow>
                if 1 \<le> m \<and> m \<le> 12 \<and> 1 \<le> d \<and> d \<le> 31 then Some (days_from_civil y m d) else None
            | _ \<Rightarrow> None)
      else None)"

definition parse_hms :: "string \<Rightarrow> int option" where
  "parse_hms s =
     (if length s = 8 \<and> s ! 2 = CHR '':'' \<and> s ! 5 = CHR '':''
      then (case (decimal_val (take 2 s), decimal_val (take 2 (drop 3 s)), decimal_val (drop 6 s)) of
              (Some h, Some m, Some sec) \<Rightarrow>
                if h \<le> 23 \<and> m \<le> 59 \<and> sec \<le> 59 then Some ((h * 60 + m) * 60 + sec) else None
            | _ \<Rightarrow> None)
      else None)"

definition parse_fraction :: "string \<Rightarrow> (int \<times> string) option" where
  "parse_fraction s =
     (if s \<noteq> [] \<and> hd s = CHR ''.''
      then (let ds = takeWhile is_digit (tl s); rest = dropWhile is_digit (tl s) in
            if ds = [] then None
            else map_option (\<lambda>ms. (ms, rest)) (decimal_val (take 3 (ds @ ''00''))))
      else Some (0, s))"

definition parse_offset :: "string \<Rightarrow> int option" where
  "parse_offset s =
     (if s = [] \<or> s = ''Z'' then Some 0
      else if length s = 6 \<and> (hd s = CHR ''+'' \<or> hd s = CHR ''-'') \<and> s ! 3 = CHR '':''
      then (case (decimal_val (take 2 (drop 1 s)), decimal_val (drop 4 s)) of
              (Some h, Some m) \<Rightarrow>
                if h \<le> 23 \<and> m \<le> 59
                then Some ((if hd s = CHR ''-'' then - 1 else 1) * (h * 60 + m) * 60000) else None
            | _ \<Rightarrow> None)
      else None)"

definition date_parse :: "string \<Rightarrow> int option" where
  "date_parse s =
     (case parse_ymd (take 10 s) of
        None \<Rightarrow> None
      | Some day \<Rightarrow>
          if length s = 10 then Some (day * 86400000)
          else if s ! 10 \<noteq> CHR ''T'' then None
          else (case (parse_hms (take 8 (drop 11 s)), parse_fraction (drop 19 s)) of
                  (Some sec, Some (ms, rest)) \<Rightarrow>
                    (case parse_offset rest of
                       Some off \<Rightarrow> Some (day * 86400000 + sec * 1000 + ms - off)
                     | None \<Rightarrow> None)
                | _ \<Rightarrow> None))"

end
