(* ===== verification/DagScheduler.thy ===== *)
theory DagScheduler
  imports JsBase
begin

text \<open>
  The pure scheduling core, \<open>skills-toolbox/epic/dag-scheduler.mjs\<close>: the dependency graph, the
  transitive walks over it, the ready set in launch order, the serialized merge choice and the
  merge-time re-check of external blockers. A node's absent field (\<open>undefined\<close>) is \<open>None\<close>; the
  \<open>merged\<close>, \<open>failed\<close>, \<open>inFlight\<close> and \<open>externallyCleared\<close> sets are lists read by membership.
\<close>

section \<open>Definitions\<close>

record node =
  nid :: string
  blockedBy :: "string list"
  priority :: "int option"
  createdAt :: "string option"

record graph =
  nodes :: "node dict"
  inEpicBlockers :: "string list dict"
  externalBlockers :: "string list dict"

record progress_sets =
  merged_ids :: "string list"
  failed_ids :: "string list"
  inFlight_ids :: "string list"
  cleared_ids :: "string list"

definition PRIORITY_ORDER :: "int list" where
  "PRIORITY_ORDER = [1, 2, 3, 4, 0]"

fun index_of :: "'a list \<Rightarrow> 'a \<Rightarrow> nat option" where
  "index_of [] y = None"
| "index_of (x # xs) y = (if x = y then Some 0 else map_option Suc (index_of xs y))"

definition priorityRank :: "int option \<Rightarrow> int" where
  "priorityRank p =
     (case p of None \<Rightarrow> int (length PRIORITY_ORDER)
      | Some i \<Rightarrow> (case index_of PRIORITY_ORDER i of
                    None \<Rightarrow> int (length PRIORITY_ORDER) | Some k \<Rightarrow> int k))"

text \<open>\<open>new Date(createdAt).getTime()\<close>; \<open>None\<close> is \<open>NaN\<close>.\<close>

definition created_ms :: "node \<Rightarrow> int option" where
  "created_ms n = (case createdAt n of None \<Rightarrow> None | Some s \<Rightarrow> date_parse s)"

definition byPriorityThenOldest :: "node \<Rightarrow> node \<Rightarrow> int" where
  "byPriorityThenOldest a b =
     (let rankDiff = priorityRank (priority a) - priorityRank (priority b) in
      if rankDiff \<noteq> 0 then rankDiff
      else (case (created_ms a, created_ms b) of
              (Some s, Some t) \<Rightarrow> s - t
            | _ \<Rightarrow> 0))"

definition buildGraph :: "node list \<Rightarrow> graph" where
  "buildGraph ns =
     (let nodeMap = foldl (\<lambda>m n. AList.update (nid n) n m) [] ns;
          known = (\<lambda>i. i \<in> set (map fst nodeMap))
      in \<lparr> nodes = nodeMap,
           inEpicBlockers =
             foldl (\<lambda>m n. AList.update (nid n) (filter known (blockedBy n)) m) [] ns,
           externalBlockers =
             foldl (\<lambda>m n. AList.update (nid n) (filter (\<lambda>i. \<not> known i) (blockedBy n)) m) [] ns \<rparr>)"

definition get_list :: "'a list dict \<Rightarrow> string \<Rightarrow> 'a list" where
  "get_list m k = (case map_of m k of None \<Rightarrow> [] | Some xs \<Rightarrow> xs)"

definition dependentsIndex :: "graph \<Rightarrow> string list dict" where
  "dependentsIndex g =
     foldl (\<lambda>deps (i, blockers).
              foldl (\<lambda>d b. AList.update b (get_list d b @ [i]) d) deps blockers)
       [] (inEpicBlockers g)"

fun enqueue_new :: "string list \<Rightarrow> string list \<Rightarrow> string list \<Rightarrow> string list \<times> string list" where
  "enqueue_new [] result queue = (result, queue)"
| "enqueue_new (d # ds) result queue =
     (if d \<in> set result then enqueue_new ds result queue
      else enqueue_new ds (result @ [d]) (queue @ [d]))"

definition targets :: "string list dict \<Rightarrow> string set" where
  "targets deps = (\<Union>xs \<in> set (map snd deps). set xs)"

lemma get_list_targets: "set (get_list deps k) \<subseteq> targets deps"
proof (cases "map_of deps k")
  case (Some xs)
  then have "(k, xs) \<in> set deps" by (rule map_of_SomeD)
  with Some show ?thesis by (force simp: get_list_def targets_def)
qed (simp add: get_list_def)

lemma finite_targets [simp]: "finite (targets deps)"
  by (simp add: targets_def)

lemma enqueue_new_measure:
  assumes "enqueue_new ds r q = (r', q')" "set ds \<subseteq> U" "finite U"
  shows "2 * card (U - set r') + length q' \<le> 2 * card (U - set r) + length q"
  using assms
proof (induction ds r q rule: enqueue_new.induct)
  case (2 d ds r q)
  show ?case
  proof (cases "d \<in> set r")
    case False
    have "U - set (r @ [d]) = (U - set r) - {d}" by auto
    then have "card (U - set (r @ [d])) = card (U - set r) - 1"
      using "2.prems" False by simp
    moreover have "0 < card (U - set r)"
      using "2.prems" False by (auto simp: card_gt_0_iff)
    ultimately show ?thesis
      using 2 False by auto
  qed (use 2 in auto)
qed simp

function reach_loop :: "string list dict \<Rightarrow> string list \<Rightarrow> string list \<Rightarrow> string list" where
  "reach_loop deps [] result = result"
| "reach_loop deps (current # queue) result =
     (let (result', queue') = enqueue_new (get_list deps current) result queue
      in reach_loop deps queue' result')"
  by pat_completeness auto
termination
proof (relation "measure (\<lambda>(deps, queue, result).
    2 * card (targets deps - set result) + length queue)", goal_cases)
  case (2 deps current queue result x result' queue')
  then have "2 * card (targets deps - set result') + length queue'
      \<le> 2 * card (targets deps - set result) + length queue"
    by (intro enqueue_new_measure[of "get_list deps current"]) (auto simp: get_list_targets)
  then show ?case by simp
qed simp

definition reachableDependents :: "string list dict \<Rightarrow> string list \<Rightarrow> string list" where
  "reachableDependents deps seedIds = reach_loop deps seedIds []"

definition transitiveDependents :: "graph \<Rightarrow> string list \<Rightarrow> string list" where
  "transitiveDependents g failedIds = reachableDependents (dependentsIndex g) failedIds"

definition transitiveDependentCounts :: "graph \<Rightarrow> nat dict" where
  "transitiveDependentCounts g =
     (let dependents = dependentsIndex g in
      map (\<lambda>(i, _). (i, length (removeAll i (reachableDependents dependents [i])))) (nodes g))"

definition byId :: "node \<Rightarrow> node \<Rightarrow> int" where
  "byId a b = (if nid a < nid b then - 1 else if nid b < nid a then 1 else 0)"

definition count_of :: "nat dict \<Rightarrow> string \<Rightarrow> int" where
  "count_of m k = (case map_of m k of None \<Rightarrow> 0 | Some c \<Rightarrow> int c)"

definition launchOrder :: "nat dict \<Rightarrow> node \<Rightarrow> node \<Rightarrow> int" where
  "launchOrder unlocks a b =
     (let unlockDiff = count_of unlocks (nid b) - count_of unlocks (nid a) in
      if unlockDiff \<noteq> 0 then unlockDiff
      else let ordered = byPriorityThenOldest a b in
           if ordered \<noteq> 0 then ordered else byId a b)"

definition admissible :: "graph \<Rightarrow> progress_sets \<Rightarrow> string \<Rightarrow> bool" where
  "admissible g p i \<longleftrightarrow>
     i \<notin> set (merged_ids p) \<and> i \<notin> set (failed_ids p) \<and> i \<notin> set (inFlight_ids p) \<and>
     i \<notin> set (transitiveDependents g (failed_ids p)) \<and>
     list_all (\<lambda>b. b \<in> set (merged_ids p)) (get_list (inEpicBlockers g) i) \<and>
     list_all (\<lambda>b. b \<in> set (cleared_ids p)) (get_list (externalBlockers g) i)"

definition readyTickets :: "graph \<Rightarrow> progress_sets \<Rightarrow> node list" where
  "readyTickets g p =
     sort_by (launchOrder (transitiveDependentCounts g))
       (map snd (filter (\<lambda>(i, _). admissible g p i) (nodes g)))"

text \<open>A green that is not a graph node is the bare \<open>{id}\<close> object it was passed as.\<close>

definition bare_node :: "string \<Rightarrow> node" where
  "bare_node i = \<lparr> nid = i, blockedBy = [], priority = None, createdAt = None \<rparr>"

definition node_or_bare :: "graph \<Rightarrow> string \<Rightarrow> node" where
  "node_or_bare g i = (case map_of (nodes g) i of Some n \<Rightarrow> n | None \<Rightarrow> bare_node i)"

definition mergeable :: "graph \<Rightarrow> string list \<Rightarrow> node \<Rightarrow> bool" where
  "mergeable g merged n = list_all (\<lambda>b. b \<in> set merged) (get_list (inEpicBlockers g) (nid n))"

definition nextToMerge :: "string list \<Rightarrow> graph \<Rightarrow> string list \<Rightarrow> string option" where
  "nextToMerge greens g merged =
     (let candidates = filter (mergeable g merged) (map (node_or_bare g) greens) in
      if candidates = [] then None
      else Some (nid (hd (sort_by byPriorityThenOldest candidates))))"

definition mergeBlockedExternalBlockers ::
  "string \<Rightarrow> graph \<Rightarrow> string list \<Rightarrow> string list \<Rightarrow> string list" where
  "mergeBlockedExternalBlockers i g clearedForMerge clearedBlockers =
     filter (\<lambda>b. b \<notin> set clearedForMerge \<and> b \<notin> set clearedBlockers)
       (get_list (externalBlockers g) i)"


text \<open>What the simplifier needs to run the graph functions on a concrete backlog.\<close>

lemmas dag_eval =
  buildGraph_def bare_node_def Let_def get_list_def dependentsIndex_def reachableDependents_def
  transitiveDependents_def transitiveDependentCounts_def

section \<open>The transitive walk\<close>

definition dep_edges :: "string list dict \<Rightarrow> (string \<times> string) set" where
  "dep_edges deps = {(b, d). d \<in> set (get_list deps b)}"

lemma enqueue_new_sets:
  assumes "enqueue_new ds r q = (r', q')"
  shows "set r' = set r \<union> set ds" "set ds - set r \<subseteq> set q'"
    "set q \<subseteq> set q'" "set q' \<subseteq> set q \<union> set ds" "distinct r \<Longrightarrow> distinct r'"
  using assms by (induction ds r q rule: enqueue_new.induct) (auto split: if_splits)

text \<open>
  The walk's invariant: everything a seed reaches directly, and everything a result element
  reaches directly, is a result unless its source is still queued; and results are reachable.
\<close>

definition walk_inv ::
  "(string \<times> string) set \<Rightarrow> string set \<Rightarrow> string list \<Rightarrow> string list \<Rightarrow> bool" where
  "walk_inv E seeds queue result \<longleftrightarrow>
     set queue \<subseteq> seeds \<union> E\<^sup>+ `` seeds \<and>
     set result \<subseteq> E\<^sup>+ `` seeds \<and>
     (\<forall>x \<in> (seeds \<union> set result) - set queue. E `` {x} \<subseteq> set result) \<and>
     distinct result"

lemma walk_inv_step:
  assumes inv: "walk_inv (dep_edges deps) seeds (current # queue) result"
    and enq: "enqueue_new (get_list deps current) result queue = (result', queue')"
  shows "walk_inv (dep_edges deps) seeds queue' result'"
proof -
  let ?E = "dep_edges deps" and ?ds = "set (get_list deps current)"
  note sets = enqueue_new_sets[OF enq]
  have img: "?E `` {current} = ?ds"
    by (auto simp: dep_edges_def)
  have cur: "current \<in> seeds \<union> ?E\<^sup>+ `` seeds" and q: "set queue \<subseteq> seeds \<union> ?E\<^sup>+ `` seeds"
    and res: "set result \<subseteq> ?E\<^sup>+ `` seeds" and dist: "distinct result"
    and closed: "\<forall>x \<in> (seeds \<union> set result) - set (current # queue). ?E `` {x} \<subseteq> set result"
    using inv by (auto simp: walk_inv_def)
  have ds: "?ds \<subseteq> ?E\<^sup>+ `` seeds"
  proof
    fix d assume "d \<in> ?ds"
    then have e: "(current, d) \<in> ?E" by (simp add: dep_edges_def)
    from cur show "d \<in> ?E\<^sup>+ `` seeds"
    proof
      assume "current \<in> seeds" with e show ?thesis by blast
    next
      assume "current \<in> ?E\<^sup>+ `` seeds"
      then obtain s where "s \<in> seeds" "(s, current) \<in> ?E\<^sup>+" by blast
      with e show ?thesis by (meson ImageI trancl.trancl_into_trancl)
    qed
  qed
  have "\<forall>x \<in> (seeds \<union> set result') - set queue'. ?E `` {x} \<subseteq> set result'"
  proof
    fix x assume x: "x \<in> (seeds \<union> set result') - set queue'"
    show "?E `` {x} \<subseteq> set result'"
    proof (cases "x = current")
      case True then show ?thesis using img sets(1) by auto
    next
      case False
      have "x \<in> (seeds \<union> set result) - set (current # queue)"
        using x False sets by auto
      then show ?thesis using closed sets(1) by blast
    qed
  qed
  then show ?thesis
    unfolding walk_inv_def using sets ds q res dist by blast
qed

lemma reach_loop_correct:
  "walk_inv (dep_edges deps) seeds queue result \<Longrightarrow>
     set (reach_loop deps queue result) = (dep_edges deps)\<^sup>+ `` seeds \<and>
     distinct (reach_loop deps queue result)"
proof (induction deps queue result rule: reach_loop.induct)
  case (1 deps result)
  let ?E = "dep_edges deps"
  have sub: "set result \<subseteq> ?E\<^sup>+ `` seeds" and dist: "distinct result"
    and closed: "\<forall>x \<in> seeds \<union> set result. ?E `` {x} \<subseteq> set result"
    using 1 by (auto simp: walk_inv_def)
  have "y \<in> set result" if "(s, y) \<in> ?E\<^sup>+" "s \<in> seeds" for s y
    using that
  proof (induction rule: trancl.induct)
    case (r_into_trancl a b) then show ?case using closed by blast
  next
    case (trancl_into_trancl a b c) then show ?case using closed by blast
  qed
  then show ?case using sub dist by auto
next
  case (2 deps current queue result)
  obtain r' q' where enq: "enqueue_new (get_list deps current) result queue = (r', q')"
    by (cases "enqueue_new (get_list deps current) result queue")
  from walk_inv_step[OF "2.prems" enq] "2.IH"[OF enq[symmetric]] show ?case
    by (simp add: enq)
qed

lemma reachableDependents_correct:
  "set (reachableDependents deps seeds) = (dep_edges deps)\<^sup>+ `` set seeds"
  "distinct (reachableDependents deps seeds)"
proof -
  have "walk_inv (dep_edges deps) (set seeds) seeds []"
    by (auto simp: walk_inv_def)
  from reach_loop_correct[OF this]
  show "set (reachableDependents deps seeds) = (dep_edges deps)\<^sup>+ `` set seeds"
    "distinct (reachableDependents deps seeds)"
    by (simp_all add: reachableDependents_def)
qed

section \<open>The graph\<close>

text \<open>\<open>(b, d)\<close>: the node \<open>d\<close> lists \<open>b\<close> as an in-set blocker.\<close>

definition in_edges :: "graph \<Rightarrow> (string \<times> string) set" where
  "in_edges g = {(b, d). b \<in> set (get_list (inEpicBlockers g) d)}"

definition graph_wf :: "graph \<Rightarrow> bool" where
  "graph_wf g \<longleftrightarrow>
     distinct (map fst (nodes g)) \<and> distinct (map fst (inEpicBlockers g)) \<and>
     (\<forall>(i, n) \<in> set (nodes g). nid n = i) \<and>
     (\<forall>d. set (get_list (inEpicBlockers g) d) \<subseteq> set (map fst (nodes g))) \<and>
     (\<forall>d. set (get_list (externalBlockers g) d) \<inter> set (map fst (nodes g)) = {}) \<and>
     set (map fst (inEpicBlockers g)) = set (map fst (nodes g))"

lemma get_list_update:
  "get_list (AList.update k v m) j = (if j = k then v else get_list m j)"
  by (simp add: get_list_def alist_simps)

lemma distinct_foldl_update:
  "distinct (map fst m) \<Longrightarrow>
     distinct (map fst (foldl (\<lambda>m n. AList.update (f n) (v n) m) m ns))"
  by (induction ns arbitrary: m) (auto simp: distinct_update)

lemma keys_foldl_update:
  "set (map fst (foldl (\<lambda>m n. AList.update (f n) (v n) m) m ns)) = set (map fst m) \<union> f ` set ns"
  by (induction ns arbitrary: m) (auto simp: dom_update)

lemma foldl_update_mem:
  "(i, w) \<in> set (foldl (\<lambda>m n. AList.update (f n) (v n) m) m ns) \<Longrightarrow>
     (i, w) \<in> set m \<or> (\<exists>n \<in> set ns. i = f n \<and> w = v n)"
proof (induction ns arbitrary: m)
  case (Cons n ns)
  from Cons.IH[of "AList.update (f n) (v n) m"] Cons.prems
  have "(i, w) \<in> set (AList.update (f n) (v n) m) \<or> (\<exists>n \<in> set ns. i = f n \<and> w = v n)" by simp
  moreover have "(i, w) \<in> set (AList.update k u m) \<Longrightarrow> (i, w) \<in> set m \<or> (i = k \<and> w = u)" for k u
    by (induction m) (auto split: if_splits)
  ultimately show ?case by auto
qed simp

lemma get_list_foldl_update:
  "get_list (foldl (\<lambda>m n. AList.update (f n) (v n) m) m ns) d \<in>
     {get_list m d} \<union> v ` {n \<in> set ns. f n = d}"
proof (induction ns arbitrary: m)
  case (Cons n ns)
  show ?case
    using Cons.IH[of "AList.update (f n) (v n) m"] by (auto simp: get_list_update)
qed simp

lemma get_list_Nil [simp]: "get_list [] d = []"
  by (simp add: get_list_def)

lemma buildGraph_wf [simp]: "graph_wf (buildGraph ns)"
proof -
  define nm where "nm = foldl (\<lambda>m n. AList.update (nid n) n m) [] ns"
  let ?known = "\<lambda>i. i \<in> set (map fst nm)"
  have keys: "set (map fst nm) = nid ` set ns"
    unfolding nm_def using keys_foldl_update[of nid "\<lambda>n. n" "[]" ns] by simp
  have "\<forall>(i, n) \<in> set nm. nid n = i"
    unfolding nm_def using foldl_update_mem[of _ _ nid "\<lambda>n. n" "[]" ns] by fastforce
  moreover have "set (get_list (foldl (\<lambda>m n. AList.update (nid n) (filter ?known (blockedBy n)) m) [] ns) d)
      \<subseteq> set (map fst nm)" for d
    using get_list_foldl_update[of nid "\<lambda>n. filter ?known (blockedBy n)" "[]" ns d] by auto
  moreover have "set (get_list (foldl (\<lambda>m n. AList.update (nid n)
        (filter (\<lambda>i. \<not> ?known i) (blockedBy n)) m) [] ns) d) \<inter> set (map fst nm) = {}" for d
    using get_list_foldl_update[of nid "\<lambda>n. filter (\<lambda>i. \<not> ?known i) (blockedBy n)" "[]" ns d]
    by (auto simp del: set_map simp: disjoint_iff)
  moreover have "set (map fst (foldl (\<lambda>m n. AList.update (nid n) (filter ?known (blockedBy n)) m) [] ns))
      = nid ` set ns"
    using keys_foldl_update[of nid "\<lambda>n. filter ?known (blockedBy n)" "[]" ns] by simp
  ultimately show ?thesis
    unfolding graph_wf_def buildGraph_def Let_def nm_def[symmetric]
    using keys distinct_foldl_update[of "[]" nid "\<lambda>n. n" ns]
      distinct_foldl_update[of "[]" nid "\<lambda>n. filter ?known (blockedBy n)" ns]
    by (simp add: nm_def)
qed

lemma nodes_buildGraph_keys: "set (map fst (nodes (buildGraph ns))) = nid ` set ns"
  using keys_foldl_update[of nid "\<lambda>n. n" "[]" ns] by (simp add: buildGraph_def Let_def)

lemma dep_push_get:
  "set (get_list (foldl (\<lambda>d b. AList.update b (get_list d b @ [i]) d) deps blockers) x) =
     set (get_list deps x) \<union> (if x \<in> set blockers then {i} else {})"
  by (induction blockers arbitrary: deps) (auto simp: get_list_update)

lemma dep_index_get:
  "set (get_list (foldl (\<lambda>deps (i, blockers).
       foldl (\<lambda>d b. AList.update b (get_list d b @ [i]) d) deps blockers) deps m) x) =
     set (get_list deps x) \<union> {i. \<exists>bs. (i, bs) \<in> set m \<and> x \<in> set bs}"
proof (induction m arbitrary: deps)
  case (Cons ib m)
  obtain i bs where "ib = (i, bs)" by (cases ib)
  with Cons show ?case by (auto simp: dep_push_get)
qed simp

lemma dependentsIndex_edges:
  assumes "graph_wf g"
  shows "dep_edges (dependentsIndex g) = in_edges g"
proof -
  have d: "distinct (map fst (inEpicBlockers g))"
    using assms by (simp add: graph_wf_def)
  have "(\<exists>bs. (i, bs) \<in> set (inEpicBlockers g) \<and> b \<in> set bs) \<longleftrightarrow>
      b \<in> set (get_list (inEpicBlockers g) i)" for i b
    using d by (force simp: get_list_def map_of_eq_None_iff split: option.splits
        dest: map_of_SomeD)
  then show ?thesis
    by (simp add: dep_edges_def in_edges_def dependentsIndex_def dep_index_get)
qed

lemma transitiveDependents_set:
  "graph_wf g \<Longrightarrow> set (transitiveDependents g failed) = (in_edges g)\<^sup>+ `` set failed"
  by (simp add: transitiveDependents_def reachableDependents_correct dependentsIndex_edges)

lemma transitiveDependents_distinct [simp]: "distinct (transitiveDependents g failed)"
  by (simp add: transitiveDependents_def reachableDependents_correct)

lemma in_edges_trancl_nodes:
  assumes wf: "graph_wf g" and "(b, d) \<in> (in_edges g)\<^sup>+"
  shows "d \<in> set (map fst (nodes g)) \<and> b \<in> set (map fst (nodes g))"
proof -
  have edge: "b \<in> set (map fst (nodes g)) \<and> d \<in> set (map fst (nodes g))"
    if "(b, d) \<in> in_edges g" for b d
  proof -
    have "b \<in> set (get_list (inEpicBlockers g) d)" using that by (simp add: in_edges_def)
    moreover from this have "d \<in> set (map fst (inEpicBlockers g))"
      by (cases "map_of (inEpicBlockers g) d")
        (simp_all add: get_list_def, metis fst_conv imageI map_of_SomeD)
    ultimately show ?thesis using wf unfolding graph_wf_def by blast
  qed
  from assms(2) show ?thesis
    by (induction rule: trancl.induct) (auto dest: edge)
qed

lemma count_of_nodes:
  assumes "distinct (map fst ns)" "i \<in> set (map fst ns)"
  shows "count_of (map (\<lambda>(i, _). (i, f i)) ns) i = int (f i)"
  using assms by (induction ns) (auto simp: count_of_def)

lemma unlock_count:
  assumes "i \<in> nid ` set ns"
  shows "count_of (transitiveDependentCounts (buildGraph ns)) i =
    int (card ((in_edges (buildGraph ns))\<^sup>+ `` {i} - {i}))"
proof -
  let ?g = "buildGraph ns"
  let ?r = "reachableDependents (dependentsIndex ?g) [i]"
  have wf: "graph_wf ?g" by simp
  have "count_of (transitiveDependentCounts ?g) i = int (length (removeAll i ?r))"
    unfolding transitiveDependentCounts_def Let_def
    by (rule count_of_nodes) (use wf assms nodes_buildGraph_keys[of ns] in
        \<open>auto simp: graph_wf_def simp del: buildGraph_wf set_map\<close>)
  moreover have "set (removeAll i ?r) = (in_edges ?g)\<^sup>+ `` {i} - {i}"
    by (simp add: reachableDependents_correct dependentsIndex_edges)
  moreover have "distinct (removeAll i ?r)"
    by (simp add: distinct_removeAll reachableDependents_correct)
  ultimately show ?thesis by (metis distinct_card)
qed

text \<open>C38:
  The launch rank of a node is the number of other nodes it transitively unlocks: over the built
  graph, the count recorded for a node is the size of the transitive closure of its direct
  dependents, the node itself left out (so a diamond counts once and a cycle never counts its own
  head).\<close>

theorem transitiveDependentCounts_correct:
  assumes "i \<in> nid ` set ns"
  shows "count_of (transitiveDependentCounts (buildGraph ns)) i =
    int (card ((in_edges (buildGraph ns))\<^sup>+ `` {i} - {i}))"
  using assms by (rule unlock_count)

theorem transitiveDependentCounts_witness:
  "count_of (transitiveDependentCounts (buildGraph
      [bare_node ''A'', (bare_node ''B'')\<lparr>blockedBy := [''A'']\<rparr>,
       (bare_node ''C'')\<lparr>blockedBy := [''B'', ''X'']\<rparr>])) ''A'' = 2 \<and>
   int (card ((in_edges (buildGraph [bare_node ''A'', (bare_node ''B'')\<lparr>blockedBy := [''A'']\<rparr>,
       (bare_node ''C'')\<lparr>blockedBy := [''B'', ''X'']\<rparr>]))\<^sup>+ `` {''A''} - {''A''})) = 2"
proof -
  let ?ns = "[bare_node ''A'', (bare_node ''B'')\<lparr>blockedBy := [''A'']\<rparr>,
       (bare_node ''C'')\<lparr>blockedBy := [''B'', ''X'']\<rparr>]"
  have v: "count_of (transitiveDependentCounts (buildGraph ?ns)) ''A'' = 2"
    by (simp add: dag_eval count_of_def)
  have "''A'' \<in> nid ` set ?ns" by (simp add: bare_node_def)
  from transitiveDependentCounts_correct[OF this] v
  have "int (card ((in_edges (buildGraph ?ns))\<^sup>+ `` {''A''} - {''A''})) = 2" by (rule subst)
  with v show ?thesis by (rule conjI)
qed

text \<open>The cascade is exact: the ids \<open>transitiveDependents\<close> returns for a set of failed tickets are
  precisely those downstream of a failure along in-set blocking edges, each once, also over a
  cyclic graph.\<close>

theorem transitiveDependents_correct:
  "set (transitiveDependents (buildGraph ns) failed) =
     {d. \<exists>f \<in> set failed. (f, d) \<in> (in_edges (buildGraph ns))\<^sup>+} \<and>
   distinct (transitiveDependents (buildGraph ns) failed)"
  by (auto simp: transitiveDependents_set)

section \<open>The ready set\<close>

lemma set_readyTickets:
  "n \<in> set (readyTickets g p) \<longleftrightarrow> (\<exists>i. (i, n) \<in> set (nodes g) \<and> admissible g p i)"
  by (force simp: readyTickets_def image_iff)

lemma readyTickets_ids:
  assumes "graph_wf g"
  shows "i \<in> nid ` set (readyTickets g p) \<longleftrightarrow> i \<in> set (map fst (nodes g)) \<and> admissible g p i"
proof -
  have ids: "nid n = j" if "(j, n) \<in> set (nodes g)" for j n
    using assms that by (auto simp: graph_wf_def)
  show ?thesis
    by (auto simp: set_readyTickets image_iff dest: ids)
      (metis ids set_readyTickets snd_conv fst_conv)+
qed

lemma distinct_readyTickets:
  assumes wf: "graph_wf g"
  shows "distinct (map nid (readyTickets g p))"
proof -
  let ?sel = "filter (\<lambda>(i, _). admissible g p i) (nodes g)"
  have "\<forall>x \<in> set ?sel. nid (snd x) = fst x"
    using wf by (auto simp: graph_wf_def)
  then have "map nid (map snd ?sel) = map fst ?sel"
    by simp
  moreover have "distinct (map fst ?sel)"
    using wf by (simp add: graph_wf_def distinct_map_filter)
  ultimately have "distinct (map nid (map snd ?sel))" by (metis (no_types))
  then show ?thesis
    unfolding readyTickets_def by (subst distinct_map_sort_by)
qed

lemma readyTickets_iff:
  "(i \<in> nid ` set (readyTickets (buildGraph ns) p) \<longleftrightarrow>
     i \<in> nid ` set ns \<and>
     i \<notin> set (merged_ids p) \<union> set (failed_ids p) \<union> set (inFlight_ids p) \<and>
     i \<notin> (in_edges (buildGraph ns))\<^sup>+ `` set (failed_ids p) \<and>
     set (get_list (inEpicBlockers (buildGraph ns)) i) \<subseteq> set (merged_ids p) \<and>
     set (get_list (externalBlockers (buildGraph ns)) i) \<subseteq> set (cleared_ids p)) \<and>
   distinct (map nid (readyTickets (buildGraph ns) p))"
  using readyTickets_ids[of "buildGraph ns" i p] nodes_buildGraph_keys[of ns]
  by (auto simp: admissible_def transitiveDependents_set list_all_iff distinct_readyTickets
      simp del: set_map)

text \<open>C23:
  A ticket is ready exactly when it is a node that is not merged, failed or in flight, is not
  downstream of any failed ticket, has every in-set blocker merged and every external blocker
  cleared; no ranking admits or drops a ticket, and none is listed twice.\<close>

theorem readyTickets_exact:
  "(i \<in> nid ` set (readyTickets (buildGraph ns) p) \<longleftrightarrow>
     i \<in> nid ` set ns \<and>
     i \<notin> set (merged_ids p) \<union> set (failed_ids p) \<union> set (inFlight_ids p) \<and>
     i \<notin> (in_edges (buildGraph ns))\<^sup>+ `` set (failed_ids p) \<and>
     set (get_list (inEpicBlockers (buildGraph ns)) i) \<subseteq> set (merged_ids p) \<and>
     set (get_list (externalBlockers (buildGraph ns)) i) \<subseteq> set (cleared_ids p)) \<and>
   distinct (map nid (readyTickets (buildGraph ns) p))"
  by (rule readyTickets_iff)

text \<open>A ticket that still has to be done: a node that is neither merged nor failed nor downstream of a failure.\<close>

definition unsettled :: "node list \<Rightarrow> progress_sets \<Rightarrow> string set" where
  "unsettled ns p = nid ` set ns - set (merged_ids p) - set (failed_ids p) -
     (in_edges (buildGraph ns))\<^sup>+ `` set (failed_ids p)"

text \<open>C39:
  The only thing work waits for. If the in-set blocking edges have no cycle and nothing is in flight,
  then whatever has merged or failed, while some ticket is still to be done there is a ready ticket, or
  a ticket whose in-set blockers have all merged waits for an external blocker that is not cleared.\<close>

theorem readyTickets_progress:
  assumes acyc: "acyclic (in_edges (buildGraph ns))"
    and idle: "inFlight_ids p = []"
    and left: "unsettled ns p \<noteq> {}"
  shows "readyTickets (buildGraph ns) p \<noteq> [] \<or>
    (\<exists>i\<in>unsettled ns p. set (get_list (inEpicBlockers (buildGraph ns)) i) \<subseteq> set (merged_ids p) \<and>
       \<not> set (get_list (externalBlockers (buildGraph ns)) i) \<subseteq> set (cleared_ids p))"
proof -
  let ?g = "buildGraph ns" and ?open = "unsettled ns p"
  have sub: "in_edges ?g \<subseteq> (nid ` set ns) \<times> (nid ` set ns)"
    using in_edges_trancl_nodes[OF buildGraph_wf, of _ _ ns] nodes_buildGraph_keys[of ns]
    by (auto simp del: set_map)
  have "finite (in_edges ?g)"
    by (rule finite_subset[OF sub]) simp
  then have wf: "wf (in_edges ?g)"
    using acyc by (rule finite_acyclic_wf)
  obtain i where i: "i \<in> ?open" and minimal: "\<And>b. (b, i) \<in> in_edges ?g \<Longrightarrow> b \<notin> ?open"
    using left wfE_min'[OF wf, of ?open] by blast
  have "set (get_list (inEpicBlockers ?g) i) \<subseteq> set (merged_ids p)"
  proof
    fix b assume "b \<in> set (get_list (inEpicBlockers ?g) i)"
    then have e: "(b, i) \<in> in_edges ?g" by (simp add: in_edges_def)
    then have down: "b \<in> set (failed_ids p) \<union> (in_edges ?g)\<^sup>+ `` set (failed_ids p) \<Longrightarrow>
        i \<in> (in_edges ?g)\<^sup>+ `` set (failed_ids p)"
      by (auto intro: trancl_into_trancl)
    show "b \<in> set (merged_ids p)" using minimal[OF e] down sub e i by (auto simp: unsettled_def)
  qed
  moreover have "i \<in> nid ` set (readyTickets ?g p)"
    if "set (get_list (inEpicBlockers ?g) i) \<subseteq> set (merged_ids p)"
      "set (get_list (externalBlockers ?g) i) \<subseteq> set (cleared_ids p)"
    using readyTickets_iff[of i ns p] i idle that by (simp add: unsettled_def)
  ultimately show ?thesis using i by fastforce
qed

theorem readyTickets_progress_witness:
  "readyTickets (buildGraph [bare_node ''A'', (bare_node ''B'')\<lparr>blockedBy := [''A'']\<rparr>, bare_node ''C''])
     \<lparr>merged_ids = [''A''], failed_ids = [''C''], inFlight_ids = [], cleared_ids = []\<rparr> \<noteq> []"
proof -
  let ?ns = "[bare_node ''A'', (bare_node ''B'')\<lparr>blockedBy := [''A'']\<rparr>, bare_node ''C'']"
  let ?g = "buildGraph ?ns" and ?p = "\<lparr>merged_ids = [''A''], failed_ids = [''C''], inFlight_ids = [], cleared_ids = []\<rparr>"
  have g: "inEpicBlockers ?g = [(''A'', []), (''B'', [''A'']), (''C'', [])]"
    "externalBlockers ?g = [(''A'', []), (''B'', []), (''C'', [])]"
    by (simp_all add: buildGraph_def bare_node_def Let_def)
  have edges: "in_edges ?g \<subseteq> {(''A'', ''B'')}"
    by (auto simp: in_edges_def g get_list_def split: if_splits)
  have "acyclic (in_edges ?g)"
    by (rule acyclic_subset[OF _ edges]) (auto simp: acyclic_def trancl_insert)
  moreover have "''B'' \<in> unsettled ?ns ?p"
  proof -
    have "(in_edges ?g)\<^sup>+ \<subseteq> {(''A'', ''B'')}\<^sup>+" using edges by (simp add: trancl_mono_subset)
    also have "\<dots> = {(''A'', ''B'')}" by (auto simp: trancl_insert)
    finally show ?thesis by (auto simp: unsettled_def bare_node_def)
  qed
  ultimately have "readyTickets ?g ?p \<noteq> [] \<or> (\<exists>i\<in>unsettled ?ns ?p. set (get_list (inEpicBlockers ?g) i) \<subseteq> set (merged_ids ?p) \<and>
       \<not> set (get_list (externalBlockers ?g) i) \<subseteq> set (cleared_ids ?p))"
    by (intro readyTickets_progress) auto
  moreover have "get_list (externalBlockers ?g) i = []" for i by (simp add: g get_list_def split: option.splits)
  ultimately show ?thesis by simp
qed

section \<open>The launch order\<close>

definition dated :: "node set" where
  "dated = {n. created_ms n \<noteq> None}"

lemma byPriorityThenOldest_dated:
  assumes "created_ms a = Some s" "created_ms b = Some t"
  shows "byPriorityThenOldest a b =
    (if priorityRank (priority a) \<noteq> priorityRank (priority b)
     then priorityRank (priority a) - priorityRank (priority b) else s - t)"
  using assms by (simp add: byPriorityThenOldest_def)

text \<open>On nodes with usable timestamps both comparators are total preorders.\<close>

interpretation merge_order: comparator byPriorityThenOldest dated
proof unfold_locales
  fix x y z
  assume "x \<in> dated" "y \<in> dated"
  then obtain s t where st: "created_ms x = Some s" "created_ms y = Some t"
    by (auto simp: dated_def)
  then show "byPriorityThenOldest x y \<le> 0 \<or> byPriorityThenOldest y x \<le> 0"
    by (auto simp: byPriorityThenOldest_dated)
  assume "z \<in> dated" "byPriorityThenOldest x y \<le> 0" "byPriorityThenOldest y z \<le> 0"
  then show "byPriorityThenOldest x z \<le> 0"
    using st by (auto simp: byPriorityThenOldest_dated dated_def split: if_splits)
qed

lemma launchOrder_dated:
  assumes "created_ms a = Some s" "created_ms b = Some t"
  shows "launchOrder u a b \<le> 0 \<longleftrightarrow>
    count_of u (nid b) < count_of u (nid a) \<or>
    count_of u (nid b) = count_of u (nid a) \<and>
      (priorityRank (priority a) < priorityRank (priority b) \<or>
       priorityRank (priority a) = priorityRank (priority b) \<and>
         (s < t \<or> s = t \<and> nid a \<le> nid b))"
  using assms
  by (auto simp: launchOrder_def Let_def byPriorityThenOldest_dated byId_def not_le not_less
      dest: less_imp_le)

interpretation launch_order: comparator "launchOrder u" dated for u
proof unfold_locales
  fix x y z
  assume "x \<in> dated" "y \<in> dated"
  then obtain s t where st: "created_ms x = Some s" "created_ms y = Some t"
    by (auto simp: dated_def)
  then show "launchOrder u x y \<le> 0 \<or> launchOrder u y x \<le> 0"
    by (auto simp: launchOrder_dated)
  assume "z \<in> dated" and le: "launchOrder u x y \<le> 0" "launchOrder u y z \<le> 0"
  then obtain r where r: "created_ms z = Some r"
    by (auto simp: dated_def)
  show "launchOrder u x z \<le> 0"
    using le unfolding launchOrder_dated[OF st] launchOrder_dated[OF st(2) r]
      launchOrder_dated[OF st(1) r]
    by (elim disjE conjE) (simp_all add: order_trans[of "nid x" "nid y" "nid z"])
qed

lemma foldl_update_distinct:
  assumes "distinct (map f ns)"
  shows "foldl (\<lambda>m n. AList.update (f n) (v n) m) [] ns = map (\<lambda>n. (f n, v n)) ns"
proof -
  have "distinct (map f ns) \<Longrightarrow> fst ` set m \<inter> f ` set ns = {} \<Longrightarrow>
      foldl (\<lambda>m n. AList.update (f n) (v n) m) m ns = m @ map (\<lambda>n. (f n, v n)) ns" for m
  proof (induction ns arbitrary: m)
    case (Cons n ns)
    have "f n \<notin> fst ` set m" using Cons.prems by auto
    moreover have "fst ` set (m @ [(f n, v n)]) \<inter> f ` set ns = {}" using Cons.prems by auto
    ultimately show ?case using Cons.IH[of "m @ [(f n, v n)]"] Cons.prems
      by (simp add: alist_update_new)
  qed simp
  with assms show ?thesis by simp
qed

lemma map_of_distinct_ids:
  "distinct (map f ns) \<Longrightarrow> n \<in> set ns \<Longrightarrow> map_of (map (\<lambda>n. (f n, v n)) ns) (f n) = Some (v n)"
  by (rule map_of_is_SomeI) (simp_all add: comp_def)

lemma map_of_ids_None: "i \<notin> f ` set ns \<Longrightarrow> map_of (map (\<lambda>n. (f n, v n)) ns) i = None"
  by (induction ns) auto

text \<open>With distinct ids the graph depends on the set of nodes only.\<close>

lemma buildGraph_distinct:
  assumes "distinct (map nid ns)"
  shows "nodes (buildGraph ns) = map (\<lambda>n. (nid n, n)) ns"
    "get_list (inEpicBlockers (buildGraph ns)) i =
       (if i \<in> nid ` set ns
        then filter (\<lambda>b. b \<in> nid ` set ns) (blockedBy (the_elem {n \<in> set ns. nid n = i})) else [])"
    "get_list (externalBlockers (buildGraph ns)) i =
       (if i \<in> nid ` set ns
        then filter (\<lambda>b. b \<notin> nid ` set ns) (blockedBy (the_elem {n \<in> set ns. nid n = i})) else [])"
proof -
  have single: "the_elem {m \<in> set ns. nid m = nid n} = n" if "n \<in> set ns" for n
  proof -
    have "{m \<in> set ns. nid m = nid n} = {n}"
      using assms that by (auto simp: distinct_map inj_on_def)
    then show ?thesis by simp
  qed
  show "nodes (buildGraph ns) = map (\<lambda>n. (nid n, n)) ns"
    by (simp add: buildGraph_def Let_def foldl_update_distinct[OF assms])
  have keys: "fst ` (\<lambda>n. (nid n, n)) ` set ns = nid ` set ns" by force
  have get: "get_list (map (\<lambda>n. (nid n, v n)) ns) i =
      (if i \<in> nid ` set ns then v (the_elem {n \<in> set ns. nid n = i}) else [])"
    for v :: "node \<Rightarrow> string list"
    by (auto simp: get_list_def map_of_distinct_ids[OF assms] map_of_ids_None single)
  show "get_list (inEpicBlockers (buildGraph ns)) i =
       (if i \<in> nid ` set ns
        then filter (\<lambda>b. b \<in> nid ` set ns) (blockedBy (the_elem {n \<in> set ns. nid n = i})) else [])"
    "get_list (externalBlockers (buildGraph ns)) i =
       (if i \<in> nid ` set ns
        then filter (\<lambda>b. b \<notin> nid ` set ns) (blockedBy (the_elem {n \<in> set ns. nid n = i})) else [])"
    by (simp_all add: buildGraph_def Let_def foldl_update_distinct[OF assms] get keys)
qed

text \<open>The launch order is deterministic: over tickets with distinct ids and usable creation timestamps
  the ready list is sorted by the launch comparator (unlock count, priority, age, id) and does not
  depend on the order in which the tickets were inserted.\<close>

theorem readyTickets_deterministic:
  assumes perm: "set ns = set ns'" "distinct (map nid ns)" "distinct (map nid ns')"
    and dates: "\<forall>n \<in> set ns. created_ms n \<noteq> None"
  shows "readyTickets (buildGraph ns) p = readyTickets (buildGraph ns') p \<and>
    sorted_wrt (\<lambda>a b. launchOrder (transitiveDependentCounts (buildGraph ns)) a b \<le> 0)
      (readyTickets (buildGraph ns) p)"
proof -
  let ?g = "buildGraph ns" and ?g' = "buildGraph ns'"
  let ?u = "transitiveDependentCounts ?g" and ?u' = "transitiveDependentCounts ?g'"
  note bg = buildGraph_distinct[OF perm(2)] and bg' = buildGraph_distinct[OF perm(3)]
  have edges: "in_edges ?g = in_edges ?g'"
    by (simp add: in_edges_def bg bg' perm(1))
  have adm: "admissible ?g p i = admissible ?g' p i" for i
    by (simp add: admissible_def bg bg' perm(1) transitiveDependents_set edges)
  have ready_sub: "set (readyTickets (buildGraph ms) p) \<subseteq> set ms"
    if "distinct (map nid ms)" for ms
    using that by (auto simp: set_readyTickets buildGraph_distinct)
  have sets: "set (readyTickets ?g p) = set (readyTickets ?g' p)"
    by (auto simp: set_readyTickets bg bg' perm(1) adm image_iff)
  have dom: "set (readyTickets ?g p) \<subseteq> dated"
    using ready_sub[OF perm(2)] dates by (auto simp: dated_def)
  have cnt: "count_of ?u (nid n) = count_of ?u' (nid n)" if "n \<in> set ns" for n
    using that unlock_count[of "nid n" ns]
      unlock_count[of "nid n" ns'] perm(1) edges by simp
  have sorted: "sorted_wrt (\<lambda>a b. launchOrder (transitiveDependentCounts (buildGraph ms)) a b \<le> 0)
      (readyTickets (buildGraph ms) p)" if "distinct (map nid ms)" "set ms = set ns" for ms
    unfolding readyTickets_def
    by (rule launch_order.sorted_sort_by)
      (use that dates in \<open>auto simp: buildGraph_distinct dated_def\<close>)
  have sorted': "sorted_wrt (\<lambda>a b. launchOrder ?u a b \<le> 0) (readyTickets ?g' p)"
  proof (rule sorted_wrt_mono_rel[OF _ sorted[OF perm(3) perm(1)[symmetric]]])
    fix x y assume xy: "x \<in> set (readyTickets ?g' p)" "y \<in> set (readyTickets ?g' p)"
      and le: "launchOrder ?u' x y \<le> 0"
    then have "x \<in> set ns" "y \<in> set ns" using ready_sub[OF perm(3)] perm(1) by auto
    with le cnt show "launchOrder ?u x y \<le> 0" by (simp add: launchOrder_def)
  qed
  have anti: "x = y" if xy: "x \<in> set ns" "y \<in> set ns" "launchOrder ?u x y \<le> 0"
      "launchOrder ?u y x \<le> 0" for x y
  proof -
    obtain s t where "created_ms x = Some s" "created_ms y = Some t"
      using xy dates by fastforce
    then have "nid x = nid y" using xy by (auto simp: launchOrder_dated)
    with xy perm(2) show "x = y" by (auto simp: distinct_map inj_on_def)
  qed
  have "readyTickets ?g p = readyTickets ?g' p"
  proof (rule comparator.sorted_unique[where dom = "set ns"])
    show "comparator (launchOrder ?u) (set ns)"
      by (rule launch_order.restrict_dom) (use dates in \<open>auto simp: dated_def\<close>)
    show "distinct (readyTickets ?g p)" "distinct (readyTickets ?g' p)"
      using distinct_readyTickets[of ?g p] distinct_readyTickets[of ?g' p]
      by (simp_all add: distinct_map)
    show "sorted_wrt (\<lambda>a b. launchOrder ?u a b \<le> 0) (readyTickets ?g p)"
      by (rule sorted[OF perm(2) refl])
    show "sorted_wrt (\<lambda>a b. launchOrder ?u a b \<le> 0) (readyTickets ?g' p)"
      by (rule sorted')
    show "set (readyTickets ?g p) = set (readyTickets ?g' p)"
      by (rule sets)
    show "set (readyTickets ?g p) \<subseteq> set ns"
      by (rule ready_sub[OF perm(2)])
  qed (rule anti)
  with sorted[OF perm(2) refl] show ?thesis by simp
qed

definition ticket_on :: "string \<Rightarrow> string \<Rightarrow> node" where
  "ticket_on i day = \<lparr>nid = i, blockedBy = [], priority = Some 2, createdAt = Some day\<rparr>"

lemma dated_examples:
  "created_ms (ticket_on i ''2024-01-02'') = Some 1704153600000"
  "created_ms (ticket_on i ''2024-01-03'') = Some 1704240000000"
proof -
  have "date_parse ''2024-01-02'' = Some 1704153600000" by code_simp
  then show "created_ms (ticket_on i ''2024-01-02'') = Some 1704153600000"
    by (simp add: created_ms_def ticket_on_def)
  have "date_parse ''2024-01-03'' = Some 1704240000000" by code_simp
  then show "created_ms (ticket_on i ''2024-01-03'') = Some 1704240000000"
    by (simp add: created_ms_def ticket_on_def)
qed

definition no_progress :: progress_sets where
  "no_progress = \<lparr>merged_ids = [], failed_ids = [], inFlight_ids = [], cleared_ids = []\<rparr>"

theorem readyTickets_deterministic_witness:
  "readyTickets (buildGraph [ticket_on ''B'' ''2024-01-03'', ticket_on ''A'' ''2024-01-02'']) no_progress =
   readyTickets (buildGraph [ticket_on ''A'' ''2024-01-02'', ticket_on ''B'' ''2024-01-03'']) no_progress"
proof -
  let ?ns = "[ticket_on ''B'' ''2024-01-03'', ticket_on ''A'' ''2024-01-02'']"
  let ?ns' = "[ticket_on ''A'' ''2024-01-02'', ticket_on ''B'' ''2024-01-03'']"
  have "set ?ns = set ?ns'" by auto
  moreover have "distinct (map nid ?ns)" "distinct (map nid ?ns')"
    by (simp_all add: ticket_on_def)
  moreover have "\<forall>n \<in> set ?ns. created_ms n \<noteq> None"
    by (simp add: dated_examples)
  ultimately show ?thesis
    using readyTickets_deterministic[of ?ns ?ns' no_progress] by blast
qed

text \<open>
  The hypothesis on timestamps is needed: an unusable one ties with everything at the age level, and
  falling through to the id then closes a cycle, so the comparator is not transitive and the
  order of the three tickets is left to the engine.
\<close>

lemma launchOrder_cycle:
  fixes u assumes "u = ([] :: nat dict)"
  shows "launchOrder u (ticket_on ''B'' ''2024-01-02'') (ticket_on ''A'' ''2024-01-03'') < 0"
    "launchOrder u (ticket_on ''A'' ''2024-01-03'') (ticket_on ''AA'' ''soon'') < 0"
    "launchOrder u (ticket_on ''AA'' ''soon'') (ticket_on ''B'' ''2024-01-02'') < 0"
proof -
  have bad: "created_ms (ticket_on i ''soon'') = None" for i
  proof -
    have "date_parse ''soon'' = None" by code_simp
    then show ?thesis by (simp add: created_ms_def ticket_on_def)
  qed
  have sel: "nid (ticket_on i d) = i" "priority (ticket_on i d) = Some 2" for i d
    by (simp_all add: ticket_on_def)
  show "launchOrder u (ticket_on ''B'' ''2024-01-02'') (ticket_on ''A'' ''2024-01-03'') < 0"
    by (simp add: launchOrder_def byPriorityThenOldest_def byId_def dated_examples bad sel
        count_of_def assms Let_def)
  show "launchOrder u (ticket_on ''A'' ''2024-01-03'') (ticket_on ''AA'' ''soon'') < 0"
    "launchOrder u (ticket_on ''AA'' ''soon'') (ticket_on ''B'' ''2024-01-02'') < 0"
    by (simp_all add: launchOrder_def byPriorityThenOldest_def byId_def dated_examples bad sel
        count_of_def assms Let_def Cons_less_Cons less_char_def)
qed

section \<open>The merge choice\<close>

lemma nid_node_or_bare: "graph_wf g \<Longrightarrow> nid (node_or_bare g i) = i"
  by (auto simp: node_or_bare_def bare_node_def graph_wf_def split: option.splits
      dest!: map_of_SomeD)

text \<open>The serialized merge choice: the chosen id is a green whose in-set blockers are all merged, and
  among the mergeable greens with usable timestamps none is strictly more urgent or older; nothing
  is chosen only when no green is mergeable.\<close>

theorem nextToMerge_correct:
  "case nextToMerge greens (buildGraph ns) merged of
     None \<Rightarrow> \<forall>i \<in> set greens.
       \<not> set (get_list (inEpicBlockers (buildGraph ns)) i) \<subseteq> set merged
   | Some i \<Rightarrow> i \<in> set greens \<and>
       set (get_list (inEpicBlockers (buildGraph ns)) i) \<subseteq> set merged \<and>
       ((\<forall>j \<in> set greens. node_or_bare (buildGraph ns) j \<in> dated) \<longrightarrow>
        (\<forall>j \<in> set greens. set (get_list (inEpicBlockers (buildGraph ns)) j) \<subseteq> set merged \<longrightarrow>
           byPriorityThenOldest (node_or_bare (buildGraph ns) i) (node_or_bare (buildGraph ns) j)
             \<le> 0))"
proof -
  let ?g = "buildGraph ns" and ?node = "node_or_bare (buildGraph ns)"
  let ?cand = "filter (mergeable ?g merged) (map ?node greens)"
  have ids: "nid (?node i) = i" for i by (rule nid_node_or_bare) simp
  have mem: "mergeable ?g merged (?node j) \<longleftrightarrow>
      set (get_list (inEpicBlockers ?g) j) \<subseteq> set merged" for j
    by (auto simp: mergeable_def ids list_all_iff)
  show ?thesis
  proof (cases "?cand = []")
    case True
    then have "\<forall>j \<in> set greens. \<not> mergeable ?g merged (?node j)"
      by (auto simp: filter_empty_conv)
    with True mem show ?thesis by (simp add: nextToMerge_def)
  next
    case False
    let ?h = "hd (sort_by byPriorityThenOldest ?cand)"
    have "?h \<in> set ?cand"
      using False by (metis hd_in_set set_sort_by sort_by_eq_Nil)
    then obtain i where i: "?h = ?node i" "i \<in> set greens" "mergeable ?g merged (?node i)"
      by auto
    have best: "byPriorityThenOldest (?node i) (?node j) \<le> 0"
      if dated: "\<forall>j \<in> set greens. ?node j \<in> dated" and j: "j \<in> set greens"
        and m: "mergeable ?g merged (?node j)" for j
    proof -
      have "set ?cand \<subseteq> dated" "?node j \<in> set ?cand" using dated j m by auto
      from merge_order.head_minimal[OF this(1) False this(2)] show ?thesis
        by (simp only: i(1))
    qed
    from False have "nextToMerge greens ?g merged = Some i"
      by (simp only: nextToMerge_def Let_def if_False i(1) ids)
    with i best mem show ?thesis by simp
  qed
qed

theorem nextToMerge_witness:
  "nextToMerge [''B'', ''A'']
     (buildGraph [ticket_on ''B'' ''2024-01-03'', ticket_on ''A'' ''2024-01-02'']) [] = Some ''A'' \<and>
   byPriorityThenOldest
     (node_or_bare (buildGraph [ticket_on ''B'' ''2024-01-03'', ticket_on ''A'' ''2024-01-02'']) ''A'')
     (node_or_bare (buildGraph [ticket_on ''B'' ''2024-01-03'', ticket_on ''A'' ''2024-01-02'']) ''B'')
     \<le> 0"
proof -
  let ?ns = "[ticket_on ''B'' ''2024-01-03'', ticket_on ''A'' ''2024-01-02'']"
  have sel: "nid (ticket_on i d) = i" "priority (ticket_on i d) = Some 2"
    "blockedBy (ticket_on i d) = []" for i d
    by (simp_all add: ticket_on_def)
  have g: "nodes (buildGraph ?ns) = [(''B'', ?ns ! 0), (''A'', ?ns ! 1)]"
    "inEpicBlockers (buildGraph ?ns) = [(''B'', []), (''A'', [])]"
    by (simp_all add: buildGraph_def Let_def sel)
  have n: "node_or_bare (buildGraph ?ns) ''A'' = ticket_on ''A'' ''2024-01-02''"
    "node_or_bare (buildGraph ?ns) ''B'' = ticket_on ''B'' ''2024-01-03''"
    by (simp_all add: node_or_bare_def g)
  have b: "get_list (inEpicBlockers (buildGraph ?ns)) i = []" for i
    by (simp add: g get_list_def)
  have v: "nextToMerge [''B'', ''A''] (buildGraph ?ns) [] = Some ''A''"
    by (simp add: nextToMerge_def n mergeable_def b byPriorityThenOldest_def dated_examples sel
        Let_def)
  have d: "\<forall>j \<in> set [''B'', ''A'']. node_or_bare (buildGraph ?ns) j \<in> dated"
    by (simp add: n dated_def dated_examples)
  have "set (get_list (inEpicBlockers (buildGraph ?ns)) ''B'') \<subseteq> set []"
    by (simp add: b)
  with nextToMerge_correct[of "[''B'', ''A'']" ?ns "[]"] v d
  have "byPriorityThenOldest (node_or_bare (buildGraph ?ns) ''A'')
      (node_or_bare (buildGraph ?ns) ''B'') \<le> 0"
    unfolding v option.case by (meson list.set_intros)
  with v show ?thesis by (rule conjI)
qed

text \<open>The merge-time re-check leaves exactly the external blockers nothing has cleared.\<close>

lemma mergeBlockedExternalBlockers_set:
  "set (mergeBlockedExternalBlockers i g cfm cb) =
     set (get_list (externalBlockers g) i) - set cfm - set cb"
  by (auto simp: mergeBlockedExternalBlockers_def)

end
