(* ===== verification/PrCheckState.thy ===== *)
theory PrCheckState
  imports JsBase
begin

text \<open>
  The verdict on a pull request's checks, \<open>skills-toolbox/pr-check-state.mjs\<close>, with the
  required-check rules of \<open>skills-toolbox/ci/required-checks.mjs\<close>. Payloads are raw JavaScript
  values, normalised as the code normalises them; an \<open>entry\<close> is one reading of a named check,
  with \<open>ekind = None\<close> before classification. The verdict is a record here and, for the callers
  that read it back as plain data, the object \<open>verdict_obj\<close>.
\<close>

section \<open>Vocabulary\<close>

datatype check_state = GREEN | FAILING | PENDING | UNKNOWN

datatype check_reason =
    R_OK | R_NO_GATE_RAN | R_FAILED | R_PENDING | R_NO_CHECKS | R_UNCLASSIFIED | R_UNREADABLE
  | R_STALE_SHA | R_NOT_REQUESTED | R_ABSENT_GATE | R_ADVISORY_UNSETTLED

fun CHECK_STATES :: "check_state \<Rightarrow> string" where
  "CHECK_STATES GREEN = ''green''"
| "CHECK_STATES FAILING = ''failing''"
| "CHECK_STATES PENDING = ''pending''"
| "CHECK_STATES UNKNOWN = ''unknown''"

fun CHECK_REASONS :: "check_reason \<Rightarrow> string" where
  "CHECK_REASONS R_OK = ''ok''"
| "CHECK_REASONS R_NO_GATE_RAN = ''no-gate-ran''"
| "CHECK_REASONS R_FAILED = ''failed''"
| "CHECK_REASONS R_PENDING = ''pending''"
| "CHECK_REASONS R_NO_CHECKS = ''no-checks''"
| "CHECK_REASONS R_UNCLASSIFIED = ''unclassified''"
| "CHECK_REASONS R_UNREADABLE = ''unreadable''"
| "CHECK_REASONS R_STALE_SHA = ''stale-sha''"
| "CHECK_REASONS R_NOT_REQUESTED = ''not-requested''"
| "CHECK_REASONS R_ABSENT_GATE = ''absent-gate''"
| "CHECK_REASONS R_ADVISORY_UNSETTLED = ''advisory-unsettled''"

text \<open>
  Per-entry classifications. Their order is the \<open>SEVERITY\<close> array of the source, most severe first:
  the smaller one wins a merge.
\<close>

datatype kind = Failed | Pending | Passed | Skipped | Unclassified

fun severity :: "kind \<Rightarrow> nat" where
  "severity Failed = 0"
| "severity Pending = 1"
| "severity Passed = 2"
| "severity Skipped = 3"
| "severity Unclassified = 4"

lemma severity_inj: "severity a = severity b \<Longrightarrow> a = b"
  by (cases a; cases b) auto

instantiation kind :: linorder
begin

definition less_eq_kind :: "kind \<Rightarrow> kind \<Rightarrow> bool" where
  "less_eq_kind a b \<longleftrightarrow> severity a \<le> severity b"

definition less_kind :: "kind \<Rightarrow> kind \<Rightarrow> bool" where
  "less_kind a b \<longleftrightarrow> severity a < severity b"

instance
  by intro_classes (auto simp: less_eq_kind_def less_kind_def dest: severity_inj)

end

fun kind_of_string :: "string \<Rightarrow> kind" where
  "kind_of_string s =
     (if s = ''failed'' then Failed else if s = ''pending'' then Pending
      else if s = ''passed'' then Passed else if s = ''skipped'' then Skipped else Unclassified)"

definition PENDING_STATUSES :: "string list" where
  "PENDING_STATUSES = [''QUEUED'', ''IN_PROGRESS'', ''PENDING'', ''WAITING'', ''REQUESTED'',
     ''EXPECTED'', ''STARTED'']"

definition FAILED_CONCLUSIONS :: "string list" where
  "FAILED_CONCLUSIONS = [''FAILURE'', ''ERROR'', ''CANCELLED'', ''TIMED_OUT'', ''ACTION_REQUIRED'',
     ''STARTUP_FAILURE'']"

definition SKIPPED_CONCLUSIONS :: "string list" where
  "SKIPPED_CONCLUSIONS = [''NEUTRAL'', ''SKIPPED'', ''STALE'']"

definition SUCCESS_CONCLUSIONS :: "string list" where
  "SUCCESS_CONCLUSIONS = [''SUCCESS'']"

definition PROVENANCE_CONTEXTS :: "string list" where
  "PROVENANCE_CONTEXTS = [''boss/build'']"

section \<open>Entries\<close>

record entry =
  ename :: string
  ekind :: "kind option"
  estatus :: jsval
  econclusion :: jsval
  ebucket :: jsval
  eworkflow :: string
  eworkflowId :: string

definition partitionProvenance :: "entry list \<Rightarrow> entry list \<times> string list" where
  "partitionProvenance es =
     (filter (\<lambda>e. ename e \<notin> set PROVENANCE_CONTEXTS) es,
      sort (uniq (map ename (filter (\<lambda>e. ename e \<in> set PROVENANCE_CONTEXTS) es))))"

definition upper :: "jsval \<Rightarrow> string" where
  "upper v = (case v of JStr s \<Rightarrow> to_upper (trim s) | _ \<Rightarrow> [])"

text \<open>The first of the listed keys that holds a non-blank string, trimmed.\<close>

fun first_string :: "jsval \<Rightarrow> string list \<Rightarrow> string" where
  "first_string node [] = []"
| "first_string node (k # ks) =
     (if is_nonempty_string (prop_of node k) then trim (string_or_empty (prop_of node k))
      else first_string node ks)"

definition nameOf :: "jsval \<Rightarrow> string" where
  "nameOf node = first_string node [''name'', ''context'', ''workflowName'']"

definition classifyEntry :: "entry \<Rightarrow> kind" where
  "classifyEntry e =
     (let st = upper (estatus e); cc = upper (econclusion e); bk = upper (ebucket e) in
      if cc \<in> set FAILED_CONCLUSIONS then Failed
      else if bk = ''FAIL'' \<or> bk = ''CANCEL'' then Failed
      else if st \<noteq> [] \<and> st \<in> set PENDING_STATUSES then Pending
      else if cc \<noteq> [] \<and> cc \<in> set PENDING_STATUSES then Pending
      else if bk = ''PENDING'' then Pending
      else if cc \<in> set SUCCESS_CONCLUSIONS then Passed
      else if bk = ''PASS'' then Passed
      else if cc \<in> set SKIPPED_CONCLUSIONS then Skipped
      else if bk = ''SKIPPING'' then Skipped
      else Unclassified)"

definition ENVELOPE_KEYS :: "string list" where
  "ENVELOPE_KEYS = [''statusCheckRollup'', ''checks'', ''check_runs'', ''workflow_runs'']"

fun first_array :: "jsval \<Rightarrow> string list \<Rightarrow> jsval list option" where
  "first_array v [] = None"
| "first_array v (k # ks) =
     (case prop_of v k of JArr xs \<Rightarrow> Some xs | _ \<Rightarrow> first_array v ks)"

definition envelopeArray :: "jsval \<Rightarrow> jsval list option" where
  "envelopeArray v = (if is_plain_object v then first_array v ENVELOPE_KEYS else None)"

definition asArray :: "jsval \<Rightarrow> jsval list" where
  "asArray payload =
     (case payload of
        JArr xs \<Rightarrow>
          if list_ex (\<lambda>page. envelopeArray page \<noteq> None) xs
          then concat (map (\<lambda>page. case envelopeArray page of Some ys \<Rightarrow> ys | None \<Rightarrow> []) xs)
          else xs
      | _ \<Rightarrow> (case envelopeArray payload of Some ys \<Rightarrow> ys | None \<Rightarrow> []))"

definition workflowOf :: "jsval \<Rightarrow> string" where
  "workflowOf node = first_string node [''workflowName'', ''workflow'']"

fun first_id :: "jsval \<Rightarrow> string list \<Rightarrow> string" where
  "first_id node [] = []"
| "first_id node (k # ks) =
     (case prop_of node k of
        JNum (Fin i) \<Rightarrow> show_int i
      | JStr s \<Rightarrow> if trim s \<noteq> [] then trim s else first_id node ks
      | _ \<Rightarrow> first_id node ks)"

definition workflowIdOf :: "jsval \<Rightarrow> string" where
  "workflowIdOf node = first_id node [''workflowId'', ''workflow_id'', ''workflowDatabaseId'']"

definition raw_entry :: "jsval \<Rightarrow> jsval \<Rightarrow> entry" where
  "raw_entry node conclusion =
     \<lparr> ename = nameOf node, ekind = None,
       estatus = coalesce (prop_of node ''status'') (JStr []),
       econclusion = coalesce conclusion (JStr []),
       ebucket = coalesce (prop_of node ''bucket'') (JStr []),
       eworkflow = workflowOf node, eworkflowId = workflowIdOf node \<rparr>"

definition normalizeRollup :: "jsval \<Rightarrow> entry list" where
  "normalizeRollup payload =
     filter (\<lambda>e. ename e \<noteq> [])
       (map (\<lambda>n. raw_entry n (coalesce (prop_of n ''conclusion'') (prop_of n ''state'')))
         (asArray payload))"

definition normalizeBuckets :: "jsval \<Rightarrow> entry list" where
  "normalizeBuckets payload =
     filter (\<lambda>e. ename e \<noteq> [])
       (map (\<lambda>n. raw_entry n (coalesce (prop_of n ''state'') (prop_of n ''conclusion'')))
         (asArray payload))"

definition normalizeCheckRuns :: "jsval \<Rightarrow> entry list" where
  "normalizeCheckRuns payload =
     filter (\<lambda>e. ename e \<noteq> [])
       (map (\<lambda>n. raw_entry n (coalesce (prop_of n ''conclusion'') (prop_of n ''state'')))
         (asArray payload))"

section \<open>Workflow runs\<close>

record workflow_run =
  wname :: string
  wworkflow :: string
  wworkflowId :: string
  wstatus :: string
  wconclusion :: string
  wheadSha :: string

record workflow_runs =
  known :: bool
  truncated :: bool
  runs :: "workflow_run list"

definition WORKFLOW_RUNS_LIMIT :: nat where
  "WORKFLOW_RUNS_LIMIT = 100"

definition sameWorkflow :: "entry \<Rightarrow> workflow_run \<Rightarrow> bool" where
  "sameWorkflow reading run =
     (if eworkflowId reading \<noteq> [] \<and> wworkflowId run \<noteq> []
      then eworkflowId reading = wworkflowId run
      else eworkflow reading \<noteq> [] \<and>
           (eworkflow reading = wworkflow run \<or> eworkflow reading = wname run))"

definition run_of_node :: "jsval \<Rightarrow> workflow_run" where
  "run_of_node node =
     (let nm = trim (string_or_empty (prop_of node ''name'')); wf = workflowOf node in
      \<lparr> wname = nm, wworkflow = (if wf \<noteq> [] then wf else nm), wworkflowId = workflowIdOf node,
        wstatus = upper (prop_of node ''status''), wconclusion = upper (prop_of node ''conclusion''),
        wheadSha = trim (js_string (coalesce (coalesce (prop_of node ''headSha'')
          (prop_of node ''head_sha'')) (JStr []))) \<rparr>)"

definition finite_totals :: "jsval list \<Rightarrow> int list" where
  "finite_totals pages =
     concat (map (\<lambda>page. case js_number (prop_of page ''total_count'') of Fin i \<Rightarrow> [i] | _ \<Rightarrow> []) pages)"

definition runs_truncated :: "jsval \<Rightarrow> nat \<Rightarrow> bool" where
  "runs_truncated payload n =
     (case payload of
        JArr xs \<Rightarrow>
          (if xs = [] \<or> envelopeArray (hd xs) = None then WORKFLOW_RUNS_LIMIT \<le> n
           else list_ex (\<lambda>t. int n < t) (finite_totals xs))
      | _ \<Rightarrow> list_ex (\<lambda>t. int n < t) (finite_totals [payload]))"

definition normalizeWorkflowRuns :: "jsval \<Rightarrow> jsval \<Rightarrow> workflow_runs" where
  "normalizeWorkflowRuns payload headSHA =
     (if nullish payload then \<lparr> known = False, truncated = False, runs = [] \<rparr>
      else let nodes = asArray payload in
        \<lparr> known = True, truncated = runs_truncated payload (length nodes),
          runs = filter (\<lambda>r. headSHA = JStr [] \<or> wheadSha r = [] \<or> JStr (wheadSha r) = headSHA)
            (filter (\<lambda>r. wworkflow r \<noteq> []) (map run_of_node (filter is_object nodes))) \<rparr>)"

section \<open>Merging readings\<close>

definition merged_entry :: "kind \<Rightarrow> entry \<Rightarrow> entry option \<Rightarrow> entry" where
  "merged_entry k e prior =
     (let ref = (if eworkflow e \<noteq> [] then Some e else prior) in
      \<lparr> ename = ename e, ekind = Some k, estatus = JUndef,
        econclusion = coalesce (econclusion e) (JStr []), ebucket = coalesce (ebucket e) (JStr []),
        eworkflow = (case ref of Some r \<Rightarrow> eworkflow r | None \<Rightarrow> []),
        eworkflowId = (case ref of Some r \<Rightarrow> eworkflowId r | None \<Rightarrow> []) \<rparr>)"

definition merge_step :: "entry dict \<Rightarrow> entry \<Rightarrow> entry dict" where
  "merge_step merged e =
     (let k = classifyEntry e in
      case map_of merged (ename e) of
        None \<Rightarrow> AList.update (ename e) (merged_entry k e None) merged
      | Some prior \<Rightarrow>
          if k < the (ekind prior)
          then AList.update (ename e) (merged_entry k e (Some prior)) merged
          else if eworkflow prior = [] \<and> eworkflow e \<noteq> []
          then AList.update (ename e)
                 (prior\<lparr>eworkflow := eworkflow e, eworkflowId := eworkflowId e\<rparr>) merged
          else merged)"

definition mergeEntries :: "entry list \<Rightarrow> entry dict" where
  "mergeEntries sources = foldl merge_step [] sources"

definition all_strings :: "jsval list \<Rightarrow> bool" where
  "all_strings xs = list_all is_string xs"

definition trimmed_names :: "jsval list \<Rightarrow> string list" where
  "trimmed_names xs = filter (\<lambda>s. s \<noteq> []) (map (\<lambda>v. trim (string_or_empty v)) xs)"

definition all_readings :: "jsval \<Rightarrow> entry list" where
  "all_readings payload =
     normalizeRollup payload @ normalizeCheckRuns payload @ normalizeBuckets payload"

definition contextNames :: "jsval \<Rightarrow> string list" where
  "contextNames payload =
     (if nullish payload then []
      else case payload of
        JArr xs \<Rightarrow> if all_strings xs then trimmed_names xs else uniq (map ename (all_readings payload))
      | _ \<Rightarrow> uniq (map ename (all_readings payload)))"

text \<open>
  One side of the two-SHA comparison: a raw payload, or entries this module merged already. A raw
  array whose every element carries a \<open>kind\<close> key is an entry list the caller kept from before.
\<close>

datatype side = Payload jsval | Merged "entry list"

definition bare_name_entry :: "string \<Rightarrow> entry" where
  "bare_name_entry nm =
     \<lparr> ename = nm, ekind = Some Unclassified, estatus = JUndef, econclusion = JUndef,
       ebucket = JUndef, eworkflow = [], eworkflowId = [] \<rparr>"

definition kept_entry :: "jsval \<Rightarrow> entry" where
  "kept_entry v =
     \<lparr> ename = string_or_empty (prop_of v ''name''),
       ekind = Some (kind_of_string (string_or_empty (prop_of v ''kind''))),
       estatus = prop_of v ''status'', econclusion = prop_of v ''conclusion'',
       ebucket = prop_of v ''bucket'', eworkflow = string_or_empty (prop_of v ''workflow''),
       eworkflowId = string_or_empty (prop_of v ''workflowId'') \<rparr>"

fun sideReadings :: "side \<Rightarrow> entry list" where
  "sideReadings (Merged es) = es"
| "sideReadings (Payload v) =
     (case v of
        JArr xs \<Rightarrow>
          if all_strings xs then map bare_name_entry (trimmed_names xs)
          else if list_all (\<lambda>x. is_object x \<and> has_key x ''kind'') xs then map kept_entry xs
          else all_readings v
      | _ \<Rightarrow> all_readings v)"

definition normalizeDiffSide :: "side \<Rightarrow> entry list" where
  "normalizeDiffSide s =
     (let readings = sideReadings s in
      if list_all (\<lambda>r. ekind r \<noteq> None) readings then readings
      else map snd (mergeEntries readings))"

section \<open>The two-SHA comparison\<close>

definition SUPERSEDING_RUN_CONCLUSIONS :: "string list" where
  "SUPERSEDING_RUN_CONCLUSIONS = [''SUCCESS'', ''NEUTRAL'']"

definition didNotRun :: "entry \<Rightarrow> bool" where
  "didNotRun e =
     (let cc = to_upper (js_string (coalesce (econclusion e) (JStr []))) in
      if cc = ''SKIPPED'' then True
      else if cc \<noteq> [] then False
      else to_upper (js_string (coalesce (ebucket e) (JStr []))) = ''SKIPPING'')"

definition reportedOnPriorHead :: "entry option \<Rightarrow> bool" where
  "reportedOnPriorHead eo =
     (case eo of None \<Rightarrow> False
      | Some e \<Rightarrow> upper (econclusion e) = ''SUCCESS'' \<or> upper (econclusion e) = ''NEUTRAL'')"

record check_diff =
  d_ran :: "string list"
  d_pending :: "string list"
  d_absent :: "string list"
  d_priorKnown :: bool

definition diffCheckSets :: "side \<Rightarrow> side option \<Rightarrow> check_diff" where
  "diffCheckSets head prior =
     (let headEntries = normalizeDiffSide head;
          priorEntries = (case prior of None \<Rightarrow> [] | Some s \<Rightarrow> normalizeDiffSide s);
          headNames = map ename headEntries
      in \<lparr> d_ran = sort (uniq (map ename (filter (\<lambda>e. ekind e \<noteq> Some Pending) headEntries))),
           d_pending = sort (uniq (map ename (filter (\<lambda>e. ekind e = Some Pending) headEntries))),
           d_absent = sort (uniq (filter (\<lambda>nm. nm \<notin> set headNames)
             (map ename (filter (\<lambda>e. \<not> didNotRun e) priorEntries)))),
           d_priorKnown = (prior \<noteq> None) \<rparr>)"


section \<open>Required checks\<close>

datatype required_error =
    Required_not_object jsval
  | Required_unknown_property string
  | Required_not_array string jsval
  | Required_bad_entry string jsval

definition NOT_RUN_CONCLUSIONS :: "string list" where
  "NOT_RUN_CONCLUSIONS = [''SKIPPED'', ''NEUTRAL'']"

definition nameList :: "jsval \<Rightarrow> string \<Rightarrow> required_error + string list" where
  "nameList value field =
     (case value of
        JUndef \<Rightarrow> Inr []
      | JArr xs \<Rightarrow>
          (case find (\<lambda>x. \<not> is_nonempty_string x) xs of
             Some bad \<Rightarrow> Inl (Required_bad_entry field bad)
           | None \<Rightarrow> Inr (map (\<lambda>x. trim (string_or_empty x)) xs))
      | _ \<Rightarrow> Inl (Required_not_array field value))"

definition parseRequiredChecks :: "jsval \<Rightarrow> required_error + (string list \<times> string list)" where
  "parseRequiredChecks block =
     (if nullish block then Inr ([], [])
      else if \<not> is_plain_object block then Inl (Required_not_object block)
      else case find (\<lambda>k. k \<noteq> ''checks'' \<and> k \<noteq> ''exemptBases'') (map fst (entries_of block)) of
          Some k \<Rightarrow> Inl (Required_unknown_property k)
        | None \<Rightarrow>
            (case nameList (prop_of block ''checks'') ''checks'' of
               Inl e \<Rightarrow> Inl e
             | Inr cs \<Rightarrow>
                 (case nameList (prop_of block ''exemptBases'') ''exemptBases'' of
                    Inl e \<Rightarrow> Inl e
                  | Inr bs \<Rightarrow> Inr (cs, bs))))"

definition requiredChecksFor :: "jsval \<Rightarrow> jsval \<Rightarrow> required_error + string list" where
  "requiredChecksFor block baseRef =
     (case parseRequiredChecks block of
        Inl e \<Rightarrow> Inl e
      | Inr (checks, exemptBases) \<Rightarrow>
          if checks = [] then Inr []
          else let raw = string_or_empty baseRef;
                   base = (if starts_with raw ''refs/heads/'' then drop 11 raw else raw)
               in if base \<in> set exemptBases then Inr [] else Inr checks)"

definition entryRan :: "entry \<Rightarrow> bool" where
  "entryRan e =
     (if ekind e \<noteq> Some Skipped then True
      else let conclusion = to_upper (trim (js_string (coalesce (econclusion e) (JStr [])))) in
           if conclusion = [] then False else conclusion \<notin> set NOT_RUN_CONCLUSIONS)"

definition notRequestedChecks :: "entry list \<Rightarrow> jsval \<Rightarrow> jsval list" where
  "notRequestedChecks entries required =
     (case required of
        JArr xs \<Rightarrow>
          filter (\<lambda>v. v \<notin> JStr ` set (map ename (filter entryRan entries))) (uniq xs)
      | _ \<Rightarrow> [])"

section \<open>The verdict\<close>

datatype option_error = Not_an_options_object string jsval | No_known_key string jsval

text \<open>\<open>assertOptions\<close>: \<open>undefined\<close> is the all-defaults call; anything else is an object with a known key.\<close>

definition assertOptions :: "jsval \<Rightarrow> string \<Rightarrow> string list \<Rightarrow> option_error option" where
  "assertOptions v fn expectedKeys =
     (if v = JUndef then None
      else if \<not> is_plain_object v then Some (Not_an_options_object fn v)
      else if \<not> list_ex (has_key v) expectedKeys then Some (No_known_key fn v)
      else None)"

definition CLASSIFY_CHECKS_KEYS :: "string list" where
  "CLASSIFY_CHECKS_KEYS = [''headSHA'', ''observedSHA'', ''rollup'', ''buckets'', ''checkRuns'',
     ''priorContexts'', ''readError'', ''acceptNoGateRan'', ''structurallyAbsentContexts'',
     ''workflowRuns'', ''requiredChecks'']"

definition MERGE_STATE_KEYS :: "string list" where
  "MERGE_STATE_KEYS = [''mergeState'', ''mergeStateStatus'', ''checkVerdict'',
     ''unresolvedThreads'', ''readiedThisRun'']"

record verdict =
  v_state :: check_state
  v_reason :: check_reason
  v_headSHA :: jsval
  v_observedSHA :: jsval
  v_total :: nat
  v_passed :: nat
  v_failed :: nat
  v_pending :: nat
  v_skipped :: nat
  v_unclassified :: nat
  v_absent :: "string list"
  v_blockingAbsent :: "string list"
  v_notRequested :: "jsval list"
  v_structurallyAbsent :: "string list"
  v_notTriggered :: "string list"
  v_superseded :: "string list"
  v_reportedOnPrior :: "string list"
  v_priorKnown :: bool
  v_workflowRunsKnown :: bool
  v_pendingRuns :: "string list"
  v_provenance :: "string list"

definition count_kind :: "kind \<Rightarrow> entry list \<Rightarrow> nat" where
  "count_kind k es = length (filter (\<lambda>e. ekind e = Some k) es)"

definition readings_named :: "string \<Rightarrow> entry list \<Rightarrow> entry list" where
  "readings_named nm rs = filter (\<lambda>r. ename r = nm) rs"

text \<open>The facts the aggregate switch reads, in the order the source computes them.\<close>

record check_facts =
  f_head :: "entry list"
  f_prior :: "entry list option"
  f_provenance :: "string list"
  f_diff :: check_diff
  f_runs :: workflow_runs
  f_runsKnown :: bool
  f_pendingRuns :: "string list"
  f_notTriggered :: "string list"
  f_superseded :: "string list"
  f_structurallyAbsent :: "string list"
  f_ciStarted :: bool
  f_missingRequired :: "jsval list"
  f_blockingAbsent :: "string list"

definition declared_structural :: "jsval \<Rightarrow> string list" where
  "declared_structural v = trimmed_names (filter is_string (array_or_empty v))"

definition not_triggered ::
  "bool \<Rightarrow> workflow_run list \<Rightarrow> entry list \<Rightarrow> string list \<Rightarrow> string list" where
  "not_triggered decidable rs readings absent =
     (if decidable \<and> rs \<noteq> []
      then filter (\<lambda>nm. let placed = filter (\<lambda>r. eworkflow r \<noteq> []) (readings_named nm readings) in
             placed \<noteq> [] \<and> list_all (\<lambda>reading. \<not> list_ex (sameWorkflow reading) rs) placed) absent
      else [])"

definition superseded_names ::
  "bool \<Rightarrow> workflow_run list \<Rightarrow> entry list \<Rightarrow> string list \<Rightarrow> string list" where
  "superseded_names decidable rs readings absent =
     (let finishedRuns = filter (\<lambda>r. wconclusion r \<in> set SUPERSEDING_RUN_CONCLUSIONS) rs in
      if decidable
      then filter (\<lambda>nm. let rds = readings_named nm readings in
             rds \<noteq> [] \<and> list_all (\<lambda>reading. upper (econclusion reading) = ''CANCELLED'' \<and>
               list_ex (sameWorkflow reading) finishedRuns) rds) absent
      else [])"

definition head_partition :: "jsval \<Rightarrow> entry list \<times> string list" where
  "head_partition opts = partitionProvenance (map snd (mergeEntries
     (normalizeRollup (opt_default opts ''rollup'' JNull) @
      normalizeCheckRuns (opt_default opts ''checkRuns'' JNull) @
      normalizeBuckets (opt_default opts ''buckets'' JNull))))"

definition prior_partition :: "jsval \<Rightarrow> (entry list \<times> string list) option" where
  "prior_partition opts =
     (let priorContexts = opt_default opts ''priorContexts'' JNull in
      if nullish priorContexts then None
      else Some (partitionProvenance (normalizeDiffSide (Payload priorContexts))))"

definition priorSide_of :: "jsval \<Rightarrow> entry list option" where
  "priorSide_of opts = map_option fst (prior_partition opts)"

definition head_diff :: "jsval \<Rightarrow> check_diff" where
  "head_diff opts =
     diffCheckSets (Merged (fst (head_partition opts))) (map_option Merged (priorSide_of opts))"

definition head_runs :: "jsval \<Rightarrow> workflow_runs" where
  "head_runs opts =
     (let headSHA = opt_default opts ''headSHA'' (JStr []);
          observedSHA = opt_default opts ''observedSHA'' (JStr [])
      in normalizeWorkflowRuns (opt_default opts ''workflowRuns'' JNull)
           (if truthy headSHA then headSHA else observedSHA))"

definition runs_known :: "jsval \<Rightarrow> bool" where
  "runs_known opts = (known (head_runs opts) \<and> \<not> truncated (head_runs opts))"

definition pending_runs :: "jsval \<Rightarrow> string list" where
  "pending_runs opts =
     (if runs_known opts
      then sort (uniq (map wworkflow
             (filter (\<lambda>r. wstatus r \<noteq> ''COMPLETED'') (runs (head_runs opts)))))
      else [])"

definition prior_readings :: "jsval \<Rightarrow> entry list" where
  "prior_readings opts =
     (case priorSide_of opts of None \<Rightarrow> []
      | Some _ \<Rightarrow> sideReadings (Payload (opt_default opts ''priorContexts'' JNull)))"

definition missing_required :: "jsval \<Rightarrow> jsval list" where
  "missing_required opts =
     notRequestedChecks (fst (head_partition opts)) (opt_default opts ''requiredChecks'' (JArr []))"

definition check_facts_of :: "jsval \<Rightarrow> check_facts" where
  "check_facts_of opts =
     (let absent = d_absent (head_diff opts);
          decidable = (runs_known opts \<and> pending_runs opts = []);
          rs = runs (head_runs opts);
          notTriggered = not_triggered decidable rs (prior_readings opts) absent;
          superseded = superseded_names decidable rs (prior_readings opts) absent;
          declared = declared_structural (opt_default opts ''structurallyAbsentContexts'' (JArr []));
          structurallyAbsent = filter (\<lambda>nm. nm \<in> set declared) absent;
          discounted = structurallyAbsent @ notTriggered @ superseded
      in \<lparr> f_head = fst (head_partition opts), f_prior = priorSide_of opts,
           f_provenance = sort (uniq (snd (head_partition opts) @
             (case prior_partition opts of None \<Rightarrow> [] | Some p \<Rightarrow> snd p))),
           f_diff = head_diff opts, f_runs = head_runs opts, f_runsKnown = runs_known opts,
           f_pendingRuns = pending_runs opts,
           f_notTriggered = notTriggered, f_superseded = superseded,
           f_structurallyAbsent = structurallyAbsent,
           f_ciStarted = (\<not> known (head_runs opts) \<or> rs \<noteq> []),
           f_missingRequired = missing_required opts,
           f_blockingAbsent =
             filter (\<lambda>nm. nm \<notin> set discounted \<and> JStr nm \<notin> set (missing_required opts)) absent \<rparr>)"

definition decide :: "jsval \<Rightarrow> check_facts \<Rightarrow> check_state \<times> check_reason" where
  "decide opts f =
     (let headSHA = opt_default opts ''headSHA'' (JStr []);
          observedSHA = opt_default opts ''observedSHA'' (JStr []);
          head = f_head f
      in
      if \<not> nullish (opt_default opts ''readError'' JNull) then (UNKNOWN, R_UNREADABLE)
      else if headSHA \<noteq> JStr [] \<and> observedSHA \<noteq> JStr [] \<and> headSHA \<noteq> observedSHA
        then (UNKNOWN, R_STALE_SHA)
      else if 0 < count_kind Failed head then (FAILING, R_FAILED)
      else if 0 < count_kind Unclassified head then (UNKNOWN, R_UNCLASSIFIED)
      else if known (f_runs f) \<and> truncated (f_runs f) then (UNKNOWN, R_UNREADABLE)
      else if f_pendingRuns f \<noteq> [] then (PENDING, R_PENDING)
      else if f_missingRequired f \<noteq> []
        then (if f_ciStarted f then (UNKNOWN, R_NOT_REQUESTED) else (PENDING, R_PENDING))
      else if f_blockingAbsent f \<noteq> [] then (PENDING, R_ABSENT_GATE)
      else if 0 < count_kind Pending head then (PENDING, R_PENDING)
      else if head = [] then (UNKNOWN, R_NO_CHECKS)
      else if count_kind Passed head = 0
        then (if truthy (opt_default opts ''acceptNoGateRan'' (JBool False)) then GREEN else UNKNOWN,
              R_NO_GATE_RAN)
      else (GREEN, R_OK))"

definition classifyChecks :: "jsval \<Rightarrow> option_error + verdict" where
  "classifyChecks options =
     (case assertOptions options ''classifyChecks'' CLASSIFY_CHECKS_KEYS of
        Some e \<Rightarrow> Inl e
      | None \<Rightarrow>
          let f = check_facts_of options; (st, rs) = decide options f in
          Inr \<lparr> v_state = st, v_reason = rs,
                v_headSHA = opt_default options ''headSHA'' (JStr []),
                v_observedSHA = opt_default options ''observedSHA'' (JStr []),
                v_total = length (f_head f),
                v_passed = count_kind Passed (f_head f), v_failed = count_kind Failed (f_head f),
                v_pending = count_kind Pending (f_head f), v_skipped = count_kind Skipped (f_head f),
                v_unclassified = count_kind Unclassified (f_head f),
                v_absent = d_absent (f_diff f), v_blockingAbsent = f_blockingAbsent f,
                v_notRequested = (if f_ciStarted f then f_missingRequired f else []),
                v_structurallyAbsent = f_structurallyAbsent f, v_notTriggered = f_notTriggered f,
                v_superseded = f_superseded f,
                v_reportedOnPrior = filter (\<lambda>nm. reportedOnPriorHead
                    (map_of (map (\<lambda>e. (ename e, e))
                      (rev (case f_prior f of None \<Rightarrow> [] | Some es \<Rightarrow> es))) nm))
                  (d_absent (f_diff f)),
                v_priorKnown = d_priorKnown (f_diff f), v_workflowRunsKnown = f_runsKnown f,
                v_pendingRuns = f_pendingRuns f, v_provenance = f_provenance f \<rparr>)"

text \<open>The verdict as the plain object every other module reads.\<close>

definition jstrs :: "string list \<Rightarrow> jsval" where
  "jstrs xs = JArr (map JStr xs)"

definition verdict_obj :: "verdict \<Rightarrow> jsval" where
  "verdict_obj v = JObj
     [(''state'', JStr (CHECK_STATES (v_state v))), (''reason'', JStr (CHECK_REASONS (v_reason v))),
      (''headSHA'', v_headSHA v), (''observedSHA'', v_observedSHA v),
      (''total'', JNum (Fin (int (v_total v)))), (''passed'', JNum (Fin (int (v_passed v)))),
      (''failed'', JNum (Fin (int (v_failed v)))), (''pending'', JNum (Fin (int (v_pending v)))),
      (''skipped'', JNum (Fin (int (v_skipped v)))),
      (''unclassified'', JNum (Fin (int (v_unclassified v)))),
      (''absent'', jstrs (v_absent v)), (''blockingAbsent'', jstrs (v_blockingAbsent v)),
      (''notRequested'', JArr (v_notRequested v)),
      (''structurallyAbsent'', jstrs (v_structurallyAbsent v)),
      (''notTriggered'', jstrs (v_notTriggered v)), (''superseded'', jstrs (v_superseded v)),
      (''reportedOnPrior'', jstrs (v_reportedOnPrior v)),
      (''priorKnown'', JBool (v_priorKnown v)),
      (''workflowRunsKnown'', JBool (v_workflowRunsKnown v)),
      (''pendingRuns'', jstrs (v_pendingRuns v)), (''provenance'', jstrs (v_provenance v))]"

section \<open>Reading a verdict\<close>

definition set_prop :: "string \<Rightarrow> jsval \<Rightarrow> jsval \<Rightarrow> jsval" where
  "set_prop k x v = JObj (AList.update k x (entries_of v))"

definition verdictAt :: "jsval \<Rightarrow> jsval \<Rightarrow> jsval" where
  "verdictAt verdict sha =
     (let observed = (if truthy (prop_of verdict ''observedSHA'') then prop_of verdict ''observedSHA''
                      else prop_of verdict ''headSHA'')
      in if observed \<noteq> JStr [] \<and> sha \<noteq> JStr [] \<and> observed = sha then JObj (entries_of verdict)
         else set_prop ''reason'' (JStr (CHECK_REASONS R_STALE_SHA))
                (set_prop ''state'' (JStr (CHECK_STATES UNKNOWN)) verdict))"

definition isGreen :: "jsval \<Rightarrow> bool" where
  "isGreen verdict \<longleftrightarrow> prop_of verdict ''state'' = JStr (CHECK_STATES GREEN)"

definition provesGreen :: "jsval \<Rightarrow> bool" where
  "provesGreen verdict \<longleftrightarrow>
     isGreen verdict \<and> jnum_pos (js_number (prop_of verdict ''passed'')) \<and>
     prop_of verdict ''priorKnown'' = JBool True"

datatype proves_green_reason =
  PG_OK | PG_NO_PRIOR_SHA | PG_INCOMPLETE_HEAD_SET | PG_NOT_GREEN | PG_NO_GATE_RAN

definition provesGreenReason :: "jsval \<Rightarrow> proves_green_reason" where
  "provesGreenReason verdict =
     (if \<not> is_object verdict then PG_NOT_GREEN
      else if prop_of verdict ''reason'' = JStr ''absent-gate'' then PG_INCOMPLETE_HEAD_SET
      else if \<not> isGreen verdict then PG_NOT_GREEN
      else if prop_of verdict ''priorKnown'' \<noteq> JBool True then PG_NO_PRIOR_SHA
      else if \<not> jnum_pos (js_number (prop_of verdict ''passed'')) then PG_NO_GATE_RAN
      else PG_OK)"

definition provesGreenAgrees :: "jsval \<Rightarrow> bool" where
  "provesGreenAgrees verdict \<longleftrightarrow> (provesGreen verdict \<longleftrightarrow> provesGreenReason verdict = PG_OK)"

datatype absent_gate_remedy = AG_NONE | AG_RETRIGGER | AG_REPORTED_ON_PRIOR_HEAD

definition absentGateRemedy :: "jsval \<Rightarrow> absent_gate_remedy" where
  "absentGateRemedy verdict =
     (if \<not> is_object verdict then AG_NONE
      else if prop_of verdict ''reason'' \<noteq> JStr (CHECK_REASONS R_ABSENT_GATE) then AG_NONE
      else case prop_of verdict ''blockingAbsent'' of
          JArr blocking \<Rightarrow>
            (if blocking \<noteq> [] \<and>
                list_all (\<lambda>x. x \<in> set (array_or_empty (prop_of verdict ''reportedOnPrior''))) blocking
             then AG_REPORTED_ON_PRIOR_HEAD else AG_RETRIGGER)
        | _ \<Rightarrow> AG_RETRIGGER)"

record merge_verdict =
  mv_blocking :: bool
  mv_state :: jsval
  mv_reason :: jsval
  mv_mergeState :: string

definition DIRTY_MERGE_STATES :: "string list" where
  "DIRTY_MERGE_STATES = [''DIRTY'', ''CONFLICTING'']"

definition UNSETTLED_MERGE_STATES :: "string list" where
  "UNSETTLED_MERGE_STATES = [''BLOCKED'', ''BEHIND'', ''HAS_HOOKS'', ''DRAFT'']"

definition mergeStateVerdict :: "jsval \<Rightarrow> option_error + merge_verdict" where
  "mergeStateVerdict options =
     (case assertOptions options ''mergeStateVerdict'' MERGE_STATE_KEYS of
        Some e \<Rightarrow> Inl e
      | None \<Rightarrow>
          let mergeState = opt_default options ''mergeState'' (JStr []);
              mergeStateStatus = prop_of options ''mergeStateStatus'';
              checkVerdict = opt_default options ''checkVerdict'' JNull;
              state = upper (if mergeState = JStr [] \<and> mergeStateStatus \<noteq> JUndef
                             then mergeStateStatus else mergeState);
              out = (\<lambda>b st rs. Inr \<lparr>mv_blocking = b, mv_state = st, mv_reason = rs,
                                    mv_mergeState = state\<rparr>);
              st = (\<lambda>c. JStr (CHECK_STATES c)); rs = (\<lambda>r. JStr (CHECK_REASONS r))
          in if prop_of checkVerdict ''state'' = st FAILING then out True (st FAILING) (rs R_FAILED)
             else if jnum_pos (js_number (opt_default options ''unresolvedThreads'' (JNum (Fin 0))))
               then out True (st FAILING) (rs R_FAILED)
             else if state \<in> set DIRTY_MERGE_STATES then out True (st FAILING) (rs R_FAILED)
             else if state = ''UNSTABLE'' then
               out False (st PENDING)
                 (rs (if truthy (opt_default options ''readiedThisRun'' (JBool False))
                      then R_ADVISORY_UNSETTLED else R_PENDING))
             else if state \<in> set UNSETTLED_MERGE_STATES then out False (st PENDING) (rs R_PENDING)
             else if state = ''CLEAN'' then
               out False (coalesce (prop_of checkVerdict ''state'') (st UNKNOWN))
                 (coalesce (prop_of checkVerdict ''reason'') (rs R_UNREADABLE))
             else if state = [] \<or> state = ''UNKNOWN'' then out False (st UNKNOWN) (rs R_UNREADABLE)
             else out False (st UNKNOWN) (rs R_UNCLASSIFIED))"

section \<open>Instants and run liveness\<close>

text \<open>\<open>None\<close> is \<open>null\<close>.\<close>

definition epochMs :: "jsval \<Rightarrow> int option" where
  "epochMs v =
     (case v of
        JNum (Fin i) \<Rightarrow> Some i
      | JStr s \<Rightarrow> if trim s = [] then None else date_parse s
      | _ \<Rightarrow> None)"

definition compareInstants :: "jsval \<Rightarrow> jsval \<Rightarrow> int option" where
  "compareInstants a b =
     (case (epochMs a, epochMs b) of
        (Some left, Some right) \<Rightarrow> Some (if left < right then - 1 else if left > right then 1 else 0)
      | _ \<Rightarrow> None)"

datatype run_liveness = ALIVE | STALLED | LIVENESS_UNKNOWN

record liveness =
  l_state :: run_liveness
  l_startedMs :: "int option"
  l_updatedMs :: "int option"
  l_elapsedMs :: "int option"
  l_sinceUpdateMs :: "int option"

definition runLiveness :: "jsval \<Rightarrow> jsval \<Rightarrow> jsval \<Rightarrow> int \<Rightarrow> liveness" where
  "runLiveness startedAt updatedAt now stalledAfterMs =
     (let startedMs = epochMs startedAt; nowMs = epochMs now;
          updatedMs = (case epochMs updatedAt of None \<Rightarrow> startedMs | Some u \<Rightarrow> Some u)
      in case (startedMs, updatedMs, nowMs) of
           (Some s, Some u, Some n) \<Rightarrow>
             (let latest = (if compareInstants (JNum (Fin u)) (JNum (Fin s)) = Some (- 1) then s else u);
                  since = n - latest
              in \<lparr> l_state = (if stalledAfterMs \<le> since then STALLED else ALIVE),
                   l_startedMs = Some s, l_updatedMs = Some latest,
                   l_elapsedMs = Some (n - s), l_sinceUpdateMs = Some since \<rparr>)
         | _ \<Rightarrow> \<lparr> l_state = LIVENESS_UNKNOWN, l_startedMs = startedMs, l_updatedMs = updatedMs,
                   l_elapsedMs = None, l_sinceUpdateMs = None \<rparr>)"

definition DEFAULT_STALLED_AFTER_MS :: int where
  "DEFAULT_STALLED_AFTER_MS = 15 * 60 * 1000"


section \<open>Merged readings\<close>

text \<open>
  What a merged map says of the readings it was folded from: one entry per name, in first-seen
  order, carrying the most severe classification of that name.
\<close>

definition merge_inv :: "entry list \<Rightarrow> entry dict \<Rightarrow> bool" where
  "merge_inv es m \<longleftrightarrow>
     map fst m = uniq (map ename es) \<and>
     (\<forall>(nm, en) \<in> set m. ename en = nm \<and>
        ekind en = Some (Min (classifyEntry ` {e \<in> set es. ename e = nm})))"

lemma uniq_snoc: "uniq (xs @ [x]) = (if x \<in> set xs then uniq xs else uniq xs @ [x])"
  by (induction xs) auto

lemma alist_update_mem:
  "distinct (map fst m) \<Longrightarrow>
     (k, w) \<in> set (AList.update j v m) \<longleftrightarrow> (if k = j then w = v else (k, w) \<in> set m)"
proof -
  assume d: "distinct (map fst m)"
  then have d': "distinct (map fst (AList.update j v m))" by (rule distinct_update)
  have "(k, w) \<in> set (AList.update j v m) \<longleftrightarrow> map_of (AList.update j v m) k = Some w"
    using d' by (rule map_of_eq_Some_iff[symmetric])
  then show ?thesis
    using map_of_eq_Some_iff[OF d, of k w] by (auto simp: update_conv')
qed

lemma Min_insert_kind:
  fixes k :: kind
  shows "finite A \<Longrightarrow> A \<noteq> {} \<Longrightarrow> Min (insert k A) = (if k < Min A then k else Min A)"
proof -
  assume "finite A" "A \<noteq> {}"
  then have "Min (insert k A) = min k (Min A)" by (rule Min_insert)
  then show ?thesis unfolding min_def using leD le_less not_le by metis
qed

lemma merged_entry_simps [simp]:
  "ename (merged_entry k e p) = ename e" "ekind (merged_entry k e p) = Some k"
  by (simp_all add: merged_entry_def Let_def)

lemma merge_step_inv:
  assumes inv: "merge_inv es m"
  shows "merge_inv (es @ [e]) (merge_step m e)"
proof -
  let ?same = "{x \<in> set es. ename x = ename e}"
  have keys: "map fst m = uniq (map ename es)" and dist: "distinct (map fst m)"
    using inv by (simp_all add: merge_inv_def)
  have ents: "ename en = nm \<and> ekind en = Some (Min (classifyEntry ` {x \<in> set es. ename x = nm}))"
    if "(nm, en) \<in> set m" for nm en
    using inv that by (auto simp: merge_inv_def)
  have other: "{x \<in> set (es @ [e]). ename x = nm} = {x \<in> set es. ename x = nm}"
    if "nm \<noteq> ename e" for nm
    using that by auto
  have this_name: "{x \<in> set (es @ [e]). ename x = ename e} = insert e ?same"
    by auto
  have in_keys: "ename e \<in> set (map fst m) \<longleftrightarrow> ename e \<in> set (map ename es)"
    by (simp only: keys set_uniq)
  have upd: "merge_inv (es @ [e]) (AList.update (ename e) w m)"
    if "ename w = ename e" "ekind w = Some (Min (insert (classifyEntry e) (classifyEntry ` ?same)))" for w
  proof -
    have "map fst (AList.update (ename e) w m) = uniq (map ename (es @ [e]))"
      using in_keys by (simp only: amap.keys_put keys map_append list.map uniq_snoc)
    moreover have "ename en = nm \<and>
        ekind en = Some (Min (classifyEntry ` {x \<in> set (es @ [e]). ename x = nm}))"
      if "(nm, en) \<in> set (AList.update (ename e) w m)" for nm en
      using that ents dist other this_name \<open>ename w = ename e\<close> \<open>ekind w = _\<close>
      by (cases "nm = ename e") (simp_all add: alist_update_mem)
    ultimately show ?thesis by (auto simp: merge_inv_def)
  qed
  show ?thesis
  proof (cases "map_of m (ename e)")
    case None
    then have "ename e \<notin> set (map ename es)"
      using in_keys by (simp add: map_of_eq_None_iff)
    then have "?same = {}"
      by (metis (mono_tags, lifting) Collect_empty_eq image_eqI set_map)
    then have "ekind (merged_entry (classifyEntry e) e None) =
        Some (Min (insert (classifyEntry e) (classifyEntry ` ?same)))"
      by (simp only: merged_entry_simps image_empty Min_singleton)
    from upd[OF merged_entry_simps(1) this] None show ?thesis
      by (simp add: merge_step_def Let_def)
  next
    case (Some prior)
    then have mem: "(ename e, prior) \<in> set m" by (rule map_of_SomeD)
    then have ne: "?same \<noteq> {}"
      using in_keys by force
    have pk: "ename prior = ename e" "ekind prior = Some (Min (classifyEntry ` ?same))"
      using ents[OF mem] by simp_all
    have mn: "Min (insert (classifyEntry e) (classifyEntry ` ?same)) =
        (if classifyEntry e < Min (classifyEntry ` ?same) then classifyEntry e
         else Min (classifyEntry ` ?same))"
      using ne by (intro Min_insert_kind) auto
    have same_prior: "merge_inv (es @ [e]) m" if "\<not> classifyEntry e < Min (classifyEntry ` ?same)"
    proof -
      have "AList.update (ename e) prior m = m"
        using Some by (simp add: AList.update_triv)
      with upd[of prior] pk mn that show ?thesis by simp
    qed
    show ?thesis
    proof (cases "classifyEntry e < Min (classifyEntry ` ?same)")
      case True
      then have "ekind (merged_entry (classifyEntry e) e (Some prior)) =
          Some (Min (insert (classifyEntry e) (classifyEntry ` ?same)))"
        by (simp only: merged_entry_simps mn if_True)
      from upd[OF merged_entry_simps(1) this] True Some pk show ?thesis
        by (simp add: merge_step_def Let_def)
    next
      case False
      have "merge_inv (es @ [e]) (AList.update (ename e)
          (prior\<lparr>eworkflow := eworkflow e, eworkflowId := eworkflowId e\<rparr>) m)"
        using False pk mn by (intro upd) simp_all
      with False Some pk same_prior show ?thesis
        by (simp add: merge_step_def Let_def)
    qed
  qed
qed

lemma mergeEntries_inv: "merge_inv es (mergeEntries es)"
proof (induction es rule: rev_induct)
  case Nil show ?case by (simp add: merge_inv_def mergeEntries_def)
next
  case (snoc e es) then show ?case by (simp add: mergeEntries_def merge_step_inv)
qed

text \<open>Merging never loses a failure or lets an unreadable reading outvote a readable one: each named
  check appears exactly once, in first-seen order, and its merged classification is the most severe
  one among all readings of that name, whatever payload or order they arrived in.\<close>

theorem mergeEntries_most_severe:
  "map fst (mergeEntries es) = uniq (map ename es) \<and>
   map_option ekind (map_of (mergeEntries es) nm) =
     (if nm \<in> ename ` set es
      then Some (Some (Min (classifyEntry ` {e \<in> set es. ename e = nm}))) else None)"
proof -
  have inv: "merge_inv es (mergeEntries es)" by (rule mergeEntries_inv)
  then have keys: "map fst (mergeEntries es) = uniq (map ename es)"
    by (simp add: merge_inv_def)
  show ?thesis
  proof (cases "map_of (mergeEntries es) nm")
    case None
    then have "nm \<notin> set (map fst (mergeEntries es))" by (simp add: map_of_eq_None_iff)
    then have "nm \<notin> ename ` set es" unfolding keys by simp
    with None keys show ?thesis by simp
  next
    case (Some en)
    then have mem: "(nm, en) \<in> set (mergeEntries es)" by (rule map_of_SomeD)
    then have "nm \<in> set (map fst (mergeEntries es))" by force
    then have "nm \<in> ename ` set es" unfolding keys by simp
    with Some mem inv keys show ?thesis by (auto simp: merge_inv_def)
  qed
qed

section \<open>The head set\<close>

definition head_readings :: "jsval \<Rightarrow> entry list" where
  "head_readings opts =
     normalizeRollup (opt_default opts ''rollup'' JNull) @
     normalizeCheckRuns (opt_default opts ''checkRuns'' JNull) @
     normalizeBuckets (opt_default opts ''buckets'' JNull)"

text \<open>The readings of the head that are gates: every one but the provenance receipts.\<close>

definition gate_readings :: "jsval \<Rightarrow> entry list" where
  "gate_readings opts = filter (\<lambda>e. ename e \<notin> set PROVENANCE_CONTEXTS) (head_readings opts)"

lemma f_head_eq:
  "f_head (check_facts_of opts) =
     filter (\<lambda>e. ename e \<notin> set PROVENANCE_CONTEXTS) (map snd (mergeEntries (head_readings opts)))"
  by (simp add: check_facts_of_def head_partition_def head_readings_def partitionProvenance_def Let_def)

lemma f_head_mem:
  "e \<in> set (f_head (check_facts_of opts)) \<longleftrightarrow>
     (\<exists>nm. (nm, e) \<in> set (mergeEntries (head_readings opts)) \<and> nm \<notin> set PROVENANCE_CONTEXTS)"
proof -
  have nm: "ename en = nm" if "(nm, en) \<in> set (mergeEntries (head_readings opts))" for nm en
    using mergeEntries_inv[of "head_readings opts"] that by (auto simp: merge_inv_def)
  show ?thesis
  proof
    assume "e \<in> set (f_head (check_facts_of opts))"
    then obtain x where "(x, e) \<in> set (mergeEntries (head_readings opts))"
        "ename e \<notin> set PROVENANCE_CONTEXTS"
      unfolding f_head_eq by auto
    with nm show "\<exists>nm. (nm, e) \<in> set (mergeEntries (head_readings opts)) \<and>
        nm \<notin> set PROVENANCE_CONTEXTS" by metis
  next
    assume "\<exists>nm. (nm, e) \<in> set (mergeEntries (head_readings opts)) \<and> nm \<notin> set PROVENANCE_CONTEXTS"
    then obtain x where x: "(x, e) \<in> set (mergeEntries (head_readings opts))"
        "x \<notin> set PROVENANCE_CONTEXTS" by blast
    then have "e \<in> set (map snd (mergeEntries (head_readings opts)))" by force
    with x nm[OF x(1)] show "e \<in> set (f_head (check_facts_of opts))"
      unfolding f_head_eq by simp
  qed
qed

lemma f_head_kind:
  assumes "e \<in> set (f_head (check_facts_of opts))"
  shows "ekind e = Some (Min (classifyEntry ` {r \<in> set (gate_readings opts). ename r = ename e}))"
    "\<exists>r \<in> set (gate_readings opts). ename r = ename e \<and> ekind e = Some (classifyEntry r)"
proof -
  obtain nm where nm: "(nm, e) \<in> set (mergeEntries (head_readings opts))"
      "nm \<notin> set PROVENANCE_CONTEXTS"
    using assms by (auto simp: f_head_mem)
  have inv: "merge_inv (head_readings opts) (mergeEntries (head_readings opts))"
    by (rule mergeEntries_inv)
  have e: "ename e = nm" "ekind e = Some (Min (classifyEntry ` {r \<in> set (head_readings opts). ename r = nm}))"
    using inv nm(1) by (auto simp: merge_inv_def)
  have same: "{r \<in> set (gate_readings opts). ename r = nm} = {r \<in> set (head_readings opts). ename r = nm}"
    using nm(2) by (auto simp: gate_readings_def)
  show kind: "ekind e = Some (Min (classifyEntry ` {r \<in> set (gate_readings opts). ename r = ename e}))"
    by (simp only: e same)
  have "nm \<in> set (map fst (mergeEntries (head_readings opts)))" using nm(1) by force
  moreover have "map fst (mergeEntries (head_readings opts)) = uniq (map ename (head_readings opts))"
    using inv by (simp add: merge_inv_def)
  ultimately have "nm \<in> set (map ename (head_readings opts))" by (simp only: set_uniq)
  then have "nm \<in> ename ` set (head_readings opts)" by simp
  then have "{r \<in> set (gate_readings opts). ename r = nm} \<noteq> {}" using same by blast
  then have "Min (classifyEntry ` {r \<in> set (gate_readings opts). ename r = nm}) \<in>
      classifyEntry ` {r \<in> set (gate_readings opts). ename r = nm}"
    by (intro Min_in) auto
  then show "\<exists>r \<in> set (gate_readings opts). ename r = ename e \<and> ekind e = Some (classifyEntry r)"
    using kind e(1) by auto
qed

lemma gate_reading_in_head:
  assumes "r \<in> set (gate_readings opts)"
  obtains e where "e \<in> set (f_head (check_facts_of opts))" "ename e = ename r"
    "the (ekind e) \<le> classifyEntry r" "ekind e \<noteq> None"
proof -
  have r: "r \<in> set (head_readings opts)" "ename r \<notin> set PROVENANCE_CONTEXTS"
    using assms by (auto simp: gate_readings_def)
  have inv: "merge_inv (head_readings opts) (mergeEntries (head_readings opts))"
    by (rule mergeEntries_inv)
  then have "map fst (mergeEntries (head_readings opts)) = uniq (map ename (head_readings opts))"
    by (simp add: merge_inv_def)
  then have "ename r \<in> set (map fst (mergeEntries (head_readings opts)))"
    using r(1) by (simp only: set_uniq) simp
  then obtain e where e: "(ename r, e) \<in> set (mergeEntries (head_readings opts))" by force
  then have mem: "e \<in> set (f_head (check_facts_of opts))" and nm: "ename e = ename r"
    using r(2) inv by (auto simp: f_head_mem merge_inv_def)
  have "Min (classifyEntry ` {x \<in> set (gate_readings opts). ename x = ename e}) \<le> classifyEntry r"
    using assms nm by (intro Min_le) auto
  with that[OF mem nm] f_head_kind(1)[OF mem] show thesis by simp
qed

lemma count_kind_pos: "0 < count_kind k es \<longleftrightarrow> (\<exists>e \<in> set es. ekind e = Some k)"
  by (auto simp: count_kind_def filter_empty_conv)

lemma count_kind_zero: "count_kind k es = 0 \<longleftrightarrow> (\<forall>e \<in> set es. ekind e \<noteq> Some k)"
  by (auto simp: count_kind_def filter_empty_conv)

lemma Failed_least: "Failed \<le> k" "k \<le> Failed \<longleftrightarrow> k = Failed"
  by (cases k; simp add: less_eq_kind_def)+

lemma head_failed_iff:
  "0 < count_kind Failed (f_head (check_facts_of opts)) \<longleftrightarrow>
     (\<exists>r \<in> set (gate_readings opts). classifyEntry r = Failed)"
proof
  assume "0 < count_kind Failed (f_head (check_facts_of opts))"
  then obtain e where e: "e \<in> set (f_head (check_facts_of opts))" "ekind e = Some Failed"
    by (auto simp: count_kind_pos)
  from f_head_kind(2)[OF e(1)] e(2) show "\<exists>r \<in> set (gate_readings opts). classifyEntry r = Failed"
    by (metis option.inject)
next
  assume "\<exists>r \<in> set (gate_readings opts). classifyEntry r = Failed"
  then obtain r where r: "r \<in> set (gate_readings opts)" "classifyEntry r = Failed" by blast
  from gate_reading_in_head[OF r(1)] obtain e where
    "e \<in> set (f_head (check_facts_of opts))" "the (ekind e) \<le> Failed" "ekind e \<noteq> None"
    using r(2) by metis
  then show "0 < count_kind Failed (f_head (check_facts_of opts))"
    by (auto simp: count_kind_pos Failed_least)
qed


section \<open>What the aggregate verdict means\<close>

lemma classify_fields:
  assumes "classifyChecks opts = Inr v"
  shows "decide opts (check_facts_of opts) = (v_state v, v_reason v)"
    "v_total v = length (f_head (check_facts_of opts))"
    "v_passed v = count_kind Passed (f_head (check_facts_of opts))"
    "v_failed v = count_kind Failed (f_head (check_facts_of opts))"
    "v_pending v = count_kind Pending (f_head (check_facts_of opts))"
    "v_skipped v = count_kind Skipped (f_head (check_facts_of opts))"
    "v_unclassified v = count_kind Unclassified (f_head (check_facts_of opts))"
    "v_pendingRuns v = f_pendingRuns (check_facts_of opts)"
    "v_blockingAbsent v = f_blockingAbsent (check_facts_of opts)"
    "v_absent v = d_absent (f_diff (check_facts_of opts))"
    "v_priorKnown v = d_priorKnown (f_diff (check_facts_of opts))"
    "v_structurallyAbsent v = f_structurallyAbsent (check_facts_of opts)"
    "v_notTriggered v = f_notTriggered (check_facts_of opts)"
    "v_superseded v = f_superseded (check_facts_of opts)"
  using assms by (auto simp: classifyChecks_def Let_def split: option.splits prod.splits)

lemmas decide_split = decide_def Let_def

lemma decide_GREEN:
  assumes "decide opts f = (GREEN, r)"
  shows "nullish (opt_default opts ''readError'' JNull)"
    "opt_default opts ''headSHA'' (JStr []) = JStr [] \<or>
     opt_default opts ''observedSHA'' (JStr []) = JStr [] \<or>
     opt_default opts ''headSHA'' (JStr []) = opt_default opts ''observedSHA'' (JStr [])"
    "count_kind Failed (f_head f) = 0" "count_kind Unclassified (f_head f) = 0"
    "count_kind Pending (f_head f) = 0" "f_head f \<noteq> []"
    "\<not> (known (f_runs f) \<and> truncated (f_runs f))" "f_pendingRuns f = []"
    "f_missingRequired f = []" "f_blockingAbsent f = []"
    "0 < count_kind Passed (f_head f) \<or> truthy (opt_default opts ''acceptNoGateRan'' (JBool False))"
  using assms unfolding decide_split by (auto split: if_splits)

lemma decide_FAILING:
  "fst (decide opts f) = FAILING \<longleftrightarrow>
     nullish (opt_default opts ''readError'' JNull) \<and>
     \<not> (opt_default opts ''headSHA'' (JStr []) \<noteq> JStr [] \<and>
        opt_default opts ''observedSHA'' (JStr []) \<noteq> JStr [] \<and>
        opt_default opts ''headSHA'' (JStr []) \<noteq> opt_default opts ''observedSHA'' (JStr [])) \<and>
     0 < count_kind Failed (f_head f)"
  unfolding decide_split by auto

lemma head_kind_cases:
  assumes "e \<in> set (f_head (check_facts_of opts))"
  obtains k where "ekind e = Some k"
  using f_head_kind(1)[OF assms] by blast

text \<open>C12:
  A green verdict is proof: the read succeeded, the payloads belong to the head, no gate reading
  failed in any payload, every gate on the head passed or was deliberately skipped, at least one
  gate is present and one passed (unless the caller accepted a set in which nothing ran), no head
  workflow run is unfinished, every required check ran, and no gate of the prior head is missing
  without an account.\<close>

theorem classifyChecks_green_sound:
  assumes "classifyChecks opts = Inr v" "v_state v = GREEN"
  shows "nullish (opt_default opts ''readError'' JNull) \<and>
    (v_headSHA v = JStr [] \<or> v_observedSHA v = JStr [] \<or> v_headSHA v = v_observedSHA v) \<and>
    Failed \<notin> classifyEntry ` set (gate_readings opts) \<and>
    ekind ` set (f_head (check_facts_of opts)) \<subseteq> {Some Passed, Some Skipped} \<and>
    0 < v_total v \<and>
    (0 < v_passed v \<or> truthy (opt_default opts ''acceptNoGateRan'' (JBool False))) \<and>
    v_pendingRuns v = [] \<and> v_blockingAbsent v = [] \<and> missing_required opts = []"
proof -
  let ?f = "check_facts_of opts"
  note fields = classify_fields[OF assms(1)]
  have d: "decide opts ?f = (GREEN, v_reason v)" using fields(1) assms(2) by simp
  note g = decide_GREEN[OF d]
  have shas: "v_headSHA v = opt_default opts ''headSHA'' (JStr [])"
    "v_observedSHA v = opt_default opts ''observedSHA'' (JStr [])"
    using assms(1) by (auto simp: classifyChecks_def Let_def split: option.splits prod.splits)
  have kinds: "ekind e \<in> {Some Passed, Some Skipped}" if e: "e \<in> set (f_head ?f)" for e
  proof -
    obtain k where k: "ekind e = Some k" using e by (rule head_kind_cases)
    have "k \<noteq> Failed" "k \<noteq> Unclassified" "k \<noteq> Pending"
      using g(3,4,5) e k by (auto simp: count_kind_zero)
    with k show ?thesis by (cases k) auto
  qed
  have "Failed \<notin> classifyEntry ` set (gate_readings opts)"
    using g(3) head_failed_iff[of opts] by auto
  moreover have "missing_required opts = []"
    using g(9) by (simp add: check_facts_of_def Let_def)
  moreover have "0 < v_total v" using g(6) fields(2) by simp
  ultimately show ?thesis
    using g kinds fields shas by auto
qed

definition green_payload :: jsval where
  "green_payload = JObj [(''rollup'', JArr
     [JObj [(''name'', JStr ''go-test''), (''status'', JStr ''COMPLETED''),
            (''conclusion'', JStr ''SUCCESS'')]])]"

lemma green_payload_run:
  "classifyChecks green_payload = Inr (projr (classifyChecks green_payload))"
  "v_state (projr (classifyChecks green_payload)) = GREEN"
  by code_simp+

theorem classifyChecks_green_sound_witness:
  "Failed \<notin> classifyEntry ` set (gate_readings green_payload) \<and>
   v_blockingAbsent (projr (classifyChecks green_payload)) = []"
  using classifyChecks_green_sound[OF green_payload_run] by blast

text \<open>Red means red: on a readable, current head the verdict is \<open>failing\<close> exactly when some gate reading
  in some payload classifies as failed; a pending or absent gate is never reported as failing.\<close>

theorem classifyChecks_failing_iff:
  assumes "classifyChecks opts = Inr v"
  shows "v_state v = FAILING \<longleftrightarrow>
    nullish (opt_default opts ''readError'' JNull) \<and>
    (v_headSHA v = JStr [] \<or> v_observedSHA v = JStr [] \<or> v_headSHA v = v_observedSHA v) \<and>
    Failed \<in> classifyEntry ` set (gate_readings opts)"
proof -
  have shas: "v_headSHA v = opt_default opts ''headSHA'' (JStr [])"
    "v_observedSHA v = opt_default opts ''observedSHA'' (JStr [])"
    using assms by (auto simp: classifyChecks_def Let_def split: option.splits prod.splits)
  have "v_state v = fst (decide opts (check_facts_of opts))"
    using classify_fields(1)[OF assms] by simp
  then have "v_state v = FAILING \<longleftrightarrow> fst (decide opts (check_facts_of opts)) = FAILING" by simp
  moreover have "(\<exists>r\<in>set (gate_readings opts). classifyEntry r = Failed)
    \<longleftrightarrow> Failed \<in> classifyEntry ` set (gate_readings opts)"
    by (metis image_iff)
  ultimately show ?thesis
    unfolding decide_FAILING head_failed_iff shas by argo
qed

definition red_payload :: jsval where
  "red_payload = JObj [(''buckets'', JArr
     [JObj [(''name'', JStr ''go-test''), (''state'', JStr ''SUCCESS''), (''bucket'', JStr ''pass'')],
      JObj [(''name'', JStr ''go-test''), (''bucket'', JStr ''fail'')]])]"

lemma red_payload_run:
  "classifyChecks red_payload = Inr (projr (classifyChecks red_payload))"
  "v_state (projr (classifyChecks red_payload)) = FAILING"
  by code_simp+

theorem classifyChecks_failing_iff_witness:
  "Failed \<in> classifyEntry ` set (gate_readings red_payload)"
  using classifyChecks_failing_iff[OF red_payload_run(1)] red_payload_run(2) by blast

lemma count_kind_total:
  assumes "\<forall>e \<in> set es. ekind e \<noteq> None"
  shows "count_kind Passed es + count_kind Failed es + count_kind Pending es + count_kind Skipped es
    + count_kind Unclassified es = length es"
  using assms
proof (induction es)
  case (Cons e es)
  then obtain k where "ekind e = Some k" by auto
  with Cons show ?case by (cases k) (auto simp: count_kind_def)
qed (simp add: count_kind_def)

text \<open>Every attached gate is counted in exactly one bucket: the five counts of a verdict add up to its
  total.\<close>

theorem classifyChecks_counts:
  assumes "classifyChecks opts = Inr v"
  shows "v_passed v + v_failed v + v_pending v + v_skipped v + v_unclassified v = v_total v"
  unfolding classify_fields[OF assms]
  by (rule count_kind_total) (auto elim: head_kind_cases)

theorem classifyChecks_counts_witness:
  "v_passed (projr (classifyChecks green_payload)) + v_failed (projr (classifyChecks green_payload))
   + v_pending (projr (classifyChecks green_payload)) + v_skipped (projr (classifyChecks green_payload))
   + v_unclassified (projr (classifyChecks green_payload)) = v_total (projr (classifyChecks green_payload))"
  by (rule classifyChecks_counts[OF green_payload_run(1)])


section \<open>Readers of a verdict\<close>


lemma decide_reason:
  assumes "decide opts f = (GREEN, r)"
  shows "r \<in> {R_OK, R_NO_GATE_RAN}"
  using assms unfolding decide_split by (auto split: if_splits)

lemma verdict_obj_props [simp]:
  "prop_of (verdict_obj v) ''state'' = JStr (CHECK_STATES (v_state v))"
  "prop_of (verdict_obj v) ''reason'' = JStr (CHECK_REASONS (v_reason v))"
  "prop_of (verdict_obj v) ''passed'' = JNum (Fin (int (v_passed v)))"
  "prop_of (verdict_obj v) ''priorKnown'' = JBool (v_priorKnown v)"
  "prop_of (verdict_obj v) ''headSHA'' = v_headSHA v"
  "prop_of (verdict_obj v) ''observedSHA'' = v_observedSHA v"
  "is_object (verdict_obj v)"
  by (simp_all add: verdict_obj_def prop_of_def is_object_def)

lemma CHECK_STATES_inj [simp]: "CHECK_STATES a = CHECK_STATES b \<longleftrightarrow> a = b"
  by (cases a; cases b; simp)

lemma CHECK_STATES_green [simp]: "CHECK_STATES s = ''green'' \<longleftrightarrow> s = GREEN"
  by (cases s) simp_all

lemma isGreen_verdict_obj [simp]: "isGreen (verdict_obj v) \<longleftrightarrow> v_state v = GREEN"
  by (simp add: isGreen_def)

text \<open>The two merge-time readings never disagree on a verdict this module produced: \<open>provesGreen\<close> holds of
  it exactly when \<open>provesGreenReason\<close> answers \<open>ok\<close>, so a caller may print the reason without
  re-deriving the predicate.\<close>

theorem provesGreen_agrees:
  assumes "classifyChecks opts = Inr v"
  shows "provesGreenAgrees (verdict_obj v)"
proof -
  have "decide opts (check_facts_of opts) = (v_state v, v_reason v)"
    by (rule classify_fields(1)[OF assms])
  then have "v_state v = GREEN \<Longrightarrow> CHECK_REASONS (v_reason v) \<noteq> ''absent-gate''"
    using decide_reason[of opts "check_facts_of opts" "v_reason v"] by auto
  then show ?thesis
    by (auto simp: provesGreenAgrees_def provesGreen_def provesGreenReason_def)
qed

lemma prop_of_set_prop [simp]:
  "prop_of (set_prop k x v) j = (if j = k then x else prop_of v j)"
  by (cases v) (auto simp: set_prop_def prop_of_def entries_of_def update_conv' split: option.splits)

lemma prop_of_entries [simp]:
  "(case map_of (entries_of v) k of None \<Rightarrow> JUndef | Some x \<Rightarrow> x) = prop_of v k"
  by (cases v) (auto simp: prop_of_def entries_of_def)

text \<open>A verdict is green at a SHA exactly when it was green and that very SHA, never an empty one, is the one
  it was observed on (its head when no observed SHA is recorded): \<open>verdictAt\<close> never carries a green
  verdict over to another commit and never loses one on its own.\<close>

theorem verdictAt_pins_green:
  "isGreen (verdictAt verdict sha) \<longleftrightarrow>
     isGreen verdict \<and> sha \<noteq> JStr [] \<and>
     sha = (if truthy (prop_of verdict ''observedSHA'') then prop_of verdict ''observedSHA''
            else prop_of verdict ''headSHA'')"
  unfolding verdictAt_def Let_def isGreen_def by auto

definition merge_state_of :: "jsval \<Rightarrow> string" where
  "merge_state_of options =
     (let mergeState = opt_default options ''mergeState'' (JStr []);
          mergeStateStatus = prop_of options ''mergeStateStatus''
      in upper (if mergeState = JStr [] \<and> mergeStateStatus \<noteq> JUndef then mergeStateStatus else mergeState))"

text \<open>The mergeability reading blocks exactly on a failing verdict, an unresolved review thread or a
  conflict state; an \<open>UNSTABLE\<close>, \<open>BLOCKED\<close> or unknown state never blocks by itself, and the reading
  is green only when GitHub says \<open>CLEAN\<close> and the check verdict it was given is green.\<close>

theorem mergeStateVerdict_blocking:
  assumes "mergeStateVerdict options = Inr m"
  defines "cv \<equiv> opt_default options ''checkVerdict'' JNull"
  shows "(mv_blocking m \<longleftrightarrow>
      prop_of cv ''state'' = JStr (CHECK_STATES FAILING) \<or>
      jnum_pos (js_number (opt_default options ''unresolvedThreads'' (JNum (Fin 0)))) \<or>
      merge_state_of options \<in> set DIRTY_MERGE_STATES) \<and>
    (mv_state m = JStr (CHECK_STATES GREEN) \<longrightarrow>
      merge_state_of options = ''CLEAN'' \<and> prop_of cv ''state'' = JStr (CHECK_STATES GREEN) \<and>
      \<not> mv_blocking m)"
  using assms(1) unfolding mergeStateVerdict_def Let_def cv_def[symmetric] merge_state_of_def[unfolded Let_def, symmetric]
  by (auto split: option.splits if_splits simp: coalesce_def UNSETTLED_MERGE_STATES_def DIRTY_MERGE_STATES_def)

definition unstable_green :: jsval where
  "unstable_green = JObj [(''mergeState'', JStr ''unstable''),
     (''checkVerdict'', JObj [(''state'', JStr ''green''), (''reason'', JStr ''ok'')])]"

lemma unstable_green_run:
  "mergeStateVerdict unstable_green = Inr (projr (mergeStateVerdict unstable_green))"
  by code_simp

theorem mergeStateVerdict_blocking_witness:
  "\<not> mv_blocking (projr (mergeStateVerdict unstable_green))"
proof -
  have no: "prop_of (opt_default unstable_green ''checkVerdict'' JNull) ''state'' \<noteq> JStr (CHECK_STATES FAILING)"
    "\<not> jnum_pos (js_number (opt_default unstable_green ''unresolvedThreads'' (JNum (Fin 0))))"
    "merge_state_of unstable_green \<notin> set DIRTY_MERGE_STATES"
    by code_simp+
  show ?thesis using mergeStateVerdict_blocking[OF unstable_green_run] no by blast
qed

theorem provesGreen_agrees_witness:
  "provesGreenAgrees (verdict_obj (projr (classifyChecks green_payload)))"
  by (rule provesGreen_agrees[OF green_payload_run(1)])

lemma epochMs_number [simp]: "epochMs (JNum (Fin i)) = Some i"
  by (simp add: epochMs_def)

text \<open>A run is reported stalled exactly when its start and the current instant are both readable and it has
  been silent for at least the threshold since the later of its start and its last update; an
  unreadable clock never yields a stall.\<close>

theorem runLiveness_stalled_iff:
  "l_state (runLiveness startedAt updatedAt now t) = STALLED \<longleftrightarrow>
     (\<exists>s n. epochMs startedAt = Some s \<and> epochMs now = Some n \<and>
        t \<le> n - max s (case epochMs updatedAt of None \<Rightarrow> s | Some u \<Rightarrow> u))"
  by (cases "epochMs startedAt"; cases "epochMs now"; cases "epochMs updatedAt")
    (simp_all add: runLiveness_def Let_def compareInstants_def max_def)

end
