(* ===== verification/JsRegex.thy ===== *)
theory JsRegex
  imports JsBase
begin

text \<open>
  The regular expressions of the toolbox: an abstract syntax with the backtracking semantics of
  \<open>RegExp\<close>. \<open>rx_match r s\<close> lists, in the order the engine tries them, what is left of \<open>s\<close> after \<open>r\<close>
  matched at its front; the first one is the match \<open>exec\<close> reports. Literals are byte strings, so a
  non-ASCII character of a pattern is the literal of its UTF-8 bytes. An iteration of \<open>RStar\<close> that
  consumes nothing is not repeated, as in the standard.
\<close>

datatype rx =
    RSet "char \<Rightarrow> bool"
  | RLit string
  | RLitI string
  | RSeq rx rx
  | RAlt rx rx
  | RStar rx
  | REps
  | REnd

fun star_match :: "(string \<Rightarrow> string list) \<Rightarrow> nat \<Rightarrow> string \<Rightarrow> string list" where
  "star_match f 0 s = [s]"
| "star_match f (Suc n) s =
     concat (map (star_match f n) (filter (\<lambda>t. length t < length s) (f s))) @ [s]"

primrec rx_match :: "rx \<Rightarrow> string \<Rightarrow> string list" where
  "rx_match (RSet p) s = (case s of [] \<Rightarrow> [] | c # cs \<Rightarrow> (if p c then [cs] else []))"
| "rx_match (RLit w) s = (if starts_with s w then [drop (length w) s] else [])"
| "rx_match (RLitI w) s =
     (if to_lower (take (length w) s) = to_lower w then [drop (length w) s] else [])"
| "rx_match (RSeq a b) s = concat (map (rx_match b) (rx_match a s))"
| "rx_match (RAlt a b) s = rx_match a s @ rx_match b s"
| "rx_match (RStar r) s = star_match (rx_match r) (length s) s"
| "rx_match REps s = [s]"
| "rx_match REnd s = (if s = [] then [s] else [])"

text \<open>\<open>r+\<close>, \<open>r?\<close>, \<open>r{0,n}\<close>, \<open>r{n,}\<close> and a sequence of parts.\<close>

definition RPlus :: "rx \<Rightarrow> rx" where
  "RPlus r = RSeq r (RStar r)"

definition ROpt :: "rx \<Rightarrow> rx" where
  "ROpt r = RAlt r REps"

primrec RUpTo :: "nat \<Rightarrow> rx \<Rightarrow> rx" where
  "RUpTo 0 r = REps"
| "RUpTo (Suc n) r = RAlt (RSeq r (RUpTo n r)) REps"

primrec RAtLeast :: "nat \<Rightarrow> rx \<Rightarrow> rx" where
  "RAtLeast 0 r = RStar r"
| "RAtLeast (Suc n) r = RSeq r (RAtLeast n r)"

definition RSeqs :: "rx list \<Rightarrow> rx" where
  "RSeqs rs = foldr RSeq rs REps"

definition RSpace :: rx where "RSpace = RSet is_ws"

definition RDigit :: rx where "RDigit = RSet is_digit"

text \<open>\<open>.\<close> excludes the line terminators.\<close>

definition is_dot :: "char \<Rightarrow> bool" where
  "is_dot c \<longleftrightarrow> c \<noteq> CHR 0x0A \<and> c \<noteq> CHR 0x0D"

definition RDot :: rx where "RDot = RSet is_dot"

text \<open>\<open>/^r/.test(s)\<close> and \<open>/r/.test(s)\<close>.\<close>

definition rx_at_start :: "rx \<Rightarrow> string \<Rightarrow> bool" where
  "rx_at_start r s \<longleftrightarrow> rx_match r s \<noteq> []"

fun suffixes_of :: "string \<Rightarrow> string list" where
  "suffixes_of [] = [[]]"
| "suffixes_of (c # cs) = (c # cs) # suffixes_of cs"

definition rx_anywhere :: "rx \<Rightarrow> string \<Rightarrow> bool" where
  "rx_anywhere r s \<longleftrightarrow> list_ex (rx_at_start r) (suffixes_of s)"

text \<open>The text the first match of \<open>^r\<close> consumes, or \<open>None\<close>.\<close>

definition rx_prefix :: "rx \<Rightarrow> string \<Rightarrow> string option" where
  "rx_prefix r s =
     (case rx_match r s of [] \<Rightarrow> None | t # _ \<Rightarrow> Some (take (length s - length t) s))"

section \<open>What a match leaves\<close>

lemma star_match_suffix:
  assumes "\<And>u v. v \<in> set (f u) \<Longrightarrow> suffix v u"
  shows "t \<in> set (star_match f n s) \<Longrightarrow> suffix t s"
proof (induction n arbitrary: s)
  case (Suc n)
  then show ?case using assms suffix_order.trans by fastforce
qed simp

lemma rx_match_suffix: "t \<in> set (rx_match r s) \<Longrightarrow> suffix t s"
proof (induction r arbitrary: s t)
  case (RSeq a b)
  then show ?case using suffix_order.trans by fastforce
next
  case (RStar r)
  then show ?case using star_match_suffix[of "rx_match r"] by auto
next
  case (RSet p)
  then show ?case by (auto simp: suffix_def split: list.splits if_splits)
qed (auto simp: suffix_drop split: if_splits)

lemma rx_prefix_split:
  assumes "rx_prefix r s = Some p"
  obtains t where "s = p @ t" "t \<in> set (rx_match r s)"
proof -
  obtain t ts where m: "rx_match r s = t # ts" "p = take (length s - length t) s"
    using assms by (auto simp: rx_prefix_def split: list.splits)
  then have "suffix t s" using rx_match_suffix[of t r s] by simp
  then have "s = p @ t" using m(2) by (auto simp: suffix_def)
  then show thesis using that m(1) by simp
qed

end
