(* ===== verification/MergeEligibility.thy ===== *)
theory MergeEligibility
  imports JsRegex PrCheckState
begin

text \<open>
  Model of \<open>skills-toolbox/epic/merge-eligibility.mjs\<close>: the PR-side facts every merge path shares.
  Reasons are the strings of the source, in the order the source emits them; \<open>throw\<close> is the left
  injection. A value written \<open>f?.x\<close> in the source is \<open>prop_of f ''x''\<close> here, and an argument that is
  destructured is an object or \<open>undefined\<close> (every call site passes one).
\<close>

section \<open>Vocabulary\<close>

definition is_hex :: "char \<Rightarrow> bool" where
  "is_hex c \<longleftrightarrow> is_digit c \<or> lower_char c \<in> set ''abcdef''"

text \<open>\<open>/^[0-9a-f]{40}$/i\<close>.\<close>

definition SHA :: "string \<Rightarrow> bool" where
  "SHA s \<longleftrightarrow> length s = 40 \<and> list_all is_hex s"

definition sha :: "jsval \<Rightarrow> bool" where
  "sha value = (case value of JStr s \<Rightarrow> SHA s | _ \<Rightarrow> False)"

definition MERGE_STATES :: "string list" where
  "MERGE_STATES = [''CLEAN'', ''HAS_HOOKS'', ''UNSTABLE'', ''BLOCKED'', ''BEHIND'', ''DRAFT'',
     ''DIRTY'', ''UNKNOWN'']"

definition merge_state_reason :: "string \<Rightarrow> string" where
  "merge_state_reason state = ''merge-state-'' @ to_lower state"

definition SHARED_INELIGIBLE_REASONS :: "string list" where
  "SHARED_INELIGIBLE_REASONS =
     [''ci-not-settled'', ''ci-not-green-on-head''] @ map merge_state_reason MERGE_STATES @
     [''pr-not-open'', ''pr-draft'', ''partial-marker'', ''head-unknown'', ''head-mismatch'']"

section \<open>The PR body\<close>

text \<open>\<open>body.split(/\r?\n/)\<close>: every piece but the last loses one carriage return at its end.\<close>

definition chop_cr :: "string \<Rightarrow> string" where
  "chop_cr l = (if l \<noteq> [] \<and> last l = CHR 0x0D then butlast l else l)"

definition split_lines :: "string \<Rightarrow> string list" where
  "split_lines body =
     (let ls = split_on (CHR 0x0A) body in map chop_cr (butlast ls) @ [last ls])"

definition TICK :: char where "TICK = CHR 0x60"

text \<open>\<open>/^\s{0,3}(`{3,}|~{3,})/\<close>, group 1.\<close>

fun first_some :: "('a \<Rightarrow> 'b option) \<Rightarrow> 'a list \<Rightarrow> 'b option" where
  "first_some f [] = None"
| "first_some f (x # xs) = (case f x of Some y \<Rightarrow> Some y | None \<Rightarrow> first_some f xs)"

definition fence_marker :: "string \<Rightarrow> string option" where
  "fence_marker line =
     first_some (rx_prefix (RAlt (RAtLeast 3 (RLit [TICK])) (RAtLeast 3 (RLit ''~''))))
       (rx_match (RUpTo 3 RSpace) line)"

text \<open>\<open>/^\s*(`+|~+)\s*$/\<close>.\<close>

definition FENCE_CLOSE :: rx where
  "FENCE_CLOSE = RSeqs [RStar RSpace, RAlt (RPlus (RLit [TICK])) (RPlus (RLit ''~'')),
     RStar RSpace, REnd]"

text \<open>\<open>/^\s{0,3}##\s+(.+?)\s*#*\s*$/\<close>, group 1: the shortest text after which the tail matches.\<close>

definition HEADING_HEAD :: rx where
  "HEADING_HEAD = RSeqs [RUpTo 3 RSpace, RLit ''##'', RPlus RSpace]"

definition HEADING_TAIL :: rx where
  "HEADING_TAIL = RSeqs [RStar RSpace, RStar (RLit ''#''), RStar RSpace, REnd]"

definition heading_text :: "string \<Rightarrow> string option" where
  "heading_text line =
     first_some (\<lambda>rest. first_some
         (\<lambda>k. if list_all is_dot (take k rest) \<and> rx_at_start HEADING_TAIL (drop k rest)
              then Some (take k rest) else None) [1..<Suc (length rest)])
       (rx_match HEADING_HEAD line)"

text \<open>The section map: a heading is mapped to its lines, or to \<open>null\<close> (\<open>None\<close>) when it repeats.\<close>

record section_scan =
  ss_result :: "string list option dict"
  ss_fence :: "string option"
  ss_current :: "string option"

definition close_fence :: "string \<Rightarrow> string \<Rightarrow> string \<Rightarrow> bool" where
  "close_fence marker fence line \<longleftrightarrow>
     hd marker = hd fence \<and> length fence \<le> length marker \<and> rx_at_start FENCE_CLOSE line"

definition scan_line :: "section_scan \<Rightarrow> string \<Rightarrow> section_scan" where
  "scan_line st line =
     (case fence_marker line of
        Some marker \<Rightarrow>
          (case ss_fence st of
             None \<Rightarrow> st\<lparr>ss_fence := Some marker\<rparr>
           | Some fence \<Rightarrow> if close_fence marker fence line then st\<lparr>ss_fence := None\<rparr> else st)
      | None \<Rightarrow>
          if ss_fence st \<noteq> None then st
          else case heading_text line of
              Some h \<Rightarrow>
                (let current = to_lower (trim h) in
                 st\<lparr>ss_current := Some current,
                    ss_result := AList.update current
                      (if map_of (ss_result st) current \<noteq> None then None else Some [])
                      (ss_result st)\<rparr>)
            | None \<Rightarrow>
                (case ss_current st of
                   Some current \<Rightarrow>
                     (case map_of (ss_result st) current of
                        Some (Some ls) \<Rightarrow>
                          if current \<noteq> []
                          then st\<lparr>ss_result := AList.update current (Some (ls @ [line])) (ss_result st)\<rparr>
                          else st
                      | _ \<Rightarrow> st)
                 | None \<Rightarrow> st))"

definition sections :: "jsval \<Rightarrow> string list option dict" where
  "sections body =
     (case body of
        JStr s \<Rightarrow> ss_result (foldl scan_line
          \<lparr>ss_result = [], ss_fence = None, ss_current = None\<rparr> (split_lines s))
      | _ \<Rightarrow> [])"

definition sectionToken :: "jsval \<Rightarrow> string \<Rightarrow> string" where
  "sectionToken body heading =
     (case map_of (sections body) heading of
        Some (Some ls) \<Rightarrow> (case find (\<lambda>l. l \<noteq> []) (map trim ls) of Some l \<Rightarrow> l | None \<Rightarrow> [])
      | _ \<Rightarrow> [])"

section \<open>The four shared checks\<close>

definition ciReasons :: "jsval \<Rightarrow> jsval \<Rightarrow> jsval \<Rightarrow> string list" where
  "ciReasons ciWaitState checkVerdict headSha =
     (if ciWaitState \<noteq> JStr ''settled'' then [''ci-not-settled''] else []) @
     (if \<not> sha headSha \<or> \<not> isGreen (verdictAt (coalesce checkVerdict (JObj [])) headSha)
      then [''ci-not-green-on-head''] else [])"

text \<open>\<open>mergeStateVerdict\<close> of an object with a known key returns; \<open>state_blocks_throw\<close> shows it.\<close>

definition state_blocks :: "string \<Rightarrow> bool" where
  "state_blocks state =
     (case mergeStateVerdict (JObj [(''mergeState'', JStr state)]) of
        Inr m \<Rightarrow> mv_blocking m | Inl _ \<Rightarrow> True)"

definition mergeStateReasons :: "jsval \<Rightarrow> string list" where
  "mergeStateReasons prView =
     (let state = to_upper (string_or_empty (prop_of prView ''mergeStateStatus'')) in
      if state = [] \<or> state = ''UNKNOWN'' then [''merge-state-unknown'']
      else if state \<notin> set [''CLEAN'', ''HAS_HOOKS'', ''UNSTABLE''] \<or> state_blocks state
      then [if merge_state_reason state \<in> set SHARED_INELIGIBLE_REASONS
            then merge_state_reason state else ''merge-state-unknown'']
      else [])"

text \<open>The dashes of the class are the em dash and the en dash (UTF-8) and the hyphen.\<close>

definition DASH :: rx where
  "DASH = RAlt (RLit [CHR 0xE2, CHR 0x80, CHR 0x94])
     (RAlt (RLit [CHR 0xE2, CHR 0x80, CHR 0x93]) (RLit ''-''))"

definition PARTIAL_LINE :: rx where
  "PARTIAL_LINE = RSeqs [RLitI ''do not merge'', RStar RSpace, RPlus DASH, RStar RSpace,
     RLitI ''partial:'', RStar RSpace, RPlus RDigit, RStar RSpace, RLit ''/'', RStar RSpace,
     RPlus RDigit]"

definition PARTIAL_TITLE :: rx where
  "PARTIAL_TITLE = RSeqs [RLitI ''(partial'', RPlus RSpace, RPlus RDigit, RStar RSpace, RLit ''/'',
     RStar RSpace, RPlus RDigit, RLit '')'']"

definition isPartial :: "jsval \<Rightarrow> bool" where
  "isPartial pr \<longleftrightarrow>
     (case prop_of pr ''title'' of JStr t \<Rightarrow> rx_anywhere PARTIAL_TITLE t | _ \<Rightarrow> False) \<or>
     rx_at_start PARTIAL_LINE (sectionToken (prop_of pr ''body'') ''partial'')"

definition prShapeReasons :: "jsval \<Rightarrow> string list" where
  "prShapeReasons prView =
     (if prop_of prView ''state'' \<noteq> JStr ''OPEN'' then [''pr-not-open''] else []) @
     (if prop_of prView ''isDraft'' \<noteq> JBool False then [''pr-draft''] else []) @
     (if isPartial (coalesce prView (JObj [])) then [''partial-marker''] else [])"

definition headReasons :: "jsval \<Rightarrow> string list" where
  "headReasons heads =
     (case heads of
        JArr hs \<Rightarrow>
          if hs = [] \<or> \<not> list_all sha hs then [''head-unknown'']
          else if length (uniq hs) \<noteq> 1 then [''head-mismatch''] else []
      | _ \<Rightarrow> [''head-unknown''])"

definition shared_reasons :: "jsval \<Rightarrow> string list" where
  "shared_reasons facts =
     (let f = coalesce facts (JObj []) in
      ciReasons (prop_of f ''ciWaitState'') (prop_of f ''checkVerdict'') (prop_of f ''headSha'') @
      mergeStateReasons (prop_of f ''prView'') @
      prShapeReasons (prop_of f ''prView'') @
      headReasons (prop_of f ''heads''))"

record eligibility =
  el_eligible :: bool
  el_reasons :: "string list"

definition sharedEligibility :: "jsval \<Rightarrow> eligibility" where
  "sharedEligibility facts =
     (let reasons = shared_reasons facts in
      \<lparr>el_eligible = (reasons = []), el_reasons = reasons\<rparr>)"

section \<open>CI on the judged head\<close>

definition BOSS_PREFIX :: string where "BOSS_PREFIX = ''boss/''"

definition contextName :: "jsval \<Rightarrow> string" where
  "contextName node =
     (case node of JStr s \<Rightarrow> trim s
      | _ \<Rightarrow> first_string node [''name'', ''context'', ''workflowName''])"

definition isEnvelope :: "jsval \<Rightarrow> bool" where
  "isEnvelope value \<longleftrightarrow>
     is_plain_object value \<and> list_ex (\<lambda>k. is_array (prop_of value k)) ENVELOPE_KEYS"

definition keeps :: "jsval \<Rightarrow> bool" where
  "keeps node \<longleftrightarrow> \<not> starts_with (contextName node) BOSS_PREFIX"

definition filter_key :: "jsval \<Rightarrow> string \<Rightarrow> jsval" where
  "filter_key object k =
     (case prop_of object k of
        JArr xs \<Rightarrow> set_prop k (JArr (filter keeps xs)) object
      | _ \<Rightarrow> object)"

definition filterEnvelope :: "jsval \<Rightarrow> jsval" where
  "filterEnvelope object = foldl filter_key object ENVELOPE_KEYS"

definition dropBossContexts :: "jsval \<Rightarrow> jsval" where
  "dropBossContexts payload =
     (case payload of
        JArr xs \<Rightarrow>
          if list_ex isEnvelope xs
          then JArr (map (\<lambda>page. if isEnvelope page then filterEnvelope page else page) xs)
          else JArr (filter keeps xs)
      | _ \<Rightarrow> if isEnvelope payload then filterEnvelope payload else payload)"

text \<open>The names the filter adds to \<open>excluded\<close>.\<close>

definition dropped_names :: "jsval list \<Rightarrow> string list" where
  "dropped_names xs = map contextName (filter (\<lambda>n. \<not> keeps n) xs)"

definition envelope_dropped :: "jsval \<Rightarrow> string list" where
  "envelope_dropped object =
     concat (map (\<lambda>k. dropped_names (array_or_empty (prop_of object k))) ENVELOPE_KEYS)"

definition excludedContexts :: "jsval \<Rightarrow> string list" where
  "excludedContexts payload =
     (case payload of
        JArr xs \<Rightarrow>
          if list_ex isEnvelope xs then concat (map envelope_dropped (filter isEnvelope xs))
          else dropped_names xs
      | _ \<Rightarrow> if isEnvelope payload then envelope_dropped payload else [])"

definition judged_options :: "jsval \<Rightarrow> jsval" where
  "judged_options options =
     JObj [(''headSHA'', prop_of options ''headSHA''),
           (''observedSHA'', prop_of options ''observedSHA''),
           (''rollup'', dropBossContexts (prop_of options ''rollup'')),
           (''checkRuns'', dropBossContexts (prop_of options ''checkRuns'')),
           (''priorContexts'', dropBossContexts (prop_of options ''priorContexts'')),
           (''workflowRuns'', prop_of options ''workflowRuns''),
           (''readError'', prop_of options ''readError''),
           (''structurallyAbsentContexts'', prop_of options ''structurallyAbsentContexts''),
           (''requiredChecks'', prop_of options ''requiredChecks'')]"

record judged =
  j_verdict :: verdict
  j_settled :: bool
  j_green :: bool
  j_excluded :: "string list"

definition judgeCiOnHead :: "jsval \<Rightarrow> option_error + judged" where
  "judgeCiOnHead options =
     (case classifyChecks (judged_options options) of
        Inl e \<Rightarrow> Inl e
      | Inr verdict \<Rightarrow> Inr
          \<lparr> j_verdict = verdict, j_settled = (v_state verdict \<noteq> PENDING),
            j_green = (sha (prop_of options ''headSHA'') \<and>
              prop_of options ''headSHA'' = prop_of options ''observedSHA'' \<and>
              isGreen (verdict_obj verdict) \<and> 0 < v_passed verdict),
            j_excluded = sort (uniq (excludedContexts (prop_of options ''rollup'') @
              excludedContexts (prop_of options ''checkRuns'') @
              excludedContexts (prop_of options ''priorContexts''))) \<rparr>)"

section \<open>The merge command\<close>

datatype merge_error = Session_not_a_string | Head_not_a_sha

definition mergeArgv :: "jsval \<Rightarrow> merge_error + string list" where
  "mergeArgv args =
     (if \<not> is_nonempty_string (prop_of args ''sessionId'') then Inl Session_not_a_string
      else if \<not> sha (prop_of args ''headSha'') then Inl Head_not_a_sha
      else Inr [''merge'', string_or_empty (prop_of args ''sessionId''), ''--yes'', ''--json'',
             ''--match-head'', string_or_empty (prop_of args ''headSha'')])"

definition classifyMergeResult :: "jsval \<Rightarrow> string" where
  "classifyMergeResult read =
     (if prop_of read ''ok'' = JBool True then ''accepted''
      else if prop_of read ''error'' = JStr ''HEAD_MISMATCH'' then ''head-mismatch''
      else ''merge-refused:'' @ js_string (prop_of read ''error''))"

section \<open>Eligibility\<close>

lemma state_blocks_accepted:
  "\<not> state_blocks ''CLEAN''" "\<not> state_blocks ''HAS_HOOKS''" "\<not> state_blocks ''UNSTABLE''"
  by code_simp+

lemma state_blocks_throw: "mergeStateVerdict (JObj [(''mergeState'', JStr state)]) \<noteq> Inl e"
  by (simp add: mergeStateVerdict_def assertOptions_def MERGE_STATE_KEYS_def has_key_def
      is_plain_object_def Let_def)

definition ACCEPTED_STATES :: "string list" where
  "ACCEPTED_STATES = [''CLEAN'', ''HAS_HOOKS'', ''UNSTABLE'']"

lemma mergeStateReasons_Nil:
  "mergeStateReasons prView = [] \<longleftrightarrow>
     to_upper (string_or_empty (prop_of prView ''mergeStateStatus'')) \<in> set ACCEPTED_STATES"
  using state_blocks_accepted
  by (auto simp: mergeStateReasons_def Let_def ACCEPTED_STATES_def)

lemma sha_iff: "sha v \<longleftrightarrow> (\<exists>h. v = JStr h \<and> SHA h)"
  by (cases v) (simp_all add: sha_def)

lemma headReasons_Nil:
  "headReasons heads = [] \<longleftrightarrow> (\<exists>h. SHA h \<and> {JStr h} = set (array_or_empty heads))"
proof (cases heads)
  case (JArr hs)
  have "length (uniq hs) = 1 \<longleftrightarrow> (\<exists>x. set hs = {x})"
  proof
    assume "length (uniq hs) = 1"
    then obtain x where "uniq hs = [x]" by (auto simp: length_Suc_conv)
    then have "set (uniq hs) = {x}" by simp
    then show "\<exists>x. set hs = {x}" by (auto simp only: set_uniq)
  next
    assume "\<exists>x. set hs = {x}"
    then obtain x where "set (uniq hs) = {x}" by auto
    moreover have "card (set (uniq hs)) = length (uniq hs)" by (rule distinct_card) simp
    ultimately show "length (uniq hs) = 1" by simp
  qed
  then have "headReasons heads = [] \<longleftrightarrow> (\<exists>x. set hs = {x}) \<and> list_all sha hs"
    using JArr by (auto simp: headReasons_def)
  also have "\<dots> \<longleftrightarrow> (\<exists>x. set hs = {x} \<and> sha x)" by (auto simp: list_all_iff)
  also have "\<dots> \<longleftrightarrow> (\<exists>h. SHA h \<and> {JStr h} = set hs)"
    unfolding sha_iff by auto
  finally show ?thesis using JArr by (simp add: array_or_empty_def)
qed (auto simp: headReasons_def array_or_empty_def)

text \<open>A pull request is eligible exactly when CI settled, the check verdict is green at a well-formed
  head SHA, GitHub reports an accepted merge state, the PR is open, not a draft and carries no
  PARTIAL marker, and every head the caller collected is one and the same 40-hex SHA.\<close>

theorem sharedEligibility_iff:
  "el_eligible (sharedEligibility facts) \<longleftrightarrow>
     (let f = coalesce facts (JObj []); pr = prop_of f ''prView'' in
      prop_of f ''ciWaitState'' = JStr ''settled'' \<and>
      sha (prop_of f ''headSha'') \<and>
      isGreen (verdictAt (coalesce (prop_of f ''checkVerdict'') (JObj [])) (prop_of f ''headSha'')) \<and>
      to_upper (string_or_empty (prop_of pr ''mergeStateStatus'')) \<in> set ACCEPTED_STATES \<and>
      prop_of pr ''state'' = JStr ''OPEN'' \<and> prop_of pr ''isDraft'' = JBool False \<and>
      \<not> isPartial pr \<and>
      (\<exists>h. SHA h \<and> {JStr h} = set (array_or_empty (prop_of f ''heads''))))"
proof -
  have "isPartial (coalesce v (JObj [])) = isPartial v" for v
    by (cases "nullish v") (auto simp: nullish_def isPartial_def coalesce_def)
  then show ?thesis
    by (auto simp: sharedEligibility_def shared_reasons_def Let_def ciReasons_def prShapeReasons_def
        mergeStateReasons_Nil headReasons_Nil)
qed

lemma shared_reason_merge_state:
  "merge_state_reason state \<in> set SHARED_INELIGIBLE_REASONS \<Longrightarrow>
     merge_state_reason state \<in> set (map merge_state_reason MERGE_STATES)"
  by (auto simp: SHARED_INELIGIBLE_REASONS_def merge_state_reason_def)

lemma merge_state_unknown:
  "''merge-state-unknown'' \<in> set (map merge_state_reason MERGE_STATES)"
  by code_simp

lemma subseq_singleton: "subseq [x] ys \<longleftrightarrow> x \<in> set ys"
  by (induction ys) auto

lemma mergeStateReasons_subseq:
  "subseq (mergeStateReasons prView) (map merge_state_reason MERGE_STATES)"
  using shared_reason_merge_state merge_state_unknown
  by (auto simp: mergeStateReasons_def Let_def subseq_singleton simp del: set_map)

text \<open>Every reason the shared checks emit is one of the published reasons, and they are emitted in the
  published order with no repetition.\<close>

theorem sharedEligibility_reasons_published:
  "subseq (el_reasons (sharedEligibility facts)) SHARED_INELIGIBLE_REASONS"
proof -
  let ?f = "coalesce facts (JObj [])"
  have "subseq (ciReasons a b c) [''ci-not-settled'', ''ci-not-green-on-head'']" for a b c
    by (simp add: ciReasons_def)
  moreover have "subseq (prShapeReasons p) [''pr-not-open'', ''pr-draft'', ''partial-marker'']" for p
    by (simp add: prShapeReasons_def)
  moreover have "subseq (headReasons h) [''head-unknown'', ''head-mismatch'']" for h
    by (simp add: headReasons_def split: jsval.splits)
  ultimately have "subseq (shared_reasons facts)
     ([''ci-not-settled'', ''ci-not-green-on-head''] @ map merge_state_reason MERGE_STATES @
      [''pr-not-open'', ''pr-draft'', ''partial-marker''] @ [''head-unknown'', ''head-mismatch''])"
    unfolding shared_reasons_def Let_def
    by (intro list_emb_append_mono mergeStateReasons_subseq)
  then show ?thesis by (simp add: sharedEligibility_def SHARED_INELIGIBLE_REASONS_def Let_def)
qed

section \<open>The boss filter\<close>

lemma isEnvelope_iff: "isEnvelope v \<longleftrightarrow> envelopeArray v \<noteq> None"
  by (auto simp: isEnvelope_def envelopeArray_def ENVELOPE_KEYS_def is_array_def split: jsval.splits)

definition filtered :: "jsval \<Rightarrow> jsval" where
  "filtered x = (case x of JArr xs \<Rightarrow> JArr (filter keeps xs) | _ \<Rightarrow> x)"

lemma prop_of_filter_key:
  "prop_of (filter_key v k) j = (if j = k then filtered (prop_of v k) else prop_of v j)"
  by (cases "prop_of v k") (simp_all add: filter_key_def filtered_def)

lemma plain_filter_key [simp]: "is_plain_object v \<Longrightarrow> is_plain_object (filter_key v k)"
  by (simp add: filter_key_def set_prop_def is_plain_object_def split: jsval.splits)

lemma prop_of_filterEnvelope:
  "k \<in> set ENVELOPE_KEYS \<Longrightarrow> prop_of (filterEnvelope v) k = filtered (prop_of v k)"
  by (auto simp: filterEnvelope_def ENVELOPE_KEYS_def prop_of_filter_key)

lemma first_array_filtered:
  "(\<And>k. k \<in> set ks \<Longrightarrow> prop_of w k = filtered (prop_of v k)) \<Longrightarrow>
     first_array w ks = map_option (filter keeps) (first_array v ks)"
proof (induction ks)
  case (Cons k ks)
  then have "prop_of w k = filtered (prop_of v k)" by simp
  with Cons show ?case by (cases "prop_of v k") (simp_all add: filtered_def)
qed simp

lemma plain_filterEnvelope: "is_plain_object v \<Longrightarrow> is_plain_object (filterEnvelope v)"
  by (simp add: filterEnvelope_def ENVELOPE_KEYS_def)

lemma envelopeArray_filter:
  "isEnvelope v \<Longrightarrow> envelopeArray (filterEnvelope v) = map_option (filter keeps) (envelopeArray v)"
  using first_array_filtered[of ENVELOPE_KEYS "filterEnvelope v" v] prop_of_filterEnvelope[of _ v]
    plain_filterEnvelope[of v]
  by (simp add: envelopeArray_def isEnvelope_def)

lemma asArray_plain:
  "is_plain_object v \<Longrightarrow> asArray v = (case envelopeArray v of Some ys \<Rightarrow> ys | None \<Rightarrow> [])"
  by (cases v) (simp_all add: asArray_def is_plain_object_def)

definition drop_page :: "jsval \<Rightarrow> jsval" where
  "drop_page page = (if isEnvelope page then filterEnvelope page else page)"

lemma envelopeArray_drop_page:
  "envelopeArray (drop_page v) = map_option (filter keeps) (envelopeArray v)"
  using envelopeArray_filter[of v] isEnvelope_iff[of v] by (auto simp: drop_page_def)

lemma dropBossContexts_simps:
  "dropBossContexts (JArr xs) =
     (if list_ex isEnvelope xs then JArr (map drop_page xs) else JArr (filter keeps xs))"
  "is_plain_object v \<Longrightarrow> dropBossContexts v = drop_page v"
  by (cases v; simp add: dropBossContexts_def drop_page_def is_plain_object_def cong: map_cong)+

lemma asArray_simps:
  "asArray (JArr xs) =
     (if list_ex isEnvelope xs
      then concat (map (\<lambda>page. case envelopeArray page of Some ys \<Rightarrow> ys | None \<Rightarrow> []) xs) else xs)"
  by (simp add: asArray_def isEnvelope_iff[abs_def])

lemma isEnvelope_drop_page [simp]: "isEnvelope (drop_page v) = isEnvelope v"
  by (simp add: isEnvelope_iff envelopeArray_drop_page)

lemma asArray_drop: "asArray (dropBossContexts p) = filter keeps (asArray p)"
proof (cases p)
  case (JArr xs)
  have ex: "list_ex isEnvelope (map drop_page xs) = list_ex isEnvelope xs" for xs
    by (induction xs) simp_all
  have page: "(case envelopeArray (drop_page x) of Some ys \<Rightarrow> ys | None \<Rightarrow> []) =
      filter keeps (case envelopeArray x of Some ys \<Rightarrow> ys | None \<Rightarrow> [])" for x
    by (simp add: envelopeArray_drop_page split: option.splits)
  have cc: "concat (map (\<lambda>page. case envelopeArray page of Some ys \<Rightarrow> ys | None \<Rightarrow> []) (map drop_page xs)) =
      filter keeps (concat (map (\<lambda>page. case envelopeArray page of Some ys \<Rightarrow> ys | None \<Rightarrow> []) xs))" for xs
    by (induction xs) (simp_all only: list.map concat.simps filter_append page filter.simps)
  show ?thesis
  proof (cases "list_ex isEnvelope xs")
    case True
    then show ?thesis
      unfolding JArr by (simp only: dropBossContexts_simps asArray_simps ex cc if_True)
  next
    case False
    then have "list_ex isEnvelope (filter keeps xs) = False" by (auto simp: list_ex_iff)
    with False show ?thesis
      unfolding JArr by (simp only: dropBossContexts_simps asArray_simps if_False)
  qed
next
  case (JObj kvs)
  then have plain: "is_plain_object p" by (simp add: is_plain_object_def)
  then have "is_plain_object (drop_page p)" by (simp add: drop_page_def plain_filterEnvelope)
  with plain show ?thesis
    by (simp add: dropBossContexts_simps(2) asArray_plain envelopeArray_drop_page split: option.splits)
qed (simp_all add: dropBossContexts_def asArray_def isEnvelope_def is_plain_object_def envelopeArray_def)


definition boss_named :: "entry \<Rightarrow> bool" where
  "boss_named e \<longleftrightarrow> starts_with (ename e) BOSS_PREFIX"

lemma nameOf_contextName: "nameOf n \<noteq> [] \<Longrightarrow> contextName n = nameOf n"
  by (cases n) (simp_all add: contextName_def nameOf_def)

lemma normalize_filter:
  "filter (\<lambda>e. ename e \<noteq> []) (map (\<lambda>n. raw_entry n (c n)) (filter keeps ns)) =
   filter (\<lambda>e. \<not> boss_named e) (filter (\<lambda>e. ename e \<noteq> []) (map (\<lambda>n. raw_entry n (c n)) ns))"
proof (induction ns)
  case (Cons n ns)
  have "ename (raw_entry n x) = nameOf n" for x by (simp add: raw_entry_def)
  moreover have "keeps n \<longleftrightarrow> \<not> boss_named (raw_entry n x)" if "nameOf n \<noteq> []" for x
    using nameOf_contextName[OF that] by (simp add: keeps_def boss_named_def raw_entry_def)
  ultimately show ?case using Cons by auto
qed simp

lemma normalizers_drop:
  "normalizeRollup (dropBossContexts p) = filter (\<lambda>e. \<not> boss_named e) (normalizeRollup p)"
  "normalizeCheckRuns (dropBossContexts p) = filter (\<lambda>e. \<not> boss_named e) (normalizeCheckRuns p)"
  by (simp_all only: normalizeRollup_def normalizeCheckRuns_def asArray_drop normalize_filter)

text \<open>What the head reports, read without the filter.\<close>

definition reported :: "jsval \<Rightarrow> entry list" where
  "reported options =
     normalizeRollup (prop_of options ''rollup'') @ normalizeCheckRuns (prop_of options ''checkRuns'')"

lemma normalize_default:
  "normalizeRollup (if v = JUndef then JNull else v) = normalizeRollup v"
  "normalizeCheckRuns (if v = JUndef then JNull else v) = normalizeCheckRuns v"
  by (simp_all add: normalizeRollup_def normalizeCheckRuns_def asArray_def envelopeArray_def is_plain_object_def)

lemma head_readings_judged:
  "head_readings (judged_options options) = filter (\<lambda>e. \<not> boss_named e) (reported options)"
proof -
  have "normalizeBuckets JNull = []" by (simp add: normalizeBuckets_def asArray_def envelopeArray_def is_plain_object_def)
  then show ?thesis
    by (simp add: head_readings_def judged_options_def opt_default_def Let_def normalize_default
        normalizers_drop reported_def)
qed

lemma boss_not_provenance: "\<not> boss_named e \<Longrightarrow> ename e \<notin> set PROVENANCE_CONTEXTS"
  by (auto simp: boss_named_def PROVENANCE_CONTEXTS_def BOSS_PREFIX_def starts_with_def)

lemma gate_readings_judged:
  "gate_readings (judged_options options) = filter (\<lambda>e. \<not> boss_named e) (reported options)"
  using boss_not_provenance
  by (auto simp: gate_readings_def head_readings_judged intro!: filter_cong)

text \<open>C21:
  CI is judged green on the head only with proof from real gates: the head is a well-formed SHA, it is
  the very SHA the checks were observed on, no reported context outside \<open>boss/*\<close> failed, and at
  least one context outside \<open>boss/*\<close> passed; the pipeline's own receipts never count.\<close>

theorem judgeCiOnHead_green_sound:
  assumes "judgeCiOnHead options = Inr j" "j_green j"
  shows "sha (prop_of options ''headSHA'') \<and>
    prop_of options ''headSHA'' = prop_of options ''observedSHA'' \<and>
    Failed \<notin> classifyEntry ` {e \<in> set (reported options). \<not> boss_named e} \<and>
    Passed \<in> classifyEntry ` {e \<in> set (reported options). \<not> boss_named e} \<and> j_settled j"
proof -
  let ?o = "judged_options options"
  obtain v where v: "classifyChecks ?o = Inr v" and j: "j_verdict j = v"
      "j_settled j = (v_state v \<noteq> PENDING)"
    and g: "sha (prop_of options ''headSHA'')"
      "prop_of options ''headSHA'' = prop_of options ''observedSHA''" "v_state v = GREEN" "0 < v_passed v"
    using assms by (auto simp: judgeCiOnHead_def split: sum.splits)
  have gates: "set (gate_readings ?o) = {e \<in> set (reported options). \<not> boss_named e}"
    by (simp add: gate_readings_judged)
  have d: "decide ?o (check_facts_of ?o) = (GREEN, v_reason v)"
    using classify_fields(1)[OF v] g(3) by simp
  have "count_kind Failed (f_head (check_facts_of ?o)) = 0" by (rule decide_GREEN(3)[OF d])
  then have nf: "Failed \<notin> classifyEntry ` set (gate_readings ?o)"
    using head_failed_iff[of ?o] by auto
  have "0 < count_kind Passed (f_head (check_facts_of ?o))"
    using g(4) classify_fields(3)[OF v] by simp
  then obtain e where e: "e \<in> set (f_head (check_facts_of ?o))" "ekind e = Some Passed"
    by (auto simp: count_kind_pos)
  from f_head_kind(2)[OF e(1)] e(2) have "Passed \<in> classifyEntry ` set (gate_readings ?o)"
    by (metis option.inject image_eqI)
  then show ?thesis using nf g j gates by simp
qed

definition judged_example :: jsval where
  "judged_example = JObj
     [(''headSHA'', JStr ''0123456789abcdef0123456789abcdef01234567''),
      (''observedSHA'', JStr ''0123456789abcdef0123456789abcdef01234567''),
      (''rollup'', JArr
        [JObj [(''context'', JStr ''boss/verify''), (''state'', JStr ''FAILURE'')],
         JObj [(''name'', JStr ''go-test''), (''status'', JStr ''COMPLETED''),
               (''conclusion'', JStr ''SUCCESS'')]])]"

lemma judged_example_run:
  "judgeCiOnHead judged_example = Inr (projr (judgeCiOnHead judged_example))"
  "j_green (projr (judgeCiOnHead judged_example))"
  by code_simp+

theorem judgeCiOnHead_green_sound_witness:
  "Passed \<in> classifyEntry ` {e \<in> set (reported judged_example). \<not> boss_named e}"
  using judgeCiOnHead_green_sound[OF judged_example_run] by blast


section \<open>The section map\<close>

text \<open>The headings a body shows: the normalised \<open>##\<close> headings outside every fence, in order.\<close>

definition show_step :: "string option \<times> string list \<Rightarrow> string \<Rightarrow> string option \<times> string list" where
  "show_step = (\<lambda>(fence, hs) line.
     case fence_marker line of
       Some m \<Rightarrow> (case fence of None \<Rightarrow> (Some m, hs)
                  | Some f \<Rightarrow> (if close_fence m f line then None else Some f, hs))
     | None \<Rightarrow> (if fence \<noteq> None then (fence, hs)
                else case heading_text line of
                    Some h \<Rightarrow> (None, hs @ [to_lower (trim h)]) | None \<Rightarrow> (None, hs)))"

definition shown_headings :: "string \<Rightarrow> string list" where
  "shown_headings body = snd (foldl show_step (None, []) (split_lines body))"

definition shape_ok :: "string list \<Rightarrow> string list option dict \<Rightarrow> bool" where
  "shape_ok hs result \<longleftrightarrow>
     (\<forall>h. case map_of result h of
            None \<Rightarrow> count_list hs h = 0
          | Some (Some _) \<Rightarrow> count_list hs h = 1
          | Some None \<Rightarrow> 2 \<le> count_list hs h)"

lemma shape_ok_heading:
  assumes "shape_ok hs r"
  shows "shape_ok (hs @ [c]) (AList.update c (if map_of r c \<noteq> None then None else Some []) r)"
  unfolding shape_ok_def
proof (rule allI)
  fix h
  have "case map_of r h of None \<Rightarrow> count_list hs h = 0 | Some (Some _) \<Rightarrow> count_list hs h = 1
          | Some None \<Rightarrow> 2 \<le> count_list hs h"
    using assms unfolding shape_ok_def by blast
  then show "case map_of (AList.update c (if map_of r c \<noteq> None then None else Some []) r) h of
      None \<Rightarrow> count_list (hs @ [c]) h = 0 | Some (Some _) \<Rightarrow> count_list (hs @ [c]) h = 1
    | Some None \<Rightarrow> 2 \<le> count_list (hs @ [c]) h"
    by (auto simp: update_conv' split: option.splits if_splits)
qed

lemma shape_ok_line:
  assumes "shape_ok hs r" "map_of r c = Some (Some ls)"
  shows "shape_ok hs (AList.update c (Some ls') r)"
proof -
  have "count_list hs c = 1" using assms unfolding shape_ok_def
    by (metis (mono_tags, lifting) option.simps(5))
  with assms(1) show ?thesis by (simp add: shape_ok_def update_conv')
qed

lemma scan_line_shape:
  assumes "ss_fence st = fst vs" "shape_ok (snd vs) (ss_result st)"
  shows "ss_fence (scan_line st l) = fst (show_step vs l) \<and>
    shape_ok (snd (show_step vs l)) (ss_result (scan_line st l))"
proof (cases "fence_marker l")
  case (Some m)
  with assms show ?thesis
    by (cases vs) (simp add: scan_line_def show_step_def split: option.splits)
next
  case None
  show ?thesis
  proof (cases "fst vs = None \<and> heading_text l \<noteq> None")
    case True
    then obtain h where h: "fst vs = None" "heading_text l = Some h" by auto
    from shape_ok_heading[OF assms(2), of "to_lower (trim h)"] None assms h show ?thesis
      by (cases vs) (simp add: scan_line_def show_step_def Let_def)
  next
    case False
    with None assms show ?thesis
      by (cases vs) (auto simp: scan_line_def show_step_def shape_ok_line split: option.splits)
  qed
qed

lemma scan_lines_shape:
  "ss_fence st = fst vs \<Longrightarrow> shape_ok (snd vs) (ss_result st) \<Longrightarrow>
     shape_ok (snd (foldl show_step vs ls)) (ss_result (foldl scan_line st ls))"
proof (induction ls arbitrary: st vs)
  case (Cons l ls)
  from scan_line_shape[OF Cons.prems] Cons.IH show ?case by simp
qed simp

text \<open>The body reader decides a section exactly when its heading shows once: a heading inside a fence is
  not read, and a heading that shows twice is \<open>null\<close>, so no copy of it is taken over another.\<close>

theorem sections_shape:
  "case map_of (sections (JStr body)) h of
     None \<Rightarrow> count_list (shown_headings body) h = 0
   | Some (Some _) \<Rightarrow> count_list (shown_headings body) h = 1
   | Some None \<Rightarrow> 2 \<le> count_list (shown_headings body) h"
proof -
  have "shape_ok (shown_headings body) (sections (JStr body))"
    unfolding sections_def shown_headings_def jsval.case
    by (rule scan_lines_shape) (simp_all add: shape_ok_def)
  then show ?thesis unfolding shape_ok_def by blast
qed

text \<open>A merge command exists only pinned: \<open>mergeArgv\<close> answers exactly on a session id that is not blank and
  a 40-hex head SHA, and the command it answers always carries \<open>--match-head\<close> with that SHA.\<close>

theorem mergeArgv_pinned:
  "mergeArgv args = Inr argv \<longleftrightarrow>
     (\<exists>s h. prop_of args ''sessionId'' = JStr s \<and> trim s \<noteq> [] \<and>
        prop_of args ''headSha'' = JStr h \<and> SHA h \<and>
        argv = [''merge'', s, ''--yes'', ''--json'', ''--match-head'', h])"
  by (cases "prop_of args ''sessionId''"; cases "prop_of args ''headSha''")
    (auto simp: mergeArgv_def sha_def string_or_empty_def)

text \<open>Concrete readings of the marker.\<close>

definition partial_body :: jsval where
  "partial_body = JStr (''## Partial'' @ [CHR 0x0A, CHR 0x0A] @ ''Do not merge '' @
     [CHR 0xE2, CHR 0x80, CHR 0x94] @ '' partial: 2/5 done'')"

lemma partial_body_marked:
  "isPartial (JObj [(''title'', JStr ''x''), (''body'', partial_body)])"
  "isPartial (JObj [(''title'', JStr ''feat (partial 1 / 3)'')])"
  "\<not> isPartial (JObj [(''title'', JStr ''feat (partial)'')])"
  by code_simp+

end
