(* ===== verification/Selection.thy ===== *)
theory Selection
  imports JsRegex "HOL-Library.Multiset"
begin

text \<open>
  Model of \<open>skills-toolbox/selection.mjs\<close>: the candidate-selection vocabulary every pipeline stage
  reads. A selection block is the raw configuration value (\<open>jsval\<close>); the two-level object
  \<open>{dimension: {polarity: [..]}}\<close> that the module computes is the function \<open>selection\<close>, and the flags
  parsed from a command line are an association list keyed by slot. The entries of a slot are
  strings, which is what \<open>validateSelectionBlock\<close> demands before anything reads a block. The prose of
  an error or a reason is a constructor carrying the values it names.
\<close>

section \<open>Vocabulary\<close>

datatype dimension = Labels | Assignees | Creators | Projects
datatype polarity = Include | Exclude

fun dim_key :: "dimension \<Rightarrow> string" where
  "dim_key Labels = ''labels''"
| "dim_key Assignees = ''assignees''"
| "dim_key Creators = ''creators''"
| "dim_key Projects = ''projects''"

fun pol_key :: "polarity \<Rightarrow> string" where
  "pol_key Include = ''include''"
| "pol_key Exclude = ''exclude''"

definition SELECTION_DIMENSIONS :: "dimension list" where
  "SELECTION_DIMENSIONS = [Labels, Assignees, Creators, Projects]"

definition SELECTION_POLARITIES :: "polarity list" where
  "SELECTION_POLARITIES = [Include, Exclude]"

definition SELECTION_STAGES :: "string list" where
  "SELECTION_STAGES = [''plan'', ''build'', ''epic'', ''verify'', ''retro'', ''release'']"

definition USER_DIMENSIONS :: "dimension list" where
  "USER_DIMENSIONS = [Assignees, Creators]"

type_synonym slot = "dimension \<times> polarity"
type_synonym selection = "dimension \<Rightarrow> polarity \<Rightarrow> string list"
type_synonym flags = "(slot \<times> string list) list"

definition SELECTION_FLAGS :: "slot dict" where
  "SELECTION_FLAGS =
     [(''--label'', (Labels, Include)), (''--exclude-label'', (Labels, Exclude)),
      (''--assignee'', (Assignees, Include)), (''--exclude-assignee'', (Assignees, Exclude)),
      (''--creator'', (Creators, Include)), (''--exclude-creator'', (Creators, Exclude)),
      (''--project'', (Projects, Include)), (''--exclude-project'', (Projects, Exclude))]"

definition STAGE_LABEL_ROLES :: "string list dict" where
  "STAGE_LABEL_ROLES = [(''plan'', [''agentPlan'']), (''build'', [''agentBuild'']), (''epic'', []),
     (''verify'', []), (''retro'', []), (''release'', [])]"

definition hex_digit :: rx where
  "hex_digit = RSet (\<lambda>c. is_digit c \<or> lower_char c \<in> set ''abcdef'')"

primrec RTimes :: "nat \<Rightarrow> rx \<Rightarrow> rx" where
  "RTimes 0 r = REps"
| "RTimes (Suc n) r = RSeq r (RTimes n r)"

definition UUID_RE :: rx where
  "UUID_RE = RSeqs [RTimes 8 hex_digit, RLit ''-'', RTimes 4 hex_digit, RLit ''-'', RTimes 4 hex_digit,
     RLit ''-'', RTimes 4 hex_digit, RLit ''-'', RTimes 12 hex_digit, REnd]"

text \<open>\<open>[^\s@]\<close>.\<close>

definition email_char :: rx where
  "email_char = RSet (\<lambda>c. \<not> is_ws c \<and> c \<noteq> CHR ''@'')"

definition EMAIL_RE :: rx where
  "EMAIL_RE = RSeqs [RPlus email_char, RLit ''@'', RPlus email_char, RLit ''.'', RPlus email_char, REnd]"

definition isTrackerId :: "string \<Rightarrow> bool" where
  "isTrackerId v = rx_at_start UUID_RE v"

definition isUserSelector :: "string \<Rightarrow> bool" where
  "isUserSelector v = (v = ''me'' \<or> isTrackerId v \<or> rx_at_start EMAIL_RE v)"

definition stageLabelRoles :: "string \<Rightarrow> string list option" where
  "stageLabelRoles stage = map_of STAGE_LABEL_ROLES stage"

section \<open>Validation\<close>

datatype sel_error =
    Labels_array_removed string
  | Dimension_not_object string
  | Unknown_polarity string string
  | Slot_not_array string string
  | Blank_entry string string jsval
  | Not_a_user_selector string string string
  | AssigneeOrCreator_removed string
  | Unknown_key string string
  | Stages_not_object string
  | Unknown_stage string string
  | Stage_not_object string string
  | Selection_not_object string

definition entry_errors :: "string \<Rightarrow> dimension \<Rightarrow> string \<Rightarrow> jsval \<Rightarrow> sel_error list" where
  "entry_errors path d key e =
     (if \<not> is_nonempty_string e then [Blank_entry path key e]
      else if d \<in> set USER_DIMENSIONS \<and> \<not> isUserSelector (string_or_empty e)
      then [Not_a_user_selector path key (string_or_empty e)] else [])"

definition slot_errors :: "string \<Rightarrow> dimension \<Rightarrow> string \<times> jsval \<Rightarrow> sel_error list" where
  "slot_errors path d = (\<lambda>(key, v).
     if key \<notin> set (map pol_key SELECTION_POLARITIES) then [Unknown_polarity path key]
     else case v of
         JArr es \<Rightarrow> concat (map (entry_errors path d key) es)
       | _ \<Rightarrow> [Slot_not_array path key])"

definition validateDimension :: "jsval \<Rightarrow> string \<Rightarrow> dimension \<Rightarrow> sel_error list" where
  "validateDimension v path d =
     (if d = Labels \<and> is_array v then [Labels_array_removed path]
      else if \<not> is_plain_object v then [Dimension_not_object path]
      else concat (map (slot_errors path d) (entries_of v)))"

definition dot_path :: "string \<Rightarrow> string \<Rightarrow> string" where
  "dot_path p k = p @ ''.'' @ k"

text \<open>\<open>validateDimensions\<close> and \<open>validateStages\<close> call each other one level deep: a stage block allows
  no \<open>stages\<close> key, which \<open>stage_keys\<close> is.\<close>

definition dimension_of :: "string \<Rightarrow> dimension option" where
  "dimension_of k = map_of (map (\<lambda>d. (dim_key d, d)) SELECTION_DIMENSIONS) k"

definition stage_key_errors :: "string \<Rightarrow> string \<times> jsval \<Rightarrow> sel_error list" where
  "stage_key_errors path = (\<lambda>(key, v).
     case dimension_of key of
       Some d \<Rightarrow> validateDimension v (dot_path path key) d
     | None \<Rightarrow> if key = ''assigneeOrCreator'' then [AssigneeOrCreator_removed path]
               else [Unknown_key path key])"

definition stage_errors :: "string \<Rightarrow> string \<times> jsval \<Rightarrow> sel_error list" where
  "stage_errors path = (\<lambda>(stage, block).
     if stage \<notin> set SELECTION_STAGES then [Unknown_stage path stage]
     else if \<not> is_plain_object block then [Stage_not_object path stage]
     else concat (map (stage_key_errors (dot_path path stage)) (entries_of block)))"

definition validateStages :: "jsval \<Rightarrow> string \<Rightarrow> sel_error list" where
  "validateStages stages path =
     (if \<not> is_plain_object stages then [Stages_not_object path]
      else concat (map (stage_errors path) (entries_of stages)))"

definition block_key_errors :: "string \<Rightarrow> string \<times> jsval \<Rightarrow> sel_error list" where
  "block_key_errors path = (\<lambda>(key, v).
     if dimension_of key = None \<and> key = ''stages'' then validateStages v (dot_path path ''stages'')
     else stage_key_errors path (key, v))"

definition validateSelectionBlock :: "jsval \<Rightarrow> string \<Rightarrow> sel_error list" where
  "validateSelectionBlock block path =
     (if \<not> is_plain_object block then [Selection_not_object path]
      else concat (map (block_key_errors path) (entries_of block)))"

section \<open>The shared flags\<close>

datatype flag_error = Flag_value_missing string | Flag_empty_entry string string

definition flag_slot :: "string \<Rightarrow> slot option" where
  "flag_slot name = map_of SELECTION_FLAGS name"

text \<open>A token before and after its first \<open>=\<close>; only a token that starts with \<open>--\<close> is split.\<close>

definition flag_name :: "string \<Rightarrow> string" where
  "flag_name token =
     (if starts_with token ''--'' \<and> CHR ''='' \<in> set token
      then takeWhile (\<lambda>c. c \<noteq> CHR ''='') token else token)"

definition inline_value :: "string \<Rightarrow> string option" where
  "inline_value token =
     (if starts_with token ''--'' \<and> CHR ''='' \<in> set token
      then Some (tl (dropWhile (\<lambda>c. c \<noteq> CHR ''='') token)) else None)"

definition flag_entries :: "string \<Rightarrow> string \<Rightarrow> flag_error + string list" where
  "flag_entries name v =
     (if trim v = [] then Inl (Flag_value_missing name)
      else let entries = map trim (split_on (CHR '','') v) in
        if [] \<in> set entries then Inl (Flag_empty_entry name v) else Inr entries)"

text \<open>\<open>flags[d][p] ??= []\<close>, then each entry is pushed unless it is there.\<close>

definition slot_values :: "flags \<Rightarrow> slot \<Rightarrow> string list" where
  "slot_values fl s = (case map_of fl s of Some vs \<Rightarrow> vs | None \<Rightarrow> [])"

definition add_entries :: "flags \<Rightarrow> slot \<Rightarrow> string list \<Rightarrow> flags" where
  "add_entries fl s entries = AList.update s (foldl add_id (slot_values fl s) entries) fl"

fun parse_flags ::
  "string list \<Rightarrow> flags \<Rightarrow> string list \<Rightarrow> flag_error + (flags \<times> string list)" where
  "parse_flags [] fl pos = Inr (fl, pos)"
| "parse_flags (token # rest) fl pos =
     (case flag_slot (flag_name token) of
        None \<Rightarrow> parse_flags rest fl (pos @ [token])
      | Some s \<Rightarrow>
          (case inline_value token of
             Some v \<Rightarrow>
               (case flag_entries (flag_name token) v of
                  Inl e \<Rightarrow> Inl e
                | Inr entries \<Rightarrow> parse_flags rest (add_entries fl s entries) pos)
           | None \<Rightarrow>
               (case rest of
                  [] \<Rightarrow> Inl (Flag_value_missing (flag_name token))
                | v # rest' \<Rightarrow>
                    if starts_with v ''--'' then Inl (Flag_value_missing (flag_name token))
                    else (case flag_entries (flag_name token) v of
                        Inl e \<Rightarrow> Inl e
                      | Inr entries \<Rightarrow> parse_flags rest' (add_entries fl s entries) pos))))"

definition parseSelectionFlags :: "string list \<Rightarrow> flag_error + (flags \<times> string list)" where
  "parseSelectionFlags argv = parse_flags argv [] []"

definition hasSelectionFlags :: "flags \<Rightarrow> bool" where
  "hasSelectionFlags fl =
     list_ex (\<lambda>d. list_ex (\<lambda>((d', _), _). d' = d) fl) SELECTION_DIMENSIONS"

section \<open>The effective selection\<close>

definition strings_of :: "jsval \<Rightarrow> string list" where
  "strings_of v = map string_or_empty (array_or_empty v)"

definition block_slot :: "jsval \<Rightarrow> dimension \<Rightarrow> polarity \<Rightarrow> jsval" where
  "block_slot block d p = prop_of (prop_of block (dim_key d)) (pol_key p)"

definition effective_slot :: "jsval \<Rightarrow> string \<Rightarrow> flags \<Rightarrow> selection" where
  "effective_slot block stage fl d p =
     (case map_of fl (d, p) of
        Some vs \<Rightarrow> vs
      | None \<Rightarrow> strings_of (coalesce (block_slot (prop_of (prop_of block ''stages'') stage) d p)
                  (block_slot block d p)))"

definition effectiveSelection :: "jsval \<Rightarrow> string \<Rightarrow> flags \<Rightarrow> selection option" where
  "effectiveSelection block stage fl =
     (case stageLabelRoles stage of None \<Rightarrow> None | Some _ \<Rightarrow> Some (effective_slot block stage fl))"

definition no_selection :: selection where
  "no_selection d p = []"

datatype assert_error =
    Effective_not_object
  | Effective_unknown_dimension string
  | Effective_dimension_not_object string
  | Effective_unknown_slot string string
  | Effective_bad_values string string

definition slot_fault :: "string \<Rightarrow> string \<times> jsval \<Rightarrow> assert_error option" where
  "slot_fault d = (\<lambda>(p, vs).
     if p \<notin> set (map pol_key SELECTION_POLARITIES) then Some (Effective_unknown_slot d p)
     else case vs of
         JArr xs \<Rightarrow> if list_all is_nonempty_string xs then None else Some (Effective_bad_values d p)
       | _ \<Rightarrow> Some (Effective_bad_values d p))"

fun first_fault :: "('a \<Rightarrow> 'e option) \<Rightarrow> 'a list \<Rightarrow> 'e option" where
  "first_fault f [] = None"
| "first_fault f (x # xs) = (case f x of Some e \<Rightarrow> Some e | None \<Rightarrow> first_fault f xs)"

definition dimension_fault :: "string \<times> jsval \<Rightarrow> assert_error option" where
  "dimension_fault = (\<lambda>(d, slots).
     if dimension_of d = None then Some (Effective_unknown_dimension d)
     else if \<not> is_plain_object slots then Some (Effective_dimension_not_object d)
     else first_fault (slot_fault d) (entries_of slots))"

definition assertEffectiveSelection :: "jsval \<Rightarrow> assert_error + selection" where
  "assertEffectiveSelection sel =
     (if nullish sel then Inr no_selection
      else if \<not> is_plain_object sel then Inl Effective_not_object
      else case first_fault dimension_fault (entries_of sel) of
          Some e \<Rightarrow> Inl e
        | None \<Rightarrow> Inr (effective_slot sel ''epic'' []))"

definition selectionSlots :: "selection \<Rightarrow> (slot \<times> string list) list" where
  "selectionSlots sel =
     concat (map (\<lambda>d. concat (map (\<lambda>p. if sel d p \<noteq> [] then [((d, p), sel d p)] else [])
       SELECTION_POLARITIES)) SELECTION_DIMENSIONS)"

definition isNarrowed :: "selection \<Rightarrow> bool" where
  "isNarrowed sel = (selectionSlots sel \<noteq> [])"

record resolution_refs =
  rr_users :: "string list"
  rr_labels :: "string list"
  rr_projects :: "string list"

definition collect_refs :: "selection \<Rightarrow> dimension list \<Rightarrow> string list" where
  "collect_refs sel ds =
     foldl add_id [] (concat (map (\<lambda>d. concat (map (sel d) SELECTION_POLARITIES)) ds))"

definition selectionResolutionRefs :: "selection \<Rightarrow> resolution_refs" where
  "selectionResolutionRefs sel =
     \<lparr> rr_users = collect_refs sel [Assignees, Creators], rr_labels = collect_refs sel [Labels],
       rr_projects = collect_refs sel [Projects] \<rparr>"

definition hasResolutionRefs :: "resolution_refs \<Rightarrow> bool" where
  "hasResolutionRefs r = (rr_users r \<noteq> [] \<or> rr_labels r \<noteq> [] \<or> rr_projects r \<noteq> [])"

section \<open>Resolution\<close>

definition nonempty_string :: "jsval \<Rightarrow> bool" where
  "nonempty_string v = (case v of JStr s \<Rightarrow> s \<noteq> [] | _ \<Rightarrow> False)"

definition lookup_ref :: "jsval \<Rightarrow> string \<Rightarrow> string list option" where
  "lookup_ref m v =
     (case prop_of m v of
        JStr s \<Rightarrow> if s \<noteq> [] then Some [s] else None
      | JArr xs \<Rightarrow> if xs \<noteq> [] \<and> list_all nonempty_string xs then Some (map string_or_empty xs) else None
      | _ \<Rightarrow> None)"

fun ref_kind :: "dimension \<Rightarrow> string" where
  "ref_kind Labels = ''labels''"
| "ref_kind Projects = ''projects''"
| "ref_kind Assignees = ''users''"
| "ref_kind Creators = ''users''"

definition resolved_slot :: "selection \<Rightarrow> jsval \<Rightarrow> selection" where
  "resolved_slot sel resolved d p =
     foldl add_id [] (concat (map (\<lambda>v. case lookup_ref (prop_of resolved (ref_kind d)) v of
         Some vs \<Rightarrow> vs | None \<Rightarrow> []) (sel d p)))"

definition missing_refs :: "selection \<Rightarrow> jsval \<Rightarrow> (string \<times> string) list" where
  "missing_refs sel resolved =
     concat (map (\<lambda>((d, p), vs). map (\<lambda>v. (ref_kind d, v))
         (filter (\<lambda>v. lookup_ref (prop_of resolved (ref_kind d)) v = None) vs)) (selectionSlots sel))"

definition applyResolution :: "selection \<Rightarrow> jsval \<Rightarrow> (string \<times> string) list + selection" where
  "applyResolution sel resolved =
     (if missing_refs sel resolved \<noteq> [] then Inl (missing_refs sel resolved)
      else Inr (resolved_slot sel resolved))"

section \<open>The rendered filter\<close>

datatype relation = Assignee | Creator | Project

fun relation_dim :: "relation \<Rightarrow> dimension" where
  "relation_dim Assignee = Assignees"
| "relation_dim Creator = Creators"
| "relation_dim Project = Projects"

definition RELATIONS :: "relation list" where
  "RELATIONS = [Assignee, Creator, Project]"

datatype clause =
    Label_some_eq string
  | Label_some_in "string list"
  | Label_every_nin "string list"
  | Relation_in relation "string list"
  | Relation_null relation
  | Relation_nin relation "string list"
  | Any_of "clause list"

record issue_filter =
  if_state :: "string option"
  if_team :: "string option"
  if_and :: "clause list"

definition relation_clauses :: "selection \<Rightarrow> relation \<Rightarrow> clause list" where
  "relation_clauses sel r =
     (let inc = sel (relation_dim r) Include; exc = sel (relation_dim r) Exclude in
      (if inc \<noteq> [] then [Relation_in r inc] else []) @
      (if exc \<noteq> [] then [Any_of [Relation_null r, Relation_nin r exc]] else []))"

definition renderLinearIssueFilter ::
  "selection \<Rightarrow> string option \<Rightarrow> string option \<Rightarrow> string list \<Rightarrow> string list \<Rightarrow> issue_filter" where
  "renderLinearIssueFilter sel state team requireLabels excludeLabels =
     (let inc = sel Labels Include; exc = uniq (excludeLabels @ sel Labels Exclude);
          nonempty = (\<lambda>v. case v of Some s \<Rightarrow> if s \<noteq> [] then Some s else None | None \<Rightarrow> None)
      in \<lparr> if_state = nonempty state, if_team = nonempty team,
           if_and = map Label_some_eq requireLabels @
             (if inc \<noteq> [] then [Label_some_in inc] else []) @
             (if exc \<noteq> [] then [Label_every_nin exc] else []) @
             concat (map (relation_clauses sel) RELATIONS) \<rparr>)"

section \<open>Matching a fetched issue\<close>

text \<open>The first flat key that is not \<open>undefined\<close>, else the relation object; the result is
  \<open>undefined\<close> when the issue does not carry the field and \<open>null\<close> when it is empty.\<close>

fun flat_value :: "jsval \<Rightarrow> string list \<Rightarrow> jsval" where
  "flat_value issue [] = JUndef"
| "flat_value issue (k # ks) =
     (if prop_of issue k \<noteq> JUndef then prop_of issue k else flat_value issue ks)"

definition relationId :: "jsval \<Rightarrow> string list \<Rightarrow> string \<Rightarrow> jsval" where
  "relationId issue flatKeys objectKey =
     (if flat_value issue flatKeys \<noteq> JUndef then flat_value issue flatKeys
      else let value = prop_of issue objectKey in
        if value = JNull then JNull
        else if is_plain_object value
        then (if is_string (prop_of value ''id'') then prop_of value ''id'' else JUndef)
        else JUndef)"

fun read_relation :: "relation \<Rightarrow> jsval \<Rightarrow> jsval" where
  "read_relation Assignee i = relationId i [''assigneeId''] ''assignee''"
| "read_relation Creator i = relationId i [''creatorId'', ''createdById''] ''creator''"
| "read_relation Project i = relationId i [''projectId''] ''project''"

definition issueLabels :: "jsval \<Rightarrow> string list option" where
  "issueLabels issue =
     (let raw = prop_of issue ''labels'';
          names = (\<lambda>xs. map string_or_empty (filter is_string
             (map (\<lambda>e. if is_string e then e else prop_of e ''name'') xs)))
      in case raw of
           JArr xs \<Rightarrow> Some (names xs)
         | _ \<Rightarrow> (case prop_of raw ''nodes'' of JArr xs \<Rightarrow> Some (names xs) | _ \<Rightarrow> None))"

datatype match_reason =
    Not_an_object
  | Labels_absent
  | Required_label_missing string
  | Carries_none_of "string list"
  | Carries_excluded string
  | Carries_user_excluded string
  | Field_absent dimension
  | Not_included relation jsval "string list"
  | Is_excluded relation jsval

datatype match_rule = Rule_unreadable | Rule_labels | Rule_dimension dimension

datatype match_result = Match | No_match match_reason match_rule

definition match_relation :: "jsval \<Rightarrow> selection \<Rightarrow> relation \<Rightarrow> match_result option" where
  "match_relation issue sel r =
     (let inc = sel (relation_dim r) Include; exc = sel (relation_dim r) Exclude in
      if inc = [] \<and> exc = [] then None
      else let i = read_relation r issue in
        if i = JUndef then Some (No_match (Field_absent (relation_dim r)) Rule_unreadable)
        else if inc \<noteq> [] \<and> i \<notin> JStr ` set inc
        then Some (No_match (Not_included r i inc) (Rule_dimension (relation_dim r)))
        else if exc \<noteq> [] \<and> i \<noteq> JNull \<and> i \<in> JStr ` set exc
        then Some (No_match (Is_excluded r i) (Rule_dimension (relation_dim r)))
        else None)"

definition match_labels ::
  "string list \<Rightarrow> selection \<Rightarrow> string list \<Rightarrow> string list \<Rightarrow> match_result option" where
  "match_labels labels sel requireLabels excludeLabels =
     (case find (\<lambda>l. l \<notin> set labels) requireLabels of
        Some l \<Rightarrow> Some (No_match (Required_label_missing l) Rule_labels)
      | None \<Rightarrow>
          if sel Labels Include \<noteq> [] \<and> \<not> list_ex (\<lambda>l. l \<in> set labels) (sel Labels Include)
          then Some (No_match (Carries_none_of (sel Labels Include)) Rule_labels)
          else case find (\<lambda>l. l \<in> set labels) excludeLabels of
              Some l \<Rightarrow> Some (No_match (Carries_excluded l) Rule_labels)
            | None \<Rightarrow>
                (case find (\<lambda>l. l \<in> set labels) (sel Labels Exclude) of
                   Some l \<Rightarrow> Some (No_match (Carries_user_excluded l) Rule_labels)
                 | None \<Rightarrow> None))"

definition matchIssue ::
  "jsval \<Rightarrow> selection \<Rightarrow> string list \<Rightarrow> string list \<Rightarrow> match_result" where
  "matchIssue issue sel requireLabels excludeLabels =
     (if \<not> is_plain_object issue then No_match Not_an_object Rule_unreadable
      else let needs = requireLabels @ sel Labels Include @ excludeLabels @ sel Labels Exclude in
        case (if needs \<noteq> [] then issueLabels issue else Some []) of
          None \<Rightarrow> No_match Labels_absent Rule_unreadable
        | Some labels \<Rightarrow>
            (case match_labels labels sel requireLabels excludeLabels of
               Some r \<Rightarrow> r
             | None \<Rightarrow>
                 (case first_fault (match_relation issue sel) RELATIONS of
                    Some r \<Rightarrow> r
                  | None \<Rightarrow> Match)))"

definition fmtList :: "string list \<Rightarrow> string" where
  "fmtList vs = ''['' @ join '', '' vs @ '']''"

definition describeEmptyScan ::
  "string \<Rightarrow> string \<Rightarrow> selection \<Rightarrow> string list \<Rightarrow> string list \<Rightarrow> bool \<Rightarrow> string" where
  "describeEmptyScan gate state sel requireLabels excludeLabels unblocked =
     gate @ '' gate: no '' @ (if unblocked then ''unblocked '' else []) @ state @ '' issues'' @
     (if requireLabels \<noteq> [] then '' labelled '' @ join '' + '' requireLabels else []) @
     (if excludeLabels \<noteq> [] then '' without '' @ join '', '' excludeLabels else []) @
     (if selectionSlots sel \<noteq> []
      then '' matching selection '' @ join '' '' (map (\<lambda>((d, p), vs).
             dim_key d @ ''.'' @ pol_key p @ ''='' @ fmtList vs) (selectionSlots sel))
      else [])"

section \<open>Argument lists\<close>

datatype gate_error = Gate_flag flag_error | Gate_unexpected "string list"

definition gateSelectionFlags :: "string list \<Rightarrow> gate_error + flags" where
  "gateSelectionFlags argv =
     (case parseSelectionFlags argv of
        Inl e \<Rightarrow> Inl (Gate_flag e)
      | Inr (fl, pos) \<Rightarrow> if pos \<noteq> [] then Inl (Gate_unexpected pos) else Inr fl)"

definition is_alpha :: "char \<Rightarrow> bool" where
  "is_alpha c = (97 \<le> (of_char (lower_char c) :: nat) \<and> (of_char (lower_char c) :: nat) \<le> 122)"

definition TICKET_KEY :: rx where
  "TICKET_KEY = RSeqs [RPlus (RSet is_alpha), RLit ''-'', RPlus RDigit]"

definition TICKET_REF_RE :: rx where
  "TICKET_REF_RE = RSeq TICKET_KEY REnd"

definition path_segment :: rx where
  "path_segment = RPlus (RSet (\<lambda>c. c \<noteq> CHR ''/'' \<and> \<not> is_ws c))"

definition TICKET_URL_RE :: rx where
  "TICKET_URL_RE = RSeqs [RLit ''http'', ROpt (RLit ''s''), RLit ''://'', path_segment, RLit ''/'',
     path_segment, RLit ''/issue/'', TICKET_KEY, RAlt (RSet (\<lambda>c. c \<in> set ''/?#'')) REnd]"

text \<open>The second walk: the selection tokens verbatim, and the tokens left over.\<close>

definition walk_name :: "string \<Rightarrow> string" where
  "walk_name token = (if CHR ''='' \<in> set token then hd (split_on (CHR ''='') token) else token)"

fun walk_args :: "string list \<Rightarrow> string list \<times> string list" where
  "walk_args [] = ([], [])"
| "walk_args (token # rest) =
     (if flag_slot (walk_name token) \<noteq> None
      then if CHR ''='' \<in> set token
           then (case walk_args rest of (sel, pos) \<Rightarrow> (token # sel, pos))
           else (case rest of
               [] \<Rightarrow> ([token], [])
             | v # rest' \<Rightarrow> (case walk_args rest' of (sel, pos) \<Rightarrow> (token # v # sel, pos)))
      else (case walk_args rest of (sel, pos) \<Rightarrow> (sel, token # pos)))"

record split_args =
  sa_tickets :: "string list"
  sa_selectionArgs :: "string list"
  sa_other :: "string list"

definition is_ticket_token :: "string \<Rightarrow> bool" where
  "is_ticket_token t = (rx_at_start TICKET_REF_RE t \<or> rx_at_start TICKET_URL_RE t)"

definition splitArgs :: "string list \<Rightarrow> flag_error + split_args" where
  "splitArgs argv =
     (case parseSelectionFlags argv of
        Inl e \<Rightarrow> Inl e
      | Inr _ \<Rightarrow> Inr
          \<lparr> sa_tickets = filter is_ticket_token (snd (walk_args argv)),
            sa_selectionArgs = fst (walk_args argv),
            sa_other = filter (\<lambda>t. \<not> is_ticket_token t) (snd (walk_args argv)) \<rparr>)"

datatype extract_error = Flag_repeated string | Flag_without_value string

definition token_name :: "string \<Rightarrow> string" where
  "token_name token = takeWhile (\<lambda>c. c \<noteq> CHR ''='') token"

fun extract_flag ::
  "string list \<Rightarrow> string \<Rightarrow> string option \<Rightarrow> string list \<Rightarrow>
     extract_error + (string option \<times> string list)" where
  "extract_flag [] flag value rest = Inr (value, rest)"
| "extract_flag (token # ts) flag value rest =
     (if token_name token \<noteq> flag then extract_flag ts flag value (rest @ [token])
      else if value \<noteq> None then Inl (Flag_repeated flag)
      else if CHR ''='' \<in> set token
      then (let v = tl (dropWhile (\<lambda>c. c \<noteq> CHR ''='') token) in
            if trim v = [] then Inl (Flag_without_value flag) else extract_flag ts flag (Some v) rest)
      else case ts of
          [] \<Rightarrow> Inl (Flag_without_value flag)
        | v # ts' \<Rightarrow>
            if starts_with v ''--'' \<or> trim v = [] then Inl (Flag_without_value flag)
            else extract_flag ts' flag (Some v) rest)"

definition extractFlagValue ::
  "string list \<Rightarrow> string \<Rightarrow> extract_error + (string option \<times> string list)" where
  "extractFlagValue argv flag = extract_flag argv flag None []"

section \<open>The filing policy of the retrospective\<close>

datatype retro_error = Unsupported_retro_slot dimension polarity | Many_projects

definition filing_slot :: "slot \<Rightarrow> bool" where
  "filing_slot s = (snd s = Include \<and> fst s \<in> {Labels, Projects})"

definition retro_explicit :: "jsval \<Rightarrow> flags \<Rightarrow> slot \<Rightarrow> bool" where
  "retro_explicit block fl s =
     (map_of fl s \<noteq> None \<or>
      block_slot (prop_of (prop_of block ''stages'') ''retro'') (fst s) (snd s) \<noteq> JUndef)"

definition all_slots :: "slot list" where
  "all_slots = concat (map (\<lambda>d. map (\<lambda>p. (d, p)) SELECTION_POLARITIES) SELECTION_DIMENSIONS)"

definition retroFilingSelection :: "jsval \<Rightarrow> flags \<Rightarrow> retro_error + (selection \<times> slot list)" where
  "retroFilingSelection block fl =
     (let sel = effective_slot block ''retro'' fl;
          unsupported = filter (\<lambda>s. \<not> filing_slot s \<and> sel (fst s) (snd s) \<noteq> []) all_slots
      in case find (retro_explicit block fl) unsupported of
           Some s \<Rightarrow> Inl (Unsupported_retro_slot (fst s) (snd s))
         | None \<Rightarrow>
             if 1 < length (sel Projects Include) then Inl Many_projects
             else Inr (\<lambda>d p. if filing_slot (d, p) then sel d p else [], unsupported))"

section \<open>Parsing the flags\<close>

definition entry_ok :: "string \<Rightarrow> bool" where
  "entry_ok v \<longleftrightarrow> v \<noteq> [] \<and> trim v = v \<and> CHR '','' \<notin> set v"

text \<open>What a parsed flag set looks like: one row per slot, its entries trimmed, non-empty, without a
  comma and without repetition.\<close>

definition flags_ok :: "flags \<Rightarrow> bool" where
  "flags_ok fl \<longleftrightarrow> distinct (map fst fl) \<and>
     (\<forall>(s, vs) \<in> set fl. vs \<noteq> [] \<and> distinct vs \<and> list_all entry_ok vs)"

lemma flag_entries_ok:
  assumes "flag_entries n v = Inr es"
  shows "es \<noteq> []" "list_all entry_ok es"
proof -
  have es: "es = map trim (split_on (CHR '','') v)" "[] \<notin> set es"
    using assms by (auto simp: flag_entries_def Let_def split: if_splits)
  show "es \<noteq> []" using es(1) by simp
  show "list_all entry_ok es"
    unfolding list_all_iff entry_ok_def
    using es split_on_no_sep[of _ "CHR '',''" v] set_trim by fastforce
qed

lemma foldl_add_id:
  "set (foldl add_id xs es) = set xs \<union> set es"
  "distinct (foldl add_id xs es) = distinct xs"
  by (induction es arbitrary: xs) auto

lemma foldl_add_id_distinct: "distinct (xs @ es) \<Longrightarrow> foldl add_id xs es = xs @ es"
proof (induction es arbitrary: xs)
  case (Cons e es)
  then have "foldl add_id (xs @ [e]) es = (xs @ [e]) @ es" by (intro Cons.IH) auto
  moreover have "add_id xs e = xs @ [e]" using Cons.prems by (simp add: add_id_def)
  ultimately show ?case by simp
qed simp

lemma add_entries_ok:
  assumes "flags_ok fl" "es \<noteq> []" "list_all entry_ok es"
  shows "flags_ok (add_entries fl s es)"
proof -
  have old: "distinct (slot_values fl s)" "list_all entry_ok (slot_values fl s)"
    using assms(1) by (auto simp: flags_ok_def slot_values_def split: option.splits dest: map_of_SomeD)
  let ?new = "foldl add_id (slot_values fl s) es"
  have "set ?new = set (slot_values fl s) \<union> set es" by (rule foldl_add_id)
  then have new: "?new \<noteq> []" "distinct ?new" "list_all entry_ok ?new"
    using old assms(2,3) by (auto simp: foldl_add_id(2) list_all_iff simp del: foldl_add_id(1))
  have "vs \<noteq> [] \<and> distinct vs \<and> list_all entry_ok vs"
    if "(t, vs) \<in> set (AList.update s ?new fl)" for t vs
  proof -
    have "distinct (map fst (AList.update s ?new fl))"
      using assms(1) by (simp add: flags_ok_def distinct_update)
    then have "map_of (AList.update s ?new fl) t = Some vs" using that by simp
    then show ?thesis
      using new assms(1) by (auto simp: update_conv' flags_ok_def split: if_splits dest: map_of_SomeD)
  qed
  then show ?thesis
    using assms(1) by (auto simp: flags_ok_def add_entries_def distinct_update)
qed

definition not_a_flag :: "string \<Rightarrow> bool" where
  "not_a_flag t \<longleftrightarrow> flag_slot (flag_name t) = None"

lemma parse_flags_sound:
  "parse_flags argv fl pos = Inr (fl', pos') \<Longrightarrow> flags_ok fl \<Longrightarrow>
     flags_ok fl' \<and> (\<exists>qs. pos' = pos @ qs \<and> subseq qs argv \<and> list_all not_a_flag qs)"
proof (induction argv fl pos rule: parse_flags.induct)
  case (2 token rest fl pos)
  show ?case
  proof (cases "flag_slot (flag_name token)")
    case None
    with 2(1)[OF None] 2(4,5) obtain qs where
      "flags_ok fl'" "pos' = (pos @ [token]) @ qs" "subseq qs rest" "list_all not_a_flag qs"
      by auto
    with None show ?thesis
      by (intro conjI exI[of _ "token # qs"]) (simp_all add: not_a_flag_def[of token])
  next
    case s: (Some s)
    show ?thesis
    proof (cases "inline_value token")
      case (Some v)
      then obtain es where es: "flag_entries (flag_name token) v = Inr es"
          "parse_flags rest (add_entries fl s es) pos = Inr (fl', pos')"
        using 2(4) s by (auto split: sum.splits)
      with 2(3)[OF s Some es] 2(5) show ?thesis
        by (auto dest: flag_entries_ok intro!: add_entries_ok)
    next
      case None
      then obtain v rest' es where r: "rest = v # rest'" "\<not> starts_with v ''--''"
          "flag_entries (flag_name token) v = Inr es"
          "parse_flags rest' (add_entries fl s es) pos = Inr (fl', pos')"
        using 2(4) s by (auto split: sum.splits list.splits if_splits)
      with 2(2)[OF s None r(1,2,3)] 2(5) show ?thesis
        by (auto dest: flag_entries_ok intro!: add_entries_ok)
    qed
  qed
qed simp

text \<open>The flag parser keeps every token it does not own, in order, and nothing else: what it returns as
  positionals is a subsequence of the argument list without any selection flag, and every slot it
  returns holds at least one entry, each trimmed, non-empty and listed once.\<close>

theorem parseSelectionFlags_sound:
  assumes "parseSelectionFlags argv = Inr (fl, pos)"
  shows "flags_ok fl \<and> subseq pos argv \<and> list_all not_a_flag pos"
  using parse_flags_sound[OF assms[unfolded parseSelectionFlags_def]]
  by (auto simp: flags_ok_def)

text \<open>The argument list a flag set is written as.\<close>

fun flag_of :: "slot \<Rightarrow> string" where
  "flag_of (Labels, Include) = ''--label''"
| "flag_of (Labels, Exclude) = ''--exclude-label''"
| "flag_of (Assignees, Include) = ''--assignee''"
| "flag_of (Assignees, Exclude) = ''--exclude-assignee''"
| "flag_of (Creators, Include) = ''--creator''"
| "flag_of (Creators, Exclude) = ''--exclude-creator''"
| "flag_of (Projects, Include) = ''--project''"
| "flag_of (Projects, Exclude) = ''--exclude-project''"

definition print_flags :: "flags \<Rightarrow> string list" where
  "print_flags fl = concat (map (\<lambda>(s, vs). [flag_of s, join '','' vs]) fl)"

lemma flag_of_parses:
  "flag_name (flag_of s) = flag_of s" "inline_value (flag_of s) = None" "flag_slot (flag_of s) = Some s"
  by (cases s rule: flag_of.cases; simp add: flag_name_def inline_value_def flag_slot_def SELECTION_FLAGS_def)+

lemma trim_eq_Nil: "trim s = [] \<longleftrightarrow> (\<forall>c \<in> set s. is_ws c)"
proof -
  have "(\<forall>c \<in> set (dropWhile is_ws s). is_ws c) \<longleftrightarrow> dropWhile is_ws s = []"
    using hd_dropWhile[of is_ws s] by (cases "dropWhile is_ws s") (auto dest: set_dropWhileD)
  then show ?thesis by (auto simp: trim_def dropWhile_eq_Nil_conv dest: set_dropWhileD)
qed

lemma join_nonblank: "vs \<noteq> [] \<Longrightarrow> list_all entry_ok vs \<Longrightarrow> trim (join '','' vs) \<noteq> []"
proof -
  assume vs: "vs \<noteq> []" "list_all entry_ok vs"
  have sub: "set (hd vs) \<subseteq> set (join '','' vs)" using vs
    by (cases vs; cases "tl vs") auto
  have "trim (hd vs) \<noteq> []" using vs by (cases vs) (auto simp: entry_ok_def)
  with sub show ?thesis by (auto simp: trim_eq_Nil)
qed

lemma flag_entries_join:
  assumes "vs \<noteq> []" "list_all entry_ok vs"
  shows "flag_entries n (join '','' vs) = Inr vs"
proof -
  have "split_on (CHR '','') (join '','' vs) = vs"
    using assms by (intro split_on_join) (auto simp: list_all_iff entry_ok_def)
  moreover have "map trim vs = vs" using assms by (auto simp: list_all_iff entry_ok_def intro: map_idI)
  moreover have "[] \<notin> set vs" using assms by (auto simp: list_all_iff entry_ok_def)
  ultimately show ?thesis using join_nonblank[OF assms] by (simp add: flag_entries_def)
qed

text \<open>An argument that starts with \<open>--\<close> is never read as a value, so the entry written first must not.\<close>

definition printable :: "flags \<Rightarrow> bool" where
  "printable fl \<longleftrightarrow> flags_ok fl \<and> (\<forall>(s, vs) \<in> set fl. \<not> starts_with (join '','' vs) ''--'')"

lemma parse_print:
  "printable (done @ fl) \<Longrightarrow> parse_flags (print_flags fl) done pos = Inr (done @ fl, pos)"
proof (induction fl arbitrary: "done")
  case (Cons row fl)
  obtain s vs where row: "row = (s, vs)" by (cases row)
  have ok: "vs \<noteq> []" "distinct vs" "list_all entry_ok vs" "\<not> starts_with (join '','' vs) ''--''"
    and new: "s \<notin> fst ` set done"
    using Cons.prems by (auto simp: printable_def flags_ok_def row)
  have "slot_values done s = []"
    using new by (simp add: slot_values_def map_of_eq_None_iff[THEN iffD2])
  then have "add_entries done s vs = done @ [row]"
    using new ok(2) foldl_add_id_distinct[of "[]" vs] by (simp add: add_entries_def alist_update_new row)
  moreover have "parse_flags (print_flags fl) (done @ [row]) pos = Inr ((done @ [row]) @ fl, pos)"
    using Cons.prems by (intro Cons.IH) simp
  ultimately show ?case
    using ok by (simp add: print_flags_def row flag_of_parses flag_entries_join)
qed (simp add: print_flags_def)

text \<open>Writing a flag set as arguments and parsing them gives the same flag set back, with nothing left
  over.\<close>

theorem parse_print_flags:
  assumes "printable fl"
  shows "parseSelectionFlags (print_flags fl) = Inr (fl, [])"
  using parse_print[of "[]" fl] assms by (simp add: parseSelectionFlags_def)

section \<open>Matching\<close>

lemma find_None_filter: "find P xs = None \<longleftrightarrow> (\<forall>x \<in> set xs. \<not> P x)"
  by (auto simp: find_None_iff)

lemma first_fault_None: "first_fault f xs = None \<longleftrightarrow> (\<forall>x \<in> set xs. f x = None)"
  by (induction xs) (auto split: option.splits)

lemma match_labels_None:
  "match_labels labels sel req exc = None \<longleftrightarrow>
     set req \<subseteq> set labels \<and>
     (sel Labels Include = [] \<or> set (sel Labels Include) \<inter> set labels \<noteq> {}) \<and>
     set (exc @ sel Labels Exclude) \<inter> set labels = {}"
proof -
  have req: "set req \<subseteq> set labels \<longleftrightarrow> find (\<lambda>l. l \<notin> set labels) req = None"
    by (auto simp: find_None_filter)
  have exc: "set (exc @ sel Labels Exclude) \<inter> set labels = {} \<longleftrightarrow>
      find (\<lambda>l. l \<in> set labels) exc = None \<and> find (\<lambda>l. l \<in> set labels) (sel Labels Exclude) = None"
    by (auto simp: find_None_filter)
  have inc: "set (sel Labels Include) \<inter> set labels \<noteq> {} \<longleftrightarrow>
      list_ex (\<lambda>l. l \<in> set labels) (sel Labels Include)"
    by (auto simp: list_ex_iff)
  show ?thesis unfolding match_labels_def req exc inc by (simp split: option.split)
qed

definition relation_ok :: "jsval \<Rightarrow> selection \<Rightarrow> relation \<Rightarrow> bool" where
  "relation_ok issue sel r \<longleftrightarrow>
     (let inc = sel (relation_dim r) Include; exc = sel (relation_dim r) Exclude; i = read_relation r issue in
      (inc = [] \<and> exc = []) \<or>
      (i \<noteq> JUndef \<and> (inc = [] \<or> i \<in> JStr ` set inc) \<and> i \<notin> JStr ` set exc))"

lemma match_relation_None: "match_relation issue sel r = None \<longleftrightarrow> relation_ok issue sel r"
  by (auto simp: match_relation_def relation_ok_def Let_def)

lemma match_result_None:
  "match_relation issue sel r \<noteq> Some Match" "match_labels labels sel req exc \<noteq> Some Match"
  by (auto simp: match_relation_def match_labels_def Let_def split: option.splits)

text \<open>The labels the matcher reads; \<open>None\<close> when a slot needs them and the issue carries none.\<close>

definition read_labels :: "jsval \<Rightarrow> selection \<Rightarrow> string list \<Rightarrow> string list \<Rightarrow> string list option" where
  "read_labels issue sel req exc =
     (if req @ sel Labels Include @ exc @ sel Labels Exclude \<noteq> [] then issueLabels issue else Some [])"

lemma first_fault_Match:
  "first_fault (match_relation issue sel) rs \<noteq> Some Match"
  by (induction rs) (auto simp: match_result_None split: option.splits)

text \<open>An issue matches exactly when it is an object, carries the labels if any rule needs them, has every
  required label, one of the included ones (when any is listed), none of the excluded ones, and each
  relation a slot names is carried by the issue, is one of the included ids (when any is listed) and
  none of the excluded ones.\<close>

theorem matchIssue_iff:
  "matchIssue issue sel req exc = Match \<longleftrightarrow>
     is_plain_object issue \<and>
     (\<exists>labels. read_labels issue sel req exc = Some labels \<and>
        set req \<subseteq> set labels \<and>
        (sel Labels Include = [] \<or> set (sel Labels Include) \<inter> set labels \<noteq> {}) \<and>
        set (exc @ sel Labels Exclude) \<inter> set labels = {}) \<and>
     relation_ok issue sel Assignee \<and> relation_ok issue sel Creator \<and> relation_ok issue sel Project"
proof -
  have rel: "first_fault (match_relation issue sel) RELATIONS = None \<longleftrightarrow>
      relation_ok issue sel Assignee \<and> relation_ok issue sel Creator \<and> relation_ok issue sel Project"
    unfolding first_fault_None by (simp add: RELATIONS_def match_relation_None)
  have "matchIssue issue sel req exc = Match \<longleftrightarrow> is_plain_object issue \<and>
      (\<exists>labels. read_labels issue sel req exc = Some labels \<and> match_labels labels sel req exc = None) \<and>
      first_fault (match_relation issue sel) RELATIONS = None"
    unfolding matchIssue_def read_labels_def Let_def
    using match_result_None(2)[of _ sel req exc] first_fault_Match[of issue sel RELATIONS]
    by (auto split: option.splits simp del: append_is_Nil_conv)
  then show ?thesis by (simp only: rel match_labels_None)
qed

section \<open>Validation\<close>

definition value_ok :: "dimension \<Rightarrow> string \<Rightarrow> bool" where
  "value_ok d v \<longleftrightarrow> trim v \<noteq> [] \<and> (d \<notin> set USER_DIMENSIONS \<or> isUserSelector v)"

lemma prop_entry:
  "prop_of v k \<noteq> JUndef \<Longrightarrow> (k, prop_of v k) \<in> set (entries_of v)"
  by (cases v) (auto simp: entries_of_def split: option.splits dest: map_of_SomeD)

lemma concat_map_Nil: "concat (map f xs) = [] \<longleftrightarrow> (\<forall>x \<in> set xs. f x = [])"
  by (induction xs) auto

lemma dimension_of_key [simp]: "dimension_of (dim_key d) = Some d"
  by (cases d) (simp_all add: dimension_of_def SELECTION_DIMENSIONS_def)

lemma dim_key_not_stages [simp]: "dim_key d \<noteq> ''stages''"
  by (cases d) simp_all

lemma entry_errors_Nil: "entry_errors path d key e = [] \<Longrightarrow> value_ok d (string_or_empty e)"
  by (cases e) (auto simp: entry_errors_def value_ok_def string_or_empty_def split: if_splits)

lemma validateDimension_sound:
  assumes "validateDimension v path d = []"
  shows "list_all (value_ok d) (strings_of (prop_of v (pol_key p)))"
proof (cases "prop_of v (pol_key p) = JUndef")
  case False
  have "slot_errors path d (pol_key p, prop_of v (pol_key p)) = []"
    using assms prop_entry[OF False] by (auto simp: validateDimension_def concat_map_Nil split: if_splits)
  moreover have "pol_key p \<in> pol_key ` set SELECTION_POLARITIES"
    by (cases p) (simp_all add: SELECTION_POLARITIES_def)
  ultimately obtain es where es: "prop_of v (pol_key p) = JArr es"
      "\<forall>e \<in> set es. entry_errors path d (pol_key p) e = []"
    by (auto simp: slot_errors_def concat_map_Nil split: jsval.splits)
  then show ?thesis
    by (auto simp: strings_of_def array_or_empty_def list_all_iff intro: entry_errors_Nil)
qed (simp add: strings_of_def array_or_empty_def)

lemma block_slot_sound:
  assumes "\<And>v. (dim_key d, v) \<in> set (entries_of block) \<Longrightarrow> validateDimension v (path v) d = []"
  shows "list_all (value_ok d) (strings_of (block_slot block d p))"
proof (cases "prop_of block (dim_key d) = JUndef")
  case False
  from validateDimension_sound[OF assms[OF prop_entry[OF False]]] show ?thesis
    by (simp add: block_slot_def)
qed (simp add: block_slot_def strings_of_def array_or_empty_def)

lemma validated_stage:
  assumes "validateStages stages path = []"
  shows "list_all (value_ok d) (strings_of (block_slot (prop_of stages stage) d p))"
proof (cases "prop_of stages stage = JUndef")
  case False
  have "stage_errors path (stage, prop_of stages stage) = []"
    using assms prop_entry[OF False] by (auto simp: validateStages_def concat_map_Nil split: if_splits)
  then have "stage_key_errors (dot_path path stage) (k, v) = []"
    if "(k, v) \<in> set (entries_of (prop_of stages stage))" for k v
    using that by (auto simp: stage_errors_def concat_map_Nil split: if_splits)
  then have "validateDimension v (dot_path (dot_path path stage) (dim_key d)) d = []"
    if "(dim_key d, v) \<in> set (entries_of (prop_of stages stage))" for v
    using that by (fastforce simp: stage_key_errors_def)
  then show ?thesis by (rule block_slot_sound)
qed (simp add: block_slot_def strings_of_def array_or_empty_def)

text \<open>Validation is sufficient: a block without errors yields, for every stage and slot, a selection whose
  entries are all non-blank and, for assignees and creators, valid user selectors.\<close>

theorem validated_block_selects_values:
  assumes "validateSelectionBlock block path = []"
  shows "list_all (value_ok d) (effective_slot block stage [] d p)"
proof -
  have key: "block_key_errors path (k, v) = []" if "(k, v) \<in> set (entries_of block)" for k v
    using assms that by (auto simp: validateSelectionBlock_def concat_map_Nil split: if_splits)
  have shared: "list_all (value_ok d) (strings_of (block_slot block d p))"
  proof (rule block_slot_sound)
    fix v assume "(dim_key d, v) \<in> set (entries_of block)"
    from key[OF this] show "validateDimension v (dot_path path (dim_key d)) d = []"
      by (simp add: block_key_errors_def stage_key_errors_def)
  qed
  have stage: "list_all (value_ok d) (strings_of (block_slot (prop_of (prop_of block ''stages'') stage) d p))"
  proof (cases "prop_of block ''stages'' = JUndef")
    case False
    have "dimension_of ''stages'' = None" by (simp add: dimension_of_def SELECTION_DIMENSIONS_def)
    with key[OF prop_entry[OF False]]
    have "validateStages (prop_of block ''stages'') (dot_path path ''stages'') = []"
      by (simp add: block_key_errors_def)
    then show ?thesis by (rule validated_stage)
  qed (simp add: block_slot_def strings_of_def array_or_empty_def)
  show ?thesis
    using shared stage by (simp add: effective_slot_def coalesce_def)
qed

section \<open>Resolution never widens\<close>

lemma lookup_ref_nonempty: "lookup_ref m v = Some vs \<Longrightarrow> vs \<noteq> []"
  by (auto simp: lookup_ref_def split: jsval.splits if_splits)

lemma selectionSlots_mem: "sel d p \<noteq> [] \<Longrightarrow> ((d, p), sel d p) \<in> set (selectionSlots sel)"
  by (cases d; cases p; simp add: selectionSlots_def SELECTION_DIMENSIONS_def SELECTION_POLARITIES_def)

lemma foldl_add_id_Nil [simp]: "foldl add_id [] xs = [] \<longleftrightarrow> xs = []"
  using foldl_add_id(1)[of "[]" xs] by (metis Un_empty_left set_empty)

text \<open>Resolving a selection never drops a filter: when \<open>applyResolution\<close> succeeds, exactly the slots that
  listed something still list something, so the scan is never widened by a ref the tracker could not
  resolve.\<close>

theorem applyResolution_keeps_slots:
  assumes "applyResolution sel resolved = Inr out"
  shows "(\<lambda>d p. out d p = []) = (\<lambda>d p. sel d p = [])"
proof (intro ext)
  fix d p
  have none: "missing_refs sel resolved = []" and out: "out = resolved_slot sel resolved"
    using assms by (auto simp: applyResolution_def split: if_splits)
  have found: "lookup_ref (prop_of resolved (ref_kind d)) v \<noteq> None" if "v \<in> set (sel d p)" for v
  proof -
    have "((d, p), sel d p) \<in> set (selectionSlots sel)" using that by (intro selectionSlots_mem) auto
    then have "filter (\<lambda>v. lookup_ref (prop_of resolved (ref_kind d)) v = None) (sel d p) = []"
      using none by (fastforce simp: missing_refs_def concat_map_Nil)
    with that show ?thesis by (auto simp: filter_empty_conv)
  qed
  show "(out d p = []) = (sel d p = [])"
  proof
    assume "out d p = []"
    then have *: "(case lookup_ref (prop_of resolved (ref_kind d)) v of Some vs \<Rightarrow> vs | None \<Rightarrow> []) = []"
      if "v \<in> set (sel d p)" for v
      using that by (simp add: out resolved_slot_def concat_map_Nil)
    show "sel d p = []"
    proof (rule ccontr)
      assume "sel d p \<noteq> []"
      then obtain v where v: "v \<in> set (sel d p)" by (meson list.set_sel(1))
      from found[OF v] *[OF v] show False by (auto dest: lookup_ref_nonempty)
    qed
  qed (simp add: out resolved_slot_def)
qed

section \<open>Splitting an argument list\<close>

lemma hd_split_on: "hd (split_on c s) = takeWhile (\<lambda>x. x \<noteq> c) s"
proof (induction s)
  case (Cons d s)
  then show ?case using split_on_not_Nil[of c s] by (cases "split_on c s") auto
qed simp

lemma flag_slot_dashes: "flag_slot n = Some s \<Longrightarrow> starts_with n ''--''"
  by (auto simp: flag_slot_def SELECTION_FLAGS_def starts_with_def split: if_splits)

lemma starts_with_takeWhile: "starts_with (takeWhile P s) q \<Longrightarrow> starts_with s q"
  unfolding starts_with_def
  by (metis append_eq_conv_conj append_take_drop_id append_assoc takeWhile_dropWhile_id)

lemma walk_name_flag: "flag_slot (walk_name t) = flag_slot (flag_name t)"
proof (cases "starts_with t ''--''")
  case True
  then show ?thesis by (simp add: walk_name_def flag_name_def hd_split_on)
next
  case False
  have "\<not> starts_with (walk_name t) ''--''"
    using False starts_with_takeWhile by (auto simp: walk_name_def hd_split_on)
  moreover have "\<not> starts_with (flag_name t) ''--''" using False by (simp add: flag_name_def)
  ultimately show ?thesis using flag_slot_dashes by (metis not_Some_eq)
qed

lemma inline_value_iff:
  "flag_slot (flag_name t) = Some s \<Longrightarrow> inline_value t = None \<longleftrightarrow> CHR ''='' \<notin> set t"
  using flag_slot_dashes[of "flag_name t" s] starts_with_takeWhile[of _ t "''--''"]
  by (auto simp: inline_value_def flag_name_def split: if_splits)

lemma walk_args_parse:
  "parse_flags argv fl pos = Inr (fl', pos') \<Longrightarrow>
     parse_flags (fst (walk_args argv)) fl q = Inr (fl', q) \<and> pos' = pos @ snd (walk_args argv)"
proof (induction argv fl pos rule: parse_flags.induct)
  case (2 token rest fl pos)
  show ?case
  proof (cases "flag_slot (flag_name token)")
    case None
    with 2(1)[OF None] 2(4) show ?thesis
      by (auto simp: walk_name_flag split: prod.splits)
  next
    case s: (Some s)
    show ?thesis
    proof (cases "inline_value token")
      case (Some v)
      then obtain es where es: "flag_entries (flag_name token) v = Inr es"
          "parse_flags rest (add_entries fl s es) pos = Inr (fl', pos')"
        using 2(4) s by (auto split: sum.splits)
      have eq: "CHR ''='' \<in> set token" using inline_value_iff[OF s] Some by auto
      from 2(3)[OF s Some es] s Some es eq show ?thesis
        by (auto simp: walk_name_flag split: prod.splits)
    next
      case None
      then obtain v rest' es where r: "rest = v # rest'" "\<not> starts_with v ''--''"
          "flag_entries (flag_name token) v = Inr es"
          "parse_flags rest' (add_entries fl s es) pos = Inr (fl', pos')"
        using 2(4) s by (auto split: sum.splits list.splits if_splits)
      have eq: "CHR ''='' \<notin> set token" using inline_value_iff[OF s] None by auto
      from 2(2)[OF s None r] s None r eq show ?thesis
        by (auto simp: walk_name_flag split: prod.splits)
    qed
  qed
qed simp

lemma mset_filter_parts: "mset (filter P xs) + mset (filter (\<lambda>x. \<not> P x) xs) = mset xs"
  by (induction xs) auto

text \<open>Splitting an argument list loses nothing: the forwarded selection arguments parse to the very flags
  of the whole list with nothing left over, and the tickets and the other tokens together are the
  positionals the flag parser leaves.\<close>

theorem splitArgs_faithful:
  assumes "splitArgs argv = Inr sa"
  shows "\<exists>fl pos. parseSelectionFlags argv = Inr (fl, pos) \<and>
    parseSelectionFlags (sa_selectionArgs sa) = Inr (fl, []) \<and>
    mset (sa_tickets sa) + mset (sa_other sa) = mset pos"
proof -
  obtain fl pos where p: "parseSelectionFlags argv = Inr (fl, pos)"
      and sa: "sa_selectionArgs sa = fst (walk_args argv)"
        "sa_tickets sa = filter is_ticket_token (snd (walk_args argv))"
        "sa_other sa = filter (\<lambda>t. \<not> is_ticket_token t) (snd (walk_args argv))"
    using assms by (auto simp: splitArgs_def split: sum.splits)
  from walk_args_parse[of argv "[]" "[]" fl pos "[]"] p
  have "parse_flags (fst (walk_args argv)) [] [] = Inr (fl, [])" "pos = snd (walk_args argv)"
    by (auto simp: parseSelectionFlags_def)
  with p sa show ?thesis
    by (simp add: parseSelectionFlags_def mset_filter_parts del: mset_filter)
qed

section \<open>The filing policy\<close>

text \<open>The retrospective files under labels and at most one project only: a filing selection has no
  assignee, creator or exclusion slot, and every slot it dropped is named, none of them having been
  asked for on the command line or in the stage block.\<close>

theorem retroFilingSelection_sound:
  assumes "retroFilingSelection block fl = Inr (sel, ignored)"
  shows "(sel d p = [] \<or> p = Include \<and> d \<in> {Labels, Projects}) \<and>
    length (sel Projects Include) \<le> 1 \<and>
    (sel d p = effective_slot block ''retro'' fl d p \<or> (d, p) \<in> set ignored) \<and>
    \<not> list_ex (retro_explicit block fl) ignored"
proof -
  have mem: "(d, p) \<in> set all_slots"
    by (cases d; cases p; simp add: all_slots_def SELECTION_DIMENSIONS_def SELECTION_POLARITIES_def)
  show ?thesis
    using assms mem
    by (auto simp: retroFilingSelection_def Let_def filing_slot_def find_None_filter list_ex_iff
        split: option.splits if_splits)
qed

section \<open>Examples\<close>

definition example_args :: "string list" where
  "example_args = [''BOSS-12'', ''--label'', ''infra, api'', ''--exclude-creator=me'', ''rest'']"

definition example_flags :: flags where
  "example_flags = [((Labels, Include), [''infra'', ''api'']), ((Creators, Exclude), [''me''])]"

lemma example_args_parse:
  "parseSelectionFlags example_args = Inr (example_flags, [''BOSS-12'', ''rest''])"
  by code_simp

theorem parseSelectionFlags_sound_witness:
  "flags_ok example_flags \<and> subseq [''BOSS-12'', ''rest''] example_args \<and>
     list_all not_a_flag [''BOSS-12'', ''rest'']"
  by (rule parseSelectionFlags_sound[OF example_args_parse])

lemma example_printable: "printable example_flags"
  unfolding printable_def by (intro conjI) code_simp+

theorem parse_print_flags_witness:
  "parseSelectionFlags (print_flags example_flags) = Inr (example_flags, [])"
  by (rule parse_print_flags[OF example_printable])

definition label_selection :: selection where
  "label_selection d p = (if d = Labels \<and> p = Include then [''agent-build''] else [])"

definition example_block :: jsval where
  "example_block = JObj [(''assignees'', JObj [(''include'', JArr [JStr ''me''])])]"

lemma example_block_valid: "validateSelectionBlock example_block ''selection'' = []"
  by code_simp

theorem validated_block_selects_values_witness:
  "list_all (value_ok Assignees) (effective_slot example_block ''plan'' [] Assignees Include) \<and>
     effective_slot example_block ''plan'' [] Assignees Include = [''me'']"
proof (rule conjI)
  show "list_all (value_ok Assignees) (effective_slot example_block ''plan'' [] Assignees Include)"
    by (rule validated_block_selects_values[OF example_block_valid])
  show "effective_slot example_block ''plan'' [] Assignees Include = [''me'']" by code_simp
qed

definition example_resolution :: jsval where
  "example_resolution = JObj [(''labels'', JObj [(''agent-build'', JArr [JStr ''Agent-Build''])])]"

lemma example_resolution_run:
  "applyResolution label_selection example_resolution =
     Inr (resolved_slot label_selection example_resolution)"
proof -
  have "missing_refs label_selection example_resolution = []" by code_simp
  then show ?thesis by (simp add: applyResolution_def)
qed

theorem applyResolution_keeps_slots_witness:
  "(\<lambda>d p. resolved_slot label_selection example_resolution d p = []) =
     (\<lambda>d p. label_selection d p = [])"
  by (rule applyResolution_keeps_slots[OF example_resolution_run])

lemma example_split:
  "splitArgs example_args = Inr \<lparr>sa_tickets = [''BOSS-12''],
     sa_selectionArgs = [''--label'', ''infra, api'', ''--exclude-creator=me''], sa_other = [''rest'']\<rparr>"
  by code_simp

theorem splitArgs_faithful_witness:
  "\<exists>fl pos. parseSelectionFlags example_args = Inr (fl, pos) \<and>
    parseSelectionFlags [''--label'', ''infra, api'', ''--exclude-creator=me''] = Inr (fl, []) \<and>
    mset [''BOSS-12''] + mset [''rest''] = mset pos"
  using splitArgs_faithful[OF example_split] by simp

lemma example_retro:
  "retroFilingSelection example_block [] =
     Inr (\<lambda>d p. if filing_slot (d, p) then effective_slot example_block ''retro'' [] d p else [],
          [(Assignees, Include)])"
proof -
  let ?sel = "effective_slot example_block ''retro'' []"
  have u: "filter (\<lambda>s. \<not> filing_slot s \<and> ?sel (fst s) (snd s) \<noteq> []) all_slots = [(Assignees, Include)]"
    by code_simp
  have r: "\<not> retro_explicit example_block [] (Assignees, Include)" by code_simp
  have l: "length (?sel Projects Include) = 0" by code_simp
  show ?thesis using r l by (simp add: retroFilingSelection_def Let_def u)
qed

theorem retroFilingSelection_sound_witness:
  "(Assignees, Include) \<in> set [(Assignees, Include)] \<and>
     \<not> list_ex (retro_explicit example_block []) [(Assignees, Include)]"
  using retroFilingSelection_sound[OF example_retro] by simp

end
