(* ===== verification/EpicLib.thy ===== *)
theory EpicLib
  imports DagScheduler Selection
begin

text \<open>
  Model of \<open>skills-toolbox/epic/bs-epic-lib.mjs\<close>, the tracker-coupled surface of the epic driver:
  ticket classification, the command line, the combined run over several roots, the merge-time
  re-check of external blockers, and the classifiers of a polled child (liveness, settled, repair
  lease). Tickets and polled payloads are raw values; prose of errors and reasons is a constructor.
  Unicode letter and digit classes are the ASCII ones, as everywhere in this development.
\<close>

section \<open>Reading an issue\<close>

definition BLOCKER_CLEARED_STATE_TYPES :: "string list" where
  "BLOCKER_CLEARED_STATE_TYPES = [''completed'', ''canceled'']"

definition cleared_type :: "jsval \<Rightarrow> bool" where
  "cleared_type v = (v \<in> JStr ` set BLOCKER_CLEARED_STATE_TYPES)"

definition extractBlockers :: "jsval \<Rightarrow> jsval list" where
  "extractBlockers issue =
     map (\<lambda>r. prop_of r ''issue'')
       (filter (\<lambda>r. prop_of r ''type'' = JStr ''blocks'' \<and> truthy (prop_of r ''issue''))
         (array_or_empty (prop_of (prop_of issue ''inverseRelations'') ''nodes'')))"

definition normalizeLabels :: "jsval \<Rightarrow> jsval list" where
  "normalizeLabels labels =
     filter truthy (map (\<lambda>l. if is_string l then l else prop_of l ''name'')
       (if is_array (prop_of labels ''nodes'') then array_or_empty (prop_of labels ''nodes'')
        else array_or_empty labels))"

definition normalizeBlockedBy :: "jsval \<Rightarrow> jsval list" where
  "normalizeBlockedBy issue =
     (if truthy (prop_of issue ''inverseRelations'')
      then map (\<lambda>b. coalesce (prop_of b ''identifier'') (prop_of b ''id'')) (extractBlockers issue)
      else if is_array (prop_of (prop_of issue ''relations'') ''blockedBy'')
      then map (\<lambda>e. if is_string e then e else coalesce (prop_of e ''identifier'') (prop_of e ''id''))
             (array_or_empty (prop_of (prop_of issue ''relations'') ''blockedBy''))
      else array_or_empty (prop_of issue ''blockedBy''))"

definition firstPlanUrl :: "jsval \<Rightarrow> jsval" where
  "firstPlanUrl entries =
     (case find (\<lambda>e. case prop_of e ''title'' of JStr t \<Rightarrow> starts_with t ''Implementation plan'' | _ \<Rightarrow> False)
             (array_or_empty entries) of
        Some e \<Rightarrow> coalesce (prop_of e ''url'') JNull
      | None \<Rightarrow> JNull)"

definition relationIdOf :: "jsval \<Rightarrow> string list \<Rightarrow> string \<Rightarrow> jsval" where
  "relationIdOf issue flatKeys objectKey =
     (if flat_value issue flatKeys \<noteq> JUndef then flat_value issue flatKeys
      else let value = prop_of issue objectKey in
        if value = JNull then JNull
        else if is_object value \<and> is_string (prop_of value ''id'') then prop_of value ''id''
        else JUndef)"

section \<open>State roles\<close>

definition DEFAULT_TRACKER_STATES :: jsval where
  "DEFAULT_TRACKER_STATES = JObj
     [(''unplanned'', JStr ''Backlog''), (''planned'', JStr ''Todo''),
      (''inProgress'', JStr ''In Progress''), (''inReview'', JStr ''In Review''),
      (''done'', JStr ''Done'')]"

definition pick_state :: "string \<Rightarrow> jsval \<Rightarrow> string option" where
  "pick_state role source =
     (case prop_of source role of JStr s \<Rightarrow> if trim s \<noteq> [] then Some s else None | _ \<Rightarrow> None)"

definition resolveStateRole :: "string \<Rightarrow> jsval \<Rightarrow> jsval \<Rightarrow> string option" where
  "resolveStateRole role adapterStates trackerConfigStates =
     (case pick_state role adapterStates of
        Some s \<Rightarrow> Some s
      | None \<Rightarrow> (case pick_state role trackerConfigStates of
            Some s \<Rightarrow> Some s
          | None \<Rightarrow> pick_state role DEFAULT_TRACKER_STATES))"

definition resolvePlannedState :: "jsval \<Rightarrow> jsval \<Rightarrow> string option" where
  "resolvePlannedState adapterStates trackerConfigStates =
     resolveStateRole ''planned'' adapterStates trackerConfigStates"

section \<open>Classification\<close>

text \<open>\<open>s.replace(/<!--[\s\S]*?-->/g, '')\<close>: the text after the first \<open>--\<close>\<open>>\<close>, if there is one.\<close>

fun after_comment :: "string \<Rightarrow> string option" where
  "after_comment [] = None"
| "after_comment (c # cs) =
     (if starts_with (c # cs) ''-->'' then Some (drop 3 (c # cs)) else after_comment cs)"

lemma after_comment_length: "after_comment s = Some t \<Longrightarrow> length t < length s"
  by (induction s) (auto split: if_splits)

function strip_comments :: "string \<Rightarrow> string" where
  "strip_comments [] = []"
| "strip_comments (c # cs) =
     (if starts_with (c # cs) ''<!--''
      then (case after_comment (drop 4 (c # cs)) of
          Some t \<Rightarrow> strip_comments t | None \<Rightarrow> c # strip_comments cs)
      else c # strip_comments cs)"
  by pat_completeness auto
termination
  by (relation "measure length") (auto dest!: after_comment_length)

definition letter_or_digit :: "char \<Rightarrow> bool" where
  "letter_or_digit c = (is_alpha c \<or> is_digit c)"

definition hasLettersOrDigits :: "jsval \<Rightarrow> bool" where
  "hasLettersOrDigits v =
     (case v of JStr s \<Rightarrow> list_ex letter_or_digit (strip_comments s) | _ \<Rightarrow> False)"

definition with_newline :: "string \<Rightarrow> string" where
  "with_newline s = (if s \<noteq> [] \<and> last s = CHR 0x0A then s else s @ [CHR 0x0A])"

definition ticketPlanText :: "jsval \<Rightarrow> string option" where
  "ticketPlanText ticket =
     (let title = prop_of ticket ''title''; description = prop_of ticket ''description'';
          parts = (if hasLettersOrDigits title
                   then [''# '' @ trim (string_or_empty title) @ [CHR 0x0A]] else []) @
                  (if hasLettersOrDigits description
                   then [with_newline (string_or_empty description)] else [])
      in if parts \<noteq> [] then Some (join [CHR 0x0A] parts) else None)"

text \<open>\<open>String(v ?? '').toLowerCase().replace(/[\s_-]+/g, '')\<close>.\<close>

definition compare_key :: "jsval \<Rightarrow> string" where
  "compare_key v =
     filter (\<lambda>c. \<not> (is_ws c \<or> c = CHR ''_'' \<or> c = CHR ''-''))
       (to_lower (js_string (coalesce v (JStr []))))"

datatype skip_reason =
    Excluded_by_selection match_reason
  | Needs_human
  | Nothing_to_build
  | Wrong_state jsval string
  | Missing_agent_build

datatype bucket = Eligible | Done_ticket | Skipped skip_reason

definition classify_ticket ::
  "string \<Rightarrow> string \<Rightarrow> string \<Rightarrow> selection option \<Rightarrow> jsval \<Rightarrow> bucket" where
  "classify_ticket plannedState agentBuildLabel needsHumanLabel selection ticket =
     (if cleared_type (prop_of ticket ''stateType'') then Done_ticket
      else case (case selection of None \<Rightarrow> Match | Some sel \<Rightarrow> matchIssue ticket sel [] []) of
          No_match r _ \<Rightarrow> Skipped (Excluded_by_selection r)
        | Match \<Rightarrow>
            (let labels = map compare_key (array_or_empty (prop_of ticket ''labels'')) in
             if compare_key (JStr needsHumanLabel) \<in> set labels then Skipped Needs_human
             else if \<not> truthy (prop_of ticket ''planAttachment'') \<and> ticketPlanText ticket = None
             then Skipped Nothing_to_build
             else if compare_key (prop_of ticket ''stateName'') \<noteq> compare_key (JStr plannedState)
             then Skipped (Wrong_state (prop_of ticket ''stateName'') plannedState)
             else if compare_key (JStr agentBuildLabel) \<notin> set labels then Skipped Missing_agent_build
             else Eligible))"

record classified =
  ct_eligible :: "jsval list"
  ct_done :: "jsval list"
  ct_skipped :: "(jsval \<times> skip_reason) list"

definition add_ticket :: "(jsval \<Rightarrow> bucket) \<Rightarrow> classified \<Rightarrow> jsval \<Rightarrow> classified" where
  "add_ticket f acc t =
     (case f t of
        Eligible \<Rightarrow> acc\<lparr>ct_eligible := ct_eligible acc @ [t]\<rparr>
      | Done_ticket \<Rightarrow> acc\<lparr>ct_done := ct_done acc @ [t]\<rparr>
      | Skipped r \<Rightarrow> acc\<lparr>ct_skipped := ct_skipped acc @ [(t, r)]\<rparr>)"

definition classifyTickets ::
  "jsval list \<Rightarrow> jsval \<Rightarrow> string \<Rightarrow> string \<Rightarrow> selection option \<Rightarrow> classified option" where
  "classifyTickets tickets plannedState agentBuildLabel needsHumanLabel selection =
     (case plannedState of
        JStr s \<Rightarrow>
          if s = [] then None
          else Some (foldl (add_ticket (classify_ticket s agentBuildLabel needsHumanLabel selection))
                 \<lparr>ct_eligible = [], ct_done = [], ct_skipped = []\<rparr> tickets)
      | _ \<Rightarrow> None)"

section \<open>The command line\<close>

definition ISSUE_URL_HEAD :: rx where
  "ISSUE_URL_HEAD = RSeqs [RLitI ''http'', ROpt (RLitI ''s''), RLitI ''://linear.app/'',
     RPlus (RSet (\<lambda>c. c \<noteq> CHR ''/'')), RLitI ''/issue/'']"

definition URL_ID_END :: rx where
  "URL_ID_END = RAlt (RSet (\<lambda>c. c \<in> set ''/?#'')) REnd"

definition url_ticket :: "string \<Rightarrow> string option" where
  "url_ticket s =
     (case concat (map (\<lambda>rest. concat (map (\<lambda>t.
              if rx_at_start URL_ID_END t then [take (length rest - length t) rest] else [])
            (rx_match TICKET_KEY rest))) (rx_match ISSUE_URL_HEAD s)) of
        [] \<Rightarrow> None | t # _ \<Rightarrow> Some t)"

definition parseTicketRef :: "string \<Rightarrow> string option" where
  "parseTicketRef arg =
     (let t = trim arg in
      if rx_at_start TICKET_REF_RE t then Some t else url_ticket t)"

datatype epic_arg_error =
    Selection_flags flag_error
  | Bad_ref string "string option"
  | Bad_parallel "string option"
  | Bad_agent "string option"
  | Bad_team "string option"
  | Unknown_flag string
  | Not_a_ticket string
  | Epic_with_positionals "string list"
  | No_ticket

record epic_acc =
  ea_ids :: "string list"
  ea_epicRefs :: "string list"
  ea_assumeCleared :: "string list"
  ea_assumeClearedAndMerge :: "string list"
  ea_parallel :: int
  ea_agent :: string
  ea_team :: "string option"

definition take_ref ::
  "string \<Rightarrow> string list \<Rightarrow> epic_arg_error + string" where
  "take_ref flag rest =
     (case rest of
        [] \<Rightarrow> Inl (Bad_ref flag None)
      | raw # _ \<Rightarrow> (case parseTicketRef raw of Some r \<Rightarrow> Inr r | None \<Rightarrow> Inl (Bad_ref flag (Some raw))))"

definition take_parallel :: "string list \<Rightarrow> epic_arg_error + int" where
  "take_parallel rest =
     (case rest of
        [] \<Rightarrow> Inl (Bad_parallel None)
      | raw # _ \<Rightarrow> (case string_number raw of
            Fin n \<Rightarrow> if n < 1 \<or> 8 < n then Inl (Bad_parallel (Some raw)) else Inr n
          | _ \<Rightarrow> Inl (Bad_parallel (Some raw))))"

definition take_agent :: "string list \<Rightarrow> epic_arg_error + string" where
  "take_agent rest =
     (case rest of
        [] \<Rightarrow> Inl (Bad_agent None)
      | raw # _ \<Rightarrow> if starts_with raw ''--'' then Inl (Bad_agent (Some raw)) else Inr raw)"

definition take_team :: "string option \<Rightarrow> string list \<Rightarrow> epic_arg_error + string" where
  "take_team team rest =
     (case rest of
        [] \<Rightarrow> Inl (Bad_team None)
      | raw # _ \<Rightarrow> if trim raw = [] \<or> starts_with raw ''--'' \<or> team \<noteq> None
                  then Inl (Bad_team (Some raw)) else Inr (trim raw))"

text \<open>One token of the loop: the updated accumulator and how many tokens it used.\<close>

definition epic_token ::
  "string \<Rightarrow> string list \<Rightarrow> epic_acc \<Rightarrow> epic_arg_error + (epic_acc \<times> nat)" where
  "epic_token arg rest acc =
     (if arg = ''--parallel'' then
        (case take_parallel rest of Inl e \<Rightarrow> Inl e | Inr n \<Rightarrow> Inr (acc\<lparr>ea_parallel := n\<rparr>, 2))
      else if arg = ''--agent'' then
        (case take_agent rest of Inl e \<Rightarrow> Inl e | Inr a \<Rightarrow> Inr (acc\<lparr>ea_agent := a\<rparr>, 2))
      else if arg = ''--team'' then
        (case take_team (ea_team acc) rest of Inl e \<Rightarrow> Inl e | Inr t \<Rightarrow> Inr (acc\<lparr>ea_team := Some t\<rparr>, 2))
      else if arg = ''--epic'' then
        (case take_ref arg rest of Inl e \<Rightarrow> Inl e
         | Inr r \<Rightarrow> Inr (acc\<lparr>ea_epicRefs := ea_epicRefs acc @ [r]\<rparr>, 2))
      else if arg = ''--assume-cleared'' then
        (case take_ref arg rest of Inl e \<Rightarrow> Inl e
         | Inr r \<Rightarrow> Inr (acc\<lparr>ea_assumeCleared := ea_assumeCleared acc @ [r]\<rparr>, 2))
      else if arg = ''--assume-cleared-and-merge'' then
        (case take_ref arg rest of Inl e \<Rightarrow> Inl e
         | Inr r \<Rightarrow> Inr (acc\<lparr>ea_assumeClearedAndMerge := ea_assumeClearedAndMerge acc @ [r]\<rparr>, 2))
      else if starts_with arg ''--'' then Inl (Unknown_flag arg)
      else (case parseTicketRef arg of
          None \<Rightarrow> Inl (Not_a_ticket arg)
        | Some r \<Rightarrow> Inr (acc\<lparr>ea_ids := ea_ids acc @ [r]\<rparr>, 1)))"

function epic_loop :: "string list \<Rightarrow> epic_acc \<Rightarrow> epic_arg_error + epic_acc" where
  "epic_loop [] acc = Inr acc"
| "epic_loop (arg # rest) acc =
     (case epic_token arg rest acc of
        Inl e \<Rightarrow> Inl e
      | Inr (acc', k) \<Rightarrow> epic_loop (drop (k - 1) rest) acc')"
  by pat_completeness auto
termination
  by (relation "measure (length \<circ> fst)") auto

datatype epic_mode = Parent_mode | List_mode | Parents_mode

record epic_args =
  eg_mode :: epic_mode
  eg_parentId :: "string option"
  eg_parentIds :: "string list"
  eg_ids :: "string list"
  eg_parallel :: int
  eg_agent :: string
  eg_assumeCleared :: "string list"
  eg_assumeClearedAndMerge :: "string list"
  eg_selectionFlags :: "flags option"
  eg_team :: "string option"

definition dedupeFirstSeen :: "'a list \<Rightarrow> 'a list" where
  "dedupeFirstSeen values = uniq_loop [] values"

definition epic_result :: "flags \<Rightarrow> epic_acc \<Rightarrow> epic_arg_error + epic_args" where
  "epic_result fl acc =
     (let rest = (\<lambda>mode parentId parentIds ids.
            \<lparr> eg_mode = mode, eg_parentId = parentId, eg_parentIds = parentIds, eg_ids = ids,
              eg_parallel = ea_parallel acc, eg_agent = ea_agent acc,
              eg_assumeCleared = ea_assumeCleared acc,
              eg_assumeClearedAndMerge = ea_assumeClearedAndMerge acc,
              eg_selectionFlags = (if hasSelectionFlags fl then Some fl else None),
              eg_team = ea_team acc \<rparr>)
      in if ea_epicRefs acc \<noteq> []
         then (if ea_ids acc \<noteq> [] then Inl (Epic_with_positionals (ea_ids acc))
               else Inr (rest Parents_mode None (dedupeFirstSeen (ea_epicRefs acc)) []))
         else case ea_ids acc of
             [] \<Rightarrow> Inl No_ticket
           | [i] \<Rightarrow> Inr (rest Parent_mode (Some i) [i] [])
           | ids \<Rightarrow> Inr (rest List_mode None [] ids))"

definition parseEpicArgs :: "string list \<Rightarrow> epic_arg_error + epic_args" where
  "parseEpicArgs argv =
     (case parseSelectionFlags argv of
        Inl e \<Rightarrow> Inl (Selection_flags e)
      | Inr (fl, positionals) \<Rightarrow>
          (case epic_loop positionals
               \<lparr>ea_ids = [], ea_epicRefs = [], ea_assumeCleared = [], ea_assumeClearedAndMerge = [],
                ea_parallel = 4, ea_agent = ''claude'', ea_team = None\<rparr> of
             Inl e \<Rightarrow> Inl e
           | Inr acc \<Rightarrow> epic_result fl acc))"

section \<open>The combined run\<close>

datatype combined_error =
    Parents_empty
  | Parent_blank jsval
  | Membership_not_object
  | Unrequested_root string
  | Children_not_array string
  | Child_without_id string jsval

definition childIdOf :: "string \<Rightarrow> jsval \<Rightarrow> combined_error + string" where
  "childIdOf parentId e =
     (let raw = (if is_string e then e else coalesce (prop_of e ''identifier'') (prop_of e ''id'')) in
      if is_nonempty_string raw then Inr (trim (string_or_empty raw))
      else Inl (Child_without_id parentId e))"

record combined_run =
  cr_parentIds :: "string list"
  cr_childIds :: "string list"
  cr_childrenByParent :: "string list dict"
  cr_parentsByChild :: "string list dict"

text \<open>The inner loop: a child seen for the first time opens its row, and every root is pushed on it.\<close>

definition note_child :: "string \<Rightarrow> combined_run \<Rightarrow> string \<Rightarrow> combined_run" where
  "note_child parentId run child =
     (let rows = cr_parentsByChild run in
      run\<lparr>cr_childIds := add_id (cr_childIds run) child,
          cr_parentsByChild := AList.update child (get_list rows child @ [parentId]) rows\<rparr>)"

definition children_of_root :: "jsval \<Rightarrow> string \<Rightarrow> combined_error + string list" where
  "children_of_root membership parentId =
     (case coalesce (prop_of membership parentId) (JArr []) of
        JArr es \<Rightarrow> (case map_result (childIdOf parentId) es of
            Inl e \<Rightarrow> Inl e | Inr ids \<Rightarrow> Inr (dedupeFirstSeen ids))
      | _ \<Rightarrow> Inl (Children_not_array parentId))"

definition note_root :: "combined_run \<Rightarrow> string \<times> string list \<Rightarrow> combined_run" where
  "note_root run = (\<lambda>(parentId, perParent).
     foldl (note_child parentId)
       (run\<lparr>cr_childrenByParent := AList.update parentId perParent (cr_childrenByParent run)\<rparr>) perParent)"

definition buildCombinedRun :: "jsval \<Rightarrow> jsval \<Rightarrow> combined_error + combined_run" where
  "buildCombinedRun parentIds childrenByParent =
     (case parentIds of
        JArr ps \<Rightarrow>
          if ps = [] then Inl Parents_empty
          else (case find (\<lambda>p. \<not> is_nonempty_string p) ps of
              Some p \<Rightarrow> Inl (Parent_blank p)
            | None \<Rightarrow>
                let roots = dedupeFirstSeen (map (\<lambda>p. trim (string_or_empty p)) ps);
                    membership = coalesce childrenByParent (JObj [])
                in if \<not> is_plain_object membership then Inl Membership_not_object
                   else (case find (\<lambda>k. k \<notin> set roots) (map fst (entries_of membership)) of
                       Some k \<Rightarrow> Inl (Unrequested_root k)
                     | None \<Rightarrow>
                         (case map_result (children_of_root membership) roots of
                            Inl e \<Rightarrow> Inl e
                          | Inr kids \<Rightarrow> Inr (foldl note_root
                              \<lparr>cr_parentIds = roots, cr_childIds = [], cr_childrenByParent = [],
                               cr_parentsByChild = []\<rparr> (zip roots kids)))))
      | _ \<Rightarrow> Inl Parents_empty)"

section \<open>The merge-time re-check\<close>

text \<open>\<open>blockerStateTypes\<close> maps an external blocker to its freshly fetched state type.\<close>

definition mergeBlockedByTracker ::
  "string \<Rightarrow> graph \<Rightarrow> string list \<Rightarrow> jsval dict \<Rightarrow> string list" where
  "mergeBlockedByTracker ticket g clearedForMerge blockerStateTypes =
     mergeBlockedExternalBlockers ticket g clearedForMerge
       (map fst (filter (\<lambda>(_, st). cleared_type st) blockerStateTypes))"

section \<open>Enumeration tokens\<close>

text \<open>\<open>s.replace(/[_\s]+/g, '-')\<close>.\<close>

definition is_gap :: "char \<Rightarrow> bool" where
  "is_gap c = (c = CHR ''_'' \<or> is_ws c)"

function dash_gaps :: "string \<Rightarrow> string" where
  "dash_gaps [] = []"
| "dash_gaps (c # cs) = (if is_gap c then CHR ''-'' # dash_gaps (dropWhile is_gap cs) else c # dash_gaps cs)"
  by pat_completeness auto
termination
  by (relation "measure length") (auto simp: le_imp_less_Suc length_dropWhile_le)

definition normalizeClassifierToken :: "jsval \<Rightarrow> string option" where
  "normalizeClassifierToken v =
     (case v of JStr s \<Rightarrow> Some (dash_gaps (to_lower (trim s))) | _ \<Rightarrow> None)"

definition CHAT_STATUS_NUMBERS :: "(int \<times> string) list" where
  "CHAT_STATUS_NUMBERS = [(0, ''unspecified''), (1, ''working''), (2, ''idle''), (3, ''stopped''),
     (4, ''question''), (5, ''limited''), (6, ''waiting'')]"

definition SESSION_STATE_NUMBERS :: "(int \<times> string) list" where
  "SESSION_STATE_NUMBERS = [(10, ''blocked'')]"

definition normalizeEnumToken :: "jsval \<Rightarrow> (int \<times> string) list \<Rightarrow> string \<Rightarrow> string option" where
  "normalizeEnumToken v numericMap pre =
     (case v of
        JNum (Fin n) \<Rightarrow> map_of numericMap n
      | _ \<Rightarrow>
          (case normalizeClassifierToken v of
             None \<Rightarrow> None
           | Some token \<Rightarrow>
               if token = [] then None
               else case decimal_val token of
                   Some n \<Rightarrow> map_of numericMap n
                 | None \<Rightarrow> if starts_with token pre then Some (drop (length pre) token) else Some token))"

definition normalizeChatStatusToken :: "jsval \<Rightarrow> string option" where
  "normalizeChatStatusToken v = normalizeEnumToken v CHAT_STATUS_NUMBERS ''chat-status-''"

definition normalizeSessionStateToken :: "jsval \<Rightarrow> string option" where
  "normalizeSessionStateToken v = normalizeEnumToken v SESSION_STATE_NUMBERS ''session-state-''"

definition tokenListHas :: "jsval list \<Rightarrow> string list \<Rightarrow> bool" where
  "tokenListHas values wanted =
     list_ex (\<lambda>v. case normalizeClassifierToken v of Some t \<Rightarrow> t \<in> set wanted | None \<Rightarrow> False) values"

text \<open>A value that is no array is the one-element list of itself, unless it is nullish.\<close>

definition token_list :: "jsval \<Rightarrow> jsval list" where
  "token_list v = (case v of JArr xs \<Rightarrow> xs | _ \<Rightarrow> if nullish v then [] else [v])"

section \<open>The Ready label\<close>

definition BACKSLASH :: char where "BACKSLASH = CHR 0x5C"

definition DISPLAY_LABEL_LEADING_GLYPHS :: rx where
  "DISPLAY_LABEL_LEADING_GLYPHS =
     RPlus (RAlt (RSeqs [RLit [BACKSLASH], RLitI ''u'', RTimes 4 hex_digit])
                 (RSet (\<lambda>c. \<not> letter_or_digit c)))"

definition isReadyDisplayLabel :: "jsval \<Rightarrow> bool" where
  "isReadyDisplayLabel label =
     (case label of
        JStr s \<Rightarrow> to_lower (trim (case rx_match DISPLAY_LABEL_LEADING_GLYPHS s of
            [] \<Rightarrow> s | t # _ \<Rightarrow> t)) = ''ready''
      | _ \<Rightarrow> False)"

section \<open>Liveness of a child\<close>

definition CHILD_ALIVE_CHAT_STATUSES :: "string list" where
  "CHILD_ALIVE_CHAT_STATUSES = [''waiting'', ''working'', ''question'']"

definition CHILD_USAGE_LIMIT_CHAT_STATUSES :: "string list" where
  "CHILD_USAGE_LIMIT_CHAT_STATUSES = [''limited'']"

definition CHILD_IDLE_CHAT_STATUSES :: "string list" where
  "CHILD_IDLE_CHAT_STATUSES = [''idle'', ''stopped'']"

definition CHILD_READY_PARKED_CHAT_STATUSES :: "string list" where
  "CHILD_READY_PARKED_CHAT_STATUSES = [''idle'', ''stopped'', ''waiting'']"

definition AGENT_STALLED_ATTENTION_REASONS :: "string list" where
  "AGENT_STALLED_ATTENTION_REASONS = [''agent-stalled'', ''attention-reason-agent-stalled'']"

datatype liveness_verdict = Alive | Environmental_death | Agent_blocked | Wall_clock_expired | Liveness_unknown
datatype liveness_action = Hold | Resume | Repair | Fail_isolate | Investigate

record child_liveness =
  cl_verdict :: liveness_verdict
  cl_action :: liveness_action
  cl_reasons :: "string list"

definition status_in :: "string option \<Rightarrow> string list \<Rightarrow> bool" where
  "status_in status names = (case status of Some s \<Rightarrow> s \<in> set names | None \<Rightarrow> False)"

text \<open>The evidence one poll carries, read the way the classifier reads it.\<close>

record child_evidence =
  ce_status :: "string option"
  ce_unreadable :: bool
  ce_ready :: bool
  ce_state :: "string option"
  ce_conclusion :: bool
  ce_usage :: bool
  ce_transient :: bool

definition child_evidence_of :: "jsval \<Rightarrow> child_evidence" where
  "child_evidence_of poll =
     (let kinds = [prop_of poll ''lastMessageKind'', prop_of poll ''lastMessageClass''] in
      \<lparr> ce_status = normalizeChatStatusToken (prop_of poll ''chatStatus''),
        ce_unreadable = (truthy (prop_of poll ''chatStatusUnreadable'') \<or>
          prop_of poll ''chatStatusReadable'' = JBool False),
        ce_ready = isReadyDisplayLabel (prop_of poll ''displayLabel''),
        ce_state = normalizeSessionStateToken (prop_of poll ''sessionState''),
        ce_conclusion = (truthy (prop_of poll ''lastMessageIsAgentConclusion'') \<or>
          tokenListHas kinds [''agent-conclusion'']),
        ce_usage = (truthy (prop_of poll ''lastMessageIsUsageLimit'') \<or>
          tokenListHas kinds [''usage-limit'', ''usage-cap'']),
        ce_transient = (truthy (prop_of poll ''lastMessageIsTransientApiError'') \<or>
          tokenListHas kinds [''transient-api-error'', ''transient-api'', ''api-5xx'']) \<rparr>)"

definition liveness_reasons :: "jsval \<Rightarrow> child_evidence \<Rightarrow> string list" where
  "liveness_reasons poll e =
     (if prop_of poll ''headShaMoved'' = JBool False then [''head-sha-unmoved''] else []) @
     (if prop_of poll ''activityStale'' = JBool True then [''activity-stale''] else []) @
     (if tokenListHas (token_list (prop_of poll ''attentionReasons'')) AGENT_STALLED_ATTENTION_REASONS
      then [''attention-agent-stalled''] else []) @
     (if ce_unreadable e then [''chat-status-unreadable''] else []) @
     (case ce_status e of Some s \<Rightarrow> if s \<noteq> [] then [''chat-status:'' @ s] else [] | None \<Rightarrow> []) @
     (if ce_ready e then [''session-ready''] else []) @
     (case ce_state e of Some s \<Rightarrow> if s \<noteq> [] then [''session-state:'' @ s] else [] | None \<Rightarrow> []) @
     (if ce_usage e then [''last-message:usage-limit''] else []) @
     (if ce_transient e then [''last-message:transient-api-error''] else []) @
     (if ce_conclusion e then [''last-message:agent-conclusion''] else [])"

definition liveness_decision :: "bool \<Rightarrow> child_evidence \<Rightarrow> liveness_verdict \<times> liveness_action" where
  "liveness_decision wallClockExceeded e =
     (if wallClockExceeded then (Wall_clock_expired, Fail_isolate)
      else if ce_ready e \<and> \<not> ce_unreadable e \<and> status_in (ce_status e) CHILD_READY_PARKED_CHAT_STATUSES
      then (Alive, Hold)
      else if status_in (ce_status e) CHILD_ALIVE_CHAT_STATUSES then (Alive, Hold)
      else if status_in (ce_status e) CHILD_USAGE_LIMIT_CHAT_STATUSES \<or> ce_usage e
      then (Environmental_death, Resume)
      else if ce_transient e then (Environmental_death, Resume)
      else if ce_state e = Some ''blocked'' \<and> ce_conclusion e then (Agent_blocked, Repair)
      else (Liveness_unknown, Investigate))"

definition classifyChildLiveness :: "jsval \<Rightarrow> child_liveness" where
  "classifyChildLiveness poll =
     (let e = child_evidence_of poll; expired = truthy (prop_of poll ''wallClockExceeded'');
          d = liveness_decision expired e
      in \<lparr> cl_verdict = fst d, cl_action = snd d,
           cl_reasons = liveness_reasons poll e @ (if expired then [''wall-clock-exceeded''] else []) \<rparr>)"

section \<open>Settling of a child\<close>

datatype settle_reading = Settled_idle | Settled_ready | Settle_pending | Settle_alive | Settle_limited | Settle_unknown

record observation =
  ob_idleEligible :: bool
  ob_readyEligible :: bool

record settle_verdict =
  sv_settled :: bool
  sv_reading :: settle_reading
  sv_reasons :: "string list"
  sv_observation :: observation

definition priorSettleObservation :: "jsval \<Rightarrow> observation option" where
  "priorSettleObservation previous =
     (if is_plain_object previous
      then Some \<lparr> ob_idleEligible = (prop_of previous ''idleEligible'' = JBool True),
                  ob_readyEligible = (prop_of previous ''readyEligible'' = JBool True) \<rparr>
      else None)"

definition observe :: "jsval \<Rightarrow> observation" where
  "observe poll =
     (let status = normalizeChatStatusToken (prop_of poll ''chatStatus'');
          quiet = (prop_of poll ''chatStatusReadable'' \<noteq> JBool False \<and> status \<noteq> None \<and>
            prop_of poll ''spinnerPresent'' \<noteq> JBool True)
      in \<lparr> ob_idleEligible = (quiet \<and> status_in status CHILD_IDLE_CHAT_STATUSES),
           ob_readyEligible = (quiet \<and> isReadyDisplayLabel (prop_of poll ''displayLabel'') \<and>
             status_in status CHILD_READY_PARKED_CHAT_STATUSES) \<rparr>)"

definition settle_reading_of :: "jsval \<Rightarrow> settle_reading" where
  "settle_reading_of poll =
     (let status = normalizeChatStatusToken (prop_of poll ''chatStatus'');
          readable = (prop_of poll ''chatStatusReadable'' \<noteq> JBool False \<and> status \<noteq> None);
          prior = priorSettleObservation (prop_of poll ''previous'');
          now = observe poll
      in if ob_idleEligible now \<and> (case prior of Some p \<Rightarrow> ob_idleEligible p | None \<Rightarrow> False) then Settled_idle
         else if ob_readyEligible now \<and> (case prior of Some p \<Rightarrow> ob_readyEligible p | None \<Rightarrow> False)
         then Settled_ready
         else if ob_idleEligible now \<or> ob_readyEligible now then Settle_pending
         else if \<not> readable then Settle_unknown
         else if prop_of poll ''spinnerPresent'' = JBool True \<or> status_in status CHILD_ALIVE_CHAT_STATUSES
         then Settle_alive
         else if status_in status CHILD_USAGE_LIMIT_CHAT_STATUSES then Settle_limited
         else Settle_unknown)"

definition settle_reasons :: "jsval \<Rightarrow> string list" where
  "settle_reasons poll =
     (let status = normalizeChatStatusToken (prop_of poll ''chatStatus'');
          readable = (prop_of poll ''chatStatusReadable'' \<noteq> JBool False \<and> status \<noteq> None)
      in (if \<not> readable then [''chat-status-unreadable''] else []) @
         (case status of Some s \<Rightarrow> if s \<noteq> [] then [''chat-status:'' @ s] else [] | None \<Rightarrow> []) @
         (if prop_of poll ''spinnerPresent'' = JBool True then [''spinner''] else []) @
         (if isReadyDisplayLabel (prop_of poll ''displayLabel'') then [''session-ready''] else []) @
         (if priorSettleObservation (prop_of poll ''previous'') = None then [''first-poll''] else []))"

definition classifyChildSettled :: "jsval \<Rightarrow> settle_verdict" where
  "classifyChildSettled poll =
     (let reading = settle_reading_of poll in
      \<lparr> sv_settled = (reading = Settled_idle \<or> reading = Settled_ready), sv_reading = reading,
        sv_reasons = settle_reasons poll, sv_observation = observe poll \<rparr>)"

section \<open>The repair lease\<close>

datatype lease = Lease_none | Lease_stalled | Lease_active

definition REPAIR_STALL_WINDOW_MS :: int where
  "REPAIR_STALL_WINDOW_MS = 8 * 60000"

definition finite_num :: "jsval \<Rightarrow> int option" where
  "finite_num v = (case v of JNum (Fin i) \<Rightarrow> Some i | _ \<Rightarrow> None)"

definition daemon_says_stalled :: "jsval \<Rightarrow> bool" where
  "daemon_says_stalled repairStalledAt = (\<not> nullish repairStalledAt \<and> repairStalledAt \<noteq> JStr [])"

definition head_frozen :: "jsval \<Rightarrow> jsval \<Rightarrow> bool" where
  "head_frozen sha prev = (case sha of JStr s \<Rightarrow> s \<noteq> [] \<and> prev = JStr s | _ \<Rightarrow> False)"

definition chat_stale :: "jsval \<Rightarrow> jsval \<Rightarrow> jsval \<Rightarrow> bool" where
  "chat_stale lastOutput now window =
     (case (finite_num lastOutput, finite_num now, finite_num window) of
        (Some l, Some n, Some w) \<Rightarrow> w \<le> n - l
      | _ \<Rightarrow> False)"

definition classifyRepairLease :: "jsval \<Rightarrow> lease" where
  "classifyRepairLease poll =
     (if \<not> truthy (prop_of poll ''repairActive'') \<and> \<not> daemon_says_stalled (prop_of poll ''repairStalledAt'')
      then Lease_none
      else if daemon_says_stalled (prop_of poll ''repairStalledAt'') then Lease_stalled
      else if head_frozen (prop_of poll ''lastRepairHeadSha'') (prop_of poll ''prevLastRepairHeadSha'') \<and>
              chat_stale (prop_of poll ''repairChatLastOutputAtMs'') (prop_of poll ''nowMs'')
                (opt_default poll ''stallWindowMs'' (JNum (Fin REPAIR_STALL_WINDOW_MS)))
      then Lease_stalled else Lease_active)"

section \<open>Classification is a partition\<close>

lemma add_ticket_foldl:
  "foldl (add_ticket f) acc ts =
     acc\<lparr>ct_eligible := ct_eligible acc @ filter (\<lambda>t. f t = Eligible) ts,
         ct_done := ct_done acc @ filter (\<lambda>t. f t = Done_ticket) ts,
         ct_skipped := ct_skipped acc @
           concat (map (\<lambda>t. case f t of Skipped r \<Rightarrow> [(t, r)] | _ \<Rightarrow> []) ts)\<rparr>"
  by (induction ts arbitrary: acc) (auto simp: add_ticket_def split: bucket.splits)

lemma mset_buckets:
  "mset (filter (\<lambda>t. f t = Eligible) ts) + mset (filter (\<lambda>t. f t = Done_ticket) ts) +
     mset (map fst (concat (map (\<lambda>t. case f t of Skipped r \<Rightarrow> [(t, r)] | _ \<Rightarrow> []) ts))) = mset ts"
  by (induction ts) (auto split: bucket.splits)

definition buildable :: "string \<Rightarrow> string \<Rightarrow> string \<Rightarrow> selection option \<Rightarrow> jsval \<Rightarrow> bool" where
  "buildable plannedState agentBuildLabel needsHumanLabel selection t \<longleftrightarrow>
     \<not> cleared_type (prop_of t ''stateType'') \<and>
     (selection = None \<or> matchIssue t (the selection) [] [] = Match) \<and>
     compare_key (JStr needsHumanLabel) \<notin> compare_key ` set (array_or_empty (prop_of t ''labels'')) \<and>
     compare_key (JStr agentBuildLabel) \<in> compare_key ` set (array_or_empty (prop_of t ''labels'')) \<and>
     (truthy (prop_of t ''planAttachment'') \<or> ticketPlanText t \<noteq> None) \<and>
     compare_key (prop_of t ''stateName'') = compare_key (JStr plannedState)"

lemma classify_ticket_eligible:
  "classify_ticket s a n selection t = Eligible \<longleftrightarrow> buildable s a n selection t"
  by (cases selection; cases "matchIssue t (the selection) [] []")
    (auto simp: classify_ticket_def buildable_def Let_def)

lemma classify_ticket_done:
  "classify_ticket s a n selection t = Done_ticket \<longleftrightarrow> cleared_type (prop_of t ''stateType'')"
  by (auto simp: classify_ticket_def Let_def split: match_result.splits)

text \<open>Classification loses and duplicates no ticket: every ticket lands in exactly one of the three
  buckets, the eligible ones are exactly those that are open, selected, in the planned state, marked
  for building, not held for a human and have something to build from, and the done ones exactly
  those whose state type is cleared.\<close>

theorem classifyTickets_partition:
  assumes "classifyTickets tickets (JStr s) agentBuild needsHuman selection = Some c"
  shows "mset (ct_eligible c) + mset (ct_done c) + mset (map fst (ct_skipped c)) = mset tickets \<and>
    ct_eligible c = filter (buildable s agentBuild needsHuman selection) tickets \<and>
    ct_done c = filter (\<lambda>t. cleared_type (prop_of t ''stateType'')) tickets"
proof -
  let ?f = "classify_ticket s agentBuild needsHuman selection"
  have c: "ct_eligible c = filter (\<lambda>t. ?f t = Eligible) tickets"
      "ct_done c = filter (\<lambda>t. ?f t = Done_ticket) tickets"
      "ct_skipped c = concat (map (\<lambda>t. case ?f t of Skipped r \<Rightarrow> [(t, r)] | _ \<Rightarrow> []) tickets)"
    using assms by (auto simp: classifyTickets_def add_ticket_foldl split: if_splits)
  show ?thesis
    using mset_buckets[of ?f tickets] unfolding c
    by (simp only: classify_ticket_eligible classify_ticket_done)
qed

definition example_tickets :: "jsval list" where
  "example_tickets =
     [JObj [(''id'', JStr ''B-1''), (''title'', JStr ''Add it''), (''stateName'', JStr ''to-do''),
            (''labels'', JArr [JStr ''Agent Build''])],
      JObj [(''id'', JStr ''B-2''), (''stateType'', JStr ''completed'')],
      JObj [(''id'', JStr ''B-3''), (''title'', JStr ''Ask''), (''stateName'', JStr ''Todo''),
            (''labels'', JArr [JStr ''agent-build'', JStr ''needs_human''])]]"

lemma example_classified:
  "classifyTickets example_tickets (JStr ''Todo'') ''agent-build'' ''needs-human'' None =
     Some \<lparr>ct_eligible = [example_tickets ! 0], ct_done = [example_tickets ! 1],
           ct_skipped = [(example_tickets ! 2, Needs_human)]\<rparr>"
  by code_simp

theorem classifyTickets_partition_witness:
  "mset [example_tickets ! 0] + mset [example_tickets ! 1] + mset [example_tickets ! 2] =
     mset example_tickets"
  by (rule classifyTickets_partition[OF example_classified, unfolded classified.simps list.map fst_conv,
        THEN conjunct1])

section \<open>The combined run\<close>

lemma dedupe_uniq: "dedupeFirstSeen xs = uniq xs"
  by (simp add: dedupeFirstSeen_def uniq_loop_eq)

lemma note_child_fields:
  "cr_parentIds (note_child p r c) = cr_parentIds r"
  "cr_childrenByParent (note_child p r c) = cr_childrenByParent r"
  "cr_childIds (note_child p r c) = add_id (cr_childIds r) c"
  "get_list (cr_parentsByChild (note_child p r c)) d =
     get_list (cr_parentsByChild r) d @ (if d = c then [p] else [])"
  by (simp_all add: note_child_def Let_def get_list_update)

lemma note_child_keys:
  "map fst (cr_parentsByChild r) = cr_childIds r \<Longrightarrow>
     map fst (cr_parentsByChild (note_child p r c)) = cr_childIds (note_child p r c)"
  by (simp add: note_child_def Let_def amap.keys_put add_id_def)

lemma note_children:
  assumes "distinct cs"
  shows "cr_parentIds (foldl (note_child p) r cs) = cr_parentIds r"
    "cr_childrenByParent (foldl (note_child p) r cs) = cr_childrenByParent r"
    "cr_childIds (foldl (note_child p) r cs) = foldl add_id (cr_childIds r) cs"
    "get_list (cr_parentsByChild (foldl (note_child p) r cs)) d =
       get_list (cr_parentsByChild r) d @ (if d \<in> set cs then [p] else [])"
    "map fst (cr_parentsByChild r) = cr_childIds r \<Longrightarrow>
       map fst (cr_parentsByChild (foldl (note_child p) r cs)) = cr_childIds (foldl (note_child p) r cs)"
  using assms
proof (induction cs arbitrary: r)
  case (Cons c cs)
  { case 1 with Cons.IH(1)[of "note_child p r c"] show ?case by (simp add: note_child_fields)
  next case 2 with Cons.IH(2)[of "note_child p r c"] show ?case by (simp add: note_child_fields)
  next case 3 with Cons.IH(3)[of "note_child p r c"] show ?case by (simp add: note_child_fields)
  next case 4 with Cons.IH(4)[of "note_child p r c"] show ?case by (auto simp: note_child_fields)
  next case 5 with Cons.IH(5)[of "note_child p r c"] show ?case
      by (simp add: note_child_keys)
  }
qed simp_all

text \<open>What the run records after the roots \<open>rows\<close> have been noted.\<close>

definition combined_inv :: "(string \<times> string list) list \<Rightarrow> combined_run \<Rightarrow> bool" where
  "combined_inv rows r \<longleftrightarrow>
     cr_childrenByParent r = rows \<and>
     cr_childIds r = uniq (concat (map snd rows)) \<and>
     map fst (cr_parentsByChild r) = cr_childIds r \<and>
     (\<forall>c. get_list (cr_parentsByChild r) c = map fst (filter (\<lambda>(_, cs). c \<in> set cs) rows))"

lemma foldl_add_id_uniq: "foldl add_id (uniq xs) ys = uniq (xs @ ys)"
proof (induction ys arbitrary: xs)
  case (Cons y ys)
  have "uniq (xs @ [y]) = add_id (uniq xs) y"
    by (induction xs) (auto simp: add_id_def)
  with Cons[of "xs @ [y]"] show ?case by simp
qed simp

lemma note_root_inv:
  assumes "combined_inv rows r" "p \<notin> fst ` set rows" "distinct cs"
  shows "combined_inv (rows @ [(p, cs)]) (note_root r (p, cs))"
proof -
  let ?r = "r\<lparr>cr_childrenByParent := AList.update p cs (cr_childrenByParent r)\<rparr>"
  have "AList.update p cs (cr_childrenByParent r) = rows @ [(p, cs)]"
    using assms by (simp add: combined_inv_def alist_update_new)
  then show ?thesis
    using assms note_children(2-5)[OF assms(3), where p = p and r = ?r]
    by (simp add: combined_inv_def note_root_def foldl_add_id_uniq)
qed

lemma note_roots_inv:
  assumes "combined_inv done r" "distinct (map fst (done @ rows))" "\<forall>(_, cs) \<in> set rows. distinct cs"
  shows "combined_inv (done @ rows) (foldl note_root r rows) \<and>
    cr_parentIds (foldl note_root r rows) = cr_parentIds r"
  using assms
proof (induction rows arbitrary: "done" r)
  case (Cons row rows)
  obtain p cs where row: "row = (p, cs)" by (cases row)
  have "combined_inv (done @ [row]) (note_root r row)"
    using Cons.prems note_root_inv[of "done" r p cs] by (simp add: row)
  moreover have "cr_parentIds (note_root r row) = cr_parentIds r"
    using Cons.prems note_children(1)[of cs p] by (simp add: row note_root_def)
  ultimately show ?case using Cons.IH[of "done @ [row]" "note_root r row"] Cons.prems by simp
qed simp

lemma children_distinct: "children_of_root m p = Inr cs \<Longrightarrow> distinct cs"
  by (auto simp: children_of_root_def dedupe_uniq split: jsval.splits sum.splits)

lemma map_filter_zip:
  "length ks = length vs \<Longrightarrow> distinct ks \<Longrightarrow>
     map fst (filter (\<lambda>(_, cs). P cs) (zip ks vs)) = filter (\<lambda>k. P (get_list (zip ks vs) k)) ks"
proof (induction ks vs rule: list_induct2)
  case (Cons k ks v vs)
  have "get_list (zip (k # ks) (v # vs)) j = get_list (zip ks vs) j" if "j \<in> set ks" for j
    using that Cons.prems by (auto simp: get_list_def)
  then have "filter (\<lambda>j. P (get_list (zip (k # ks) (v # vs)) j)) ks = filter (\<lambda>j. P (get_list (zip ks vs) j)) ks"
    by (intro filter_cong) auto
  with Cons show ?case by (simp add: get_list_def)
qed simp

lemma get_list_Cons: "get_list ((k, v) # rows) j = (if j = k then v else get_list rows j)"
  by (simp add: get_list_def)

lemma map_get_zip: "length ks = length vs \<Longrightarrow> distinct ks \<Longrightarrow> map (get_list (zip ks vs)) ks = vs"
proof (induction ks vs rule: list_induct2)
  case (Cons k ks v vs)
  have "map (get_list ((k, v) # zip ks vs)) ks = map (get_list (zip ks vs)) ks"
    using Cons.prems by (intro map_cong refl) (auto simp: get_list_Cons)
  with Cons show ?case by (simp add: get_list_Cons[of k v "zip ks vs" k])
qed simp

text \<open>One coordinator, one child universe: the combined run has every requested root once, every child once
  in root order, a membership row for every root, and a reverse index that lists, for every child, in
  root order, exactly the roots it belongs to.\<close>

theorem buildCombinedRun_correct:
  assumes "buildCombinedRun parentIds childrenByParent = Inr r"
  shows "distinct (cr_parentIds r) \<and> map fst (cr_childrenByParent r) = cr_parentIds r \<and>
    cr_childIds r = uniq (concat (map (get_list (cr_childrenByParent r)) (cr_parentIds r))) \<and>
    map fst (cr_parentsByChild r) = cr_childIds r \<and>
    get_list (cr_parentsByChild r) child =
      filter (\<lambda>p. child \<in> set (get_list (cr_childrenByParent r) p)) (cr_parentIds r)"
proof -
  let ?init = "\<lambda>roots. \<lparr>cr_parentIds = roots, cr_childIds = [], cr_childrenByParent = [], cr_parentsByChild = []\<rparr>"
  obtain ps kids where kids: "map_result (children_of_root (coalesce childrenByParent (JObj [])))
        (dedupeFirstSeen (map (\<lambda>p. trim (string_or_empty p)) ps)) = Inr kids"
    and run: "r = foldl note_root (?init (dedupeFirstSeen (map (\<lambda>p. trim (string_or_empty p)) ps)))
        (zip (dedupeFirstSeen (map (\<lambda>p. trim (string_or_empty p)) ps)) kids)"
    using assms by (auto simp: buildCombinedRun_def Let_def split: jsval.splits if_splits option.splits sum.splits)
  define roots where "roots = dedupeFirstSeen (map (\<lambda>p. trim (string_or_empty p)) ps)"
  have d: "distinct roots" by (simp add: roots_def dedupe_uniq)
  have len: "length roots = length kids" using map_result_length[OF kids] by (simp add: roots_def)
  have dk: "\<forall>cs \<in> set kids. distinct cs"
    using map_result_all[OF kids] children_distinct by blast
  have keys: "map fst (zip roots kids) = roots" using len by simp
  have inv: "combined_inv (zip roots kids) r" "cr_parentIds r = roots"
    using note_roots_inv[of "[]" "?init roots" "zip roots kids"] d dk len
    by (auto simp: combined_inv_def run roots_def[symmetric] get_list_def dest: set_zip_rightD)
  have vals: "map (get_list (zip roots kids)) roots = map snd (zip roots kids)"
    using map_get_zip[OF len d] len by simp
  show ?thesis
    using inv d keys map_filter_zip[OF len d, of "\<lambda>cs. child \<in> set cs"]
    by (simp add: combined_inv_def vals)
qed

definition example_roots :: jsval where
  "example_roots = JArr [JStr ''E-1'', JStr '' E-2 '', JStr ''E-1'']"

definition example_children :: jsval where
  "example_children = JObj [(''E-1'', JArr [JStr ''B-1'', JObj [(''identifier'', JStr ''B-2'')]]),
     (''E-2'', JArr [JObj [(''id'', JStr ''u9''), (''identifier'', JStr ''B-2'')], JStr ''B-3''])]"

lemma example_run:
  "buildCombinedRun example_roots example_children =
     Inr \<lparr>cr_parentIds = [''E-1'', ''E-2''], cr_childIds = [''B-1'', ''B-2'', ''B-3''],
          cr_childrenByParent = [(''E-1'', [''B-1'', ''B-2'']), (''E-2'', [''B-2'', ''B-3''])],
          cr_parentsByChild = [(''B-1'', [''E-1'']), (''B-2'', [''E-1'', ''E-2'']), (''B-3'', [''E-2''])]\<rparr>"
  by code_simp

theorem buildCombinedRun_correct_witness:
  "distinct [''E-1'', ''E-2''] \<and>
   get_list [(''B-1'', [''E-1'']), (''B-2'', [''E-1'', ''E-2'']), (''B-3'', [''E-2''])] ''B-2'' =
     filter (\<lambda>p. ''B-2'' \<in> set (get_list [(''E-1'', [''B-1'', ''B-2'']), (''E-2'', [''B-2'', ''B-3''])] p))
       [''E-1'', ''E-2'']"
  using buildCombinedRun_correct[OF example_run, of "''B-2''"] by simp

section \<open>The command line\<close>

lemma epic_token_inv:
  assumes "epic_token arg rest acc = Inr (acc', k)" "1 \<le> ea_parallel acc \<and> ea_parallel acc \<le> 8"
  shows "1 \<le> ea_parallel acc' \<and> ea_parallel acc' \<le> 8"
  using assms by (auto simp: epic_token_def take_parallel_def split: if_splits sum.splits list.splits jnum.splits option.splits)

lemma epic_loop_inv:
  "epic_loop argv acc = Inr acc' \<Longrightarrow> 1 \<le> ea_parallel acc \<and> ea_parallel acc \<le> 8 \<Longrightarrow>
     1 \<le> ea_parallel acc' \<and> ea_parallel acc' \<le> 8"
proof (induction argv acc rule: epic_loop.induct)
  case (2 arg rest acc)
  then show ?case
    using epic_token_inv by (fastforce split: sum.splits prod.splits)
qed simp

text \<open>A parsed command line is unambiguous: parallelism is within 1 and 8, a single parent means one
  positional and no work items, several roots are listed once each and leave \<open>parentId\<close> empty, and a
  list run has at least two work items and no root.\<close>

theorem parseEpicArgs_modes:
  assumes "parseEpicArgs argv = Inr a"
  shows "1 \<le> eg_parallel a \<and> eg_parallel a \<le> 8 \<and>
    (case eg_mode a of
       Parent_mode \<Rightarrow> eg_ids a = [] \<and> (\<exists>i. eg_parentId a = Some i \<and> eg_parentIds a = [i])
     | List_mode \<Rightarrow> eg_parentId a = None \<and> eg_parentIds a = [] \<and> 2 \<le> length (eg_ids a)
     | Parents_mode \<Rightarrow> eg_parentId a = None \<and> eg_ids a = [] \<and> eg_parentIds a \<noteq> [] \<and>
         distinct (eg_parentIds a))"
proof -
  let ?init = "\<lparr>ea_ids = [], ea_epicRefs = [], ea_assumeCleared = [], ea_assumeClearedAndMerge = [],
      ea_parallel = 4, ea_agent = ''claude'', ea_team = None\<rparr>"
  obtain fl pos acc where "epic_loop pos ?init = Inr acc" "epic_result fl acc = Inr a"
    using assms by (auto simp: parseEpicArgs_def split: sum.splits)
  moreover have "1 \<le> ea_parallel acc \<and> ea_parallel acc \<le> 8"
    using calculation(1) by (rule epic_loop_inv) simp
  ultimately show ?thesis
    by (auto simp: epic_result_def Let_def dedupe_uniq split: if_splits list.splits)
qed

definition example_argv :: "string list" where
  "example_argv = [''--epic'', ''E-1'', ''--parallel'', ''2'', ''--label'', ''infra'',
     ''--epic'', ''https://linear.app/acme/issue/E-2/a-slug'', ''--epic'', ''E-1'']"

lemma example_parsed:
  "parseEpicArgs example_argv =
     Inr \<lparr>eg_mode = Parents_mode, eg_parentId = None, eg_parentIds = [''E-1'', ''E-2''], eg_ids = [],
          eg_parallel = 2, eg_agent = ''claude'', eg_assumeCleared = [], eg_assumeClearedAndMerge = [],
          eg_selectionFlags = Some [((Labels, Include), [''infra''])], eg_team = None\<rparr>"
  by code_simp

theorem parseEpicArgs_modes_witness:
  "distinct [''E-1'', ''E-2''] \<and> 1 \<le> (2::int) \<and> (2::int) \<le> 8"
  using parseEpicArgs_modes[OF example_parsed] by simp

section \<open>Polling a child\<close>

text \<open>A child is sent to repair on proof only: the budget has not expired, the chat is readable as neither
  alive nor at a usage limit nor parked Ready, the last message is no usage-limit or transient API
  failure, the session is blocked and the agent itself concluded; missing evidence never repairs.\<close>

theorem classifyChildLiveness_repair_iff:
  "cl_action (classifyChildLiveness poll) = Repair \<longleftrightarrow>
     \<not> truthy (prop_of poll ''wallClockExceeded'') \<and>
     (let e = child_evidence_of poll in
      \<not> status_in (ce_status e) (CHILD_ALIVE_CHAT_STATUSES @ CHILD_USAGE_LIMIT_CHAT_STATUSES) \<and>
      \<not> (ce_ready e \<and> \<not> ce_unreadable e \<and> status_in (ce_status e) CHILD_READY_PARKED_CHAT_STATUSES) \<and>
      \<not> ce_usage e \<and> \<not> ce_transient e \<and> ce_state e = Some ''blocked'' \<and> ce_conclusion e)"
proof -
  have app: "status_in s (xs @ ys) \<longleftrightarrow> status_in s xs \<or> status_in s ys" for s xs ys
    by (auto simp: status_in_def split: option.splits)
  show ?thesis
    unfolding classifyChildLiveness_def Let_def child_liveness.simps app
    by (simp add: liveness_decision_def)
qed

text \<open>The observation as the driver stores it for the next poll.\<close>

definition obs_obj :: "observation \<Rightarrow> jsval" where
  "obs_obj ob = JObj [(''idleEligible'', JBool (ob_idleEligible ob)),
                      (''readyEligible'', JBool (ob_readyEligible ob))]"

lemma prior_obs_obj [simp]: "priorSettleObservation (obs_obj ob) = Some ob"
  by (simp add: priorSettleObservation_def obs_obj_def is_plain_object_def)

text \<open>Settling takes two agreeing polls: when the observation of one poll is handed to the next, the second
  is settled exactly when both were idle or both were Ready and parked; a lone poll never settles.\<close>

theorem classifyChildSettled_two_polls:
  assumes "prop_of poll ''previous'' = obs_obj (sv_observation (classifyChildSettled earlier))"
  shows "sv_settled (classifyChildSettled poll) \<longleftrightarrow>
    (ob_idleEligible (observe earlier) \<and> ob_idleEligible (observe poll)) \<or>
    (ob_readyEligible (observe earlier) \<and> ob_readyEligible (observe poll))"
  using assms by (auto simp: classifyChildSettled_def settle_reading_of_def Let_def)

definition idle_poll :: jsval where
  "idle_poll = JObj [(''chatStatus'', JStr ''CHAT_STATUS_IDLE'')]"

definition idle_again :: jsval where
  "idle_again = JObj [(''chatStatus'', JNum (Fin 3)),
     (''previous'', obs_obj (sv_observation (classifyChildSettled idle_poll)))]"

theorem classifyChildSettled_two_polls_witness:
  "sv_settled (classifyChildSettled idle_again)"
proof -
  have "prop_of idle_again ''previous'' = obs_obj (sv_observation (classifyChildSettled idle_poll))"
    by (simp add: idle_again_def)
  moreover have "ob_idleEligible (observe idle_poll)" "ob_idleEligible (observe idle_again)"
    by code_simp+
  ultimately show ?thesis using classifyChildSettled_two_polls[of idle_again idle_poll] by blast
qed

text \<open>A repair lease is declared dead only by the daemon or by two proofs together: an unmoved, known head
  SHA and a chat silent for the window by readable clocks; any missing datum leaves it active.\<close>

theorem classifyRepairLease_stalled_iff:
  "classifyRepairLease poll = Lease_stalled \<longleftrightarrow>
     daemon_says_stalled (prop_of poll ''repairStalledAt'') \<or>
     (truthy (prop_of poll ''repairActive'') \<and>
      (\<exists>h. h \<noteq> [] \<and> prop_of poll ''lastRepairHeadSha'' = JStr h \<and> prop_of poll ''prevLastRepairHeadSha'' = JStr h) \<and>
      (\<exists>l n w. prop_of poll ''repairChatLastOutputAtMs'' = JNum (Fin l) \<and> prop_of poll ''nowMs'' = JNum (Fin n) \<and>
         opt_default poll ''stallWindowMs'' (JNum (Fin REPAIR_STALL_WINDOW_MS)) = JNum (Fin w) \<and> w \<le> n - l))"
proof -
  have head: "head_frozen a b \<longleftrightarrow> (\<exists>h. h \<noteq> [] \<and> a = JStr h \<and> b = JStr h)" for a b
    by (auto simp: head_frozen_def split: jsval.splits)
  have num: "finite_num v = Some i \<longleftrightarrow> v = JNum (Fin i)" for v i
    by (auto simp: finite_num_def split: jsval.splits jnum.splits)
  have chat: "chat_stale a b c \<longleftrightarrow>
      (\<exists>l n w. a = JNum (Fin l) \<and> b = JNum (Fin n) \<and> c = JNum (Fin w) \<and> w \<le> n - l)" for a b c
    by (auto simp: chat_stale_def num[symmetric] split: option.splits)
  show ?thesis by (simp add: classifyRepairLease_def head chat)
qed

text \<open>A ticket whose external blocker is neither cleared for merge by the operator nor freshly read in a
  cleared state never merges past it, a blocker with no fetched state included.\<close>

theorem mergeBlockedByTracker_fail_closed:
  "set (mergeBlockedByTracker ticket g clearedForMerge states) =
     set (get_list (externalBlockers g) ticket) - set clearedForMerge -
     fst ` {(b, st). (b, st) \<in> set states \<and> cleared_type st}"
  by (auto simp: mergeBlockedByTracker_def mergeBlockedExternalBlockers_def image_iff)

end
