(* ===== verification/EpicState.thy ===== *)
theory EpicState
  imports EpicLib
begin

text \<open>
  The state model of \<open>skills-toolbox/epic/epic-driver.mjs\<close>: the run state as a record, reading a raw
  JSON value into it (\<open>normalizeEpicState\<close>), writing it back (\<open>encode_state\<close>, what
  \<open>JSON.stringify\<close> stores), validation and the storage path. Every transition of the driver passes
  its result through \<open>normalizeEpicState\<close> again; on a state of this record type that pass is
  \<open>normalize\<close>, and \<open>normalizeEpicState_encode\<close> proves that it is the raw function on the encoded
  state. Identifiers and the other text fields are strings: a value of another type there, which the
  module never writes, reads as the empty string.
\<close>

section \<open>Vocabulary\<close>

datatype run_status = RUNNING | RUNNING_BUT_UNWATCHED | BLOCKED | DONE

fun EPIC_RUN_STATUSES :: "run_status \<Rightarrow> string" where
  "EPIC_RUN_STATUSES RUNNING = ''RUNNING''"
| "EPIC_RUN_STATUSES RUNNING_BUT_UNWATCHED = ''RUNNING_BUT_UNWATCHED''"
| "EPIC_RUN_STATUSES BLOCKED = ''BLOCKED''"
| "EPIC_RUN_STATUSES DONE = ''DONE''"

definition all_statuses :: "run_status list" where
  "all_statuses = [RUNNING, RUNNING_BUT_UNWATCHED, BLOCKED, DONE]"

definition NON_TERMINAL_STATUSES :: "run_status list" where
  "NON_TERMINAL_STATUSES = [RUNNING, RUNNING_BUT_UNWATCHED, BLOCKED]"

datatype phase = Assembling | Reconstructing | Scheduling | Polling | Merging | Terminal

fun phase_name :: "phase \<Rightarrow> string" where
  "phase_name Assembling = ''assembling''"
| "phase_name Reconstructing = ''reconstructing''"
| "phase_name Scheduling = ''scheduling''"
| "phase_name Polling = ''polling''"
| "phase_name Merging = ''merging''"
| "phase_name Terminal = ''terminal''"

definition EPIC_PHASES :: "phase list" where
  "EPIC_PHASES = [Assembling, Reconstructing, Scheduling, Polling, Merging, Terminal]"

datatype wake_kind = W_initial | W_callback | W_subscription | W_fallback | W_retry | W_manual_resume

fun wake_name :: "wake_kind \<Rightarrow> string" where
  "wake_name W_initial = ''initial''"
| "wake_name W_callback = ''callback''"
| "wake_name W_subscription = ''subscription''"
| "wake_name W_fallback = ''fallback''"
| "wake_name W_retry = ''retry''"
| "wake_name W_manual_resume = ''manual-resume''"

definition EPIC_WAKE_KINDS :: "wake_kind list" where
  "EPIC_WAKE_KINDS = [W_initial, W_callback, W_subscription, W_fallback, W_retry, W_manual_resume]"

text \<open>The member of an enumeration a string names.\<close>

definition named :: "('a \<Rightarrow> string) \<Rightarrow> 'a list \<Rightarrow> jsval \<Rightarrow> 'a option" where
  "named name xs v = (case v of JStr s \<Rightarrow> find (\<lambda>x. name x = s) xs | _ \<Rightarrow> None)"

section \<open>The state\<close>

record ticket =
  t_id :: string
  t_title :: string
  t_priority :: int
  t_createdAt :: string
  t_blockedBy :: "string list"
  t_needsHuman :: bool

record session_row =
  sr_sessionId :: string
  sr_chatId :: string
  sr_adopted :: bool
  sr_reconciled :: bool
  sr_launchedAt :: string
  sr_prNumber :: "int option"
  sr_prRepo :: string
  sr_prUrl :: string
  sr_liveness :: string
  sr_repairRounds :: int
  sr_note :: string
  sr_settleObservation :: "observation option"

record callback_row =
  cb_id :: string
  cb_trigger :: string
  cb_state :: string

record subscription =
  sb_id :: string
  sb_ownerSessionId :: string
  sb_originChatId :: string
  sb_triggerEvent :: string
  sb_state :: string
  sb_firedAt :: string
  sb_expiresAt :: string

record fallback =
  fb_mechanism :: string
  fb_nextWakeAt :: string
  fb_reason :: string
  fb_retryCount :: int
  fb_lastReconciledAt :: string

record watch =
  w_targetChatId :: string
  w_repo :: string
  w_callbacks :: "callback_row list"
  w_subscription :: "subscription option"
  w_verifiedAt :: string
  w_unwatchedReason :: string
  w_fallback :: "fallback option"

record wake =
  wk_kind :: wake_kind
  wk_receivedAt :: string
  wk_reconciledAt :: "string option"

record epic_state =
  es_runId :: string
  es_epicId :: string
  es_repoId :: string
  es_agent :: string
  es_parallel :: int
  es_plannedState :: string
  es_reviewState :: string
  es_childWallClockMinutes :: int
  es_startedAt :: string
  es_lastReconciledAt :: string
  es_cycle :: int
  es_externalBlockersEvaluatedCycle :: int
  es_phase :: phase
  es_status :: run_status
  es_tickets :: "ticket list"
  es_sessions :: "session_row dict"
  es_watches :: "watch dict"
  es_pendingWakes :: "wake list"
  es_progressCommentId :: string
  es_progressMarker :: string
  es_finalProgressWrittenAt :: string
  es_watchCleanupDoneAt :: string
  es_ready :: "string list"
  es_inFlight :: "string list"
  es_greens :: "string list"
  es_merged :: "string list"
  es_failed :: "string list"
  es_cascadeSkipped :: "string list"
  es_externallyCleared :: "string list"
  es_pendingCascade :: "string list"
  es_needsHuman :: "string list"
  es_retainedEvidenceWatches :: "string list"

section \<open>Normalization\<close>

definition nonblank :: "string \<Rightarrow> bool" where
  "nonblank s \<longleftrightarrow> trim s \<noteq> []"

definition keep_nonblank :: "string \<Rightarrow> string" where
  "keep_nonblank s = (if nonblank s then s else [])"

definition nonblank_or :: "string \<Rightarrow> string \<Rightarrow> string" where
  "nonblank_or d s = (if nonblank s then s else d)"

text \<open>\<open>isNonEmptyString(v) ? v : ''\<close>, and \<open>uniqueIds\<close> on a list of strings and on a raw value.\<close>

definition uniqueIds :: "string list \<Rightarrow> string list" where
  "uniqueIds vs = uniq (filter nonblank vs)"

definition id_list :: "jsval \<Rightarrow> string list" where
  "id_list v = uniq (map string_or_empty (filter is_nonempty_string (array_or_empty v)))"

definition norm_wake :: "wake \<Rightarrow> wake" where
  "norm_wake w = w\<lparr>wk_reconciledAt := (case wk_reconciledAt w of
     Some a \<Rightarrow> if nonblank a then Some a else None | None \<Rightarrow> None)\<rparr>"

definition norm_ticket :: "ticket \<Rightarrow> ticket" where
  "norm_ticket t = t\<lparr>t_blockedBy := uniqueIds (t_blockedBy t)\<rparr>"

definition norm_subscription :: "subscription \<Rightarrow> subscription" where
  "norm_subscription b = b\<lparr>sb_ownerSessionId := keep_nonblank (sb_ownerSessionId b),
     sb_originChatId := keep_nonblank (sb_originChatId b),
     sb_triggerEvent := keep_nonblank (sb_triggerEvent b),
     sb_firedAt := keep_nonblank (sb_firedAt b), sb_expiresAt := keep_nonblank (sb_expiresAt b)\<rparr>"

definition norm_watch :: "watch \<Rightarrow> watch" where
  "norm_watch w = w\<lparr>w_subscription := map_option norm_subscription (w_subscription w)\<rparr>"

definition map_vals :: "('v \<Rightarrow> 'u) \<Rightarrow> 'v dict \<Rightarrow> 'u dict" where
  "map_vals f m = map (\<lambda>(k, v). (k, f v)) m"

text \<open>The one choke point: id lists without blanks and repetition, needs-human ids out of the ready
  and in-flight lists.\<close>

definition close_ids :: "epic_state \<Rightarrow> epic_state" where
  "close_ids s =
     (let nh = uniqueIds (uniqueIds (es_needsHuman s) @
            map t_id (filter t_needsHuman (es_tickets s)))
      in s\<lparr>es_needsHuman := nh,
           es_ready := without_ids (uniqueIds (es_ready s)) nh,
           es_inFlight := without_ids (uniqueIds (es_inFlight s)) nh,
           es_greens := uniqueIds (es_greens s), es_merged := uniqueIds (es_merged s),
           es_failed := uniqueIds (es_failed s), es_cascadeSkipped := uniqueIds (es_cascadeSkipped s),
           es_externallyCleared := uniqueIds (es_externallyCleared s),
           es_pendingCascade := uniqueIds (es_pendingCascade s),
           es_retainedEvidenceWatches := uniqueIds (es_retainedEvidenceWatches s)\<rparr>)"

definition norm_fields :: "epic_state \<Rightarrow> epic_state" where
  "norm_fields s =
     s\<lparr>es_runId := keep_nonblank (es_runId s), es_epicId := keep_nonblank (es_epicId s),
       es_parallel := (if 0 < es_parallel s then es_parallel s else 1),
       es_tickets := map norm_ticket (es_tickets s),
       es_watches := map_vals norm_watch (es_watches s),
       es_pendingWakes := map norm_wake (es_pendingWakes s),
       es_progressMarker := nonblank_or ''boss-epic-progress'' (es_progressMarker s)\<rparr>"

definition normalize :: "epic_state \<Rightarrow> epic_state" where
  "normalize s = close_ids (norm_fields s)"

section \<open>Reading a raw state\<close>

text \<open>\<open>Object.entries(v)\<close> of an object, an array included.\<close>

definition js_entries :: "jsval \<Rightarrow> jsval dict" where
  "js_entries v =
     (case v of JObj kvs \<Rightarrow> kvs | JArr xs \<Rightarrow> zip (map show_nat [0..<length xs]) xs | _ \<Rightarrow> [])"

abbreviation text_of :: "jsval \<Rightarrow> string \<Rightarrow> string" where
  "text_of v k \<equiv> string_or_empty (prop_of v k)"

definition read_ticket :: "jsval \<Rightarrow> ticket" where
  "read_ticket v =
     \<lparr> t_id = text_of v ''id'', t_title = text_of v ''title'',
       t_priority = finite_or 0 (prop_of v ''priority''), t_createdAt = text_of v ''createdAt'',
       t_blockedBy = id_list (prop_of v ''blockedBy''),
       t_needsHuman = (prop_of v ''needsHuman'' = JBool True) \<rparr>"

definition normalizeSettleObservation :: "jsval \<Rightarrow> observation option" where
  "normalizeSettleObservation v =
     (case (prop_of v ''idleEligible'', prop_of v ''readyEligible'') of
        (JBool i, JBool r) \<Rightarrow> Some \<lparr>ob_idleEligible = i, ob_readyEligible = r\<rparr>
      | _ \<Rightarrow> None)"

definition read_session :: "jsval \<Rightarrow> session_row" where
  "read_session v =
     \<lparr> sr_sessionId = text_of v ''sessionId'', sr_chatId = text_of v ''chatId'',
       sr_adopted = (prop_of v ''adopted'' = JBool True),
       sr_reconciled = (prop_of v ''reconciled'' = JBool True),
       sr_launchedAt = text_of v ''launchedAt'', sr_prNumber = finite_num (prop_of v ''prNumber''),
       sr_prRepo = text_of v ''prRepo'', sr_prUrl = text_of v ''prUrl'',
       sr_liveness = text_of v ''liveness'', sr_repairRounds = finite_or 0 (prop_of v ''repairRounds''),
       sr_note = text_of v ''note'',
       sr_settleObservation = normalizeSettleObservation (prop_of v ''settleObservation'') \<rparr>"

definition read_callback :: "jsval \<Rightarrow> callback_row" where
  "read_callback v =
     \<lparr> cb_id = text_of v ''id'', cb_trigger = text_of v ''trigger'', cb_state = text_of v ''state'' \<rparr>"

text \<open>The camelCase spelling wins when it is not blank; otherwise the snake_case one, taken as it is.\<close>

definition camel_or_snake :: "jsval \<Rightarrow> string \<Rightarrow> string \<Rightarrow> string" where
  "camel_or_snake v camel snake =
     (if is_nonempty_string (prop_of v camel) then text_of v camel else text_of v snake)"

definition read_subscription :: "jsval \<Rightarrow> subscription" where
  "read_subscription v =
     \<lparr> sb_id = text_of v ''id'',
       sb_ownerSessionId = camel_or_snake v ''ownerSessionId'' ''owner_session_id'',
       sb_originChatId = camel_or_snake v ''originChatId'' ''origin_chat_id'',
       sb_triggerEvent = camel_or_snake v ''triggerEvent'' ''trigger_event'',
       sb_state = text_of v ''state'',
       sb_firedAt = camel_or_snake v ''firedAt'' ''fired_at'',
       sb_expiresAt = camel_or_snake v ''expiresAt'' ''expires_at'' \<rparr>"

definition read_fallback :: "jsval \<Rightarrow> fallback" where
  "read_fallback v =
     \<lparr> fb_mechanism = text_of v ''mechanism'', fb_nextWakeAt = text_of v ''nextWakeAt'',
       fb_reason = text_of v ''reason'', fb_retryCount = finite_or 0 (prop_of v ''retryCount''),
       fb_lastReconciledAt = text_of v ''lastReconciledAt'' \<rparr>"

definition read_watch :: "jsval \<Rightarrow> watch" where
  "read_watch v =
     \<lparr> w_targetChatId = text_of v ''targetChatId'', w_repo = text_of v ''repo'',
       w_callbacks = map read_callback (array_or_empty (prop_of v ''callbacks'')),
       w_subscription = (if is_object (prop_of v ''subscription'')
         then Some (read_subscription (prop_of v ''subscription'')) else None),
       w_verifiedAt = text_of v ''verifiedAt'', w_unwatchedReason = text_of v ''unwatchedReason'',
       w_fallback = (if is_object (prop_of v ''fallback'')
         then Some (read_fallback (prop_of v ''fallback'')) else None) \<rparr>"

definition read_wake :: "jsval \<Rightarrow> wake" where
  "read_wake v =
     \<lparr> wk_kind = (case named wake_name EPIC_WAKE_KINDS (prop_of v ''kind'') of
         Some k \<Rightarrow> k | None \<Rightarrow> W_manual_resume),
       wk_receivedAt = text_of v ''receivedAt'',
       wk_reconciledAt = (if is_nonempty_string (prop_of v ''reconciledAt'')
         then Some (text_of v ''reconciledAt'') else None) \<rparr>"

definition read_fields :: "jsval \<Rightarrow> epic_state" where
  "read_fields v =
     \<lparr> es_runId = keep_nonblank (text_of v ''runId''), es_epicId = keep_nonblank (text_of v ''epicId''),
       es_repoId = text_of v ''repoId'', es_agent = text_of v ''agent'',
       es_parallel = (if 0 < finite_or 0 (prop_of v ''parallel'') then finite_or 0 (prop_of v ''parallel'') else 1),
       es_plannedState = text_of v ''plannedState'', es_reviewState = text_of v ''reviewState'',
       es_childWallClockMinutes = finite_or 0 (prop_of v ''childWallClockMinutes''),
       es_startedAt = text_of v ''startedAt'', es_lastReconciledAt = text_of v ''lastReconciledAt'',
       es_cycle = finite_or 0 (prop_of v ''cycle''),
       es_externalBlockersEvaluatedCycle = finite_or (- 1) (prop_of v ''externalBlockersEvaluatedCycle''),
       es_phase = (case named phase_name EPIC_PHASES (prop_of v ''phase'') of Some p \<Rightarrow> p | None \<Rightarrow> Assembling),
       es_status = (case named EPIC_RUN_STATUSES all_statuses (prop_of v ''status'') of
         Some st \<Rightarrow> st | None \<Rightarrow> RUNNING),
       es_tickets = map read_ticket (array_or_empty (prop_of v ''tickets'')),
       es_sessions = map_vals read_session (js_entries (prop_of v ''sessions'')),
       es_watches = map_vals read_watch (js_entries (prop_of v ''watches'')),
       es_pendingWakes = map read_wake (array_or_empty (prop_of v ''pendingWakes'')),
       es_progressCommentId = text_of v ''progressCommentId'',
       es_progressMarker = nonblank_or ''boss-epic-progress'' (text_of v ''progressMarker''),
       es_finalProgressWrittenAt = text_of v ''finalProgressWrittenAt'',
       es_watchCleanupDoneAt = text_of v ''watchCleanupDoneAt'',
       es_ready = id_list (prop_of v ''ready''), es_inFlight = id_list (prop_of v ''inFlight''),
       es_greens = id_list (prop_of v ''greens''), es_merged = id_list (prop_of v ''merged''),
       es_failed = id_list (prop_of v ''failed''),
       es_cascadeSkipped = id_list (prop_of v ''cascadeSkipped''),
       es_externallyCleared = id_list (prop_of v ''externallyCleared''),
       es_pendingCascade = id_list (prop_of v ''pendingCascade''),
       es_needsHuman = id_list (prop_of v ''needsHuman''),
       es_retainedEvidenceWatches = id_list (prop_of v ''retainedEvidenceWatches'') \<rparr>"

definition normalizeEpicState :: "jsval \<Rightarrow> epic_state" where
  "normalizeEpicState v = close_ids (read_fields v)"

definition createEpicState :: "jsval \<Rightarrow> epic_state" where
  "createEpicState opts =
     normalizeEpicState (JObj
       [(''version'', JNum (Fin 1)), (''runId'', prop_of opts ''runId''), (''epicId'', prop_of opts ''epicId''),
        (''repoId'', opt_default opts ''repoId'' (JStr [])), (''agent'', opt_default opts ''agent'' (JStr [])),
        (''parallel'', opt_default opts ''parallel'' (JNum (Fin 1))),
        (''plannedState'', opt_default opts ''plannedState'' (JStr [])),
        (''reviewState'', opt_default opts ''reviewState'' (JStr [])),
        (''childWallClockMinutes'', opt_default opts ''childWallClockMinutes'' (JNum (Fin 0))),
        (''startedAt'', opt_default opts ''startedAt'' (JStr [])),
        (''tickets'', opt_default opts ''tickets'' (JArr [])),
        (''progressMarker'', opt_default opts ''progressMarker'' (JStr ''boss-epic-progress'')),
        (''phase'', JStr ''assembling''), (''status'', JStr (EPIC_RUN_STATUSES RUNNING))])"

section \<open>Writing a state\<close>

definition jids :: "string list \<Rightarrow> jsval" where
  "jids xs = JArr (map JStr xs)"

definition jint :: "int \<Rightarrow> jsval" where
  "jint i = JNum (Fin i)"

definition jopt :: "('a \<Rightarrow> jsval) \<Rightarrow> 'a option \<Rightarrow> jsval" where
  "jopt f v = (case v of Some x \<Rightarrow> f x | None \<Rightarrow> JNull)"

definition encode_ticket :: "ticket \<Rightarrow> jsval" where
  "encode_ticket t = JObj
     [(''id'', JStr (t_id t)), (''title'', JStr (t_title t)), (''priority'', jint (t_priority t)),
      (''createdAt'', JStr (t_createdAt t)), (''blockedBy'', jids (t_blockedBy t)),
      (''needsHuman'', JBool (t_needsHuman t))]"

definition encode_session :: "session_row \<Rightarrow> jsval" where
  "encode_session r = JObj
     [(''sessionId'', JStr (sr_sessionId r)), (''chatId'', JStr (sr_chatId r)),
      (''adopted'', JBool (sr_adopted r)), (''reconciled'', JBool (sr_reconciled r)),
      (''launchedAt'', JStr (sr_launchedAt r)), (''prNumber'', jopt jint (sr_prNumber r)),
      (''prRepo'', JStr (sr_prRepo r)), (''prUrl'', JStr (sr_prUrl r)),
      (''liveness'', JStr (sr_liveness r)), (''repairRounds'', jint (sr_repairRounds r)),
      (''note'', JStr (sr_note r)), (''settleObservation'', jopt obs_obj (sr_settleObservation r))]"

definition encode_callback :: "callback_row \<Rightarrow> jsval" where
  "encode_callback c = JObj
     [(''id'', JStr (cb_id c)), (''trigger'', JStr (cb_trigger c)), (''state'', JStr (cb_state c))]"

definition encode_subscription :: "subscription \<Rightarrow> jsval" where
  "encode_subscription b = JObj
     [(''id'', JStr (sb_id b)), (''ownerSessionId'', JStr (sb_ownerSessionId b)),
      (''originChatId'', JStr (sb_originChatId b)), (''triggerEvent'', JStr (sb_triggerEvent b)),
      (''state'', JStr (sb_state b)), (''firedAt'', JStr (sb_firedAt b)),
      (''expiresAt'', JStr (sb_expiresAt b))]"

definition encode_fallback :: "fallback \<Rightarrow> jsval" where
  "encode_fallback f = JObj
     [(''mechanism'', JStr (fb_mechanism f)), (''nextWakeAt'', JStr (fb_nextWakeAt f)),
      (''reason'', JStr (fb_reason f)), (''retryCount'', jint (fb_retryCount f)),
      (''lastReconciledAt'', JStr (fb_lastReconciledAt f))]"

definition encode_watch :: "watch \<Rightarrow> jsval" where
  "encode_watch w = JObj
     [(''targetChatId'', JStr (w_targetChatId w)), (''repo'', JStr (w_repo w)),
      (''callbacks'', JArr (map encode_callback (w_callbacks w))),
      (''subscription'', jopt encode_subscription (w_subscription w)),
      (''verifiedAt'', JStr (w_verifiedAt w)), (''unwatchedReason'', JStr (w_unwatchedReason w)),
      (''fallback'', jopt encode_fallback (w_fallback w))]"

definition encode_wake :: "wake \<Rightarrow> jsval" where
  "encode_wake w = JObj
     [(''kind'', JStr (wake_name (wk_kind w))), (''receivedAt'', JStr (wk_receivedAt w)),
      (''reconciledAt'', jopt JStr (wk_reconciledAt w))]"

definition encode_state :: "epic_state \<Rightarrow> jsval" where
  "encode_state s = JObj
     [(''version'', JNum (Fin 1)), (''runId'', JStr (es_runId s)), (''epicId'', JStr (es_epicId s)),
      (''repoId'', JStr (es_repoId s)), (''agent'', JStr (es_agent s)),
      (''parallel'', jint (es_parallel s)), (''plannedState'', JStr (es_plannedState s)),
      (''reviewState'', JStr (es_reviewState s)),
      (''childWallClockMinutes'', jint (es_childWallClockMinutes s)),
      (''startedAt'', JStr (es_startedAt s)), (''lastReconciledAt'', JStr (es_lastReconciledAt s)),
      (''cycle'', jint (es_cycle s)),
      (''externalBlockersEvaluatedCycle'', jint (es_externalBlockersEvaluatedCycle s)),
      (''phase'', JStr (phase_name (es_phase s))), (''status'', JStr (EPIC_RUN_STATUSES (es_status s))),
      (''tickets'', JArr (map encode_ticket (es_tickets s))),
      (''sessions'', JObj (map_vals encode_session (es_sessions s))),
      (''watches'', JObj (map_vals encode_watch (es_watches s))),
      (''pendingWakes'', JArr (map encode_wake (es_pendingWakes s))),
      (''progressCommentId'', JStr (es_progressCommentId s)),
      (''progressMarker'', JStr (es_progressMarker s)),
      (''finalProgressWrittenAt'', JStr (es_finalProgressWrittenAt s)),
      (''watchCleanupDoneAt'', JStr (es_watchCleanupDoneAt s)),
      (''ready'', jids (es_ready s)), (''inFlight'', jids (es_inFlight s)),
      (''greens'', jids (es_greens s)), (''merged'', jids (es_merged s)),
      (''failed'', jids (es_failed s)), (''cascadeSkipped'', jids (es_cascadeSkipped s)),
      (''externallyCleared'', jids (es_externallyCleared s)),
      (''pendingCascade'', jids (es_pendingCascade s)), (''needsHuman'', jids (es_needsHuman s)),
      (''retainedEvidenceWatches'', jids (es_retainedEvidenceWatches s))]"

section \<open>Normalization\<close>

lemma nonblank_simps [simp]:
  "nonblank (keep_nonblank s) = nonblank s" "keep_nonblank (keep_nonblank s) = keep_nonblank s"
  "\<not> nonblank []"
  by (auto simp: keep_nonblank_def nonblank_def)

lemma nonblank_or_idem [simp]: "nonblank d \<Longrightarrow> nonblank_or d (nonblank_or d s) = nonblank_or d s"
  by (simp add: nonblank_or_def)

lemma marker_nonblank [simp]: "nonblank ''boss-epic-progress''"
  by (simp add: nonblank_def trim_def is_ws_def)

lemma uniqueIds_props [simp]:
  "set (uniqueIds xs) = {x \<in> set xs. nonblank x}" "distinct (uniqueIds xs)"
  by (auto simp: uniqueIds_def)

lemma uniqueIds_uniqueIds [simp]: "uniqueIds (uniqueIds xs) = uniqueIds xs"
  by (simp add: uniqueIds_def filter_uniq)

lemma uniq_append_uniq: "uniq (uniq xs @ ys) = uniq (xs @ ys)"
proof (induction xs)
  case (Cons x xs)
  then show ?case by (metis (no_types) append_Cons append_eq_append_conv2 foldl_add_id_uniq uniq_idem)
qed simp

lemma uniqueIds_append [simp]: "uniqueIds (uniqueIds xs @ ys) = uniqueIds (xs @ ys)"
  by (simp add: uniqueIds_def filter_uniq uniq_append_uniq)

lemma uniqueIds_fix: "distinct xs \<Longrightarrow> list_all nonblank xs \<Longrightarrow> uniqueIds xs = xs"
  by (simp add: uniqueIds_def list_all_iff uniq_distinct)

lemma without_ids_uniqueIds: "uniqueIds (without_ids (uniqueIds xs) ys) = without_ids (uniqueIds xs) ys"
  by (rule uniqueIds_fix) (auto simp: list_all_iff without_ids_def)

lemma without_ids_idem [simp]: "without_ids (without_ids xs ys) ys = without_ids xs ys"
  by (simp add: without_ids_def)

lemma norm_parts_idem [simp]:
  "norm_ticket (norm_ticket t) = norm_ticket t" "norm_wake (norm_wake w) = norm_wake w"
  "norm_subscription (norm_subscription b) = norm_subscription b" "norm_watch (norm_watch v) = norm_watch v"
proof -
  show b: "norm_subscription (norm_subscription b) = norm_subscription b" for b
    by (simp add: norm_subscription_def)
  show "norm_watch (norm_watch v) = norm_watch v"
    by (cases "w_subscription v") (simp_all add: norm_watch_def b)
qed (simp_all add: norm_ticket_def norm_wake_def split: option.splits)

lemma norm_ticket_simps [simp]:
  "t_id (norm_ticket t) = t_id t" "t_needsHuman (norm_ticket t) = t_needsHuman t"
  "t_blockedBy (norm_ticket t) = uniqueIds (t_blockedBy t)"
  by (simp_all add: norm_ticket_def)

lemma map_vals_keys [simp]: "map fst (map_vals f m) = map fst m"
  by (simp add: map_vals_def comp_def split_def)

lemma map_vals_map_vals [simp]: "map_vals f (map_vals g m) = map_vals (f \<circ> g) m"
  by (simp add: map_vals_def comp_def split_def)

lemma map_vals_Nil [simp]: "map_vals f [] = []"
  by (simp add: map_vals_def)

lemma map_of_map_vals [simp]: "map_of (map_vals f m) k = map_option f (map_of m k)"
  by (induction m) (auto simp: map_vals_def)

lemma norm_fields_idem [simp]: "norm_fields (norm_fields s) = norm_fields s"
  by (simp add: norm_fields_def comp_def)

lemma close_ids_fields [simp]:
  "es_runId (close_ids s) = es_runId s" "es_epicId (close_ids s) = es_epicId s"
  "es_parallel (close_ids s) = es_parallel s" "es_tickets (close_ids s) = es_tickets s"
  "es_watches (close_ids s) = es_watches s" "es_sessions (close_ids s) = es_sessions s"
  "es_pendingWakes (close_ids s) = es_pendingWakes s" "es_progressMarker (close_ids s) = es_progressMarker s"
  "es_status (close_ids s) = es_status s" "es_phase (close_ids s) = es_phase s"
  "es_cycle (close_ids s) = es_cycle s" "es_lastReconciledAt (close_ids s) = es_lastReconciledAt s"
  "es_externalBlockersEvaluatedCycle (close_ids s) = es_externalBlockersEvaluatedCycle s"
  "es_finalProgressWrittenAt (close_ids s) = es_finalProgressWrittenAt s"
  "es_watchCleanupDoneAt (close_ids s) = es_watchCleanupDoneAt s"
  "es_progressCommentId (close_ids s) = es_progressCommentId s"
  "es_greens (close_ids s) = uniqueIds (es_greens s)" "es_merged (close_ids s) = uniqueIds (es_merged s)"
  "es_failed (close_ids s) = uniqueIds (es_failed s)"
  "es_cascadeSkipped (close_ids s) = uniqueIds (es_cascadeSkipped s)"
  "es_externallyCleared (close_ids s) = uniqueIds (es_externallyCleared s)"
  "es_pendingCascade (close_ids s) = uniqueIds (es_pendingCascade s)"
  "es_retainedEvidenceWatches (close_ids s) = uniqueIds (es_retainedEvidenceWatches s)"
  by (simp_all add: close_ids_def Let_def)

lemma close_ids_id_lists:
  "es_needsHuman (close_ids s) =
     uniqueIds (es_needsHuman s @ map t_id (filter t_needsHuman (es_tickets s)))"
  "es_ready (close_ids s) = without_ids (uniqueIds (es_ready s)) (es_needsHuman (close_ids s))"
  "es_inFlight (close_ids s) = without_ids (uniqueIds (es_inFlight s)) (es_needsHuman (close_ids s))"
  by (simp_all add: close_ids_def Let_def)

lemma uniqueIds_absorb: "set ys \<subseteq> set xs \<Longrightarrow> uniqueIds (xs @ ys) = uniqueIds xs"
proof -
  have "uniq (as @ bs) = uniq as" if "set bs \<subseteq> set as" for as bs :: "string list"
  proof -
    have "foldl add_id (uniq as) bs = uniq as"
      using that
    proof (induction bs)
      case (Cons b bs)
      then have "add_id (uniq as) b = uniq as" by (simp add: add_id_def)
      with Cons show ?case by simp
    qed simp
    then show ?thesis by (simp add: foldl_add_id_uniq)
  qed
  moreover assume "set ys \<subseteq> set xs"
  then have "set (filter nonblank ys) \<subseteq> set (filter nonblank xs)" by auto
  ultimately show "uniqueIds (xs @ ys) = uniqueIds xs" by (simp only: uniqueIds_def filter_append)
qed

lemma needsHuman_idem:
  "uniqueIds (uniqueIds (xs @ ys) @ ys) = uniqueIds (xs @ ys)"
  by (simp only: uniqueIds_append append_assoc) (metis append_assoc uniqueIds_absorb set_append sup_ge2)

lemma close_ids_idem [simp]: "close_ids (close_ids s) = close_ids s"
proof (rule epic_state.equality)
  let ?nh = "es_needsHuman (close_ids s)"
  show nh: "es_needsHuman (close_ids (close_ids s)) = ?nh"
    by (simp only: close_ids_id_lists close_ids_fields needsHuman_idem)
  show "es_ready (close_ids (close_ids s)) = es_ready (close_ids s)"
    by (simp only: close_ids_id_lists(2)[of "close_ids s"] nh)
      (simp add: close_ids_id_lists(2) without_ids_uniqueIds)
  show "es_inFlight (close_ids (close_ids s)) = es_inFlight (close_ids s)"
    by (simp only: close_ids_id_lists(3)[of "close_ids s"] nh)
      (simp add: close_ids_id_lists(3) without_ids_uniqueIds)
qed (simp_all add: close_ids_def Let_def)

lemma norm_tickets_ids [simp]:
  "map t_id (filter t_needsHuman (map norm_ticket ts)) = map t_id (filter t_needsHuman ts)"
  by (induction ts) auto

lemma norm_fields_close_ids: "norm_fields (close_ids s) = close_ids (norm_fields s)"
  by (rule epic_state.equality) (simp_all add: norm_fields_def close_ids_def Let_def)

lemma normalize_idem [simp]: "normalize (normalize s) = normalize s"
  by (simp add: normalize_def norm_fields_close_ids)

definition declared_needsHuman :: "epic_state \<Rightarrow> string list" where
  "declared_needsHuman s = map t_id (filter t_needsHuman (es_tickets s))"

text \<open>What every normalized state satisfies.\<close>

definition state_ok :: "epic_state \<Rightarrow> bool" where
  "state_ok s \<longleftrightarrow> normalize s = s"

lemma state_ok_normalize [simp]: "state_ok (normalize s)"
  by (simp add: state_ok_def)

lemma needsHuman_normalize:
  "set (es_needsHuman (normalize s)) = {i \<in> set (es_needsHuman s) \<union> set (declared_needsHuman s). nonblank i}"
  by (auto simp: normalize_def close_ids_id_lists(1) norm_fields_def declared_needsHuman_def)

lemma ready_normalize:
  "set (es_ready (normalize s)) = {i \<in> set (es_ready s). nonblank i} - set (es_needsHuman (normalize s))"
  by (simp add: normalize_def close_ids_id_lists(2)) (simp add: norm_fields_def)

lemma inFlight_normalize:
  "set (es_inFlight (normalize s)) = {i \<in> set (es_inFlight s). nonblank i} - set (es_needsHuman (normalize s))"
  by (simp add: normalize_def close_ids_id_lists(3)) (simp add: norm_fields_def)

lemma distinct_normalize:
  "distinct (es_ready (normalize s))" "distinct (es_inFlight (normalize s))"
  by (simp_all add: normalize_def close_ids_id_lists(2,3))

lemma normalize_fields [simp]:
  "es_greens (normalize s) = uniqueIds (es_greens s)" "es_merged (normalize s) = uniqueIds (es_merged s)"
  "es_failed (normalize s) = uniqueIds (es_failed s)"
  "es_cascadeSkipped (normalize s) = uniqueIds (es_cascadeSkipped s)"
  "es_externallyCleared (normalize s) = uniqueIds (es_externallyCleared s)"
  "es_pendingCascade (normalize s) = uniqueIds (es_pendingCascade s)"
  "es_retainedEvidenceWatches (normalize s) = uniqueIds (es_retainedEvidenceWatches s)"
  "es_status (normalize s) = es_status s" "es_phase (normalize s) = es_phase s"
  "es_cycle (normalize s) = es_cycle s" "es_lastReconciledAt (normalize s) = es_lastReconciledAt s"
  "es_externalBlockersEvaluatedCycle (normalize s) = es_externalBlockersEvaluatedCycle s"
  "es_sessions (normalize s) = es_sessions s"
  "es_watches (normalize s) = map_vals norm_watch (es_watches s)"
  "es_pendingWakes (normalize s) = map norm_wake (es_pendingWakes s)"
  "es_tickets (normalize s) = map norm_ticket (es_tickets s)"
  "es_finalProgressWrittenAt (normalize s) = es_finalProgressWrittenAt s"
  "es_watchCleanupDoneAt (normalize s) = es_watchCleanupDoneAt s"
  "es_parallel (normalize s) = (if 0 < es_parallel s then es_parallel s else 1)"
  "es_epicId (normalize s) = keep_nonblank (es_epicId s)" "es_runId (normalize s) = keep_nonblank (es_runId s)"
  by (simp_all add: normalize_def norm_fields_def)

section \<open>The stored state reads back\<close>

lemma find_named [simp]:
  "named phase_name EPIC_PHASES (JStr (phase_name p)) = Some p"
  "named EPIC_RUN_STATUSES all_statuses (JStr (EPIC_RUN_STATUSES st)) = Some st"
  "named wake_name EPIC_WAKE_KINDS (JStr (wake_name w)) = Some w"
proof -
  show "named phase_name EPIC_PHASES (JStr (phase_name p)) = Some p"
    by (cases p) (simp_all add: named_def EPIC_PHASES_def)
  show "named EPIC_RUN_STATUSES all_statuses (JStr (EPIC_RUN_STATUSES st)) = Some st"
    by (cases st) (simp_all add: named_def all_statuses_def)
  show "named wake_name EPIC_WAKE_KINDS (JStr (wake_name w)) = Some w"
    by (cases w) (simp_all add: named_def EPIC_WAKE_KINDS_def)
qed

lemma read_simps [simp]:
  "string_or_empty (JStr s) = s" "finite_or d (jint i) = i" "array_or_empty (JArr xs) = xs"
  "js_entries (JObj m) = m" "finite_num (jopt jint n) = n"
  by (simp_all add: string_or_empty_def finite_or_def jint_def array_or_empty_def js_entries_def
      finite_num_def jopt_def split: option.splits)

lemma id_list_jids [simp]: "id_list (jids xs) = uniqueIds xs"
proof -
  have "map string_or_empty (filter is_nonempty_string (map JStr xs)) = filter nonblank xs"
    by (induction xs) (auto simp: nonblank_def)
  then show ?thesis by (simp add: id_list_def jids_def uniqueIds_def)
qed

lemma read_ticket_encode [simp]: "read_ticket (encode_ticket t) = norm_ticket t"
  by (cases t) (simp add: read_ticket_def encode_ticket_def norm_ticket_def)

lemma settle_encode [simp]: "normalizeSettleObservation (jopt obs_obj ob) = ob"
  by (cases ob) (simp_all add: normalizeSettleObservation_def jopt_def obs_obj_def)

lemma read_session_encode [simp]: "read_session (encode_session r) = r"
  by (simp add: read_session_def encode_session_def)

lemma read_callback_encode [simp]: "read_callback (encode_callback c) = c"
  by (simp add: read_callback_def encode_callback_def)

lemma read_subscription_encode [simp]: "read_subscription (encode_subscription b) = norm_subscription b"
  by (simp add: read_subscription_def encode_subscription_def norm_subscription_def camel_or_snake_def
      keep_nonblank_def nonblank_def string_or_empty_def)

lemma read_fallback_encode [simp]: "read_fallback (encode_fallback f) = f"
  by (simp add: read_fallback_def encode_fallback_def)

lemma encode_is_object [simp]:
  "is_object (encode_subscription b)" "is_object (encode_fallback f)" "\<not> is_object JNull"
  by (simp_all add: is_object_def encode_subscription_def encode_fallback_def)

lemma read_watch_encode [simp]: "read_watch (encode_watch w) = norm_watch w"
  by (cases "w_subscription w"; cases "w_fallback w")
    (simp_all add: read_watch_def encode_watch_def norm_watch_def jopt_def comp_def)

lemma read_wake_encode [simp]: "read_wake (encode_wake w) = norm_wake w"
  by (cases "wk_reconciledAt w")
    (simp_all add: read_wake_def encode_wake_def norm_wake_def find_named jopt_def nonblank_def)

lemma map_vals_read [simp]:
  "map_vals (read_session \<circ> encode_session) m = m" "map_vals (read_watch \<circ> encode_watch) v = map_vals norm_watch v"
  by (simp_all add: map_vals_def comp_def)

lemma map_read [simp]:
  "map (read_ticket \<circ> encode_ticket) ts = map norm_ticket ts" "map (read_wake \<circ> encode_wake) ws = map norm_wake ws"
  by (simp_all add: comp_def)

lemma encode_state_props:
  "text_of (encode_state s) ''runId'' = es_runId s" "text_of (encode_state s) ''epicId'' = es_epicId s"
  "text_of (encode_state s) ''repoId'' = es_repoId s" "text_of (encode_state s) ''agent'' = es_agent s"
  "prop_of (encode_state s) ''parallel'' = jint (es_parallel s)"
  "text_of (encode_state s) ''plannedState'' = es_plannedState s"
  "text_of (encode_state s) ''reviewState'' = es_reviewState s"
  "prop_of (encode_state s) ''childWallClockMinutes'' = jint (es_childWallClockMinutes s)"
  "text_of (encode_state s) ''startedAt'' = es_startedAt s"
  "text_of (encode_state s) ''lastReconciledAt'' = es_lastReconciledAt s"
  "prop_of (encode_state s) ''cycle'' = jint (es_cycle s)"
  "prop_of (encode_state s) ''externalBlockersEvaluatedCycle'' = jint (es_externalBlockersEvaluatedCycle s)"
  "prop_of (encode_state s) ''phase'' = JStr (phase_name (es_phase s))"
  "prop_of (encode_state s) ''status'' = JStr (EPIC_RUN_STATUSES (es_status s))"
  "prop_of (encode_state s) ''tickets'' = JArr (map encode_ticket (es_tickets s))"
  "prop_of (encode_state s) ''sessions'' = JObj (map_vals encode_session (es_sessions s))"
  "prop_of (encode_state s) ''watches'' = JObj (map_vals encode_watch (es_watches s))"
  "prop_of (encode_state s) ''pendingWakes'' = JArr (map encode_wake (es_pendingWakes s))"
  "text_of (encode_state s) ''progressCommentId'' = es_progressCommentId s"
  "text_of (encode_state s) ''progressMarker'' = es_progressMarker s"
  "text_of (encode_state s) ''finalProgressWrittenAt'' = es_finalProgressWrittenAt s"
  "text_of (encode_state s) ''watchCleanupDoneAt'' = es_watchCleanupDoneAt s"
  by (simp_all add: encode_state_def)

lemma encode_state_lists:
  "prop_of (encode_state s) ''ready'' = jids (es_ready s)" "prop_of (encode_state s) ''inFlight'' = jids (es_inFlight s)"
  "prop_of (encode_state s) ''greens'' = jids (es_greens s)" "prop_of (encode_state s) ''merged'' = jids (es_merged s)"
  "prop_of (encode_state s) ''failed'' = jids (es_failed s)"
  "prop_of (encode_state s) ''cascadeSkipped'' = jids (es_cascadeSkipped s)"
  "prop_of (encode_state s) ''externallyCleared'' = jids (es_externallyCleared s)"
  "prop_of (encode_state s) ''pendingCascade'' = jids (es_pendingCascade s)"
  "prop_of (encode_state s) ''needsHuman'' = jids (es_needsHuman s)"
  "prop_of (encode_state s) ''retainedEvidenceWatches'' = jids (es_retainedEvidenceWatches s)"
  by (simp_all add: encode_state_def)

lemma read_fields_encode:
  "close_ids (read_fields (encode_state s)) = close_ids (norm_fields s)"
proof -
  let ?r = "read_fields (encode_state s)"
  have lists: "es_ready ?r = uniqueIds (es_ready s)" "es_inFlight ?r = uniqueIds (es_inFlight s)"
    "es_greens ?r = uniqueIds (es_greens s)" "es_merged ?r = uniqueIds (es_merged s)"
    "es_failed ?r = uniqueIds (es_failed s)" "es_cascadeSkipped ?r = uniqueIds (es_cascadeSkipped s)"
    "es_externallyCleared ?r = uniqueIds (es_externallyCleared s)"
    "es_pendingCascade ?r = uniqueIds (es_pendingCascade s)"
    "es_needsHuman ?r = uniqueIds (es_needsHuman s)"
    "es_retainedEvidenceWatches ?r = uniqueIds (es_retainedEvidenceWatches s)"
    by (simp_all add: read_fields_def encode_state_lists)
  have rest: "?r = norm_fields s\<lparr>es_ready := es_ready ?r, es_inFlight := es_inFlight ?r,
      es_greens := es_greens ?r, es_merged := es_merged ?r, es_failed := es_failed ?r,
      es_cascadeSkipped := es_cascadeSkipped ?r, es_externallyCleared := es_externallyCleared ?r,
      es_pendingCascade := es_pendingCascade ?r, es_needsHuman := es_needsHuman ?r,
      es_retainedEvidenceWatches := es_retainedEvidenceWatches ?r\<rparr>"
    by (rule epic_state.equality) (simp_all add: read_fields_def encode_state_props norm_fields_def)
  show ?thesis
    by (subst rest) (simp add: lists close_ids_def Let_def norm_fields_def)
qed

lemma normalizeEpicState_written: "normalizeEpicState (encode_state s) = normalize s"
  by (simp add: normalizeEpicState_def read_fields_encode flip: normalize_def)

text \<open>The choke point holds for every state that was read, whatever was stored: no needs-human ticket is
  ready or in flight, and the ready and in-flight lists list every id once and none blank.\<close>

theorem normalizeEpicState_choke_point:
  "set (es_needsHuman (normalizeEpicState v)) \<inter>
     (set (es_ready (normalizeEpicState v)) \<union> set (es_inFlight (normalizeEpicState v))) = {} \<and>
   t_id ` {t \<in> set (es_tickets (normalizeEpicState v)). t_needsHuman t \<and> nonblank (t_id t)}
     \<subseteq> set (es_needsHuman (normalizeEpicState v)) \<and>
   distinct (es_ready (normalizeEpicState v)) \<and> distinct (es_inFlight (normalizeEpicState v)) \<and>
   list_all nonblank (es_ready (normalizeEpicState v) @ es_inFlight (normalizeEpicState v))"
  by (auto simp: normalizeEpicState_def close_ids_id_lists list_all_iff)

text \<open>The documented byte-equal idempotence of \<open>normalizeEpicState\<close> does not hold for every raw state: a
  blank-only snake_case subscription owner survives the first pass under its camelCase name and is
  dropped by the second.\<close>

definition blank_owner :: jsval where
  "blank_owner = JObj [(''watches'', JObj [(''A-1'', JObj [(''subscription'',
     JObj [(''id'', JStr ''s1''), (''owner_session_id'', JStr '' '')])])])]"

theorem normalizeEpicState_not_idempotent:
  "normalizeEpicState (encode_state (normalizeEpicState blank_owner)) \<noteq> normalizeEpicState blank_owner"
proof
  assume eq: "normalizeEpicState (encode_state (normalizeEpicState blank_owner)) = normalizeEpicState blank_owner"
  let ?owner = "\<lambda>s. map_option (\<lambda>w. map_option sb_ownerSessionId (w_subscription w)) (map_of (es_watches s) ''A-1'')"
  have once: "?owner (normalizeEpicState blank_owner) = Some (Some '' '')"
    by code_simp
  have twice: "?owner (normalizeEpicState (encode_state (normalizeEpicState blank_owner))) = Some (Some [])"
    by code_simp
  from twice[unfolded eq once] show False by simp
qed

section \<open>Validation\<close>

datatype state_error =
    State_not_object
  | Bad_version jsval
  | Run_id_missing
  | Epic_id_missing
  | Marker_missing
  | Unknown_phase jsval
  | Unknown_status jsval
  | List_missing string
  | Blank_item string nat
  | Ownership_missing string string
  | Subscription_without_id string
  | Subscription_without_owner string

definition ID_LIST_FIELDS :: "string list" where
  "ID_LIST_FIELDS = [''ready'', ''inFlight'', ''greens'', ''merged'', ''failed'', ''cascadeSkipped'',
     ''externallyCleared'', ''pendingCascade'', ''needsHuman'', ''retainedEvidenceWatches'']"

definition OWNERSHIP_FIELDS :: "string list" where
  "OWNERSHIP_FIELDS = [''sessionId'', ''chatId'']"

definition list_errors :: "jsval \<Rightarrow> string \<Rightarrow> state_error list" where
  "list_errors state field =
     (case prop_of state field of
        JArr xs \<Rightarrow> map (\<lambda>(i, _). Blank_item field i)
          (filter (\<lambda>(_, x). \<not> is_nonempty_string x) (zip [0..<length xs] xs))
      | _ \<Rightarrow> [List_missing field])"

definition session_errors :: "string \<times> jsval \<Rightarrow> state_error list" where
  "session_errors = (\<lambda>(key, r). map (Ownership_missing key)
     (filter (\<lambda>f. \<not> is_nonempty_string (prop_of r f)) OWNERSHIP_FIELDS))"

definition watch_errors :: "string \<times> jsval \<Rightarrow> state_error list" where
  "watch_errors = (\<lambda>(key, r).
     let sub = prop_of r ''subscription'' in
     (if truthy sub \<and> \<not> is_nonempty_string (prop_of sub ''id'')
      then [Subscription_without_id key] else []) @
     (if truthy sub \<and> \<not> is_nonempty_string
           (coalesce (prop_of sub ''ownerSessionId'') (prop_of sub ''owner_session_id''))
      then [Subscription_without_owner key] else []))"

definition validateEpicState :: "jsval \<Rightarrow> state_error list" where
  "validateEpicState state =
     (if \<not> is_plain_object state then [State_not_object]
      else
        (if prop_of state ''version'' \<noteq> JNum (Fin 1) then [Bad_version (prop_of state ''version'')] else []) @
        (if \<not> is_nonempty_string (prop_of state ''runId'') then [Run_id_missing] else []) @
        (if \<not> is_nonempty_string (prop_of state ''epicId'') then [Epic_id_missing] else []) @
        (if \<not> is_nonempty_string (prop_of state ''progressMarker'') then [Marker_missing] else []) @
        (if named phase_name EPIC_PHASES (prop_of state ''phase'') = None
         then [Unknown_phase (prop_of state ''phase'')] else []) @
        (if named EPIC_RUN_STATUSES all_statuses (prop_of state ''status'') = None
         then [Unknown_status (prop_of state ''status'')] else []) @
        concat (map (list_errors state) ID_LIST_FIELDS) @
        concat (map session_errors (js_entries (prop_of state ''sessions''))) @
        concat (map watch_errors (js_entries (prop_of state ''watches''))))"

section \<open>Persistence\<close>

definition slug_char :: "char \<Rightarrow> bool" where
  "slug_char c \<longleftrightarrow> is_alpha c \<or> is_digit c \<or> c \<in> set ''._-''"

function dash_runs :: "string \<Rightarrow> string" where
  "dash_runs [] = []"
| "dash_runs (c # cs) =
     (if slug_char c then c # dash_runs cs
      else CHR ''-'' # dash_runs (dropWhile (\<lambda>d. \<not> slug_char d) cs))"
  by pat_completeness auto
termination
  by (relation "measure length") (auto simp: le_imp_less_Suc length_dropWhile_le)

definition slugForPath :: "string \<Rightarrow> string" where
  "slugForPath value = dash_runs (trim value)"

text \<open>\<open>path.join\<close> of the runtime is the argument \<open>join_path\<close>.\<close>

definition epicStateFile :: "string \<Rightarrow> string \<Rightarrow> string" where
  "epicStateFile epicId runId = slugForPath epicId @ ''.'' @ slugForPath runId @ ''.json''"

definition epicStatePath ::
  "(string \<Rightarrow> string \<Rightarrow> string) \<Rightarrow> string \<Rightarrow> string \<Rightarrow> string \<Rightarrow> string option" where
  "epicStatePath join_path epicId runId dir =
     (if nonblank epicId \<and> nonblank runId \<and> nonblank dir
      then Some (join_path dir (epicStateFile epicId runId)) else None)"

text \<open>
  A file holds the JSON value it parses to, or text that does not parse. Saving issues two file operations
  in their order (the directory is made first, which touches no file). A rename is atomic; writing a file
  is not: from its first byte to its last the file holds whatever part has been written, so anything at
  all until the write ends. A crash leaves the files as any number of these steps made them.
\<close>

datatype content = Json jsval | Unparseable

type_synonym files = "string \<Rightarrow> content option"

datatype file_op = Write_file string content | Rename_file string string

inductive file_step :: "files \<times> file_op list \<Rightarrow> files \<times> file_op list \<Rightarrow> bool" where
  Writing: "file_step (fs, Write_file p c # ops) (fs(p := Some torn), Write_file p c # ops)"
| Written: "file_step (fs, Write_file p c # ops) (fs(p := Some c), ops)"
| Renamed: "file_step (fs, Rename_file p q # ops) (fs(q := fs p, p := None), ops)"

inductive_cases file_step_Nil: "file_step (fs, []) x"
inductive_cases file_step_Write: "file_step (fs, Write_file p c # ops) x"
inductive_cases file_step_Rename: "file_step (fs, Rename_file p q # ops) x"

inductive interrupted :: "files \<Rightarrow> file_op list \<Rightarrow> files \<Rightarrow> file_op list \<Rightarrow> bool" for fs ops where
  Not_begun: "interrupted fs ops fs ops"
| Further: "interrupted fs ops fs1 rest1 \<Longrightarrow> file_step (fs1, rest1) (fs2, rest2) \<Longrightarrow> interrupted fs ops fs2 rest2"

datatype persist_error = Invalid_state "state_error list" | No_path | Unreadable

definition saveEpicState ::
  "(string \<Rightarrow> string \<Rightarrow> string) \<Rightarrow> string \<Rightarrow> epic_state \<Rightarrow>
     persist_error + (string \<times> file_op list \<times> epic_state)" where
  "saveEpicState join_path dir state =
     (let normalized = normalize state; errors = validateEpicState (encode_state normalized) in
      if errors \<noteq> [] then Inl (Invalid_state errors)
      else case epicStatePath join_path (es_epicId normalized) (es_runId normalized) dir of
          None \<Rightarrow> Inl No_path
        | Some target \<Rightarrow> Inr (target,
            [Write_file (target @ ''.tmp'') (Json (encode_state normalized)),
             Rename_file (target @ ''.tmp'') target], normalized))"

definition loadEpicState ::
  "(string \<Rightarrow> string \<Rightarrow> string) \<Rightarrow> string \<Rightarrow> string \<Rightarrow> string \<Rightarrow> files \<Rightarrow>
     persist_error + epic_state option" where
  "loadEpicState join_path epicId runId dir fs =
     (case epicStatePath join_path epicId runId dir of
        None \<Rightarrow> Inl No_path
      | Some target \<Rightarrow>
          (case fs target of
             None \<Rightarrow> Inr None
           | Some Unparseable \<Rightarrow> Inl Unreadable
           | Some (Json v) \<Rightarrow>
               (let normalized = normalizeEpicState v;
                    errors = validateEpicState (encode_state normalized)
                in if errors \<noteq> [] then Inl (Invalid_state errors) else Inr (Some normalized))))"

lemma concat_map_empty: "concat (map f xs) = [] \<longleftrightarrow> (\<forall>x \<in> set xs. f x = [])"
  by (rule concat_map_Nil)

text \<open>A state that validates attributes every session and every subscription.\<close>

lemma validate_sessions:
  assumes "validateEpicState (encode_state s) = []" "map_of (es_sessions s) k = Some r"
  shows "nonblank (sr_sessionId r) \<and> nonblank (sr_chatId r)"
proof -
  have "(k, encode_session r) \<in> set (js_entries (prop_of (encode_state s) ''sessions''))"
    using assms(2) by (auto simp: encode_state_props map_vals_def dest!: map_of_SomeD)
  moreover have "\<forall>e \<in> set (js_entries (prop_of (encode_state s) ''sessions'')). session_errors e = []"
    using assms(1) by (simp add: validateEpicState_def concat_map_empty split: if_splits)
  ultimately have "session_errors (k, encode_session r) = []" by blast
  then show ?thesis
    by (auto simp: session_errors_def OWNERSHIP_FIELDS_def encode_session_def nonblank_def split: if_splits)
qed

lemma validate_ids:
  assumes "validateEpicState (encode_state s) = []"
  shows "nonblank (es_runId s) \<and> nonblank (es_epicId s)"
proof -
  have "is_nonempty_string (prop_of (encode_state s) ''runId'')"
    "is_nonempty_string (prop_of (encode_state s) ''epicId'')"
    using assms by (auto simp: validateEpicState_def split: if_splits)
  moreover have "prop_of (encode_state s) ''runId'' = JStr (es_runId s)"
    "prop_of (encode_state s) ''epicId'' = JStr (es_epicId s)"
    by (simp_all add: encode_state_def)
  ultimately show ?thesis by (simp add: nonblank_def)
qed

lemma swap_steps:
  assumes "interrupted fs [Write_file tmp c, Rename_file tmp target] fs' rest" "tmp \<noteq> target"
  shows "rest = [Write_file tmp c, Rename_file tmp target] \<and> fs' target = fs target \<or>
    rest = [Rename_file tmp target] \<and> fs' tmp = Some c \<and> fs' target = fs target \<or>
    rest = [] \<and> fs' target = Some c"
  using assms(1)
proof (induction rule: interrupted.induct)
  case (Further fs1 rest1 fs2 rest2)
  then show ?case
    using assms(2) by (elim disjE conjE) (auto elim!: file_step_Write file_step_Rename file_step_Nil)
qed simp

lemma swap_completes: "\<exists>fs'. interrupted fs [Write_file tmp c, Rename_file tmp target] fs' []"
  by (intro exI) (rule Further[OF Further[OF Not_begun Written] Renamed])

text \<open>C34:
  A crash never damages a saved run. Wherever a save is interrupted, in the middle of the write too, the
  state file holds its previous content or the whole new state, so loading answers what it answered
  before the save or the saved state; once the save is through, and it always can be, loading by the run's
  own ids answers the saved state, the normalized one, in which every session has an owner.\<close>

theorem save_load_atomic:
  assumes "saveEpicState join_path dir s = Inr (target, ops, s')"
  shows "s' = normalize s \<and>
    (\<forall>r\<in>ran (map_of (es_sessions s')). nonblank (sr_sessionId r) \<and> nonblank (sr_chatId r)) \<and>
    (\<exists>fs'. interrupted fs ops fs' []) \<and>
    (interrupted fs ops fs' rest \<longrightarrow>
       (fs' target = fs target \<or> fs' target = Some (Json (encode_state s'))) \<and>
       loadEpicState join_path (es_epicId s') (es_runId s') dir fs' \<in>
         {loadEpicState join_path (es_epicId s') (es_runId s') dir fs, Inr (Some s')} \<and>
       (rest = [] \<longrightarrow> loadEpicState join_path (es_epicId s') (es_runId s') dir fs' = Inr (Some s')))"
proof -
  have s': "s' = normalize s" and valid: "validateEpicState (encode_state s') = []"
    and path: "epicStatePath join_path (es_epicId s') (es_runId s') dir = Some target"
    and ops: "ops = [Write_file (target @ ''.tmp'') (Json (encode_state s')),
             Rename_file (target @ ''.tmp'') target]"
    using assms by (auto simp: saveEpicState_def Let_def split: if_splits option.splits)
  have "normalizeEpicState (encode_state s') = s'" by (simp add: s' normalizeEpicState_written)
  then have load: "fs' target = Some (Json (encode_state s')) \<Longrightarrow>
      loadEpicState join_path (es_epicId s') (es_runId s') dir fs' = Inr (Some s')" for fs'
    by (simp add: loadEpicState_def path valid Let_def)
  have same: "fs' target = fs target \<Longrightarrow> loadEpicState join_path (es_epicId s') (es_runId s') dir fs' =
      loadEpicState join_path (es_epicId s') (es_runId s') dir fs" for fs'
    by (simp add: loadEpicState_def path)
  have "\<forall>r\<in>ran (map_of (es_sessions s')). nonblank (sr_sessionId r) \<and> nonblank (sr_chatId r)"
    using validate_sessions[OF valid] by (auto simp: ran_def)
  moreover have "(fs' target = fs target \<or> fs' target = Some (Json (encode_state s'))) \<and>
      (rest = [] \<longrightarrow> fs' target = Some (Json (encode_state s')))" if "interrupted fs ops fs' rest"
    using swap_steps[OF that[unfolded ops]] by auto
  moreover have "\<exists>fs'. interrupted fs ops fs' []" unfolding ops by (rule swap_completes)
  ultimately show ?thesis using s' load same by blast
qed

definition fresh_state :: epic_state where
  "fresh_state = createEpicState (JObj
     [(''runId'', JStr ''r1''), (''epicId'', JStr ''E-1''),
      (''tickets'', JArr [JObj [(''id'', JStr ''A'')],
         JObj [(''id'', JStr ''B''), (''blockedBy'', JArr [JStr ''A''])]])])"

definition slash_join :: "string \<Rightarrow> string \<Rightarrow> string" where
  "slash_join a b = a @ ''/'' @ b"

lemma fresh_state_saves:
  "saveEpicState slash_join ''d'' fresh_state = Inr (''d/E-1.r1.json'',
     [Write_file ''d/E-1.r1.json.tmp'' (Json (encode_state fresh_state)),
      Rename_file ''d/E-1.r1.json.tmp'' ''d/E-1.r1.json''], fresh_state)"
proof -
  have n: "normalize fresh_state = fresh_state" by code_simp
  have v: "validateEpicState (encode_state fresh_state) = []" by code_simp
  have p: "epicStatePath slash_join (es_epicId fresh_state) (es_runId fresh_state) ''d'' =
      Some ''d/E-1.r1.json''" by code_simp
  show ?thesis by (simp add: saveEpicState_def n v p)
qed

theorem save_load_atomic_witness:
  "\<exists>fs'. interrupted (\<lambda>_. None) [Write_file ''d/E-1.r1.json.tmp'' (Json (encode_state fresh_state)),
      Rename_file ''d/E-1.r1.json.tmp'' ''d/E-1.r1.json''] fs' [] \<and>
     loadEpicState slash_join (es_epicId fresh_state) (es_runId fresh_state) ''d'' fs' = Inr (Some fresh_state)"
  using save_load_atomic[OF fresh_state_saves, of "\<lambda>_. None"] by blast

text \<open>The file name is not injective on run keys: the separating dot may occur in either part.\<close>

lemma epicStateFile_collision:
  "epicStateFile ''E.1'' ''2'' = epicStateFile ''E'' ''1.2''"
  by code_simp

end
