(* ===== verification/EpicDriver.thy ===== *)
theory EpicDriver
  imports EpicState MergeEligibility
begin

text \<open>
  The decision surface of \<open>skills-toolbox/epic/epic-driver.mjs\<close>: the terminal guard, the pure
  transitions on the run state, the continuation prompts, the progress projection and the readers the
  reconciliation cycle uses. A transition that throws is \<open>Inl\<close> of a \<open>driver_error\<close>. Scheduling is
  the model of dag-scheduler in \<open>DagScheduler\<close>, liveness and settling the one of bs-epic-lib in
  \<open>EpicLib\<close>, as in the source.
\<close>

section \<open>The terminal guard\<close>

text \<open>A blocker is the \<open>label:ids\<close> string of the source, kept structured.\<close>

datatype blocker =
    Ready_work "string list"
  | In_flight "string list"
  | Greens_queued "string list"
  | Cascade_pending "string list"
  | Unreconciled "string list"
  | Pending_wake "wake_kind list"
  | External_not_evaluated
  | Final_reconciliation_missing
  | Not_terminal "string list"

definition isTerminalTicket :: "epic_state \<Rightarrow> string \<Rightarrow> bool" where
  "isTerminalTicket s i =
     (i \<in> set (es_merged s) \<or> i \<in> set (es_failed s) \<or> i \<in> set (es_cascadeSkipped s))"

definition listed :: "(string list \<Rightarrow> blocker) \<Rightarrow> string list \<Rightarrow> blocker list" where
  "listed f xs = (if xs \<noteq> [] then [f xs] else [])"

definition unreconciled_ids :: "epic_state \<Rightarrow> string list" where
  "unreconciled_ids s =
     map fst (filter (\<lambda>(i, r). sr_adopted r \<and> \<not> sr_reconciled r \<and> \<not> isTerminalTicket s i) (es_sessions s))"

definition pending_kinds :: "epic_state \<Rightarrow> wake_kind list" where
  "pending_kinds s = map wk_kind (filter (\<lambda>w. wk_reconciledAt w = None) (es_pendingWakes s))"

definition guard_blockers :: "epic_state \<Rightarrow> blocker list" where
  "guard_blockers s =
     listed Ready_work (es_ready s) @ listed In_flight (es_inFlight s) @
     listed Greens_queued (es_greens s) @ listed Cascade_pending (es_pendingCascade s) @
     listed Unreconciled (unreconciled_ids s) @
     (if pending_kinds s \<noteq> [] then [Pending_wake (pending_kinds s)] else []) @
     (if es_externalBlockersEvaluatedCycle s \<noteq> es_cycle s then [External_not_evaluated] else [])"

definition epicTerminalBlockers :: "epic_state \<Rightarrow> blocker list" where
  "epicTerminalBlockers state = guard_blockers (normalize state)"

definition canEpicTerminate :: "epic_state \<Rightarrow> bool" where
  "canEpicTerminate state = (epicTerminalBlockers state = [])"

datatype driver_error =
    Non_terminal "blocker list"
  | Not_done "blocker list"
  | Launch_without_ticket
  | Launch_without_session
  | Launch_without_chat
  | Launch_needs_human string
  | Unverified_merge string
  | Prompt_without_epic
  | Prompt_unknown_kind string

definition assertEpicCanTerminate :: "epic_state \<Rightarrow> driver_error + bool" where
  "assertEpicCanTerminate state =
     (if epicTerminalBlockers state \<noteq> [] then Inl (Non_terminal (epicTerminalBlockers state)) else Inr True)"

definition open_tickets :: "epic_state \<Rightarrow> string list" where
  "open_tickets s =
     filter (\<lambda>i. i \<notin> set (es_needsHuman s) \<and> \<not> isTerminalTicket s i) (map t_id (es_tickets s))"

definition epicDoneBlockers :: "epic_state \<Rightarrow> blocker list" where
  "epicDoneBlockers state =
     (let s = normalize state in
      epicTerminalBlockers s @
      (if \<not> nonblank (es_lastReconciledAt s) then [Final_reconciliation_missing] else []) @
      listed Not_terminal (open_tickets s))"

datatype done_warning = Final_progress_not_written | Watch_cleanup_not_done

definition epicDoneWarnings :: "epic_state \<Rightarrow> done_warning list" where
  "epicDoneWarnings state =
     (let s = normalize state in
      (if \<not> nonblank (es_finalProgressWrittenAt s) then [Final_progress_not_written] else []) @
      (if \<not> nonblank (es_watchCleanupDoneAt s) then [Watch_cleanup_not_done] else []))"

definition transitionToDone :: "epic_state \<Rightarrow> driver_error + epic_state" where
  "transitionToDone state =
     (if epicDoneBlockers state \<noteq> [] then Inl (Not_done (epicDoneBlockers state))
      else Inr (normalize ((normalize state)\<lparr>es_phase := Terminal, es_status := DONE\<rparr>)))"

section \<open>Transitions\<close>

definition empty_row :: session_row where
  "empty_row =
     \<lparr> sr_sessionId = [], sr_chatId = [], sr_adopted = False, sr_reconciled = False, sr_launchedAt = [],
       sr_prNumber = None, sr_prRepo = [], sr_prUrl = [], sr_liveness = [], sr_repairRounds = 0,
       sr_note = [], sr_settleObservation = None \<rparr>"

definition empty_watch :: watch where
  "empty_watch =
     \<lparr> w_targetChatId = [], w_repo = [], w_callbacks = [], w_subscription = None, w_verifiedAt = [],
       w_unwatchedReason = [], w_fallback = None \<rparr>"

definition session_of :: "epic_state \<Rightarrow> string \<Rightarrow> session_row" where
  "session_of s i = (case map_of (es_sessions s) i of Some r \<Rightarrow> r | None \<Rightarrow> empty_row)"

definition watch_of :: "epic_state \<Rightarrow> string \<Rightarrow> watch" where
  "watch_of s i = (case map_of (es_watches s) i of Some w \<Rightarrow> w | None \<Rightarrow> empty_watch)"

record launch =
  ln_sessionId :: jsval
  ln_chatId :: jsval
  ln_at :: string
  ln_prNumber :: "int option"
  ln_prRepo :: string
  ln_prUrl :: string
  ln_adopted :: bool

definition launched_row :: "session_row \<Rightarrow> launch \<Rightarrow> session_row" where
  "launched_row r l =
     r\<lparr>sr_sessionId := string_or_empty (ln_sessionId l), sr_chatId := string_or_empty (ln_chatId l),
       sr_adopted := ln_adopted l, sr_reconciled := \<not> ln_adopted l, sr_launchedAt := ln_at l,
       sr_prNumber := ln_prNumber l, sr_prRepo := ln_prRepo l, sr_prUrl := ln_prUrl l,
       sr_settleObservation := None\<rparr>"

definition recordLaunch :: "epic_state \<Rightarrow> string \<Rightarrow> launch \<Rightarrow> driver_error + epic_state" where
  "recordLaunch state ticketId l =
     (let s = normalize state in
      if \<not> nonblank ticketId then Inl Launch_without_ticket
      else if \<not> is_nonempty_string (ln_sessionId l) then Inl Launch_without_session
      else if \<not> is_nonempty_string (ln_chatId l) then Inl Launch_without_chat
      else if ticketId \<in> set (es_needsHuman s) then Inl (Launch_needs_human ticketId)
      else Inr (normalize (s\<lparr>es_ready := without_ids (es_ready s) [ticketId],
             es_inFlight := add_id (es_inFlight s) ticketId, es_status := RUNNING,
             es_sessions := AList.update ticketId (launched_row (session_of s ticketId) l) (es_sessions s)\<rparr>)))"

definition recordAdoption :: "epic_state \<Rightarrow> string \<Rightarrow> launch \<Rightarrow> driver_error + epic_state" where
  "recordAdoption state ticketId l = recordLaunch state ticketId (l\<lparr>ln_adopted := True\<rparr>)"

definition update_session :: "string \<Rightarrow> (session_row \<Rightarrow> session_row) \<Rightarrow> epic_state \<Rightarrow> epic_state" where
  "update_session i f s =
     (case map_of (es_sessions s) i of
        Some r \<Rightarrow> s\<lparr>es_sessions := AList.update i (f r) (es_sessions s)\<rparr>
      | None \<Rightarrow> s)"

definition recordAdoptionReconciled :: "epic_state \<Rightarrow> string \<Rightarrow> string \<Rightarrow> epic_state" where
  "recordAdoptionReconciled state ticketId liveness =
     (let s = normalize state in
      case map_of (es_sessions s) ticketId of
        None \<Rightarrow> s
      | Some _ \<Rightarrow> normalize (update_session ticketId
          (\<lambda>r. r\<lparr>sr_reconciled := True, sr_liveness := liveness\<rparr>) s))"

record coverage =
  cv_targetChatId :: string
  cv_repo :: string
  cv_callbacks :: "callback_row list"
  cv_subscription :: "subscription option"
  cv_verifiedAt :: string

definition recordWatchCoverage :: "epic_state \<Rightarrow> string \<Rightarrow> coverage \<Rightarrow> epic_state" where
  "recordWatchCoverage state ticketId c =
     (let s = normalize state in
      normalize (s\<lparr>es_watches := AList.update ticketId
        \<lparr> w_targetChatId = cv_targetChatId c, w_repo = cv_repo c, w_callbacks = cv_callbacks c,
          w_subscription = cv_subscription c, w_verifiedAt = cv_verifiedAt c, w_unwatchedReason = [],
          w_fallback = None \<rparr> (es_watches s)\<rparr>))"

definition next_fallback :: "epic_state \<Rightarrow> watch \<Rightarrow> string \<Rightarrow> string \<Rightarrow> jsval \<Rightarrow> fallback option" where
  "next_fallback s prior reason at fb =
     (if truthy fb
      then Some \<lparr> fb_mechanism = text_of fb ''mechanism'', fb_nextWakeAt = text_of fb ''nextWakeAt'',
        fb_reason = reason,
        fb_retryCount = (case w_fallback prior of Some f \<Rightarrow> fb_retryCount f | None \<Rightarrow> 0) + 1,
        fb_lastReconciledAt = (if es_lastReconciledAt s \<noteq> [] then es_lastReconciledAt s else at) \<rparr>
      else None)"

definition recordWatchFailure ::
  "epic_state \<Rightarrow> string \<Rightarrow> string \<Rightarrow> jsval \<Rightarrow> string \<Rightarrow> bool \<Rightarrow> epic_state" where
  "recordWatchFailure state ticketId reason fb at blocked =
     (let s = normalize state; prior = watch_of s ticketId;
          nxt = s\<lparr>es_watches := AList.update ticketId
            (prior\<lparr>w_verifiedAt := [], w_unwatchedReason := reason,
                   w_fallback := next_fallback s prior reason at fb\<rparr>) (es_watches s)\<rparr>
      in normalize (nxt\<lparr>es_status := (if truthy fb then RUNNING
           else if blocked then BLOCKED else RUNNING_BUT_UNWATCHED)\<rparr>))"

definition recordGreen :: "epic_state \<Rightarrow> string \<Rightarrow> epic_state" where
  "recordGreen state ticketId =
     (let s = normalize state in normalize (s\<lparr>es_greens := add_id (es_greens s) ticketId\<rparr>))"

definition recordGreenDemotion :: "epic_state \<Rightarrow> string \<Rightarrow> string \<Rightarrow> epic_state" where
  "recordGreenDemotion state ticketId note =
     (let s = normalize state in
      normalize (update_session ticketId (\<lambda>r. r\<lparr>sr_note := note\<rparr>)
        (s\<lparr>es_greens := without_ids (es_greens s) [ticketId]\<rparr>)))"

definition recordMerge :: "epic_state \<Rightarrow> string \<Rightarrow> bool \<Rightarrow> driver_error + epic_state" where
  "recordMerge state ticketId verified =
     (let s = normalize state in
      if \<not> verified then Inl (Unverified_merge ticketId)
      else Inr (normalize (s\<lparr>es_greens := without_ids (es_greens s) [ticketId],
             es_inFlight := without_ids (es_inFlight s) [ticketId],
             es_merged := add_id (es_merged s) ticketId,
             es_externallyCleared := add_id (es_externallyCleared s) ticketId\<rparr>)))"

text \<open>A ticket as a node of the scheduler.\<close>

definition node_of :: "ticket \<Rightarrow> node" where
  "node_of t = \<lparr> nid = t_id t, blockedBy = t_blockedBy t, priority = Some (t_priority t),
     createdAt = Some (t_createdAt t) \<rparr>"

definition epic_graph :: "epic_state \<Rightarrow> graph" where
  "epic_graph s = buildGraph (map node_of (es_tickets s))"

definition cascade_of :: "epic_state \<Rightarrow> string list \<Rightarrow> string list" where
  "cascade_of s failed =
     filter (\<lambda>i. i \<notin> set failed \<and> i \<notin> set (es_merged s)) (transitiveDependents (epic_graph s) failed)"

definition recordFailure :: "epic_state \<Rightarrow> string \<Rightarrow> string \<Rightarrow> bool \<Rightarrow> epic_state" where
  "recordFailure state ticketId reason retainEvidenceWatch =
     (let s = normalize state; failed = add_id (es_failed s) ticketId; cascade = cascade_of s failed in
      normalize (update_session ticketId (\<lambda>r. r\<lparr>sr_note := (if reason \<noteq> [] then reason else sr_note r)\<rparr>)
        (s\<lparr>es_failed := failed,
           es_inFlight := without_ids (es_inFlight s) (ticketId # cascade),
           es_ready := without_ids (es_ready s) (ticketId # cascade),
           es_greens := without_ids (es_greens s) [ticketId],
           es_cascadeSkipped := uniqueIds (es_cascadeSkipped s @ cascade),
           es_pendingCascade := [],
           es_retainedEvidenceWatches := (if retainEvidenceWatch
             then add_id (es_retainedEvidenceWatches s) ticketId else es_retainedEvidenceWatches s)\<rparr>)))"

definition recordWake :: "epic_state \<Rightarrow> wake_kind \<Rightarrow> string \<Rightarrow> epic_state" where
  "recordWake state kind at =
     (let s = normalize state in
      normalize (s\<lparr>es_pendingWakes := es_pendingWakes s @
        [\<lparr>wk_kind = kind, wk_receivedAt = at, wk_reconciledAt = None\<rparr>]\<rparr>))"

definition settle_wake :: "string \<Rightarrow> wake \<Rightarrow> wake" where
  "settle_wake at w = w\<lparr>wk_reconciledAt :=
     (case wk_reconciledAt w of Some a \<Rightarrow> Some a | None \<Rightarrow> Some at)\<rparr>"

definition recordReconciliation :: "epic_state \<Rightarrow> string \<Rightarrow> bool \<Rightarrow> epic_state" where
  "recordReconciliation state at externalBlockersEvaluated =
     (let s = normalize state in
      normalize (s\<lparr>es_lastReconciledAt := at,
        es_pendingWakes := map (settle_wake at) (es_pendingWakes s),
        es_externalBlockersEvaluatedCycle := (if externalBlockersEvaluated then es_cycle s
          else es_externalBlockersEvaluatedCycle s)\<rparr>))"

definition beginCycle :: "epic_state \<Rightarrow> epic_state" where
  "beginCycle state = (let s = normalize state in normalize (s\<lparr>es_cycle := es_cycle s + 1\<rparr>))"

definition recordProgressUpsert :: "epic_state \<Rightarrow> string \<Rightarrow> string \<Rightarrow> epic_state" where
  "recordProgressUpsert state commentId finalAt =
     (let s = normalize state in
      normalize (s\<lparr>es_progressCommentId := (if commentId \<noteq> [] then commentId else es_progressCommentId s),
        es_finalProgressWrittenAt := (if finalAt \<noteq> [] then finalAt else es_finalProgressWrittenAt s)\<rparr>))"

definition recordWatchCleanup :: "epic_state \<Rightarrow> string \<Rightarrow> epic_state" where
  "recordWatchCleanup state at =
     (let s = normalize state in normalize (s\<lparr>es_watchCleanupDoneAt := at\<rparr>))"

section \<open>Continuation prompts\<close>

definition CONTINUATION_DIRECTIVES :: "string dict" where
  "CONTINUATION_DIRECTIVES =
     [(''resume'', ''resume the epic run rather than answering about it''),
      (''noSummarize'', ''do not summarize and stop''),
      (''rehydrate'', ''rehydrate the persisted run state and the progress marker''),
      (''authoritativeReread'', ''treat this wake as a prompt and re-read authoritative state before acting''),
      (''fullCycle'', ''execute one full reconciliation and scheduling cycle''),
      (''noFinalUntilTerminal'', ''do not return a final answer until the terminal invariant is false'')]"

definition directive :: "string \<Rightarrow> string" where
  "directive k = the (map_of CONTINUATION_DIRECTIVES k)"

definition prompt_lines :: "string \<Rightarrow> string \<Rightarrow> string \<Rightarrow> string list" where
  "prompt_lines epicId kind runId =
     [''Resume the '' @ epicId @ '' epic orchestrator (wake: '' @ kind @
        (if runId \<noteq> [] then '', run '' @ runId else []) @ '').'',
      ''This is a wake signal, not a result: '' @ directive ''noSummarize'' @ ''.'',
      ''Rehydrate step: '' @ directive ''rehydrate'' @ ''.'',
      ''Evidence step: '' @ directive ''authoritativeReread'' @ ''.'',
      ''Then '' @ directive ''fullCycle'' @ '' for '' @ epicId @ ''.'',
      ''Terminal rule: '' @ directive ''noFinalUntilTerminal'' @ ''; '' @ directive ''resume'' @ ''.'']"

definition buildContinuationPrompt :: "string \<Rightarrow> string \<Rightarrow> string \<Rightarrow> driver_error + string" where
  "buildContinuationPrompt epicId kind runId =
     (if \<not> nonblank epicId then Inl Prompt_without_epic
      else if kind \<notin> set (map wake_name EPIC_WAKE_KINDS) then Inl (Prompt_unknown_kind kind)
      else Inr (join [CHR 0x0A] (prompt_lines epicId kind runId)))"

datatype prompt_fault = Message_missing | Epic_not_named string | Directive_missing string

definition validateContinuationPrompt :: "jsval \<Rightarrow> string \<Rightarrow> prompt_fault list" where
  "validateContinuationPrompt text epicId =
     (case text of
        JStr t \<Rightarrow>
          if trim t = [] then [Message_missing]
          else (if nonblank epicId \<and> \<not> str_contains t epicId then [Epic_not_named epicId] else []) @
            concat (map (\<lambda>(name, d). if str_contains t d then [] else [Directive_missing name])
              CONTINUATION_DIRECTIVES)
      | _ \<Rightarrow> [Message_missing])"

definition count_label :: "string \<Rightarrow> string list \<Rightarrow> string" where
  "count_label l xs = l @ ''='' @ show_nat (length xs)"

definition renderRunStatusLine :: "epic_state \<Rightarrow> string" where
  "renderRunStatusLine state =
     (let s = normalize state in
      EPIC_RUN_STATUSES (es_status s) @ '' '' @ es_epicId s @ '' ('' @
      join '' '' [count_label ''ready'' (es_ready s), count_label ''inFlight'' (es_inFlight s),
        count_label ''greens'' (es_greens s), count_label ''merged'' (es_merged s),
        count_label ''failed'' (es_failed s), count_label ''skipped'' (es_cascadeSkipped s)] @ '')'')"

section \<open>Progress projection\<close>

definition progressStatusForTicket :: "epic_state \<Rightarrow> string \<Rightarrow> string" where
  "progressStatusForTicket s i =
     (if i \<in> set (es_merged s) then ''merged''
      else if i \<in> set (es_failed s) then ''failed''
      else if i \<in> set (es_cascadeSkipped s) then ''skipped''
      else if i \<in> set (es_greens s) then ''green''
      else if i \<in> set (es_inFlight s) then ''building'' else ''pending'')"

record progress_row =
  pr_id :: string
  pr_title :: string
  pr_status :: string
  pr_pr :: string
  pr_session :: string
  pr_rounds :: int
  pr_note :: string

record progress_state =
  ps_epicId :: string
  ps_marker :: string
  ps_updatedAt :: string
  ps_runId :: string
  ps_phase :: phase
  ps_status :: run_status
  ps_lastReconciledAt :: string
  ps_nextWake :: string
  ps_tickets :: "progress_row list"

definition labelled :: "string \<Rightarrow> string \<Rightarrow> string list" where
  "labelled l v = (if v \<noteq> [] then [l @ v] else [])"

definition progress_notes :: "session_row \<Rightarrow> watch \<Rightarrow> string list" where
  "progress_notes r w =
     labelled ''session '' (sr_sessionId r) @ labelled ''chat '' (sr_chatId r) @
     labelled ''liveness '' (sr_liveness r) @
     (if w_verifiedAt w \<noteq> [] then [''watch verified'']
      else (case w_fallback w of
          Some f \<Rightarrow> if fb_mechanism f \<noteq> [] then [''fallback '' @ fb_mechanism f]
                    else labelled ''unwatched: '' (w_unwatchedReason w)
        | None \<Rightarrow> labelled ''unwatched: '' (w_unwatchedReason w))) @
     labelled [] (sr_note r)"

definition progress_row_of :: "epic_state \<Rightarrow> ticket \<Rightarrow> progress_row" where
  "progress_row_of s t =
     (let r = session_of s (t_id t) in
      \<lparr> pr_id = t_id t, pr_title = t_title t, pr_status = progressStatusForTicket s (t_id t),
        pr_pr = (if sr_prUrl r \<noteq> [] then sr_prUrl r
                 else (case sr_prNumber r of Some n \<Rightarrow> if n \<noteq> 0 then show_int n else [] | None \<Rightarrow> [])),
        pr_session = sr_sessionId r, pr_rounds = sr_repairRounds r,
        pr_note = join ''; '' (progress_notes r (watch_of s (t_id t))) \<rparr>)"

definition buildEpicProgressState :: "epic_state \<Rightarrow> string \<Rightarrow> string \<Rightarrow> progress_state" where
  "buildEpicProgressState state updatedAt nextWake =
     (let s = normalize state in
      \<lparr> ps_epicId = es_epicId s, ps_marker = es_progressMarker s, ps_updatedAt = updatedAt,
        ps_runId = es_runId s, ps_phase = es_phase s, ps_status = es_status s,
        ps_lastReconciledAt = es_lastReconciledAt s, ps_nextWake = nextWake,
        ps_tickets = map (progress_row_of s) (es_tickets s) \<rparr>)"

section \<open>Readers of the reconciliation cycle\<close>

definition greenAdmissionBlockers :: "jsval \<Rightarrow> string list" where
  "greenAdmissionBlockers snapshot =
     (let st = prop_of (prop_of snapshot ''checkVerdict'') ''state'';
          prView = coalesce (prop_of snapshot ''prView'') (JObj [])
      in (if st \<noteq> JStr ''passing''
          then [''checks:'' @ js_string (coalesce st (JStr ''unknown''))] else []) @
         (if prop_of prView ''isDraft'' \<noteq> JBool False then [''pr:draft-or-unknown''] else []) @
         (if \<not> is_string (prop_of prView ''title'') \<or> \<not> is_string (prop_of prView ''body'')
          then [''pr:text-unknown'']
          else if isPartial prView then [''pr:partial-marker''] else []) @
         (if prop_of snapshot ''chatSettled'' \<noteq> JBool True then [''chat:unsettled''] else []))"

definition registration_state :: "jsval \<Rightarrow> string" where
  "registration_state r = to_lower (js_string (coalesce (prop_of r ''state'') (JStr [])))"

definition needsRearm :: "jsval \<Rightarrow> bool \<Rightarrow> bool" where
  "needsRearm registration inFlight =
     (if \<not> inFlight then False
      else if \<not> truthy registration then True
      else if registration_state registration = ''active'' then False
      else registration_state registration \<in>
             set [''fired'', ''expired'', ''canceled'', ''cancelled'', []])"

datatype row_fault = Row_without_id | Owner_mismatch | Origin_mismatch | Row_not_active string | Row_fired

definition first_of :: "jsval \<Rightarrow> string \<Rightarrow> string \<Rightarrow> jsval" where
  "first_of row a b = coalesce (coalesce (prop_of row a) (prop_of row b)) (JStr [])"

definition verifySubscriptionRow :: "jsval \<Rightarrow> string \<Rightarrow> string \<Rightarrow> row_fault option" where
  "verifySubscriptionRow row ownerSessionId originChatId =
     (if \<not> is_nonempty_string (prop_of row ''id'') then Some Row_without_id
      else if nonblank ownerSessionId \<and>
              first_of row ''owner_session_id'' ''ownerSessionId'' \<noteq> JStr ownerSessionId
      then Some Owner_mismatch
      else if nonblank originChatId \<and>
              first_of row ''origin_chat_id'' ''originChatId'' \<noteq> JStr originChatId
      then Some Origin_mismatch
      else if registration_state row \<noteq> ''active'' then Some (Row_not_active (registration_state row))
      else if is_nonempty_string (first_of row ''fired_at'' ''firedAt'') then Some Row_fired
      else None)"

definition worstNonTerminalStatus :: "epic_state \<Rightarrow> run_status" where
  "worstNonTerminalStatus s =
     (if es_status s = BLOCKED then BLOCKED
      else if list_ex (\<lambda>i. case map_of (es_watches s) i of
            None \<Rightarrow> True
          | Some w \<Rightarrow> \<not> nonblank (w_verifiedAt w) \<and> w_fallback w = None) (es_inFlight s)
      then RUNNING_BUT_UNWATCHED else RUNNING)"

definition nextWakeSummary :: "epic_state \<Rightarrow> string" where
  "nextWakeSummary s =
     (let fallbacks = filter nonblank (concat (map (\<lambda>(_, w).
            case w_fallback w of Some f \<Rightarrow> [fb_nextWakeAt f] | None \<Rightarrow> []) (es_watches s)))
      in if fallbacks \<noteq> [] then ''fallback '' @ hd (sort fallbacks)
         else if list_ex (\<lambda>(_, w). nonblank (w_verifiedAt w)) (es_watches s)
         then ''callback/subscription (verified)'' else ''none'')"

definition matchSessionForTicket :: "jsval list \<Rightarrow> string \<Rightarrow> jsval option" where
  "matchSessionForTicket sessions ticketId =
     (case find (\<lambda>v. coalesce (prop_of v ''tracker_id'') (JStr []) = JStr ticketId) sessions of
        Some v \<Rightarrow> Some v
      | None \<Rightarrow> find (\<lambda>v. starts_with (js_string (coalesce (prop_of v ''title'') (JStr [])))
            (''['' @ ticketId @ '']'')) sessions)"

section \<open>The guard\<close>

lemma listed_Nil [simp]: "listed f xs = [] \<longleftrightarrow> xs = []"
  by (simp add: listed_def)

lemma guard_blockers_Nil:
  "guard_blockers s = [] \<longleftrightarrow>
     es_ready s = [] \<and> es_inFlight s = [] \<and> es_greens s = [] \<and> es_pendingCascade s = [] \<and>
     unreconciled_ids s = [] \<and> pending_kinds s = [] \<and>
     es_externalBlockersEvaluatedCycle s = es_cycle s"
  by (auto simp: guard_blockers_def)

lemma blockers_normalize [simp]:
  "epicTerminalBlockers (normalize s) = epicTerminalBlockers s"
  "epicDoneBlockers (normalize s) = epicDoneBlockers s"
  by (simp_all add: epicTerminalBlockers_def epicDoneBlockers_def Let_def)

definition settled_ids :: "epic_state \<Rightarrow> string set" where
  "settled_ids s = set (es_merged s) \<union> set (es_failed s) \<union> set (es_cascadeSkipped s)"

lemma isTerminalTicket_iff: "isTerminalTicket s i \<longleftrightarrow> i \<in> settled_ids s"
  by (simp add: isTerminalTicket_def settled_ids_def)

lemma open_tickets_Nil:
  "open_tickets s = [] \<longleftrightarrow> t_id ` set (es_tickets s) \<subseteq> set (es_needsHuman s) \<union> settled_ids s"
  by (auto simp: open_tickets_def filter_empty_conv isTerminalTicket_iff)

lemma unreconciled_Nil:
  "unreconciled_ids s = [] \<longleftrightarrow>
     {i. \<exists>r. (i, r) \<in> set (es_sessions s) \<and> sr_adopted r \<and> \<not> sr_reconciled r} \<subseteq> settled_ids s"
  by (auto simp: unreconciled_ids_def filter_empty_conv isTerminalTicket_iff)

lemma pending_Nil: "pending_kinds s = [] \<longleftrightarrow> None \<notin> wk_reconciledAt ` set (es_pendingWakes s)"
proof -
  have "pending_kinds s = [] \<longleftrightarrow> (\<forall>w \<in> set (es_pendingWakes s). wk_reconciledAt w \<noteq> None)"
    by (simp add: pending_kinds_def filter_empty_conv)
  also have "\<dots> \<longleftrightarrow> None \<notin> wk_reconciledAt ` set (es_pendingWakes s)"
    by (metis image_iff)
  finally show ?thesis .
qed

lemma epicDoneBlockers_Nil:
  "epicDoneBlockers s = [] \<longleftrightarrow>
     guard_blockers (normalize s) = [] \<and> nonblank (es_lastReconciledAt s) \<and>
     open_tickets (normalize s) = []"
  by (simp add: epicDoneBlockers_def epicTerminalBlockers_def Let_def)

lemma transitionToDone_Inr:
  "transitionToDone s = Inr s' \<longleftrightarrow>
     epicDoneBlockers s = [] \<and> s' = normalize ((normalize s)\<lparr>es_phase := Terminal, es_status := DONE\<rparr>)"
  by (auto simp: transitionToDone_def)

text \<open>The DONE transition succeeds exactly on the states its contract names: nothing ready, in flight,
  queued for merge or awaiting a cascade, every adopted session reconciled or its ticket settled, every
  wake reconciled, external blockers evaluated in this cycle, a final reconciliation recorded, and
  every ticket needs-human, merged, failed or skipped; otherwise it reports a non-empty blocker list.\<close>

theorem transitionToDone_exact:
  "((\<exists>s'. transitionToDone s = Inr s') \<longleftrightarrow>
     es_ready (normalize s) = [] \<and> es_inFlight (normalize s) = [] \<and>
     uniqueIds (es_greens s) = [] \<and> uniqueIds (es_pendingCascade s) = [] \<and>
     {i. \<exists>r. (i, r) \<in> set (es_sessions s) \<and> sr_adopted r \<and> \<not> sr_reconciled r}
       \<subseteq> settled_ids (normalize s) \<and>
     None \<notin> wk_reconciledAt ` norm_wake ` set (es_pendingWakes s) \<and>
     es_externalBlockersEvaluatedCycle s = es_cycle s \<and> nonblank (es_lastReconciledAt s) \<and>
     t_id ` set (es_tickets s) \<subseteq> set (es_needsHuman (normalize s)) \<union> settled_ids (normalize s)) \<and>
   (\<forall>bs. transitionToDone s = Inl (Not_done bs) \<longleftrightarrow> bs = epicDoneBlockers s \<and> bs \<noteq> [])"
proof -
  have ids: "t_id ` norm_ticket ` set (es_tickets s) = t_id ` set (es_tickets s)"
    by (simp add: image_image)
  have "(\<exists>s'. transitionToDone s = Inr s') \<longleftrightarrow> epicDoneBlockers s = []"
    by (simp add: transitionToDone_Inr)
  also have "\<dots> \<longleftrightarrow> es_ready (normalize s) = [] \<and> es_inFlight (normalize s) = [] \<and>
     uniqueIds (es_greens s) = [] \<and> uniqueIds (es_pendingCascade s) = [] \<and>
     {i. \<exists>r. (i, r) \<in> set (es_sessions s) \<and> sr_adopted r \<and> \<not> sr_reconciled r}
       \<subseteq> settled_ids (normalize s) \<and>
     None \<notin> wk_reconciledAt ` norm_wake ` set (es_pendingWakes s) \<and>
     es_externalBlockersEvaluatedCycle s = es_cycle s \<and> nonblank (es_lastReconciledAt s) \<and>
     t_id ` set (es_tickets s) \<subseteq> set (es_needsHuman (normalize s)) \<union> settled_ids (normalize s)"
    by (simp only: epicDoneBlockers_Nil guard_blockers_Nil unreconciled_Nil pending_Nil open_tickets_Nil
        normalize_fields set_map ids) (simp only: conj_ac)
  finally show ?thesis by (auto simp: transitionToDone_def)
qed

section \<open>Failures\<close>

lemma set_cascade_of:
  "set (cascade_of s failed) =
     (in_edges (epic_graph s))\<^sup>+ `` set failed - set failed - set (es_merged s)"
  by (auto simp: cascade_of_def epic_graph_def transitiveDependents_set)

lemma update_session_fields [simp]:
  "es_ready (update_session i f s) = es_ready s" "es_inFlight (update_session i f s) = es_inFlight s"
  "es_greens (update_session i f s) = es_greens s" "es_merged (update_session i f s) = es_merged s"
  "es_failed (update_session i f s) = es_failed s"
  "es_cascadeSkipped (update_session i f s) = es_cascadeSkipped s"
  "es_externallyCleared (update_session i f s) = es_externallyCleared s"
  "es_pendingCascade (update_session i f s) = es_pendingCascade s"
  "es_needsHuman (update_session i f s) = es_needsHuman s"
  "es_retainedEvidenceWatches (update_session i f s) = es_retainedEvidenceWatches s"
  "es_tickets (update_session i f s) = es_tickets s" "es_status (update_session i f s) = es_status s"
  "es_phase (update_session i f s) = es_phase s" "es_watches (update_session i f s) = es_watches s"
  "es_pendingWakes (update_session i f s) = es_pendingWakes s" "es_cycle (update_session i f s) = es_cycle s"
  "es_parallel (update_session i f s) = es_parallel s"
  "declared_needsHuman (update_session i f s) = declared_needsHuman s"
  by (simp_all add: update_session_def declared_needsHuman_def split: option.splits)

lemma sessions_update_session:
  "map_of (es_sessions (update_session i f s)) j =
     (if j = i then map_option f (map_of (es_sessions s) i) else map_of (es_sessions s) j)"
  by (auto simp: update_session_def update_conv' split: option.splits)


text \<open>Passing a state through the choke point again: what becomes of its work lists.\<close>

lemma needsHuman_again:
  assumes "es_needsHuman t = es_needsHuman (normalize s)" "es_tickets t = es_tickets (normalize s)"
  shows "set (es_needsHuman (normalize t)) = set (es_needsHuman (normalize s))"
  unfolding needsHuman_normalize[of t] assms(1) declared_needsHuman_def assms(2)
  by (auto simp: needsHuman_normalize declared_needsHuman_def)

lemma work_again:
  assumes "es_needsHuman t = es_needsHuman (normalize s)" "es_tickets t = es_tickets (normalize s)"
  shows "set (es_ready t) \<subseteq> set (es_ready (normalize s)) \<Longrightarrow> set (es_ready (normalize t)) = set (es_ready t)"
    and "set (es_inFlight t) \<subseteq> set (es_inFlight (normalize s)) \<Longrightarrow>
      set (es_inFlight (normalize t)) = set (es_inFlight t)"
  using needsHuman_again[OF assms] by (auto simp: ready_normalize inFlight_normalize)

text \<open>Isolating a failure settles its whole cascade in one transition: the failed ticket and everything
  downstream of any failed ticket end up merged, failed or skipped, none of them stays ready or in
  flight, no cascade is left pending, and only failed or downstream tickets leave the ready and
  in-flight lists.\<close>

theorem recordFailure_cascade:
  "let s' = recordFailure s i reason retain; n = normalize s;
       failed = insert i (set (es_failed n));
       doomed = (in_edges (epic_graph n))\<^sup>+ `` failed
   in set (es_failed s') = {j \<in> failed. nonblank j} \<and>
      {j \<in> doomed. nonblank j} \<subseteq> settled_ids s' \<and>
      set (es_merged s') = set (es_merged n) \<and> es_pendingCascade s' = [] \<and>
      set (es_ready s') = set (es_ready n) - {i} - (doomed - failed - set (es_merged n)) \<and>
      set (es_inFlight s') = set (es_inFlight n) - {i} - (doomed - failed - set (es_merged n)) \<and>
      settled_ids n \<subseteq> settled_ids s'"
proof -
  let ?n = "normalize s"
  let ?failed = "add_id (es_failed ?n) i"
  let ?t = "update_session i (\<lambda>r. r\<lparr>sr_note := (if reason \<noteq> [] then reason else sr_note r)\<rparr>)
    (?n\<lparr>es_failed := ?failed,
       es_inFlight := without_ids (es_inFlight ?n) (i # cascade_of ?n ?failed),
       es_ready := without_ids (es_ready ?n) (i # cascade_of ?n ?failed),
       es_greens := without_ids (es_greens ?n) [i],
       es_cascadeSkipped := uniqueIds (es_cascadeSkipped ?n @ cascade_of ?n ?failed),
       es_pendingCascade := [],
       es_retainedEvidenceWatches := (if retain then add_id (es_retainedEvidenceWatches ?n) i
         else es_retainedEvidenceWatches ?n)\<rparr>)"
  have eq: "recordFailure s i reason retain = normalize ?t"
    by (simp only: recordFailure_def Let_def)
  have same: "es_needsHuman ?t = es_needsHuman ?n" "es_tickets ?t = es_tickets ?n"
    by simp_all
  have ready: "set (es_ready (normalize ?t)) = set (es_ready ?t)"
    by (rule work_again(1)[OF same]) auto
  have flight: "set (es_inFlight (normalize ?t)) = set (es_inFlight ?t)"
    by (rule work_again(2)[OF same]) auto
  show ?thesis
    unfolding eq Let_def ready flight
    by (auto simp: set_cascade_of settled_ids_def uniqueIds_def)
qed

section \<open>Continuation prompts\<close>

lemma str_contains_iff: "str_contains t p \<longleftrightarrow> (\<exists>a b. t = a @ p @ b)"
proof (induction t)
  case (Cons c cs)
  have "starts_with (c # cs) p \<longleftrightarrow> (\<exists>b. c # cs = p @ b)"
    by (auto simp: starts_with_def) (metis append_take_drop_id)
  then show ?case unfolding str_contains.simps Cons.IH
    by (metis append_Cons append_Nil list.exhaust_sel list.sel(1,3))
qed simp

lemma str_contains_part: "str_contains (a @ p @ b) p"
  by (auto simp: str_contains_iff)

lemma str_contains_join: "x \<in> set xs \<Longrightarrow> str_contains x p \<Longrightarrow> str_contains (join sep xs) p"
proof (induction sep xs rule: join.induct)
  case (3 sep x y ys)
  consider "str_contains x p" | "str_contains (join sep (y # ys)) p"
    using 3 by auto
  then show ?case
  proof cases
    case 1
    then obtain a b where "x = a @ p @ b" by (auto simp: str_contains_iff)
    then have "join sep (x # y # ys) = a @ p @ (b @ sep @ join sep (y # ys))" by simp
    then show ?thesis unfolding str_contains_iff by blast
  next
    case 2
    then obtain a b where "join sep (y # ys) = a @ p @ b" by (auto simp: str_contains_iff)
    then have "join sep (x # y # ys) = (x @ sep @ a) @ p @ b" by simp
    then show ?thesis unfolding str_contains_iff by blast
  qed
qed auto

definition prompt_body :: "string \<Rightarrow> string \<Rightarrow> string \<Rightarrow> string" where
  "prompt_body epicId kind runId = join [CHR 0x0A] (prompt_lines epicId kind runId)"

lemma str_contains_app: "str_contains b p \<Longrightarrow> str_contains (a @ b) p"
  unfolding str_contains_iff by (metis append.assoc)

lemma str_contains_head: "str_contains (p @ b) p"
  unfolding str_contains_iff by (metis append_Nil)

lemma prompt_line_contains:
  assumes "n \<in> set (map fst CONTINUATION_DIRECTIVES)"
  shows "\<exists>x \<in> set (prompt_lines e kind r). str_contains x (directive n)"
proof -
  have "n \<in> {''resume'', ''noSummarize'', ''rehydrate'', ''authoritativeReread'', ''fullCycle'',
      ''noFinalUntilTerminal''}"
    using assms by (auto simp: CONTINUATION_DIRECTIVES_def)
  then show ?thesis
    unfolding prompt_lines_def list.set bex_simps
    by (elim insertE emptyE; hypsubst) (blast intro: str_contains_app str_contains_head)+
qed

lemma prompt_body_directive:
  assumes "(k, d) \<in> set CONTINUATION_DIRECTIVES"
  shows "str_contains (prompt_body e kind r) d"
proof -
  have "d = directive k" "k \<in> set (map fst CONTINUATION_DIRECTIVES)"
    using assms by (auto simp: CONTINUATION_DIRECTIVES_def directive_def)
  with prompt_line_contains[of k e kind r] show ?thesis
    unfolding prompt_body_def by (metis str_contains_join)
qed

lemma prompt_body_names_epic: "str_contains (prompt_body e kind r) e"
  unfolding prompt_body_def
  by (rule str_contains_join[where x = "hd (prompt_lines e kind r)"])
    (simp_all only: prompt_lines_def list.sel list.set, blast,
      blast intro: str_contains_app str_contains_head)

lemma trim_head: "\<not> is_ws c \<Longrightarrow> trim (c # cs) \<noteq> []"
  by (auto simp: trim_def dropWhile_eq_Nil_conv)

lemma join_head: "join sep ((c # cs) # xs) = c # tl (join sep ((c # cs) # xs))"
  by (cases xs) simp_all

lemma prompt_body_nonblank: "trim (prompt_body e kind r) \<noteq> []"
proof -
  have ws: "\<not> is_ws (CHR ''R'')" by (simp add: is_ws_def)
  obtain cs xs where "prompt_lines e kind r = (CHR ''R'' # cs) # xs"
    unfolding prompt_lines_def append.simps by blast
  then have "prompt_body e kind r = CHR ''R'' # tl (prompt_body e kind r)"
    unfolding prompt_body_def by (metis join_head)
  then show ?thesis using trim_head[OF ws] by metis
qed

text \<open>A wake payload is built exactly for a non-blank epic and a known wake kind, and every payload that is
  built validates as a continuation command for that epic: it names the epic and carries every
  directive.\<close>

theorem continuation_prompt_valid:
  "(case buildContinuationPrompt e kind r of
      Inr m \<Rightarrow> validateContinuationPrompt (JStr m) e = [] \<and> nonblank e \<and> kind \<in> wake_name ` set EPIC_WAKE_KINDS
    | Inl err \<Rightarrow> err = (if nonblank e then Prompt_unknown_kind kind else Prompt_without_epic) \<and>
        \<not> (nonblank e \<and> kind \<in> wake_name ` set EPIC_WAKE_KINDS))"
proof -
  have "validateContinuationPrompt (JStr (prompt_body e kind r)) e = []"
    using prompt_body_directive[of _ _ e kind r] prompt_body_names_epic[of e kind r]
      prompt_body_nonblank[of e kind r]
    by (auto simp: validateContinuationPrompt_def concat_map_Nil)
  then show ?thesis
    by (simp add: buildContinuationPrompt_def flip: prompt_body_def)
qed

text \<open>A registration row that passes the ownership check is live: it is not re-armed.\<close>

lemma verified_row_not_rearmed:
  "verifySubscriptionRow row owner origin = None \<Longrightarrow> \<not> needsRearm row True"
  by (cases row) (auto simp: verifySubscriptionRow_def needsRearm_def registration_state_def split: if_splits)

end
