(* ===== verification/EpicRun.thy ===== *)
theory EpicRun
  imports EpicDriver
begin

text \<open>
  The run of an epic as a transition system: the transitions of \<open>epic-driver.mjs\<close> (the \<open>record*\<close>
  functions, \<open>beginCycle\<close>, \<open>transitionToDone\<close>) together with the writes \<open>reconcileEpic\<close> makes in place,
  and the runs they generate. The locale \<open>preserved\<close> lifts a property every step keeps to every run; it
  is interpreted on the run invariant and on the growth of the progress lists.
\<close>

section \<open>The writes the cycle makes in place\<close>

definition setPhase :: "phase \<Rightarrow> epic_state \<Rightarrow> epic_state" where
  "setPhase p s = normalize (s\<lparr>es_phase := p\<rparr>)"

definition setReady :: "string list \<Rightarrow> epic_state \<Rightarrow> epic_state" where
  "setReady ids s = normalize (s\<lparr>es_ready := ids\<rparr>)"

definition clearExternals :: "string list \<Rightarrow> epic_state \<Rightarrow> epic_state" where
  "clearExternals ids s = normalize (s\<lparr>es_externallyCleared := uniqueIds (es_externallyCleared s @ ids)\<rparr>)"

definition setNonTerminalStatus :: "epic_state \<Rightarrow> epic_state" where
  "setNonTerminalStatus s = normalize (s\<lparr>es_status := worstNonTerminalStatus s\<rparr>)"

text \<open>The two writes to a session row that the caller has just looked up.\<close>

definition with_pr :: "jsval \<Rightarrow> session_row \<Rightarrow> session_row" where
  "with_pr prView r =
     r\<lparr>sr_prNumber := (case finite_num (prop_of prView ''number'') of Some n \<Rightarrow> Some n | None \<Rightarrow> sr_prNumber r),
       sr_prRepo := string_or_empty (coalesce (prop_of prView ''repo'') (JStr (sr_prRepo r))),
       sr_prUrl := string_or_empty (coalesce (prop_of prView ''url'') (JStr (sr_prUrl r)))\<rparr>"

definition setPr :: "string \<Rightarrow> jsval \<Rightarrow> epic_state \<Rightarrow> epic_state" where
  "setPr i prView s = normalize (update_session i (with_pr prView) s)"

definition setObservation :: "string \<Rightarrow> observation \<Rightarrow> epic_state \<Rightarrow> epic_state" where
  "setObservation i ob s = normalize (update_session i (\<lambda>r. r\<lparr>sr_settleObservation := Some ob\<rparr>) s)"

section \<open>The transition system\<close>

datatype transition =
    T_launch string launch
  | T_adoption string launch
  | T_adoption_reconciled string string
  | T_coverage string coverage
  | T_watch_failure string string jsval string bool
  | T_green string
  | T_demotion string string
  | T_merge string bool
  | T_failure string string bool
  | T_wake wake_kind string
  | T_reconciliation string bool
  | T_cycle
  | T_progress string string
  | T_cleanup string
  | T_phase phase
  | T_ready "string list"
  | T_externals "string list"
  | T_pr string jsval
  | T_observation string observation
  | T_status
  | T_done

fun apply_transition :: "transition \<Rightarrow> epic_state \<Rightarrow> driver_error + epic_state" where
  "apply_transition (T_launch i l) s = recordLaunch s i l"
| "apply_transition (T_adoption i l) s = recordAdoption s i l"
| "apply_transition (T_adoption_reconciled i v) s = Inr (recordAdoptionReconciled s i v)"
| "apply_transition (T_coverage i c) s = Inr (recordWatchCoverage s i c)"
| "apply_transition (T_watch_failure i r fb t b) s = Inr (recordWatchFailure s i r fb t b)"
| "apply_transition (T_green i) s = Inr (recordGreen s i)"
| "apply_transition (T_demotion i n) s = Inr (recordGreenDemotion s i n)"
| "apply_transition (T_merge i v) s = recordMerge s i v"
| "apply_transition (T_failure i r e) s = Inr (recordFailure s i r e)"
| "apply_transition (T_wake k t) s = Inr (recordWake s k t)"
| "apply_transition (T_reconciliation t e) s = Inr (recordReconciliation s t e)"
| "apply_transition T_cycle s = Inr (beginCycle s)"
| "apply_transition (T_progress c f) s = Inr (recordProgressUpsert s c f)"
| "apply_transition (T_cleanup t) s = Inr (recordWatchCleanup s t)"
| "apply_transition (T_phase p) s = Inr (setPhase p s)"
| "apply_transition (T_ready ids) s = Inr (setReady ids s)"
| "apply_transition (T_externals ids) s = Inr (clearExternals ids s)"
| "apply_transition (T_pr i v) s = Inr (setPr i v s)"
| "apply_transition (T_observation i ob) s = Inr (setObservation i ob s)"
| "apply_transition T_status s = Inr (setNonTerminalStatus s)"
| "apply_transition T_done s = transitionToDone s"

inductive runs :: "('t \<Rightarrow> 's \<Rightarrow> 'e + 's) \<Rightarrow> 's \<Rightarrow> 't list \<Rightarrow> 's \<Rightarrow> bool" for step where
  runs_Nil: "runs step s [] s"
| runs_Cons: "step t s = Inr s' \<Longrightarrow> runs step s' ts s'' \<Longrightarrow> runs step s (t # ts) s''"

inductive_cases runs_NilE: "runs step s [] s'"
inductive_cases runs_ConsE: "runs step s (t # ts) s'"
inductive_simps runs_simps [simp]: "runs step s [] s'" "runs step s (t # ts) s'"

lemma runs_append: "runs step s ts m \<Longrightarrow> runs step m us s' \<Longrightarrow> runs step s (ts @ us) s'"
  by (induction rule: runs.induct) auto

lemma runs_single: "step t s = Inr s' \<Longrightarrow> runs step s [t] s'"
  by simp

text \<open>A property of states that every step keeps, kept by every run.\<close>

locale preserved =
  fixes step :: "'t \<Rightarrow> 's \<Rightarrow> 'e + 's" and inv :: "'s \<Rightarrow> bool"
  assumes preserve: "inv s \<Longrightarrow> step t s = Inr s' \<Longrightarrow> inv s'"
begin

lemma along: "runs step s ts s' \<Longrightarrow> inv s \<Longrightarrow> inv s'"
  by (induction rule: runs.induct) (auto dest: preserve)

lemma everywhere: "runs step s (ts @ us) s' \<Longrightarrow> inv s \<Longrightarrow> \<exists>m. runs step s ts m \<and> inv m \<and> runs step m us s'"
proof (induction ts arbitrary: s)
  case (Cons t ts)
  then obtain m where "step t s = Inr m" "runs step m (ts @ us) s'" by auto
  with Cons.IH[OF this(2)] Cons.prems(2) show ?case by (auto dest: preserve)
qed (auto simp del: runs_simps intro: runs_Nil)

end

section \<open>Invariants\<close>

text \<open>A session row names its owners.\<close>

definition attributed :: "epic_state \<Rightarrow> string \<Rightarrow> bool" where
  "attributed s i \<longleftrightarrow> (case map_of (es_sessions s) i of
     Some r \<Rightarrow> nonblank (sr_sessionId r) \<and> nonblank (sr_chatId r) | None \<Rightarrow> False)"

definition tracked :: "epic_state \<Rightarrow> string set" where
  "tracked s = fst ` set (es_sessions s)"

definition cascade_closed :: "epic_state \<Rightarrow> bool" where
  "cascade_closed s \<longleftrightarrow>
     {i \<in> (in_edges (epic_graph s))\<^sup>+ `` set (es_failed s). nonblank i} \<subseteq> settled_ids s"

definition all_settled :: "epic_state \<Rightarrow> bool" where
  "all_settled s \<longleftrightarrow> t_id ` set (es_tickets s) \<subseteq> set (es_needsHuman s) \<union> settled_ids s"

definition run_inv :: "epic_state \<Rightarrow> bool" where
  "run_inv s \<longleftrightarrow> state_ok s \<and> (\<forall>i \<in> set (es_inFlight s). attributed s i) \<and>
     tracked s \<inter> set (es_needsHuman s) = {} \<and> cascade_closed s \<and>
     (es_status s = DONE \<longrightarrow> es_inFlight s = [] \<and> all_settled s)"

text \<open>What a transition that starts no work, fails nothing and reports nothing changes at most.\<close>

definition quiet :: "epic_state \<Rightarrow> epic_state \<Rightarrow> bool" where
  "quiet s t \<longleftrightarrow> es_needsHuman t = es_needsHuman s \<and> es_tickets t = es_tickets s \<and>
     set (es_inFlight t) \<subseteq> set (es_inFlight s) \<and> set (es_failed t) = set (es_failed s) \<and>
     set (es_merged s) \<subseteq> set (es_merged t) \<and>
     es_cascadeSkipped t = es_cascadeSkipped s \<and> tracked t = tracked s \<and>
     (\<forall>i. attributed s i \<longrightarrow> attributed t i) \<and> (es_status t = DONE \<longrightarrow> es_status s = DONE)"

lemma epic_graph_normalize:
  assumes "state_ok s" "es_tickets t = es_tickets s"
  shows "epic_graph (normalize t) = epic_graph s" "es_tickets (normalize t) = es_tickets s"
proof -
  have "es_tickets (normalize s) = es_tickets s" using assms(1) by (simp add: state_ok_def)
  then show "es_tickets (normalize t) = es_tickets s" using assms(2) by simp
  then show "epic_graph (normalize t) = epic_graph s" by (simp only: epic_graph_def)
qed

lemma attributed_normalize [simp]: "attributed (normalize t) i = attributed t i"
  by (simp add: attributed_def)

lemma tracked_normalize [simp]: "tracked (normalize t) = tracked t"
  by (simp add: tracked_def)

lemma needsHuman_ok:
  "state_ok s \<Longrightarrow> es_needsHuman t = es_needsHuman s \<Longrightarrow> es_tickets t = es_tickets s \<Longrightarrow>
     set (es_needsHuman (normalize t)) = set (es_needsHuman s)"
  using needsHuman_again[of t s] by (simp add: state_ok_def)

lemma ok_nonblank:
  assumes "state_ok s"
  shows "set (es_failed s) \<subseteq> Collect nonblank" "set (es_merged s) \<subseteq> Collect nonblank"
    "set (es_cascadeSkipped s) \<subseteq> Collect nonblank"
    "set (es_inFlight s) \<subseteq> Collect nonblank" "set (es_ready s) \<subseteq> Collect nonblank"
    "set (es_externallyCleared s) \<subseteq> Collect nonblank"
    "set (es_inFlight s) \<inter> set (es_needsHuman s) = {}"
proof -
  have eq: "normalize s = s" using assms by (simp add: state_ok_def)
  have f: "set (es_failed (normalize s)) \<subseteq> Collect nonblank"
    "set (es_merged (normalize s)) \<subseteq> Collect nonblank"
    "set (es_cascadeSkipped (normalize s)) \<subseteq> Collect nonblank"
    "set (es_inFlight (normalize s)) \<subseteq> Collect nonblank" "set (es_ready (normalize s)) \<subseteq> Collect nonblank"
    "set (es_externallyCleared (normalize s)) \<subseteq> Collect nonblank"
    "set (es_inFlight (normalize s)) \<inter> set (es_needsHuman (normalize s)) = {}"
    by (auto simp: inFlight_normalize ready_normalize)
  show "set (es_failed s) \<subseteq> Collect nonblank" "set (es_merged s) \<subseteq> Collect nonblank"
    "set (es_cascadeSkipped s) \<subseteq> Collect nonblank"
    "set (es_inFlight s) \<subseteq> Collect nonblank" "set (es_ready s) \<subseteq> Collect nonblank"
    "set (es_externallyCleared s) \<subseteq> Collect nonblank"
    "set (es_inFlight s) \<inter> set (es_needsHuman s) = {}"
    using f unfolding eq by blast+
qed

lemma set_eq_Nil_subset: "set xs \<subseteq> set ys \<Longrightarrow> ys = [] \<Longrightarrow> xs = []"
  by simp

lemma quiet_inv:
  assumes inv: "run_inv s" and q: "quiet s t"
  shows "run_inv (normalize t)"
proof -
  have ok: "state_ok s" using inv by (simp add: run_inv_def)
  note nb = ok_nonblank[OF ok]
  have nh: "set (es_needsHuman (normalize t)) = set (es_needsHuman s)"
    using q by (intro needsHuman_ok[OF ok]) (simp_all add: quiet_def)
  have gr: "epic_graph (normalize t) = epic_graph s" "es_tickets (normalize t) = es_tickets s"
    using q epic_graph_normalize[OF ok, of t] by (simp_all add: quiet_def)
  have fl: "set (es_inFlight (normalize t)) \<subseteq> set (es_inFlight s)"
    using q by (auto simp: inFlight_normalize quiet_def)
  have failed: "set (es_failed (normalize t)) = set (es_failed s)"
    using q nb by (auto simp: quiet_def)
  have settled: "settled_ids s \<subseteq> settled_ids (normalize t)"
    using q nb by (auto simp: quiet_def settled_ids_def)
  show ?thesis unfolding run_inv_def
  proof (intro conjI impI)
    show "\<forall>i \<in> set (es_inFlight (normalize t)). attributed (normalize t) i"
      using fl inv q by (auto simp: run_inv_def quiet_def)
    show "tracked (normalize t) \<inter> set (es_needsHuman (normalize t)) = {}"
      using inv q nh by (simp add: run_inv_def quiet_def)
    show "cascade_closed (normalize t)"
      using inv settled unfolding cascade_closed_def gr failed run_inv_def by blast
    assume "es_status (normalize t) = DONE"
    then have "es_status s = DONE" using q by (simp add: quiet_def)
    then show "es_inFlight (normalize t) = []" "all_settled (normalize t)"
      using inv fl settled unfolding all_settled_def gr nh run_inv_def by auto
  qed simp
qed

lemma ok_normalize: "state_ok s \<Longrightarrow> normalize s = s"
  by (simp add: state_ok_def)

lemma fst_set_update: "fst ` set (AList.update k v m) = insert k (fst ` set m)"
  by (induction m) auto

lemma update_session_core [simp]:
  "tracked (update_session i f s) = tracked s"
  by (auto simp: update_session_def tracked_def fst_set_update split: option.splits)
    (metis image_eqI fst_conv map_of_SomeD)

lemma attributed_update_session:
  assumes "\<And>r. sr_sessionId (f r) = sr_sessionId r" "\<And>r. sr_chatId (f r) = sr_chatId r"
  shows "attributed (update_session i f s) j = attributed s j"
  using assms by (auto simp: attributed_def sessions_update_session split: option.splits)

lemma tracked_fields:
  "es_sessions t = es_sessions s \<Longrightarrow> tracked t = tracked s"
  "es_sessions t = es_sessions s \<Longrightarrow> attributed t i = attributed s i"
  by (simp_all add: tracked_def attributed_def)

lemma worst_not_DONE [simp]: "worstNonTerminalStatus s \<noteq> DONE"
  by (simp add: worstNonTerminalStatus_def)

lemma quiet_refl_like:
  assumes "es_needsHuman t = es_needsHuman s" "es_tickets t = es_tickets s"
    "set (es_inFlight t) \<subseteq> set (es_inFlight s)" "set (es_failed t) = set (es_failed s)"
    "set (es_merged s) \<subseteq> set (es_merged t)" "es_cascadeSkipped t = es_cascadeSkipped s"
    "es_sessions t = es_sessions s" "es_status t = DONE \<Longrightarrow> es_status s = DONE"
  shows "quiet s t"
  using assms tracked_fields[of t s] by (simp add: quiet_def)

lemma quiet_update_session:
  assumes "quiet s t" "\<And>r. sr_sessionId (f r) = sr_sessionId r" "\<And>r. sr_chatId (f r) = sr_chatId r"
  shows "quiet s (update_session i f t)"
  using assms by (simp add: quiet_def attributed_update_session)

lemma quiet_self [simp]: "quiet s s"
  by (simp add: quiet_def)

lemma nonblank_text: "is_nonempty_string v \<Longrightarrow> nonblank (string_or_empty v)"
  by (cases v) (simp_all add: string_or_empty_def nonblank_def)

lemma recordLaunch_Inr:
  assumes "normalize s = s" "recordLaunch s i l = Inr s'"
  shows "nonblank i" "is_nonempty_string (ln_sessionId l)" "is_nonempty_string (ln_chatId l)"
    "i \<notin> set (es_needsHuman s)"
    "s' = normalize (s\<lparr>es_ready := without_ids (es_ready s) [i], es_inFlight := add_id (es_inFlight s) i,
       es_status := RUNNING,
       es_sessions := AList.update i (launched_row (session_of s i) l) (es_sessions s)\<rparr>)"
  using assms(2) unfolding recordLaunch_def assms(1) Let_def
  by (simp_all split: if_split_asm)

lemma launch_inv:
  assumes inv: "run_inv s" and l: "recordLaunch s i l = Inr s'"
  shows "run_inv s'"
proof -
  have ok: "state_ok s" and eq: "normalize s = s" using inv by (simp_all add: run_inv_def state_ok_def)
  let ?t = "s\<lparr>es_ready := without_ids (es_ready s) [i], es_inFlight := add_id (es_inFlight s) i,
     es_status := RUNNING,
     es_sessions := AList.update i (launched_row (session_of s i) l) (es_sessions s)\<rparr>"
  have g: "nonblank i" "is_nonempty_string (ln_sessionId l)" "is_nonempty_string (ln_chatId l)"
    "i \<notin> set (es_needsHuman s)" and s': "s' = normalize ?t"
    using recordLaunch_Inr[OF eq l] by blast+
  have nh: "set (es_needsHuman (normalize ?t)) = set (es_needsHuman s)"
    by (rule needsHuman_ok[OF ok]) simp_all
  have gr: "epic_graph (normalize ?t) = epic_graph s"
    by (rule epic_graph_normalize[OF ok]) simp
  have sets: "settled_ids (normalize ?t) = settled_ids s" "set (es_failed (normalize ?t)) = set (es_failed s)"
    using ok_nonblank[OF ok] by (auto simp: settled_ids_def)
  have owner: "attributed ?t i"
    using nonblank_text[OF g(2)] nonblank_text[OF g(3)]
    by (simp add: attributed_def update_conv' launched_row_def)
  have others: "attributed ?t j = attributed s j" if "j \<noteq> i" for j
    using that by (simp add: attributed_def update_conv')
  show ?thesis unfolding s' run_inv_def
  proof (intro conjI impI)
    show "\<forall>j \<in> set (es_inFlight (normalize ?t)). attributed (normalize ?t) j"
    proof
      fix j assume "j \<in> set (es_inFlight (normalize ?t))"
      then have j: "j = i \<or> j \<in> set (es_inFlight s)" by (simp add: inFlight_normalize)
      show "attributed (normalize ?t) j"
      proof (cases "j = i")
        case True
        then show ?thesis using owner by (simp only: attributed_normalize)
      next
        case False
        then show ?thesis using j inv others[OF False]
          by (simp only: attributed_normalize run_inv_def simp_thms)
      qed
    qed
    show "tracked (normalize ?t) \<inter> set (es_needsHuman (normalize ?t)) = {}"
      using inv g unfolding nh by (auto simp: run_inv_def tracked_def fst_set_update)
    show "cascade_closed (normalize ?t)"
      using inv by (simp add: cascade_closed_def gr sets run_inv_def del: normalize_fields)
  qed simp_all
qed

lemma failure_inv:
  assumes inv: "run_inv s"
  shows "run_inv (recordFailure s i reason retain)"
proof -
  have ok: "state_ok s" and eq: "normalize s = s" using inv by (simp_all add: run_inv_def state_ok_def)
  note nb = ok_nonblank[OF ok]
  let ?failed = "add_id (es_failed s) i"
  let ?f = "\<lambda>r. r\<lparr>sr_note := (if reason \<noteq> [] then reason else sr_note r)\<rparr>"
  let ?u = "s\<lparr>es_failed := ?failed,
       es_inFlight := without_ids (es_inFlight s) (i # cascade_of s ?failed),
       es_ready := without_ids (es_ready s) (i # cascade_of s ?failed),
       es_greens := without_ids (es_greens s) [i],
       es_cascadeSkipped := uniqueIds (es_cascadeSkipped s @ cascade_of s ?failed),
       es_pendingCascade := [],
       es_retainedEvidenceWatches := (if retain then add_id (es_retainedEvidenceWatches s) i
         else es_retainedEvidenceWatches s)\<rparr>"
  let ?t = "update_session i ?f ?u"
  have s': "recordFailure s i reason retain = normalize ?t"
    by (simp only: recordFailure_def Let_def eq)
  have nh: "set (es_needsHuman (normalize ?t)) = set (es_needsHuman s)"
    by (rule needsHuman_ok[OF ok]) simp_all
  have gr: "epic_graph (normalize ?t) = epic_graph s" "es_tickets (normalize ?t) = es_tickets s"
    using epic_graph_normalize[OF ok, of ?t] by simp_all
  have att: "attributed ?t j = attributed s j" for j
    by (subst attributed_update_session) (simp_all add: attributed_def)
  have fl: "set (es_inFlight (normalize ?t)) \<subseteq> set (es_inFlight s)"
    by (auto simp: inFlight_normalize)
  have failed: "set (es_failed (normalize ?t)) \<subseteq> insert i (set (es_failed s))"
    by auto
  have settled: "settled_ids s \<subseteq> settled_ids (normalize ?t)"
    using nb by (auto simp: settled_ids_def)
  have doomed: "{j \<in> (in_edges (epic_graph s))\<^sup>+ `` insert i (set (es_failed s)). nonblank j}
      \<subseteq> settled_ids (normalize ?t)"
    using nb by (auto simp: settled_ids_def set_cascade_of)
  show ?thesis unfolding s' run_inv_def
  proof (intro conjI impI)
    show "\<forall>j \<in> set (es_inFlight (normalize ?t)). attributed (normalize ?t) j"
      using fl inv att unfolding attributed_normalize run_inv_def by blast
    show "tracked (normalize ?t) \<inter> set (es_needsHuman (normalize ?t)) = {}"
      using inv unfolding nh tracked_normalize update_session_core run_inv_def by (simp add: tracked_def)
    show "cascade_closed (normalize ?t)"
      using failed doomed unfolding cascade_closed_def gr by blast
    assume "es_status (normalize ?t) = DONE"
    then have d: "es_inFlight s = []" "all_settled s" using inv by (simp_all add: run_inv_def)
    show "es_inFlight (normalize ?t) = []" using fl d(1) by (rule set_eq_Nil_subset)
    show "all_settled (normalize ?t)"
      using d(2) settled unfolding all_settled_def gr nh by blast
  qed simp
qed

lemma done_inv:
  assumes inv: "run_inv s" and d: "transitionToDone s = Inr s'"
  shows "run_inv s'"
proof -
  have ok: "state_ok s" and eq: "normalize s = s" using inv by (simp_all add: run_inv_def state_ok_def)
  let ?t = "s\<lparr>es_phase := Terminal, es_status := DONE\<rparr>"
  have s': "s' = normalize ?t" and b: "epicDoneBlockers s = []"
    using d by (simp_all add: transitionToDone_Inr eq)
  have nh: "set (es_needsHuman (normalize ?t)) = set (es_needsHuman s)"
    by (rule needsHuman_ok[OF ok]) simp_all
  have gr: "epic_graph (normalize ?t) = epic_graph s" "es_tickets (normalize ?t) = es_tickets s"
    using epic_graph_normalize[OF ok, of ?t] by simp_all
  have sets: "settled_ids (normalize ?t) = settled_ids s" "set (es_failed (normalize ?t)) = set (es_failed s)"
    using ok_nonblank[OF ok] by (auto simp: settled_ids_def)
  have idle: "es_inFlight s = []" "all_settled s"
    using b by (simp_all add: epicDoneBlockers_Nil guard_blockers_Nil open_tickets_Nil all_settled_def eq)
  have fl: "es_inFlight (normalize ?t) = []"
    using idle inFlight_normalize[of ?t] by auto
  have tr: "tracked (normalize ?t) = tracked s"
    by (simp add: tracked_def)
  show ?thesis unfolding s' run_inv_def
    using inv idle fl
    by (simp add: run_inv_def cascade_closed_def all_settled_def gr sets nh tr
        del: normalize_fields tracked_normalize)
qed

lemma run_inv_ok: "run_inv s \<Longrightarrow> state_ok s \<and> normalize s = s"
  by (simp add: run_inv_def state_ok_def)

text \<open>The transitions that only record something pass a quiet update through the choke point.\<close>

lemma quiet_transitions:
  assumes "state_ok s"
  shows "\<exists>t. recordAdoptionReconciled s i v = normalize t \<and> quiet s t"
    and "\<exists>t. recordWatchCoverage s i c = normalize t \<and> quiet s t"
    and "\<exists>t. recordWatchFailure s i rs fb tm b = normalize t \<and> quiet s t"
    and "\<exists>t. recordGreen s i = normalize t \<and> quiet s t"
    and "\<exists>t. recordGreenDemotion s i n = normalize t \<and> quiet s t"
    and "recordMerge s i vf = Inr s' \<Longrightarrow> \<exists>t. s' = normalize t \<and> quiet s t"
    and "\<exists>t. recordWake s k tm = normalize t \<and> quiet s t"
    and "\<exists>t. recordReconciliation s tm e = normalize t \<and> quiet s t"
    and "\<exists>t. beginCycle s = normalize t \<and> quiet s t"
    and "\<exists>t. recordProgressUpsert s cm f = normalize t \<and> quiet s t"
    and "\<exists>t. recordWatchCleanup s tm = normalize t \<and> quiet s t"
    and "\<exists>t. setPhase p s = normalize t \<and> quiet s t"
    and "\<exists>t. setReady ids s = normalize t \<and> quiet s t"
    and "\<exists>t. clearExternals ids s = normalize t \<and> quiet s t"
    and "\<exists>t. setPr i pv s = normalize t \<and> quiet s t"
    and "\<exists>t. setObservation i ob s = normalize t \<and> quiet s t"
    and "\<exists>t. setNonTerminalStatus s = normalize t \<and> quiet s t"
proof -
  note eq = ok_normalize[OF assms]
  show "\<exists>t. recordAdoptionReconciled s i v = normalize t \<and> quiet s t"
  proof (cases "map_of (es_sessions s) i")
    case None
    then show ?thesis by (intro exI[of _ s]) (simp add: recordAdoptionReconciled_def eq)
  next
    case (Some r)
    have "quiet s (update_session i (\<lambda>r. r\<lparr>sr_reconciled := True, sr_liveness := v\<rparr>) s)"
      by (intro quiet_update_session quiet_self) simp_all
    moreover have "recordAdoptionReconciled s i v =
        normalize (update_session i (\<lambda>r. r\<lparr>sr_reconciled := True, sr_liveness := v\<rparr>) s)"
      by (simp add: recordAdoptionReconciled_def eq Some)
    ultimately show ?thesis by blast
  qed
  show "\<exists>t. recordWatchCoverage s i c = normalize t \<and> quiet s t"
    unfolding recordWatchCoverage_def eq Let_def by (intro exI conjI, rule refl, rule quiet_refl_like) simp_all
  show "\<exists>t. recordWatchFailure s i rs fb tm b = normalize t \<and> quiet s t"
    unfolding recordWatchFailure_def eq Let_def
    by (intro exI conjI, rule refl, rule quiet_refl_like) (simp_all split: if_split_asm)
  show "\<exists>t. recordGreen s i = normalize t \<and> quiet s t"
    unfolding recordGreen_def eq Let_def by (intro exI conjI, rule refl, rule quiet_refl_like) simp_all
  show "\<exists>t. recordGreenDemotion s i n = normalize t \<and> quiet s t"
    unfolding recordGreenDemotion_def eq Let_def
    by (intro exI conjI, rule refl, intro quiet_update_session quiet_refl_like) simp_all
  show "recordMerge s i vf = Inr s' \<Longrightarrow> \<exists>t. s' = normalize t \<and> quiet s t"
    unfolding recordMerge_def eq Let_def
    by (simp split: if_split_asm, intro exI conjI, erule sym, rule quiet_refl_like) auto
  show "\<exists>t. recordWake s k tm = normalize t \<and> quiet s t"
    unfolding recordWake_def eq Let_def by (intro exI conjI, rule refl, rule quiet_refl_like) simp_all
  show "\<exists>t. recordReconciliation s tm e = normalize t \<and> quiet s t"
    unfolding recordReconciliation_def eq Let_def by (intro exI conjI, rule refl, rule quiet_refl_like) simp_all
  show "\<exists>t. beginCycle s = normalize t \<and> quiet s t"
    unfolding beginCycle_def eq Let_def by (intro exI conjI, rule refl, rule quiet_refl_like) simp_all
  show "\<exists>t. recordProgressUpsert s cm f = normalize t \<and> quiet s t"
    unfolding recordProgressUpsert_def eq Let_def by (intro exI conjI, rule refl, rule quiet_refl_like) simp_all
  show "\<exists>t. recordWatchCleanup s tm = normalize t \<and> quiet s t"
    unfolding recordWatchCleanup_def eq Let_def by (intro exI conjI, rule refl, rule quiet_refl_like) simp_all
  show "\<exists>t. setPhase p s = normalize t \<and> quiet s t" "\<exists>t. setReady ids s = normalize t \<and> quiet s t"
    "\<exists>t. clearExternals ids s = normalize t \<and> quiet s t"
    unfolding setPhase_def setReady_def clearExternals_def
    by (intro exI conjI, rule refl, rule quiet_refl_like; simp)+
  show "\<exists>t. setNonTerminalStatus s = normalize t \<and> quiet s t"
    unfolding setNonTerminalStatus_def by (intro exI conjI, rule refl, rule quiet_refl_like) simp_all
  show "\<exists>t. setPr i pv s = normalize t \<and> quiet s t" "\<exists>t. setObservation i ob s = normalize t \<and> quiet s t"
    unfolding setPr_def setObservation_def
    by (intro exI conjI, rule refl, intro quiet_update_session quiet_self; simp add: with_pr_def)+
qed

text \<open>Every transition is a launch, a failure, the DONE transition or quiet.\<close>

lemma transition_cases:
  assumes ok: "state_ok s" and step: "apply_transition t s = Inr s'"
  obtains i l where "recordLaunch s i l = Inr s'"
  | i r e where "s' = recordFailure s i r e"
  | "t = T_done" "transitionToDone s = Inr s'"
  | u where "s' = normalize u" "quiet s u"
  using step quiet_transitions[OF ok]
  by (cases t) (simp_all add: recordAdoption_def, metis+)

interpretation run: preserved apply_transition run_inv
proof
  fix s t s' assume inv: "run_inv s" and step: "apply_transition t s = Inr s'"
  have ok: "state_ok s" using inv by (simp add: run_inv_def)
  from ok step show "run_inv s'"
  proof (cases rule: transition_cases)
    case 1 with inv show ?thesis by (rule launch_inv)
  next
    case 2 with inv show ?thesis by (simp add: failure_inv)
  next
    case 3 show ?thesis using inv 3(2) by (rule done_inv)
  next
    case 4 with inv show ?thesis by (simp add: quiet_inv)
  qed
qed

section \<open>Progress is monotone\<close>

definition extends :: "epic_state \<Rightarrow> epic_state \<Rightarrow> bool" where
  "extends s0 s \<longleftrightarrow> state_ok s \<and> es_tickets s = es_tickets s0 \<and>
     set (es_needsHuman s) = set (es_needsHuman s0) \<and> set (es_merged s0) \<subseteq> set (es_merged s) \<and>
     set (es_failed s0) \<subseteq> set (es_failed s) \<and>
     set (es_cascadeSkipped s0) \<subseteq> set (es_cascadeSkipped s) \<and>
     set (es_externallyCleared s0) \<subseteq> set (es_externallyCleared s) \<and> tracked s0 \<subseteq> tracked s \<and>
     es_cycle s0 \<le> es_cycle s"

definition grown :: "epic_state \<Rightarrow> epic_state \<Rightarrow> bool" where
  "grown s t \<longleftrightarrow> es_needsHuman t = es_needsHuman s \<and> es_tickets t = es_tickets s \<and>
     set (es_merged s) \<subseteq> set (es_merged t) \<and> set (es_failed s) \<subseteq> set (es_failed t) \<and>
     set (es_cascadeSkipped s) \<subseteq> set (es_cascadeSkipped t) \<and>
     set (es_externallyCleared s) \<subseteq> set (es_externallyCleared t) \<and> tracked s \<subseteq> tracked t \<and>
     es_cycle s \<le> es_cycle t"

lemma grown_extends:
  assumes e: "extends s0 s" and g: "grown s t"
  shows "extends s0 (normalize t)"
proof -
  have ok: "state_ok s" using e by (simp add: extends_def)
  have nh: "set (es_needsHuman (normalize t)) = set (es_needsHuman s)"
    using g by (intro needsHuman_ok[OF ok]) (simp_all add: grown_def)
  have tk: "es_tickets (normalize t) = es_tickets s"
    using g epic_graph_normalize(2)[OF ok] by (simp add: grown_def)
  have sub: "set (es_merged s) \<subseteq> set (es_merged (normalize t))"
    "set (es_failed s) \<subseteq> set (es_failed (normalize t))"
    "set (es_cascadeSkipped s) \<subseteq> set (es_cascadeSkipped (normalize t))"
    "set (es_externallyCleared s) \<subseteq> set (es_externallyCleared (normalize t))"
    "tracked s \<subseteq> tracked (normalize t)" "es_cycle s \<le> es_cycle (normalize t)"
    using g ok_nonblank[OF ok] by (auto simp: grown_def)
  show ?thesis
    using e sub unfolding extends_def nh tk by (auto simp del: normalize_fields tracked_normalize)
qed

lemma grown_self [simp]: "grown s s"
  by (simp add: grown_def)

lemma grown_update_session: "grown s t \<Longrightarrow> grown s (update_session i f t)"
proof -
  have "es_externallyCleared (update_session i f t) = es_externallyCleared t" by simp
  then show "grown s t \<Longrightarrow> grown s (update_session i f t)" by (simp add: grown_def)
qed

lemma grownI: "s' = normalize u \<Longrightarrow> grown s u \<Longrightarrow> \<exists>u. s' = normalize u \<and> grown s u"
  by blast

lemma grown_transitions:
  assumes ok: "state_ok s" and step: "apply_transition t s = Inr s'"
  shows "\<exists>u. s' = normalize u \<and> grown s u"
proof -
  note eq = ok_normalize[OF ok]
  show ?thesis
  proof (cases t)
    case (T_launch i l)
    with step have "recordLaunch s i l = Inr s'" by simp
    from recordLaunch_Inr(5)[OF eq this] show ?thesis
      by (intro exI conjI, assumption) (auto simp: grown_def tracked_def fst_set_update)
  next
    case (T_adoption i l)
    with step have "recordLaunch s i (l\<lparr>ln_adopted := True\<rparr>) = Inr s'" by (simp add: recordAdoption_def)
    from recordLaunch_Inr(5)[OF eq this] show ?thesis
      by (intro exI conjI, assumption) (auto simp: grown_def tracked_def fst_set_update)
  next
    case (T_adoption_reconciled i v)
    have r: "s' = recordAdoptionReconciled s i v" using step T_adoption_reconciled by simp
    show ?thesis
    proof (cases "map_of (es_sessions s) i")
      case None
      then show ?thesis by (intro exI[of _ s]) (simp add: r recordAdoptionReconciled_def eq)
    next
      case (Some x)
      then show ?thesis
        by (intro exI[of _ "update_session i (\<lambda>r. r\<lparr>sr_reconciled := True, sr_liveness := v\<rparr>) s"])
          (simp add: r recordAdoptionReconciled_def eq grown_update_session)
    qed
  next
    case (T_failure i r e)
    with step have "s' = recordFailure s i r e" by simp
    then show ?thesis unfolding recordFailure_def eq Let_def
      by (intro exI conjI, assumption, intro grown_update_session)
        (use ok_nonblank[OF ok] in \<open>auto simp: grown_def tracked_def\<close>)
  next
    case (T_merge i v)
    with step have "recordMerge s i v = Inr s'" by simp
    then have "s' = normalize (s\<lparr>es_greens := without_ids (es_greens s) [i],
        es_inFlight := without_ids (es_inFlight s) [i], es_merged := add_id (es_merged s) i,
        es_externallyCleared := add_id (es_externallyCleared s) i\<rparr>)"
      unfolding recordMerge_def eq Let_def by (simp split: if_split_asm)
    then show ?thesis by (intro exI conjI, assumption) (auto simp: grown_def tracked_def)
  next
    case (T_watch_failure i r fb tm b)
    with step have "s' = recordWatchFailure s i r fb tm b" by simp
    then show ?thesis unfolding recordWatchFailure_def eq Let_def
      by (intro exI conjI, assumption) (simp add: grown_def tracked_def)
  next
    case (T_demotion i n)
    with step have "s' = recordGreenDemotion s i n" by simp
    then show ?thesis unfolding recordGreenDemotion_def eq Let_def
      by (intro exI conjI, assumption, intro grown_update_session) (simp add: grown_def tracked_def)
  next
    case (T_externals ids)
    with step have "s' = clearExternals ids s" by simp
    then show ?thesis unfolding clearExternals_def
      by (intro exI conjI, assumption)
        (use ok_nonblank[OF ok] in \<open>auto simp: grown_def tracked_def\<close>)
  next
    case (T_pr i v)
    with step have "s' = setPr i v s" by simp
    then show ?thesis unfolding setPr_def
      by (intro exI conjI, assumption, intro grown_update_session) simp
  next
    case (T_observation i ob)
    with step have "s' = setObservation i ob s" by simp
    then show ?thesis unfolding setObservation_def
      by (intro exI conjI, assumption, intro grown_update_session) simp
  next
    case T_done
    then have "s' = normalize (s\<lparr>es_phase := Terminal, es_status := DONE\<rparr>)"
      using step by (simp add: transitionToDone_Inr eq)
    then show ?thesis by (intro exI conjI, assumption) (simp add: grown_def tracked_def)
  qed (insert step, simp_all only: apply_transition.simps sum.inject recordWatchCoverage_def
      recordGreen_def recordWake_def recordReconciliation_def beginCycle_def recordProgressUpsert_def
      recordWatchCleanup_def setPhase_def setReady_def setNonTerminalStatus_def eq Let_def,
      (rule grownI, erule sym, simp add: grown_def tracked_def)+)
qed

interpretation growth: preserved apply_transition "extends s0" for s0
proof
  fix s t s' assume e: "extends s0 s" and step: "apply_transition t s = Inr s'"
  then have "state_ok s" by (simp add: extends_def)
  from grown_transitions[OF this step] e show "extends s0 s'"
    using grown_extends by blast
qed

section \<open>Runs from a fresh state\<close>

fun run_transitions :: "transition list \<Rightarrow> epic_state \<Rightarrow> driver_error + epic_state" where
  "run_transitions [] s = Inr s"
| "run_transitions (t # ts) s =
     (case apply_transition t s of Inl e \<Rightarrow> Inl e | Inr s' \<Rightarrow> run_transitions ts s')"

lemma run_transitions_iff: "run_transitions ts s = Inr s' \<longleftrightarrow> runs apply_transition s ts s'"
  by (induction ts arbitrary: s) (auto split: sum.splits)

lemma createEpicState_fields:
  "es_failed (createEpicState opts) = []" "es_inFlight (createEpicState opts) = []"
  "es_sessions (createEpicState opts) = []" "es_status (createEpicState opts) = RUNNING"
  by (simp_all add: createEpicState_def normalizeEpicState_def read_fields_def id_list_def
      array_or_empty_def named_def all_statuses_def js_entries_def map_vals_def close_ids_def Let_def
      uniqueIds_def without_ids_def)

lemma uniqueIds_id_list [simp]: "uniqueIds (id_list v) = id_list v"
proof (rule uniqueIds_fix)
  show "list_all nonblank (id_list v)"
    by (auto simp: id_list_def list_all_iff intro: nonblank_text)
qed (simp add: id_list_def)

lemma norm_read_ticket [simp]: "norm_ticket (read_ticket v) = read_ticket v"
  by (simp add: norm_ticket_def read_ticket_def)

lemma norm_read_wake [simp]: "norm_wake (read_wake v) = read_wake v"
  by (auto simp: norm_wake_def read_wake_def intro: nonblank_text)

lemma norm_fields_read:
  "es_watches (read_fields v) = [] \<Longrightarrow> norm_fields (read_fields v) = read_fields v"
  by (rule epic_state.equality) (simp_all add: norm_fields_def read_fields_def)

lemma normalizeEpicState_ok:
  "es_watches (read_fields v) = [] \<Longrightarrow> state_ok (normalizeEpicState v)"
  by (simp add: state_ok_def normalizeEpicState_def normalize_def norm_fields_close_ids norm_fields_read)

lemma createEpicState_ok: "state_ok (createEpicState opts)"
  unfolding createEpicState_def by (rule normalizeEpicState_ok) (simp add: read_fields_def js_entries_def)

lemma createEpicState_inv: "run_inv (createEpicState opts)"
  by (simp add: run_inv_def createEpicState_ok createEpicState_fields cascade_closed_def tracked_def)

lemma run_inv_along:
  "runs apply_transition (createEpicState opts) ts s \<Longrightarrow> run_inv s"
  using run.along createEpicState_inv by blast

definition launch_of :: "string \<Rightarrow> launch" where
  "launch_of i = \<lparr> ln_sessionId = JStr (''s-'' @ i), ln_chatId = JStr (''c-'' @ i), ln_at = ''t1'',
     ln_prNumber = None, ln_prRepo = [], ln_prUrl = [], ln_adopted = False \<rparr>"

definition fresh_opts :: jsval where
  "fresh_opts = JObj
     [(''runId'', JStr ''r1''), (''epicId'', JStr ''E-1''),
      (''tickets'', JArr [JObj [(''id'', JStr ''A'')],
         JObj [(''id'', JStr ''B''), (''blockedBy'', JArr [JStr ''A''])]])]"

definition failing_run :: "transition list" where
  "failing_run = [T_cycle, T_ready [''A''], T_launch ''A'' (launch_of ''A''), T_failure ''A'' ''x'' True]"

definition finished_run :: "transition list" where
  "finished_run = [T_cycle, T_launch ''A'' (launch_of ''A''), T_green ''A'', T_merge ''A'' True,
     T_launch ''B'' (launch_of ''B''), T_failure ''B'' ''x'' False, T_reconciliation ''t2'' True, T_done]"

definition after :: "transition list \<Rightarrow> epic_state" where
  "after ts = (case run_transitions ts (createEpicState fresh_opts) of Inr s \<Rightarrow> s | Inl _ \<Rightarrow> createEpicState fresh_opts)"

lemma runs_after:
  "\<not> isl (run_transitions ts (createEpicState fresh_opts)) \<Longrightarrow>
     runs apply_transition (createEpicState fresh_opts) ts (after ts)"
  by (cases "run_transitions ts (createEpicState fresh_opts)")
    (simp_all add: after_def run_transitions_iff[symmetric])

lemma failing_run_runs: "runs apply_transition (createEpicState fresh_opts) failing_run (after failing_run)"
  by (rule runs_after) code_simp

lemma finished_run_runs: "runs apply_transition (createEpicState fresh_opts) finished_run (after finished_run)"
  by (rule runs_after) code_simp

text \<open>C26:
  Ownership holds along every run: whatever sequence of transitions the driver takes from a fresh
  state, every in-flight ticket has a session with an owner session id and chat id, and no needs-human
  ticket ever has a session.\<close>

theorem epic_run_ownership:
  assumes "runs apply_transition (createEpicState opts) ts s"
  shows "set (es_inFlight s) \<subseteq> {i. attributed s i} \<and> tracked s \<inter> set (es_needsHuman s) = {}"
  using run_inv_along[OF assms] by (auto simp: run_inv_def)

theorem epic_run_ownership_witness:
  "set (es_inFlight (after [T_cycle, T_launch ''A'' (launch_of ''A'')])) = {''A''} \<and>
   attributed (after [T_cycle, T_launch ''A'' (launch_of ''A'')]) ''A''"
proof -
  have "runs apply_transition (createEpicState fresh_opts) [T_cycle, T_launch ''A'' (launch_of ''A'')]
      (after [T_cycle, T_launch ''A'' (launch_of ''A'')])"
    by (rule runs_after) code_simp
  note own = epic_run_ownership[OF this]
  have "es_inFlight (after [T_cycle, T_launch ''A'' (launch_of ''A'')]) = [''A'']" by code_simp
  with own show ?thesis by simp
qed

text \<open>C13:
  No failure strands its dependents: along every run, every ticket downstream of a failed one, through
  any chain of in-epic blocking edges, is itself merged, failed or skipped.\<close>

theorem epic_run_cascade:
  assumes "runs apply_transition (createEpicState opts) ts s"
  shows "{i \<in> (in_edges (epic_graph s))\<^sup>+ `` set (es_failed s). nonblank i} \<subseteq> settled_ids s"
  using run_inv_along[OF assms] by (simp add: run_inv_def cascade_closed_def)

theorem epic_run_cascade_witness:
  "''B'' \<in> settled_ids (after failing_run)"
proof -
  have e: "get_list (inEpicBlockers (epic_graph (after failing_run))) ''B'' = [''A'']"
    "es_failed (after failing_run) = [''A'']"
    by code_simp+
  then have "(''A'', ''B'') \<in> in_edges (epic_graph (after failing_run))"
    by (simp add: in_edges_def)
  moreover have "nonblank ''B''" by code_simp
  ultimately have "''B'' \<in> {i \<in> (in_edges (epic_graph (after failing_run)))\<^sup>+ ``
      set (es_failed (after failing_run)). nonblank i}"
    by (simp add: e)
  with epic_run_cascade[OF failing_run_runs] show ?thesis by (rule subsetD)
qed

lemma done_needs_guard:
  assumes "runs apply_transition s0 ts s" "es_status s = DONE" "es_status s0 \<noteq> DONE" "state_ok s0"
  shows "\<exists>us vs m. ts = us @ T_done # vs \<and> runs apply_transition s0 us m \<and> epicDoneBlockers m = []"
  using assms
proof (induction rule: runs.induct)
  case (runs_Cons t s0 s1 ts s)
  note ok = runs_Cons.prems(3)
  show ?case
  proof (cases "t = T_done")
    case True
    then have "epicDoneBlockers s0 = []"
      using runs_Cons.hyps(1) by (simp add: transitionToDone_Inr)
    then show ?thesis using True by (intro exI[of _ "[]"] exI[of _ ts] exI[of _ s0]) simp
  next
    case False
    have "es_status s1 \<noteq> DONE"
      using ok runs_Cons.hyps(1)
    proof (cases rule: transition_cases)
      case (1 i l)
      then show ?thesis using recordLaunch_Inr(5)[OF ok_normalize[OF ok] 1] by simp
    next
      case (2 i r e)
      then show ?thesis using runs_Cons.prems(2)
        by (simp add: recordFailure_def Let_def)
    next
      case 3
      then show ?thesis using False by simp
    next
      case (4 u)
      then show ?thesis using runs_Cons.prems(2) by (auto simp: quiet_def)
    qed
    moreover have "state_ok s1"
      using growth.preserve[of s0 s0 t s1] runs_Cons.hyps(1) ok by (simp add: extends_def)
    ultimately obtain us vs m where "ts = us @ T_done # vs" "runs apply_transition s1 us m"
      "epicDoneBlockers m = []"
      using runs_Cons.IH runs_Cons.prems(1) by blast
    then show ?thesis using runs_Cons.hyps(1)
      by (intro exI[of _ "t # us"] exI[of _ vs] exI[of _ m]) simp
  qed
qed simp

text \<open>C1:
  A run reports DONE only through the guard: a run from a fresh state that ends DONE has nothing in
  flight, has every ticket merged, failed, skipped or needs-human, and contains a DONE transition taken
  in a state with no blocker.\<close>

theorem epic_run_done:
  assumes "runs apply_transition (createEpicState opts) ts s" and "es_status s = DONE"
  shows "es_inFlight s = [] \<and> t_id ` set (es_tickets s) \<subseteq> set (es_needsHuman s) \<union> settled_ids s \<and>
    (\<exists>us vs m. ts = us @ T_done # vs \<and> runs apply_transition (createEpicState opts) us m \<and>
       epicDoneBlockers m = [])"
  using run_inv_along[OF assms(1)] assms(2) createEpicState_fields(4)
    done_needs_guard[OF assms _ createEpicState_ok]
  by (simp add: run_inv_def all_settled_def)

theorem epic_run_done_witness:
  "es_inFlight (after finished_run) = [] \<and>
   t_id ` set (es_tickets (after finished_run)) \<subseteq>
     set (es_needsHuman (after finished_run)) \<union> settled_ids (after finished_run)"
proof -
  have "es_status (after finished_run) = DONE" by code_simp
  from epic_run_done[OF finished_run_runs this] show ?thesis by blast
qed

text \<open>Progress is never lost: along every run the tickets and the needs-human set stay what they were, and
  the merged, failed, skipped and externally cleared tickets, the sessions and the cycle count only
  grow.\<close>

theorem epic_run_monotone:
  assumes "runs apply_transition (createEpicState opts) us s" and "runs apply_transition s vs s'"
  shows "es_tickets s' = es_tickets s \<and> set (es_needsHuman s') = set (es_needsHuman s) \<and>
    set (es_merged s) \<subseteq> set (es_merged s') \<and> set (es_failed s) \<subseteq> set (es_failed s') \<and>
    set (es_cascadeSkipped s) \<subseteq> set (es_cascadeSkipped s') \<and>
    set (es_externallyCleared s) \<subseteq> set (es_externallyCleared s') \<and> tracked s \<subseteq> tracked s' \<and>
    es_cycle s \<le> es_cycle s'"
proof -
  have "extends s s" using run_inv_along[OF assms(1)] by (simp add: run_inv_def extends_def)
  from growth.along[OF assms(2) this] show ?thesis by (simp add: extends_def)
qed

theorem epic_run_monotone_witness:
  "set (es_merged (after finished_run)) \<supseteq> set (es_merged (createEpicState fresh_opts)) \<and>
   es_cycle (createEpicState fresh_opts) \<le> es_cycle (after finished_run)"
  using epic_run_monotone[OF runs_Nil finished_run_runs] by blast

end
