(* ===== verification/EpicCycle.thy ===== *)
theory EpicCycle
  imports EpicRun
begin

text \<open>
  \<open>reconcileEpic\<close>, \<open>scheduleReadyWork\<close> and \<open>ensureDurableCoverage\<close> of \<open>epic-driver.mjs\<close>: one cycle of
  the orchestrator. The injected I/O is the record \<open>epic_io\<close> of functions on an arbitrary world \<open>'w\<close>;
  an operation that rejects is \<open>Inl\<close> and aborts the cycle, as the awaited promise does. A cycle is a
  function from the world and the audit trail to a result, an error or the next world and trail.
\<close>

section \<open>Programs\<close>

datatype action =
    A_wake wake_kind
  | A_adopt string
  | A_liveness string liveness_verdict liveness_action
  | A_fail_isolate string
  | A_settle string settle_reading
  | A_green string
  | A_hold string "string list"
  | A_externals nat
  | A_launch string
  | A_arm string "string list" bool
  | A_subscribe string "string option"
  | A_fallback string string
  | A_unwatched string string
  | A_merge_skip string "string list"
  | A_merge string bool
  | A_merge_unverified string
  | A_retain_watch string
  | A_cleanup_watch string
  | A_done

datatype cycle_error = Driver driver_error | Io_rejected string | No_session string

record 'w cyc =
  cy_world :: 'w
  cy_actions :: "action list"

type_synonym ('w, 'a) prog = "'w cyc \<Rightarrow> (cycle_error + 'a) \<times> 'w cyc"
type_synonym ('w, 'a) op = "'w \<Rightarrow> (string + 'a) \<times> 'w"

definition ret :: "'a \<Rightarrow> ('w, 'a) prog" where
  "ret x c = (Inr x, c)"

definition bind :: "('w, 'a) prog \<Rightarrow> ('a \<Rightarrow> ('w, 'b) prog) \<Rightarrow> ('w, 'b) prog" where
  "bind m f c = (case m c of (Inl e, c') \<Rightarrow> (Inl e, c') | (Inr x, c') \<Rightarrow> f x c')"

definition lift :: "driver_error + 'a \<Rightarrow> ('w, 'a) prog" where
  "lift r c = (case r of Inl e \<Rightarrow> (Inl (Driver e), c) | Inr x \<Rightarrow> (Inr x, c))"

definition call :: "('w, 'a) op \<Rightarrow> ('w, 'a) prog" where
  "call f c = (case f (cy_world c) of
     (Inl m, w) \<Rightarrow> (Inl (Io_rejected m), c\<lparr>cy_world := w\<rparr>) | (Inr x, w) \<Rightarrow> (Inr x, c\<lparr>cy_world := w\<rparr>))"

definition push :: "action \<Rightarrow> ('w, unit) prog" where
  "push a c = (Inr (), c\<lparr>cy_actions := cy_actions c @ [a]\<rparr>)"

fun each :: "('a \<Rightarrow> 's \<Rightarrow> ('w, 's) prog) \<Rightarrow> 'a list \<Rightarrow> 's \<Rightarrow> ('w, 's) prog" where
  "each f [] s = ret s"
| "each f (x # xs) s = bind (f x s) (each f xs)"

section \<open>The injected I/O\<close>

definition EPIC_DRIVER_IO :: "string list" where
  "EPIC_DRIVER_IO =
     [''listSessions'', ''readSessionSnapshot'', ''readExternalBlockers'', ''createSession'', ''armWatches'',
      ''listWatches'', ''subscribeSessionOutcome'', ''listSessionSubscriptions'', ''removeWatches'',
      ''scheduleFallbackWake'', ''mergeChild'', ''verifyMerged'', ''moveTicketDone'', ''upsertProgress'']"

text \<open>The capabilities a host lacks: \<open>assertEpicIo\<close> throws unless there is none.\<close>

definition assertEpicIo :: "string list \<Rightarrow> string list + unit" where
  "assertEpicIo functions =
     (let missing = filter (\<lambda>n. n \<notin> set functions) EPIC_DRIVER_IO in
      if missing \<noteq> [] then Inl missing else Inr ())"

text \<open>List reads may be nullish; a missing \<open>save\<close> is \<open>None\<close>.\<close>

record 'w epic_io =
  io_listSessions :: "('w, jsval list option) op"
  io_readSessionSnapshot :: "string \<Rightarrow> string \<Rightarrow> string \<Rightarrow> ('w, jsval) op"
  io_readExternalBlockers :: "string list \<Rightarrow> ('w, jsval) op"
  io_createSession :: "node \<Rightarrow> ('w, jsval) op"
  io_armWatches :: "string \<Rightarrow> int option \<Rightarrow> string \<Rightarrow> string list \<Rightarrow> string \<Rightarrow> ('w, jsval) op"
  io_listWatches :: "string \<Rightarrow> int option \<Rightarrow> string \<Rightarrow> ('w, jsval list option) op"
  io_subscribeSessionOutcome :: "string \<Rightarrow> string \<Rightarrow> string \<Rightarrow> ('w, jsval) op"
  io_listSessionSubscriptions :: "string \<Rightarrow> ('w, jsval list option) op"
  io_removeWatches :: "string \<Rightarrow> string list \<Rightarrow> string \<Rightarrow> ('w, unit) op"
  io_scheduleFallbackWake :: "string \<Rightarrow> string \<Rightarrow> ('w, jsval) op"
  io_mergeChild :: "string \<Rightarrow> string \<Rightarrow> ('w, jsval) op"
  io_verifyMerged :: "string \<Rightarrow> string \<Rightarrow> ('w, jsval) op"
  io_moveTicketDone :: "string \<Rightarrow> ('w, jsval) op"
  io_upsertProgress :: "epic_state \<Rightarrow> progress_state \<Rightarrow> ('w, jsval) op"
  io_save :: "(epic_state \<Rightarrow> ('w, unit) op) option"

definition rows_of :: "jsval list option \<Rightarrow> jsval list" where
  "rows_of r = (case r of Some rows \<Rightarrow> rows | None \<Rightarrow> [])"

definition call_obj :: "('w, jsval) op \<Rightarrow> ('w, jsval) prog" where
  "call_obj f = bind (call f) (\<lambda>v. ret (coalesce v (JObj [])))"

definition persist :: "'w epic_io \<Rightarrow> epic_state \<Rightarrow> ('w, epic_state) prog" where
  "persist io s = (case io_save io of None \<Rightarrow> ret s | Some f \<Rightarrow> bind (call (f s)) (\<lambda>_. ret s))"

section \<open>Scheduling\<close>

definition progress_of :: "epic_state \<Rightarrow> progress_sets" where
  "progress_of s = \<lparr> merged_ids = es_merged s, failed_ids = es_failed s, inFlight_ids = es_inFlight s,
     cleared_ids = es_externallyCleared s \<rparr>"

definition eligible :: "epic_state \<Rightarrow> node list" where
  "eligible s = filter (\<lambda>n. nid n \<notin> set (es_needsHuman s)) (readyTickets (epic_graph s) (progress_of s))"

definition headroom :: "epic_state \<Rightarrow> nat" where
  "headroom s = nat (max 0 (es_parallel s - int (length (es_inFlight s))))"

definition launch_one :: "'w epic_io \<Rightarrow> string \<Rightarrow> node \<Rightarrow> epic_state \<Rightarrow> ('w, epic_state) prog" where
  "launch_one io now n s =
     bind (call_obj (io_createSession io n)) (\<lambda>created.
     bind (lift (recordLaunch s (nid n)
       \<lparr> ln_sessionId = prop_of created ''sessionId'', ln_chatId = prop_of created ''chatId'', ln_at = now,
         ln_prNumber = None, ln_prRepo = [], ln_prUrl = [], ln_adopted = False \<rparr>)) (\<lambda>s'.
     bind (push (A_launch (nid n))) (\<lambda>_. persist io s')))"

definition scheduleReadyWork :: "'w epic_io \<Rightarrow> string \<Rightarrow> epic_state \<Rightarrow> ('w, epic_state) prog" where
  "scheduleReadyWork io now state =
     (let s = normalize state; ready = eligible s; s1 = setReady (map nid ready) s in
      bind (each (launch_one io now) (take (headroom s1) ready) s1) (\<lambda>s2.
      ret (setReady (map nid (eligible s2)) s2)))"

section \<open>Durable coverage\<close>

definition EPIC_CHILD_PR_TRIGGERS :: "string list" where
  "EPIC_CHILD_PR_TRIGGERS =
     [''checks_passed_ready'', ''ready_for_review'', ''checks_failed'', ''merged'', ''closed'']"

text \<open>The last listed row of a trigger, as the \<open>Map\<close> of the rows keeps it.\<close>

definition live_row :: "jsval list \<Rightarrow> string \<Rightarrow> jsval" where
  "live_row rows trigger =
     (case find (\<lambda>r. prop_of r ''trigger'' = JStr trigger \<and> is_nonempty_string (prop_of r ''trigger'')) (rev rows) of
        Some r \<Rightarrow> r | None \<Rightarrow> JUndef)"

definition arm_callbacks ::
  "'w epic_io \<Rightarrow> epic_state \<Rightarrow> string \<Rightarrow> session_row \<Rightarrow> string list \<Rightarrow> ('w, callback_row list \<times> jsval) prog" where
  "arm_callbacks io s i r rearm =
     (if rearm = [] then ret (w_callbacks (watch_of s i), JStr [])
      else
        bind (lift (buildContinuationPrompt (es_epicId s) ''callback'' (es_runId s))) (\<lambda>message.
        bind (call_obj (io_armWatches io i (sr_prNumber r) (sr_prRepo r) rearm message)) (\<lambda>armed.
        bind (call (io_listWatches io i (sr_prNumber r) (sr_prRepo r))) (\<lambda>verify.
        let error = coalesce (prop_of armed ''error'') (JStr []);
            missing = filter (\<lambda>t. JStr t \<notin> set (map (\<lambda>row. prop_of row ''trigger'') (rows_of verify))) rearm;
            armError = (if missing \<noteq> [] \<and> \<not> truthy error
              then JStr (''list verification found no watch for '' @ join '','' missing) else error)
        in bind (push (A_arm i rearm (truthy armError))) (\<lambda>_.
           ret (map read_callback (filter (\<lambda>row. is_nonempty_string (prop_of row ''id'')) (rows_of verify)),
                armError))))))"

definition fault_text :: "row_fault \<Rightarrow> string" where
  "fault_text f =
     (case f of
        Row_without_id \<Rightarrow> ''subscription row has no id''
      | Owner_mismatch \<Rightarrow> ''subscription owner_session_id does not match the child session''
      | Origin_mismatch \<Rightarrow> ''subscription origin_chat_id does not match the orchestrator chat''
      | Row_not_active st \<Rightarrow> ''subscription state is '' @ (if st \<noteq> [] then st else ''unknown'')
      | Row_fired \<Rightarrow> ''subscription already fired'')"

definition row_subscription :: "jsval \<Rightarrow> subscription" where
  "row_subscription row =
     (let field = (\<lambda>a b. string_or_empty (first_of row a b)) in
      \<lparr> sb_id = text_of row ''id'', sb_ownerSessionId = field ''owner_session_id'' ''ownerSessionId'',
        sb_originChatId = field ''origin_chat_id'' ''originChatId'',
        sb_triggerEvent = field ''trigger_event'' ''triggerEvent'', sb_state = text_of row ''state'',
        sb_firedAt = field ''fired_at'' ''firedAt'', sb_expiresAt = field ''expires_at'' ''expiresAt'' \<rparr>)"

definition subscription_verdict :: "jsval list \<Rightarrow> jsval \<Rightarrow> string \<Rightarrow> string + jsval" where
  "subscription_verdict rows wantedId ownerSessionId =
     (case find (\<lambda>c. coalesce (prop_of c ''id'') (JStr []) = wantedId) rows of
        Some row \<Rightarrow>
          if truthy row
          then (case verifySubscriptionRow row ownerSessionId [] of
                  None \<Rightarrow> Inr row | Some f \<Rightarrow> Inl (fault_text f))
          else Inl ''subscription absent from the list read''
      | None \<Rightarrow> Inl ''subscription absent from the list read'')"

definition arm_subscription ::
  "'w epic_io \<Rightarrow> epic_state \<Rightarrow> string \<Rightarrow> session_row \<Rightarrow> ('w, subscription option \<times> jsval) prog" where
  "arm_subscription io s i r =
     (let sub = w_subscription (watch_of s i) in
      if \<not> needsRearm (jopt encode_subscription sub) True then ret (sub, JStr [])
      else
        bind (lift (buildContinuationPrompt (es_epicId s) ''subscription'' (es_runId s))) (\<lambda>message.
        bind (call_obj (io_subscribeSessionOutcome io i (sr_sessionId r) message)) (\<lambda>created.
        bind (call (io_listSessionSubscriptions io (sr_sessionId r))) (\<lambda>rows.
        let error = coalesce (prop_of created ''error'') (JStr []);
            wantedId = coalesce (prop_of (prop_of created ''subscription'') ''id'') (JStr []);
            (sub', subError) = (case subscription_verdict (rows_of rows) wantedId (sr_sessionId r) of
               Inr row \<Rightarrow> (Some (row_subscription row), JStr [])
             | Inl reason \<Rightarrow> (None, if truthy error then error else JStr reason))
        in bind (push (A_subscribe i (if truthy subError then Some (js_string subError) else None))) (\<lambda>_.
           ret (sub', subError))))))"

definition ensureDurableCoverage :: "'w epic_io \<Rightarrow> string \<Rightarrow> string \<Rightarrow> epic_state \<Rightarrow> ('w, epic_state) prog" where
  "ensureDurableCoverage io now i state =
     (let s = normalize state; r = session_of s i in
      if sr_sessionId r = [] then ret s
      else
        bind (call (io_listWatches io i (sr_prNumber r) (sr_prRepo r))) (\<lambda>live.
        bind (arm_callbacks io s i r
          (filter (\<lambda>t. needsRearm (live_row (rows_of live) t) True) EPIC_CHILD_PR_TRIGGERS)) (\<lambda>(callbacks, armError).
        bind (arm_subscription io s i r) (\<lambda>(sub, subError).
        if \<not> truthy armError \<and> \<not> truthy subError
        then ret (recordWatchCoverage s i
          \<lparr> cv_targetChatId = w_targetChatId (watch_of s i), cv_repo = sr_prRepo r, cv_callbacks = callbacks,
            cv_subscription = sub, cv_verifiedAt = now \<rparr>)
        else
          let reason = join ''; '' (map js_string (filter truthy [armError, subError])) in
          bind (call (io_scheduleFallbackWake io i reason)) (\<lambda>fallback.
          bind (push (if truthy fallback
            then A_fallback i (js_string (prop_of fallback ''mechanism'')) else A_unwatched i reason)) (\<lambda>_.
          ret (recordWatchFailure s i reason fallback now False)))))))"

section \<open>One cycle\<close>

fun verdict_name :: "liveness_verdict \<Rightarrow> string" where
  "verdict_name Alive = ''alive''"
| "verdict_name Environmental_death = ''environmental-death''"
| "verdict_name Agent_blocked = ''agent-blocked''"
| "verdict_name Wall_clock_expired = ''wall-clock-expired''"
| "verdict_name Liveness_unknown = ''unknown''"

definition adoptable :: "epic_state \<Rightarrow> string \<Rightarrow> bool" where
  "adoptable s i \<longleftrightarrow>
     i \<notin> set (es_needsHuman s) \<and> \<not> isTerminalTicket s i \<and> sr_sessionId (session_of s i) = []"

definition adopt_one ::
  "jsval list \<Rightarrow> string \<Rightarrow> ticket \<Rightarrow> epic_state \<times> string list \<Rightarrow> ('w, epic_state \<times> string list) prog" where
  "adopt_one sessions now t = (\<lambda>(s, adopted).
     if \<not> adoptable s (t_id t) then ret (s, adopted)
     else (case matchSessionForTicket sessions (t_id t) of
         None \<Rightarrow> ret (s, adopted)
       | Some m \<Rightarrow>
           bind (lift (recordAdoption s (t_id t)
             \<lparr> ln_sessionId = prop_of m ''id'',
               ln_chatId = coalesce (coalesce (prop_of m ''agent_session_id'') (prop_of m ''chatId'')) (JStr []),
               ln_at = now, ln_prNumber = None, ln_prRepo = [], ln_prUrl = [], ln_adopted = True \<rparr>)) (\<lambda>s'.
           bind (push (A_adopt (t_id t))) (\<lambda>_. ret (s', adopted @ [t_id t])))))"

definition adopt_sessions :: "'w epic_io \<Rightarrow> string \<Rightarrow> epic_state \<Rightarrow> ('w, epic_state) prog" where
  "adopt_sessions io now s =
     bind (call (io_listSessions io)) (\<lambda>live.
     bind (each (adopt_one (rows_of live) now) (es_tickets s) (s, [])) (\<lambda>(s', adopted).
     if adopted \<noteq> [] then persist io s' else ret s'))"

definition settle_poll :: "jsval \<Rightarrow> session_row \<Rightarrow> jsval" where
  "settle_poll snapshot r = JObj
     [(''chatStatus'', prop_of snapshot ''chatStatus''),
      (''chatStatusReadable'', prop_of snapshot ''chatStatusReadable''),
      (''spinnerPresent'', prop_of snapshot ''spinnerPresent''),
      (''displayLabel'', prop_of snapshot ''displayLabel''),
      (''previous'', jopt obs_obj (sr_settleObservation r))]"

definition admission_snapshot :: "jsval \<Rightarrow> bool \<Rightarrow> jsval" where
  "admission_snapshot snapshot settled = JObj
     [(''checkVerdict'', prop_of snapshot ''checkVerdict''), (''prView'', prop_of snapshot ''prView''),
      (''chatSettled'', JBool settled)]"

text \<open>The admission of a child that was not isolated, and the poll of one child.\<close>

definition admit_child :: "'w epic_io \<Rightarrow> string \<Rightarrow> jsval \<Rightarrow> epic_state \<Rightarrow> ('w, epic_state) prog" where
  "admit_child io i snapshot s =
     (let settle = classifyChildSettled (settle_poll snapshot (session_of s i));
          s1 = setObservation i (sv_observation settle) s;
          blockers = greenAdmissionBlockers (admission_snapshot snapshot (sv_settled settle))
      in bind (push (A_settle i (sv_reading settle))) (\<lambda>_.
         if blockers = []
         then bind (push (A_green i)) (\<lambda>_. persist io (recordGreen s1 i))
         else bind (push (A_hold i blockers)) (\<lambda>_.
           persist io (recordGreenDemotion s1 i (''held: '' @ join '','' blockers)))))"

definition poll_child :: "'w epic_io \<Rightarrow> string \<Rightarrow> epic_state \<Rightarrow> ('w, epic_state) prog" where
  "poll_child io i s =
     (let r = session_of s i in
      if sr_sessionId r = [] then ret s
      else
        bind (call_obj (io_readSessionSnapshot io i (sr_sessionId r) (sr_chatId r))) (\<lambda>snapshot.
        let l = classifyChildLiveness snapshot;
            s1 = setPr i (prop_of snapshot ''prView'') (recordAdoptionReconciled s i (verdict_name (cl_verdict l)))
        in bind (push (A_liveness i (cl_verdict l) (cl_action l))) (\<lambda>_.
           if cl_action l = Fail_isolate
           then bind (push (A_fail_isolate i)) (\<lambda>_. persist io
             (recordFailure s1 i (verdict_name (cl_verdict l) @ '': '' @ join '','' (cl_reasons l)) True))
           else admit_child io i snapshot s1)))"

definition external_ids :: "epic_state \<Rightarrow> string list" where
  "external_ids s =
     uniqueIds (filter (\<lambda>i. i \<notin> set (es_merged s)) (concat (map snd (externalBlockers (epic_graph s)))))"

definition cleared_in :: "jsval \<Rightarrow> string list" where
  "cleared_in states = map fst (filter (\<lambda>(_, v). v = JStr ''cleared'') (js_entries states))"

definition read_externals ::
  "'w epic_io \<Rightarrow> string \<Rightarrow> epic_state \<Rightarrow> ('w, epic_state \<times> jsval) prog" where
  "read_externals io now s =
     (let ids = external_ids s in
      bind (if ids \<noteq> [] then call_obj (io_readExternalBlockers io ids) else ret (JObj [])) (\<lambda>states.
      bind (push (A_externals (length ids))) (\<lambda>_.
      ret (recordReconciliation (clearExternals (cleared_in states) s) now True, states))))"

definition cover_one :: "'w epic_io \<Rightarrow> string \<Rightarrow> string \<Rightarrow> epic_state \<Rightarrow> ('w, epic_state) prog" where
  "cover_one io now i s = bind (ensureDurableCoverage io now i s) (persist io)"

definition covered :: "epic_state \<Rightarrow> string \<Rightarrow> bool" where
  "covered s i \<longleftrightarrow> (case map_of (es_watches s) i of
     None \<Rightarrow> False | Some w \<Rightarrow> nonblank (w_verifiedAt w) \<or> w_fallback w \<noteq> None)"

definition cover_uncovered :: "'w epic_io \<Rightarrow> string \<Rightarrow> string \<Rightarrow> epic_state \<Rightarrow> ('w, epic_state) prog" where
  "cover_uncovered io now i s = (if covered s i then ret s else cover_one io now i s)"

definition merge_target :: "'w epic_io \<Rightarrow> string \<Rightarrow> epic_state \<Rightarrow> ('w, epic_state) prog" where
  "merge_target io target s =
     (case map_of (es_sessions s) target of
        None \<Rightarrow> (\<lambda>c. (Inl (No_session target), c))
      | Some r \<Rightarrow>
          bind (call_obj (io_mergeChild io target (sr_sessionId r))) (\<lambda>result.
          bind (call (io_verifyMerged io target (sr_sessionId r))) (\<lambda>verified.
          if verified = JBool True
          then
            bind (call (io_moveTicketDone io target)) (\<lambda>moved.
            bind (lift (recordMerge s target True)) (\<lambda>s'.
            bind (push (A_merge target (moved = JBool True))) (\<lambda>_. persist io s')))
          else
            bind (push (A_merge_unverified target)) (\<lambda>_. persist io (recordGreenDemotion s target
              (''merge not verified: '' @ js_string (coalesce (prop_of result ''error'')
                (JStr ''provider state is not merged''))))))))"

definition serialized_merge :: "'w epic_io \<Rightarrow> jsval \<Rightarrow> epic_state \<Rightarrow> ('w, epic_state) prog" where
  "serialized_merge io states s =
     (let g = epic_graph s in
      case nextToMerge (es_greens s) g (es_merged s) of
        None \<Rightarrow> ret s
      | Some target \<Rightarrow>
          (let openBlockers = mergeBlockedExternalBlockers target g [] (cleared_in states) in
           if openBlockers \<noteq> [] then bind (push (A_merge_skip target openBlockers)) (\<lambda>_. ret s)
           else merge_target io target s))"

definition upsert_progress ::
  "'w epic_io \<Rightarrow> string \<Rightarrow> string \<Rightarrow> string \<Rightarrow> epic_state \<Rightarrow> ('w, epic_state) prog" where
  "upsert_progress io now nextWake finalAt s =
     bind (call_obj (io_upsertProgress io s (buildEpicProgressState s now nextWake))) (\<lambda>upsert.
     ret (recordProgressUpsert s (text_of upsert ''commentId'') finalAt))"

definition remove_watch :: "'w epic_io \<Rightarrow> epic_state \<Rightarrow> string \<times> watch \<Rightarrow> unit \<Rightarrow> ('w, unit) prog" where
  "remove_watch io s = (\<lambda>(i, w) _.
     if i \<in> set (es_retainedEvidenceWatches s) then push (A_retain_watch i)
     else bind (call (io_removeWatches io i (filter nonblank (map cb_id (w_callbacks w)))
         (case w_subscription w of Some b \<Rightarrow> sb_id b | None \<Rightarrow> []))) (\<lambda>_. push (A_cleanup_watch i)))"

record cycle_result =
  cr_state :: epic_state
  cr_status :: run_status
  cr_blockers :: "blocker list"

text \<open>The terminal branch: watches removed, the final comment written, then the DONE transition.\<close>

definition terminal_cycle :: "'w epic_io \<Rightarrow> string \<Rightarrow> epic_state \<Rightarrow> ('w, cycle_result) prog" where
  "terminal_cycle io now s =
     bind (each (remove_watch io s) (es_watches s) ()) (\<lambda>_.
     bind (upsert_progress io now [] now (recordWatchCleanup s now)) (\<lambda>s1.
     bind (lift (transitionToDone s1)) (\<lambda>s2.
     bind (persist io s2) (\<lambda>s3.
     bind (push A_done) (\<lambda>_.
     ret \<lparr> cr_state = s3, cr_status = es_status s3, cr_blockers = [] \<rparr>)))))"

definition finish_cycle :: "'w epic_io \<Rightarrow> string \<Rightarrow> epic_state \<Rightarrow> ('w, cycle_result) prog" where
  "finish_cycle io now s0 =
     bind (upsert_progress io now (nextWakeSummary s0) [] s0) (\<lambda>s.
     let blockers = epicTerminalBlockers s in
     if blockers \<noteq> [] then
       bind (persist io (setNonTerminalStatus s)) (\<lambda>s'.
       ret \<lparr> cr_state = s', cr_status = es_status s', cr_blockers = blockers \<rparr>)
     else terminal_cycle io now s)"

definition open_cycle :: "'w epic_io \<Rightarrow> string \<Rightarrow> wake_kind \<Rightarrow> epic_state \<Rightarrow> ('w, epic_state) prog" where
  "open_cycle io now wake state =
     bind (persist io (setPhase Reconstructing (beginCycle (recordWake state wake now)))) (\<lambda>s.
     bind (push (A_wake wake)) (\<lambda>_. ret s))"

text \<open>After the merge step; from scheduling on; the whole cycle.\<close>

definition close_cycle :: "'w epic_io \<Rightarrow> string \<Rightarrow> epic_state \<Rightarrow> ('w, cycle_result) prog" where
  "close_cycle io now s6 =
     bind (scheduleReadyWork io now s6) (\<lambda>s7.
     bind (each (cover_uncovered io now) (es_inFlight s7) s7) (finish_cycle io now))"

definition work_cycle :: "'w epic_io \<Rightarrow> string \<Rightarrow> jsval \<Rightarrow> epic_state \<Rightarrow> ('w, cycle_result) prog" where
  "work_cycle io now states s3 =
     bind (scheduleReadyWork io now (setPhase Scheduling s3)) (\<lambda>s4.
     bind (each (cover_one io now) (es_inFlight s4) s4) (\<lambda>s5.
     bind (serialized_merge io states (setPhase Merging s5)) (close_cycle io now)))"

definition poll_children :: "'w epic_io \<Rightarrow> epic_state \<Rightarrow> ('w, epic_state) prog" where
  "poll_children io s = (let s1 = setPhase Polling s in each (poll_child io) (es_inFlight s1) s1)"

definition cycle :: "'w epic_io \<Rightarrow> string \<Rightarrow> wake_kind \<Rightarrow> epic_state \<Rightarrow> ('w, cycle_result) prog" where
  "cycle io now wake state =
     bind (open_cycle io now wake state) (\<lambda>s0.
     bind (adopt_sessions io now s0) (\<lambda>s1.
     bind (poll_children io s1) (\<lambda>s2.
     bind (read_externals io now s2) (\<lambda>(s3, states). work_cycle io now states s3))))"

text \<open>A cycle run from an empty audit trail: the result, the trail and the world it leaves.\<close>

definition reconcileEpic ::
  "'w epic_io \<Rightarrow> string \<Rightarrow> wake_kind \<Rightarrow> epic_state \<Rightarrow> 'w \<Rightarrow>
     (cycle_error + cycle_result \<times> action list) \<times> 'w" where
  "reconcileEpic io now wake state w =
     (case cycle io now wake state \<lparr>cy_world = w, cy_actions = []\<rparr> of
        (Inl e, c) \<Rightarrow> (Inl e, cy_world c)
      | (Inr r, c) \<Rightarrow> (Inr (r, cy_actions c), cy_world c))"

section \<open>What a program that returns guarantees\<close>

definition wlp :: "('w, 'a) prog \<Rightarrow> ('a \<Rightarrow> bool) \<Rightarrow> bool" where
  "wlp m Q \<longleftrightarrow> (\<forall>c. case m c of (Inl _, _) \<Rightarrow> True | (Inr x, _) \<Rightarrow> Q x)"

named_theorems wlp_intros "rules of the weakest liberal precondition"

lemma wlpD: "wlp m Q \<Longrightarrow> m c = (Inr x, c') \<Longrightarrow> Q x"
  unfolding wlp_def by (metis (mono_tags, lifting) old.prod.case old.sum.simps(6))

lemma wlp_ret [wlp_intros]: "Q x \<Longrightarrow> wlp (ret x) Q"
  by (simp add: wlp_def ret_def)

lemma wlp_bind:
  assumes "wlp m P" "\<And>x. P x \<Longrightarrow> wlp (f x) Q"
  shows "wlp (bind m f) Q"
  unfolding wlp_def
proof
  fix c
  show "case bind m f c of (Inl _, _) \<Rightarrow> True | (Inr x, _) \<Rightarrow> Q x"
  proof (cases "m c")
    case (Pair r c')
    show ?thesis
    proof (cases r)
      case (Inl e)
      then show ?thesis by (simp add: bind_def Pair)
    next
      case (Inr x)
      then have "P x" using wlpD[OF assms(1)] Pair by blast
      from assms(2)[OF this] show ?thesis by (simp add: bind_def Pair Inr wlp_def)
    qed
  qed
qed

lemma wlp_any: "(\<And>x. Q x) \<Longrightarrow> wlp m Q"
  by (simp add: wlp_def split: prod.splits sum.splits)

lemma wlp_bind_any: "(\<And>x. wlp (f x) Q) \<Longrightarrow> wlp (bind m f) Q"
  by (rule wlp_bind[of _ "\<lambda>_. True"]) (auto intro: wlp_any)

lemmas wlp_bind_io [wlp_intros] =
  wlp_bind_any[of _ _ "call g" for g] wlp_bind_any[of _ _ "call_obj g" for g]
  wlp_bind_any[of _ _ "push a" for a]

lemma wlp_lift: "(\<And>x. r = Inr x \<Longrightarrow> Q x) \<Longrightarrow> wlp (lift r) Q"
  by (simp add: wlp_def lift_def split: sum.splits)

lemma wlp_bind_lift [wlp_intros]: "(\<And>x. r = Inr x \<Longrightarrow> wlp (f x) Q) \<Longrightarrow> wlp (bind (lift r) f) Q"
  by (rule wlp_bind[of _ "\<lambda>x. r = Inr x"]) (auto intro: wlp_lift)

lemma wlp_persist [wlp_intros]: "Q s \<Longrightarrow> wlp (persist io s) Q"
  by (simp add: persist_def split: option.splits) (blast intro: wlp_ret wlp_bind_io)

lemma wlp_mono: "wlp m P \<Longrightarrow> (\<And>x. P x \<Longrightarrow> Q x) \<Longrightarrow> wlp m Q"
  unfolding wlp_def by (auto split: prod.splits sum.splits)

lemma wlp_each:
  assumes "\<And>x s. x \<in> set xs \<Longrightarrow> I s \<Longrightarrow> wlp (f x s) I" and "I s"
  shows "wlp (each f xs s) I"
  using assms by (induction xs arbitrary: s) (auto intro: wlp_ret wlp_bind)

lemma wlp_if: "(b \<Longrightarrow> wlp m Q) \<Longrightarrow> (\<not> b \<Longrightarrow> wlp n Q) \<Longrightarrow> wlp (if b then m else n) Q"
  by simp

section \<open>The cycle is a run\<close>

definition plain :: "transition \<Rightarrow> bool" where
  "plain t \<longleftrightarrow> t \<noteq> T_done \<and> (\<forall>i v. t \<noteq> T_merge i v)"

lemma plain_simps [simp]:
  "plain (T_launch i l)" "plain (T_adoption i l)" "plain (T_adoption_reconciled i tm)" "plain (T_coverage i cv)"
  "plain (T_watch_failure i tm v fb b)" "plain (T_green i)" "plain (T_demotion i tm)" "plain (T_failure i tm b)"
  "plain (T_wake wk tm)" "plain (T_reconciliation tm b)" "plain T_cycle" "plain (T_progress i tm)"
  "plain (T_cleanup tm)" "plain (T_phase p)" "plain (T_ready ids)" "plain (T_externals ids)"
  "plain (T_pr i pv)" "plain (T_observation i ob)" "plain T_status" "\<not> plain T_done" "\<not> plain (T_merge i b)"
  by (simp_all add: plain_def)

definition works :: "epic_state \<Rightarrow> epic_state \<Rightarrow> bool" where
  "works s s' \<longleftrightarrow> state_ok s' \<and> (\<exists>ts. runs apply_transition s ts s' \<and> list_all plain ts)"

lemma transition_ok: "apply_transition t s = Inr s' \<Longrightarrow> state_ok s \<Longrightarrow> state_ok s'"
  using growth.preserve[of s s t s'] by (simp add: extends_def)

lemma runs_ok: "runs apply_transition s ts s' \<Longrightarrow> state_ok s \<Longrightarrow> state_ok s'"
  by (induction rule: runs.induct) (auto dest: transition_ok)

lemma works_refl: "state_ok s \<Longrightarrow> works s s"
  by (auto simp: works_def intro: runs_Nil exI[of _ "[]"])

lemma works_step:
  assumes "works s a" "apply_transition t a = Inr b" "plain t"
  shows "works s b"
proof -
  obtain ts where "runs apply_transition s ts a" "list_all plain ts" "state_ok a"
    using assms(1) by (auto simp: works_def)
  moreover from this have "runs apply_transition s (ts @ [t]) b"
    using runs_append runs_single[of apply_transition, OF assms(2)] by metis
  ultimately show ?thesis
    unfolding works_def using transition_ok[OF assms(2)] assms(3)
    by (intro conjI exI[of _ "ts @ [t]"]) simp_all
qed

lemma works_trans: "works s a \<Longrightarrow> works a b \<Longrightarrow> works s b"
  unfolding works_def by (metis runs_append list_all_append)

lemma works_normalize [simp]: "works s a \<Longrightarrow> normalize a = a"
  by (simp add: works_def state_ok_def)

text \<open>One introduction rule per transition the cycle takes.\<close>

lemma works_intros:
  assumes "works s a"
  shows "recordLaunch a i l = Inr b \<Longrightarrow> works s b"
    and "recordAdoption a i l = Inr b \<Longrightarrow> works s b"
    and "works s (recordAdoptionReconciled a i v)"
    and "works s (recordWatchCoverage a i cv)"
    and "works s (recordWatchFailure a i r fb tm bl)"
    and "works s (recordGreen a i)"
    and "works s (recordGreenDemotion a i n)"
    and "works s (recordFailure a i r e)"
    and "works s (recordWake a k tm)"
    and "works s (recordReconciliation a tm e)"
    and "works s (beginCycle a)"
    and "works s (recordProgressUpsert a c f)"
    and "works s (recordWatchCleanup a tm)"
    and "works s (setPhase p a)"
    and "works s (setReady ids a)"
    and "works s (clearExternals ids a)"
    and "works s (setPr i pv a)"
    and "works s (setObservation i ob a)"
    and "works s (setNonTerminalStatus a)"
  using works_step[OF assms, of "T_launch i l" b] works_step[OF assms, of "T_adoption i l" b]
    works_step[OF assms, of "T_adoption_reconciled i v"] works_step[OF assms, of "T_coverage i cv"]
    works_step[OF assms, of "T_watch_failure i r fb tm bl"] works_step[OF assms, of "T_green i"]
    works_step[OF assms, of "T_demotion i n"] works_step[OF assms, of "T_failure i r e"]
    works_step[OF assms, of "T_wake k tm"] works_step[OF assms, of "T_reconciliation tm e"]
    works_step[OF assms, of T_cycle] works_step[OF assms, of "T_progress c f"]
    works_step[OF assms, of "T_cleanup tm"] works_step[OF assms, of "T_phase p"]
    works_step[OF assms, of "T_ready ids"] works_step[OF assms, of "T_externals ids"]
    works_step[OF assms, of "T_pr i pv"] works_step[OF assms, of "T_observation i ob"]
    works_step[OF assms, of T_status]
  by simp_all

lemma launch_one_works [wlp_intros]:
  assumes "works s a" shows "wlp (launch_one io now n a) (works s)"
  unfolding launch_one_def by (intro wlp_intros) (rule works_intros(1)[OF assms])

lemma scheduleReadyWork_works [wlp_intros]:
  assumes w: "works s a" shows "wlp (scheduleReadyWork io now a) (works s)"
  unfolding scheduleReadyWork_def Let_def works_normalize[OF w]
  by (rule wlp_bind[OF wlp_each[where I = "works s"]])
    (auto intro!: wlp_intros works_intros(15) w)

lemma ensureDurableCoverage_works [wlp_intros]:
  assumes w: "works s a" shows "wlp (ensureDurableCoverage io now i a) (works s)"
  unfolding ensureDurableCoverage_def Let_def works_normalize[OF w]
  by (intro wlp_if wlp_intros w wlp_bind_any[of _ _ "arm_callbacks io a i r t" for r t]
      wlp_bind_any[of _ _ "arm_subscription io a i r" for r])
    (auto intro!: wlp_intros w wlp_bind_any wlp_if works_intros(4,5)[OF w] split: prod.splits)

lemma cover_works [wlp_intros]:
  assumes w: "works s a"
  shows "wlp (cover_one io now i a) (works s)" "wlp (cover_uncovered io now i a) (works s)"
proof -
  show c: "wlp (cover_one io now i a) (works s)"
    unfolding cover_one_def by (rule wlp_bind[OF ensureDurableCoverage_works[OF w]]) (rule wlp_persist)
  show "wlp (cover_uncovered io now i a) (works s)"
    unfolding cover_uncovered_def using c w by (auto intro: wlp_ret)
qed


lemma adopt_one_works:
  assumes w: "works s (fst a)" shows "wlp (adopt_one live now t a) (\<lambda>b. works s (fst b))"
proof (cases a)
  case (Pair b adopted)
  with w have b: "works s b" by simp
  show ?thesis
  proof (cases "adoptable b (t_id t)")
    case True
    then show ?thesis
      unfolding adopt_one_def Pair
      by (cases "matchSessionForTicket live (t_id t)")
        (auto intro!: wlp_intros intro: b works_intros(2)[OF b])
  next
    case False
    then show ?thesis unfolding adopt_one_def Pair using b by (simp add: wlp_ret)
  qed
qed

lemma adopt_sessions_works:
  assumes w: "works s a" shows "wlp (adopt_sessions io now a) (works s)"
  unfolding adopt_sessions_def
proof (rule wlp_bind_any)
  fix live
  show "wlp (bind (each (adopt_one (rows_of live) now) (es_tickets a) (a, []))
      (\<lambda>(s', adopted). if adopted \<noteq> [] then persist io s' else ret s')) (works s)"
    by (rule wlp_bind[OF wlp_each[where I = "\<lambda>b. works s (fst b)"]])
      (auto intro: adopt_one_works w wlp_ret wlp_persist)
qed

lemma admit_child_works:
  assumes w: "works s a" shows "wlp (admit_child io i snapshot a) (works s)"
  unfolding admit_child_def Let_def
  by (intro wlp_intros wlp_if works_intros(6,7) works_intros(18) w)

lemma poll_child_works:
  assumes w: "works s a" shows "wlp (poll_child io i a) (works s)"
proof -
  have p: "works s (setPr i pv (recordAdoptionReconciled a i v))" for pv v
    by (intro works_intros(17) works_intros(3) w)
  show ?thesis
    unfolding poll_child_def Let_def
    by (intro wlp_if wlp_intros w works_intros(8) admit_child_works p)
qed

lemma read_externals_works:
  assumes w: "works s a" shows "wlp (read_externals io now a) (\<lambda>b. works s (fst b))"
  unfolding read_externals_def Let_def
  by (intro wlp_bind_any wlp_ret) (simp add: works_intros(10,16)[OF works_intros(16)[OF w]] works_intros(10) works_intros(16) w)

lemma upsert_works:
  assumes w: "works s a" shows "wlp (upsert_progress io now nw fin a) (works s)"
  unfolding upsert_progress_def by (intro wlp_intros works_intros(12) w)

text \<open>The merge step takes no merge, or one merge of a queued green whose in-epic blockers are all
  merged.\<close>

definition one_merge :: "epic_state \<Rightarrow> epic_state \<Rightarrow> bool" where
  "one_merge s s' \<longleftrightarrow> works s s' \<or>
     (\<exists>m i. works s m \<and> recordMerge m i True = Inr s' \<and> i \<in> set (es_greens m) \<and>
        set (get_list (inEpicBlockers (epic_graph m)) i) \<subseteq> set (es_merged m))"

lemma nextToMerge_Some:
  assumes "nextToMerge greens g merged = Some i" "graph_wf g"
  shows "i \<in> set greens \<and> set (get_list (inEpicBlockers g) i) \<subseteq> set merged"
proof -
  let ?cand = "filter (mergeable g merged) (map (node_or_bare g) greens)"
  let ?h = "hd (sort_by byPriorityThenOldest ?cand)"
  have ne: "?cand \<noteq> []" and i: "i = nid ?h"
    using assms(1) unfolding nextToMerge_def Let_def by (simp_all split: if_split_asm)
  have "?h \<in> set ?cand"
    using ne by (metis hd_in_set set_sort_by sort_by_eq_Nil)
  then obtain j where j: "?h = node_or_bare g j" "j \<in> set greens" "mergeable g merged (node_or_bare g j)"
    by auto
  then have "i = j" using i nid_node_or_bare[OF assms(2), of j] by metis
  with j nid_node_or_bare[OF assms(2), of j] show ?thesis
    by (auto simp: mergeable_def list_all_iff)
qed

lemma merge_target_works:
  assumes w: "works s a" and i: "i \<in> set (es_greens a)"
    "set (get_list (inEpicBlockers (epic_graph a)) i) \<subseteq> set (es_merged a)"
  shows "wlp (merge_target io i a) (one_merge s)"
proof -
  have demoted: "one_merge s (recordGreenDemotion a i n)" for n
    using works_intros(7)[OF w] by (simp add: one_merge_def)
  have merged: "recordMerge a i True = Inr b \<Longrightarrow> one_merge s b" for b
    using w i unfolding one_merge_def by blast
  show ?thesis
  proof (cases "map_of (es_sessions a) i")
    case None
    then show ?thesis by (simp add: merge_target_def wlp_def)
  next
    case (Some r)
    then show ?thesis
      by (simp only: merge_target_def option.case)
        (intro wlp_intros wlp_if demoted merged)
  qed
qed

lemma serialized_merge_works:
  assumes w: "works s a" shows "wlp (serialized_merge io states a) (one_merge s)"
proof (cases "nextToMerge (es_greens a) (epic_graph a) (es_merged a)")
  case None
  then show ?thesis using w by (simp add: serialized_merge_def Let_def wlp_ret one_merge_def)
next
  case (Some i)
  have "graph_wf (epic_graph a)" by (simp add: epic_graph_def)
  note i = nextToMerge_Some[OF Some this]
  have stay: "one_merge s a" using w by (simp add: one_merge_def)
  show ?thesis
    unfolding serialized_merge_def Let_def Some option.case
    using i by (intro wlp_intros wlp_if stay merge_target_works w) auto
qed

lemma one_merge_ok: "one_merge s s' \<Longrightarrow> state_ok s'"
  unfolding one_merge_def
  by (auto simp: works_def dest: transition_ok[of "T_merge i True" for i, simplified])

text \<open>The last part of the cycle: a non-terminal status, or the DONE transition.\<close>

definition finished :: "epic_state \<Rightarrow> cycle_result \<Rightarrow> bool" where
  "finished s r \<longleftrightarrow> cr_status r = es_status (cr_state r) \<and>
     (if cr_blockers r = []
      then \<exists>m. works s m \<and> transitionToDone m = Inr (cr_state r)
      else works s (cr_state r) \<and> cr_status r \<noteq> DONE \<and>
        epicTerminalBlockers (cr_state r) = cr_blockers r)"

lemma status_keeps_blockers:
  "epicTerminalBlockers (setNonTerminalStatus s) = epicTerminalBlockers s"
proof -
  have f: "es_ready (normalize (s\<lparr>es_status := x\<rparr>)) = es_ready (normalize s)"
    "es_inFlight (normalize (s\<lparr>es_status := x\<rparr>)) = es_inFlight (normalize s)" for x
    by (simp_all add: normalize_def close_ids_def norm_fields_def Let_def)
  show ?thesis
    unfolding setNonTerminalStatus_def blockers_normalize
    by (simp add: epicTerminalBlockers_def guard_blockers_def f unreconciled_ids_def pending_kinds_def
        isTerminalTicket_def)
qed

lemma terminal_cycle_works:
  assumes b: "works s b" shows "wlp (terminal_cycle io now b) (finished s)"
  unfolding terminal_cycle_def
proof (rule wlp_bind_any, rule wlp_bind[OF upsert_works[OF works_intros(13)[OF b]]], rule wlp_bind_lift)
  fix m d assume m: "works s m" "transitionToDone m = Inr d"
  show "wlp (bind (persist io d) (\<lambda>s3. bind (push A_done)
      (\<lambda>_. ret \<lparr>cr_state = s3, cr_status = es_status s3, cr_blockers = []\<rparr>))) (finished s)"
    by (rule wlp_bind[OF wlp_persist[where Q = "\<lambda>s'. s' = d"]], rule refl)
      (use m in \<open>auto intro!: wlp_intros simp: finished_def\<close>)
qed

lemma stop_works:
  assumes b: "works s b" and open_work: "epicTerminalBlockers b \<noteq> []"
  shows "wlp (bind (persist io (setNonTerminalStatus b))
    (\<lambda>s'. ret \<lparr>cr_state = s', cr_status = es_status s', cr_blockers = epicTerminalBlockers b\<rparr>)) (finished s)"
  by (rule wlp_bind[OF wlp_persist[where Q = "\<lambda>s'. s' = setNonTerminalStatus b"]], rule refl, rule wlp_ret)
    (use open_work works_intros(19)[OF b] in
      \<open>simp add: finished_def status_keeps_blockers, simp add: setNonTerminalStatus_def\<close>)

lemma finish_cycle_works:
  assumes w: "works s a" shows "wlp (finish_cycle io now a) (finished s)"
  unfolding finish_cycle_def Let_def
  by (rule wlp_bind[OF upsert_works[OF w]]) (simp add: terminal_cycle_works stop_works)

section \<open>The whole cycle\<close>

lemma works_first:
  "apply_transition t s = Inr s' \<Longrightarrow> plain t \<Longrightarrow> state_ok s' \<Longrightarrow> works s s'"
  unfolding works_def by (intro conjI exI[of _ "[t]"]) simp_all

lemma open_cycle_works: "wlp (open_cycle io now wake s) (works s)"
proof -
  have "works s (recordWake s wake now)"
    by (rule works_first[of "T_wake wake now"]) (simp_all add: recordWake_def Let_def)
  then show ?thesis
    unfolding open_cycle_def
    by (intro wlp_bind[OF wlp_persist[where Q = "works s"]] wlp_intros works_intros(14) works_intros(11))
qed

lemma poll_children_works: "works s a \<Longrightarrow> wlp (poll_children io a) (works s)"
  unfolding poll_children_def Let_def
  by (rule wlp_each) (simp_all add: poll_child_works works_intros(14))

lemma close_cycle_works: "works s a \<Longrightarrow> wlp (close_cycle io now a) (finished s)"
  unfolding close_cycle_def
  by (rule wlp_bind[OF scheduleReadyWork_works], assumption, rule wlp_bind[OF wlp_each[where I = "works s"]])
    (simp_all add: cover_works finish_cycle_works)

lemma close_after_merge:
  assumes "one_merge s a"
  shows "wlp (close_cycle io now a) (\<lambda>r. \<exists>m. one_merge s m \<and> finished m r)"
  by (rule wlp_mono[OF close_cycle_works[OF works_refl[OF one_merge_ok[OF assms]]]])
    (use assms in blast)

lemma work_cycle_works:
  assumes "works s a"
  shows "wlp (work_cycle io now states a) (\<lambda>r. \<exists>m. one_merge s m \<and> finished m r)"
  unfolding work_cycle_def
proof (rule wlp_bind[OF scheduleReadyWork_works[OF works_intros(14)[OF assms]]],
    rule wlp_bind[OF wlp_each[where I = "works s"]])
  fix e assume "works s e"
  from serialized_merge_works[OF works_intros(14)[OF this]]
  show "wlp (bind (serialized_merge io states (setPhase Merging e)) (close_cycle io now))
      (\<lambda>r. \<exists>m. one_merge s m \<and> finished m r)"
    by (rule wlp_bind) (rule close_after_merge)
qed (simp_all add: cover_works)

lemma cycle_works: "wlp (cycle io now wake s) (\<lambda>r. \<exists>m. one_merge s m \<and> finished m r)"
  unfolding cycle_def
  by (rule wlp_bind[OF open_cycle_works], rule wlp_bind[OF adopt_sessions_works], assumption,
      rule wlp_bind[OF poll_children_works], assumption, rule wlp_bind[OF read_externals_works], assumption)
    (auto simp: work_cycle_works)

lemma reconcile_cycle:
  assumes "reconcileEpic io now wake s w = (Inr (r, acts), w')"
  obtains m where "one_merge s m" "finished m r"
proof -
  obtain c where "cycle io now wake s \<lparr>cy_world = w, cy_actions = []\<rparr> = (Inr r, c)"
    using assms by (auto simp: reconcileEpic_def split: prod.splits sum.splits)
  from wlpD[OF cycle_works this] that show ?thesis by blast
qed

lemma one_merge_run:
  assumes "one_merge s m"
  obtains us ms where "runs apply_transition s (us @ ms) m" "list_all plain us" "length ms \<le> 1"
    "set ms \<subseteq> range (\<lambda>i. T_merge i True)"
  using assms unfolding one_merge_def
proof (elim disjE exE conjE)
  assume "works s m"
  then obtain us where "runs apply_transition s us m" "list_all plain us" by (auto simp: works_def)
  then show thesis using that[of us "[]"] by simp
next
  fix a i assume "works s a" and m: "recordMerge a i True = Inr m"
  then obtain us where u: "runs apply_transition s us a" "list_all plain us" by (auto simp: works_def)
  have "runs apply_transition a [T_merge i True] m" using m by (intro runs_single) simp
  from runs_append[OF u(1) this] show thesis using that[of us "[T_merge i True]"] u by simp
qed

lemma finished_is_run:
  assumes "finished m r"
  obtains vs where "runs apply_transition m (vs @ (if cr_blockers r = [] then [T_done] else [])) (cr_state r)"
    "list_all plain vs"
proof (cases "cr_blockers r = []")
  case True
  then obtain a vs where a: "runs apply_transition m vs a" "list_all plain vs" "transitionToDone a = Inr (cr_state r)"
    using assms by (auto simp: finished_def works_def)
  have "runs apply_transition a [T_done] (cr_state r)" using a(3) by (intro runs_single) simp
  from runs_append[OF a(1) this] show thesis using that[of vs] a True by simp
next
  case False
  with assms that show thesis by (auto simp: finished_def works_def)
qed

section \<open>The cycle refines the transition system\<close>

lemma done_outcome:
  assumes ok: "state_ok a" and d: "transitionToDone a = Inr b"
  shows "es_status b = DONE \<and> es_inFlight b = [] \<and> all_settled b"
proof -
  note eq = ok_normalize[OF ok]
  let ?t = "a\<lparr>es_phase := Terminal, es_status := DONE\<rparr>"
  have bl: "epicDoneBlockers a = []" and b: "b = normalize ?t"
    using d by (simp_all add: transitionToDone_Inr eq)
  have idle: "es_inFlight a = []" "all_settled a"
    using bl by (simp_all add: epicDoneBlockers_Nil guard_blockers_Nil open_tickets_Nil all_settled_def eq)
  have nh: "set (es_needsHuman (normalize ?t)) = set (es_needsHuman a)"
    by (rule needsHuman_ok[OF ok]) simp_all
  have tk: "es_tickets (normalize ?t) = es_tickets a"
    by (rule epic_graph_normalize(2)[OF ok]) simp
  have st: "settled_ids (normalize ?t) = settled_ids a"
    using ok_nonblank[OF ok] by (auto simp: settled_ids_def)
  have fl: "es_inFlight (normalize ?t) = []"
    using idle(1) inFlight_normalize[of ?t] by simp
  show ?thesis
    unfolding b all_settled_def nh tk st using idle(2) fl by (simp add: all_settled_def)
qed

lemma finished_outcome:
  assumes "finished m r"
  shows "(cr_blockers r = [] \<longleftrightarrow> cr_status r = DONE) \<and> cr_status r = es_status (cr_state r) \<and>
    (if cr_status r = DONE
     then es_inFlight (cr_state r) = [] \<and>
       t_id ` set (es_tickets (cr_state r)) \<subseteq> set (es_needsHuman (cr_state r)) \<union> settled_ids (cr_state r)
     else epicTerminalBlockers (cr_state r) = cr_blockers r)"
proof (cases "cr_blockers r = []")
  case True
  with assms obtain a where "state_ok a" "transitionToDone a = Inr (cr_state r)"
    and st: "cr_status r = es_status (cr_state r)"
    by (auto simp: finished_def works_def)
  from done_outcome[OF this(1,2)] True st show ?thesis by (simp add: all_settled_def)
next
  case False
  with assms show ?thesis by (auto simp: finished_def)
qed

text \<open>C6:
  Every cycle is a run of the driver's transitions: from the state it is given to the state it returns,
  the cycle takes only recording, launching and failing transitions, at most one of them a merge and that
  one verified, and the DONE transition last and only when it returns DONE. So every invariant of the runs
  holds across cycles, whatever the injected I/O answers.\<close>

theorem reconcileEpic_is_run:
  assumes "reconcileEpic io now wake s w = (Inr (r, acts), w')"
  shows "\<exists>us ms vs. runs apply_transition s
      (us @ ms @ vs @ (if cr_status r = DONE then [T_done] else [])) (cr_state r) \<and>
    list_all plain (us @ vs) \<and> length ms \<le> 1 \<and> set ms \<subseteq> range (\<lambda>i. T_merge i True)"
proof -
  obtain m where m: "one_merge s m" "finished m r" by (rule reconcile_cycle[OF assms])
  obtain us ms where a: "runs apply_transition s (us @ ms) m" "list_all plain us" "length ms \<le> 1"
    "set ms \<subseteq> range (\<lambda>i. T_merge i True)"
    by (rule one_merge_run[OF m(1)])
  obtain vs where b: "runs apply_transition m (vs @ (if cr_blockers r = [] then [T_done] else [])) (cr_state r)"
    "list_all plain vs"
    by (rule finished_is_run[OF m(2)])
  have "runs apply_transition s (us @ ms @ vs @ (if cr_status r = DONE then [T_done] else [])) (cr_state r)"
    using runs_append[OF a(1) b(1)] finished_outcome[OF m(2)] by simp
  with a b show ?thesis by (intro exI[of _ us] exI[of _ ms] exI[of _ vs]) simp
qed

text \<open>The report of a cycle is true: it returns DONE exactly when it names no blocker, and then nothing is in
  flight and every ticket is merged, failed, skipped or needs-human; otherwise the status is not DONE and
  the blockers it returns are those of the state it returns.\<close>

theorem reconcileEpic_report:
  assumes "reconcileEpic io now wake s w = (Inr (r, acts), w')"
  shows "(cr_blockers r = [] \<longleftrightarrow> cr_status r = DONE) \<and> cr_status r = es_status (cr_state r) \<and>
    (if cr_status r = DONE
     then es_inFlight (cr_state r) = [] \<and>
       t_id ` set (es_tickets (cr_state r)) \<subseteq> set (es_needsHuman (cr_state r)) \<union> settled_ids (cr_state r)
     else epicTerminalBlockers (cr_state r) = cr_blockers r)"
  by (rule reconcile_cycle[OF assms]) (rule finished_outcome)

section \<open>Scheduling within the headroom\<close>

lemma flight_again:
  assumes "state_ok s" "es_needsHuman t = es_needsHuman s" "es_tickets t = es_tickets s"
    "distinct (es_inFlight t)" "list_all nonblank (es_inFlight t)"
    "set (es_inFlight t) \<inter> set (es_needsHuman s) = {}"
  shows "es_inFlight (normalize t) = es_inFlight t"
proof -
  have nh: "set (es_needsHuman (normalize t)) = set (es_needsHuman s)"
    by (rule needsHuman_ok[OF assms(1-3)])
  have "es_inFlight (normalize t) = without_ids (uniqueIds (es_inFlight t)) (es_needsHuman (normalize t))"
    by (simp only: normalize_def close_ids_id_lists(3)) (simp add: norm_fields_def)
  also have "\<dots> = es_inFlight t"
    using assms(4-6) nh by (simp add: uniqueIds_fix without_ids_disjoint)
  finally show ?thesis .
qed

lemma ok_flight:
  assumes "state_ok s"
  shows "distinct (es_inFlight s)" "list_all nonblank (es_inFlight s)"
    "set (es_inFlight s) \<inter> set (es_needsHuman s) = {}"
  using ok_nonblank[OF assms] distinct_normalize(2)[of s] assms
  by (auto simp: list_all_iff state_ok_def)

lemma launch_flight:
  assumes ok: "state_ok s" and l: "recordLaunch s i l = Inr s'" and new: "i \<notin> set (es_inFlight s)"
  shows "es_inFlight s' = es_inFlight s @ [i]"
proof -
  note g = recordLaunch_Inr[OF ok_normalize[OF ok] l]
  have add: "add_id (es_inFlight s) i = es_inFlight s @ [i]" using new by (simp add: add_id_def)
  show ?thesis
    unfolding g(5) by (subst flight_again[OF ok]) (use g ok_flight[OF ok] new in \<open>simp_all add: add\<close>)
qed

lemma setReady_flight: "state_ok s \<Longrightarrow> es_inFlight (setReady ids s) = es_inFlight s"
  unfolding setReady_def by (subst flight_again[of s]) (simp_all add: ok_flight)

lemma launch_all:
  assumes ok: "state_ok s" and d: "distinct (es_inFlight s @ map nid ns)"
  shows "wlp (each (launch_one io now) ns s)
    (\<lambda>b. state_ok b \<and> es_inFlight b = es_inFlight s @ map nid ns)"
  using assms
proof (induction ns arbitrary: s)
  case Nil
  then show ?case by (simp add: wlp_ret)
next
  case (Cons n ns)
  let ?P = "\<lambda>b. state_ok b \<and> es_inFlight b = es_inFlight s @ [nid n]"
  have "wlp (launch_one io now n s) ?P"
    unfolding launch_one_def
  proof (intro wlp_intros)
    fix created s' assume l: "recordLaunch s (nid n)
       \<lparr>ln_sessionId = prop_of created ''sessionId'', ln_chatId = prop_of created ''chatId'', ln_at = now,
        ln_prNumber = None, ln_prRepo = [], ln_prUrl = [], ln_adopted = False\<rparr> = Inr s'"
    from recordLaunch_Inr(5)[OF ok_normalize[OF Cons.prems(1)] l] have "state_ok s'" by simp
    moreover from launch_flight[OF Cons.prems(1) l] have "es_inFlight s' = es_inFlight s @ [nid n]"
      using Cons.prems(2) by simp
    ultimately show "?P s'" by blast
  qed
  then show ?case
    unfolding each.simps
  proof (rule wlp_bind)
    fix b assume b: "?P b"
    have "distinct (es_inFlight b @ map nid ns)" using b Cons.prems(2) by simp
    from Cons.IH[OF _ this] b
    show "wlp (each (launch_one io now) ns b) (\<lambda>c. state_ok c \<and> es_inFlight c = es_inFlight s @ map nid (n # ns))"
      by simp
  qed
qed

lemma eligible_ids:
  "i \<in> nid ` set (eligible s) \<Longrightarrow> i \<notin> set (es_needsHuman s) \<and> i \<notin> set (es_inFlight s) \<and>
     set (get_list (inEpicBlockers (epic_graph s)) i) \<subseteq> set (es_merged s)"
  unfolding eligible_def epic_graph_def
  using readyTickets_iff[of i "map node_of (es_tickets s)" "progress_of s"]
  by (auto simp: progress_of_def)

lemma eligible_distinct: "distinct (map nid (eligible s))"
  unfolding eligible_def by (rule distinct_map_filter) (simp add: distinct_readyTickets epic_graph_def)

lemma eligible_setReady:
  assumes "state_ok s" shows "eligible (setReady ids s) = eligible s" "headroom (setReady ids s) = headroom s"
proof -
  have n: "es_merged (normalize s) = es_merged s" "es_failed (normalize s) = es_failed s"
    "es_externallyCleared (normalize s) = es_externallyCleared s" "es_parallel (normalize s) = es_parallel s"
    using assms by (simp_all only: state_ok_def)
  have p: "progress_of (setReady ids s) = progress_of s"
    using n by (simp add: progress_of_def setReady_flight[OF assms]) (simp add: setReady_def)
  have g: "epic_graph (setReady ids s) = epic_graph s"
    unfolding setReady_def by (rule epic_graph_normalize[OF assms]) simp
  have h: "set (es_needsHuman (setReady ids s)) = set (es_needsHuman s)"
    unfolding setReady_def by (rule needsHuman_ok[OF assms]) simp_all
  show "eligible (setReady ids s) = eligible s" by (simp add: eligible_def p g h)
  show "headroom (setReady ids s) = headroom s"
    using n(4) unfolding headroom_def setReady_flight[OF assms]
    by (cases "0 < es_parallel s") (simp_all add: setReady_def)
qed

lemma schedule_exact:
  assumes ok: "state_ok s"
  shows "wlp (scheduleReadyWork io now s)
    (\<lambda>s'. es_inFlight s' = es_inFlight s @ map nid (take (headroom s) (eligible s)))"
proof -
  let ?s1 = "setReady (map nid (eligible s)) s"
  have ok1: "state_ok ?s1" by (simp add: setReady_def)
  let ?ns = "take (headroom s) (eligible s)"
  have sub: "set (map nid ?ns) \<subseteq> nid ` set (eligible s)" by (auto dest: in_set_takeD)
  have "distinct (map nid ?ns)" using eligible_distinct[of s] by (simp add: distinct_take flip: take_map)
  with sub have "distinct (es_inFlight ?s1 @ map nid ?ns)"
    using ok_flight(1)[OF ok] eligible_ids[of _ s] by (auto simp: setReady_flight[OF ok] simp del: set_map)
  from launch_all[OF ok1 this, of io now] show ?thesis
    unfolding scheduleReadyWork_def Let_def ok_normalize[OF ok] eligible_setReady[OF ok]
    by (rule wlp_bind) (auto intro!: wlp_ret simp: setReady_flight ok)
qed

lemma headroom_bound:
  "int (length xs) + int (min (nat (max 0 (p - int (length xs)))) k) \<le> max p (int (length xs))"
  by linarith

text \<open>C15:
  Launching fills exactly the free slots with the highest ranking eligible tickets, in their order: the
  in-flight list grows by the first \<open>headroom\<close> of them, it never exceeds the configured parallelism
  unless adoption already had, and every ticket added was not in flight, does not need a human and has all
  its in-epic blockers merged.\<close>

theorem scheduleReadyWork_launches:
  assumes "scheduleReadyWork io now s c = (Inr s', c')"
  shows "es_inFlight s' = es_inFlight (normalize s) @
      map nid (take (headroom (normalize s)) (eligible (normalize s))) \<and>
    int (length (es_inFlight s')) \<le> max (es_parallel (normalize s)) (int (length (es_inFlight (normalize s)))) \<and>
    nid ` set (eligible (normalize s)) \<subseteq> {i. i \<notin> set (es_needsHuman (normalize s)) \<and>
      i \<notin> set (es_inFlight (normalize s)) \<and>
      set (get_list (inEpicBlockers (epic_graph (normalize s))) i) \<subseteq> set (es_merged (normalize s))}"
proof -
  have "scheduleReadyWork io now s = scheduleReadyWork io now (normalize s)"
    by (simp add: scheduleReadyWork_def)
  with assms have "scheduleReadyWork io now (normalize s) c = (Inr s', c')" by simp
  from wlpD[OF schedule_exact[OF state_ok_normalize] this]
  have fl: "es_inFlight s' = es_inFlight (normalize s) @
      map nid (take (headroom (normalize s)) (eligible (normalize s)))" .
  show ?thesis
  proof (intro conjI)
    show "int (length (es_inFlight s')) \<le> max (es_parallel (normalize s)) (int (length (es_inFlight (normalize s))))"
      using headroom_bound[of "es_inFlight (normalize s)" "es_parallel (normalize s)"
          "length (eligible (normalize s))"]
      unfolding fl headroom_def by (simp add: min.commute)
    show "nid ` set (eligible (normalize s)) \<subseteq> {i. i \<notin> set (es_needsHuman (normalize s)) \<and>
      i \<notin> set (es_inFlight (normalize s)) \<and>
      set (get_list (inEpicBlockers (epic_graph (normalize s))) i) \<subseteq> set (es_merged (normalize s))}"
      using eligible_ids[of _ "normalize s"] by blast
  qed (rule fl)
qed

section \<open>A host whose operations all answer\<close>

definition watch_row :: "string \<Rightarrow> jsval" where
  "watch_row t = JObj [(''id'', JStr (''w-'' @ t)), (''trigger'', JStr t), (''state'', JStr ''active'')]"

definition demo_io :: "unit epic_io" where
  "demo_io = \<lparr>
     io_listSessions = (\<lambda>w. (Inr None, w)),
     io_readSessionSnapshot = (\<lambda>_ _ _ w. (Inr (JObj []), w)),
     io_readExternalBlockers = (\<lambda>_ w. (Inr (JObj []), w)),
     io_createSession = (\<lambda>n w. (Inr (JObj [(''sessionId'', JStr (''s-'' @ nid n)), (''chatId'', JStr (''c-'' @ nid n))]), w)),
     io_armWatches = (\<lambda>_ _ _ _ _ w. (Inr (JObj []), w)),
     io_listWatches = (\<lambda>_ _ _ w. (Inr (Some (map watch_row EPIC_CHILD_PR_TRIGGERS)), w)),
     io_subscribeSessionOutcome = (\<lambda>i _ _ w. (Inr (JObj [(''error'', JStr ''down'')]), w)),
     io_listSessionSubscriptions = (\<lambda>_ w. (Inr (Some []), w)),
     io_removeWatches = (\<lambda>_ _ _ w. (Inr (), w)),
     io_scheduleFallbackWake = (\<lambda>_ _ w. (Inr JNull, w)),
     io_mergeChild = (\<lambda>_ _ w. (Inr JNull, w)),
     io_verifyMerged = (\<lambda>_ _ w. (Inr (JBool True), w)),
     io_moveTicketDone = (\<lambda>_ w. (Inr (JBool True), w)),
     io_upsertProgress = (\<lambda>_ _ w. (Inr (JObj [(''commentId'', JStr ''k1'')]), w)),
     io_save = None \<rparr>"

text \<open>On a host that lists nothing, a run with nothing to do goes straight to the DONE transition.\<close>

definition quiet_open :: "wake_kind \<Rightarrow> epic_state \<Rightarrow> epic_state" where
  "quiet_open wake s = setPhase Scheduling (recordReconciliation (clearExternals []
     (setPhase Polling (setPhase Reconstructing (beginCycle (recordWake s wake ''t''))))) ''t'' True)"

definition quiet_schedule :: "epic_state \<Rightarrow> epic_state" where
  "quiet_schedule s = setReady [] (setReady [] (normalize s))"

definition unscheduled :: "epic_state \<Rightarrow> bool" where
  "unscheduled s \<longleftrightarrow> eligible (normalize s) = [] \<and> eligible (setReady [] (normalize s)) = [] \<and>
     es_inFlight (quiet_schedule s) = []"

definition quiet_close :: "epic_state \<Rightarrow> epic_state" where
  "quiet_close s = recordProgressUpsert s ''k1'' []"

definition quiet_final :: "epic_state \<Rightarrow> epic_state" where
  "quiet_final s = recordProgressUpsert (recordWatchCleanup (quiet_close s) ''t'') ''k1'' ''t''"

lemma adopt_none [simp]: "each (adopt_one [] now) ts p c = (Inr p, c)"
  by (induction ts arbitrary: p c)
    (auto simp: ret_def bind_def adopt_one_def matchSessionForTicket_def split: prod.splits)

lemma quiet_scheduling:
  "unscheduled s \<Longrightarrow> scheduleReadyWork demo_io ''t'' s c = (Inr (quiet_schedule s), c)"
  by (simp add: unscheduled_def scheduleReadyWork_def quiet_schedule_def Let_def bind_def ret_def)

lemma quiet_finish:
  assumes "epicTerminalBlockers (quiet_close s) = []" "es_watches (quiet_close s) = []"
  shows "\<exists>c'. finish_cycle demo_io ''t'' s c =
    (case transitionToDone (quiet_final s) of
       Inl e \<Rightarrow> (Inl (Driver e), c)
     | Inr d \<Rightarrow> (Inr \<lparr>cr_state = d, cr_status = es_status d, cr_blockers = []\<rparr>, c'))"
proof -
  have u: "upsert_progress demo_io ''t'' nw fin b = ret (recordProgressUpsert b ''k1'' fin)" for nw fin b
    by (rule ext) (simp add: upsert_progress_def call_obj_def call_def bind_def ret_def demo_io_def string_or_empty_def)
  have p: "persist demo_io b = ret b" for b by (rule ext) (simp add: persist_def demo_io_def)
  show ?thesis
    using assms
    by (simp add: finish_cycle_def terminal_cycle_def u p bind_def ret_def lift_def push_def Let_def quiet_close_def
        quiet_final_def split: sum.splits)
qed

lemma same_world: "c\<lparr>cy_world := (), cy_actions := xs\<rparr> = c\<lparr>cy_actions := xs\<rparr>" "c\<lparr>cy_world := ()\<rparr> = c"
  by (cases c; simp)+

lemma quiet_start:
  "open_cycle demo_io ''t'' wake s c = (Inr (setPhase Reconstructing (beginCycle (recordWake s wake ''t''))),
     c\<lparr>cy_actions := cy_actions c @ [A_wake wake]\<rparr>)"
  "adopt_sessions demo_io ''t'' a c = (Inr a, c)"
  "es_inFlight (setPhase Polling a) = [] \<Longrightarrow> poll_children demo_io a c = (Inr (setPhase Polling a), c)"
  "\<exists>n. read_externals demo_io ''t'' a c =
     (Inr (recordReconciliation (clearExternals [] a) ''t'' True, JObj []), c\<lparr>cy_actions := cy_actions c @ [A_externals n]\<rparr>)"
  by (auto simp: open_cycle_def adopt_sessions_def poll_children_def read_externals_def persist_def
      call_def call_obj_def bind_def ret_def push_def demo_io_def rows_of_def cleared_in_def js_entries_def
      Let_def same_world)

lemma quiet_work:
  assumes "unscheduled (setPhase Scheduling b)"
    and "es_greens (setPhase Merging (quiet_schedule (setPhase Scheduling b))) = []"
    and "unscheduled (setPhase Merging (quiet_schedule (setPhase Scheduling b)))"
  shows "work_cycle demo_io ''t'' (JObj []) b c =
    finish_cycle demo_io ''t'' (quiet_schedule (setPhase Merging (quiet_schedule (setPhase Scheduling b)))) c"
proof -
  have n: "nextToMerge [] g ms = None" for g ms by (simp add: nextToMerge_def)
  have f: "es_inFlight (quiet_schedule (setPhase Scheduling b)) = []"
    "es_inFlight (quiet_schedule (setPhase Merging (quiet_schedule (setPhase Scheduling b)))) = []"
    using assms by (simp_all add: unscheduled_def)
  show ?thesis
    by (simp add: work_cycle_def close_cycle_def serialized_merge_def bind_def ret_def quiet_scheduling assms f n Let_def)
qed

lemma quiet_cycle:
  assumes "es_inFlight (setPhase Polling (setPhase Reconstructing (beginCycle (recordWake s wake ''t'')))) = []"
    and "unscheduled (quiet_open wake s)"
    and "es_greens (setPhase Merging (quiet_schedule (quiet_open wake s))) = []"
    and "unscheduled (setPhase Merging (quiet_schedule (quiet_open wake s)))"
    and "epicTerminalBlockers (quiet_close (quiet_schedule (setPhase Merging (quiet_schedule (quiet_open wake s))))) = []"
    and "es_watches (quiet_close (quiet_schedule (setPhase Merging (quiet_schedule (quiet_open wake s))))) = []"
  shows "\<exists>acts. reconcileEpic demo_io ''t'' wake s () =
    (case transitionToDone (quiet_final (quiet_schedule (setPhase Merging (quiet_schedule (quiet_open wake s))))) of
       Inl e \<Rightarrow> (Inl (Driver e), ())
     | Inr d \<Rightarrow> (Inr (\<lparr>cr_state = d, cr_status = es_status d, cr_blockers = []\<rparr>, acts), ()))"
proof -
  let ?s1 = "setPhase Reconstructing (beginCycle (recordWake s wake ''t''))"
  let ?c0 = "\<lparr>cy_world = (), cy_actions = []\<rparr>" and ?c1 = "\<lparr>cy_world = (), cy_actions = [A_wake wake]\<rparr>"
  obtain n where r: "read_externals demo_io ''t'' (setPhase Polling ?s1) ?c1 =
     (Inr (recordReconciliation (clearExternals [] (setPhase Polling ?s1)) ''t'' True, JObj []),
      ?c1\<lparr>cy_actions := cy_actions ?c1 @ [A_externals n]\<rparr>)"
    using quiet_start(4) by blast
  let ?c2 = "?c1\<lparr>cy_actions := cy_actions ?c1 @ [A_externals n]\<rparr>"
  have "cycle demo_io ''t'' wake s ?c0 =
      work_cycle demo_io ''t'' (JObj []) (recordReconciliation (clearExternals [] (setPhase Polling ?s1)) ''t'' True) ?c2"
    by (simp add: cycle_def bind_def quiet_start(1,2) quiet_start(3)[OF assms(1)] r)
  also have "\<dots> = finish_cycle demo_io ''t'' (quiet_schedule (setPhase Merging (quiet_schedule (quiet_open wake s)))) ?c2"
    unfolding quiet_open_def by (rule quiet_work) (use assms(2-4) in \<open>simp_all only: quiet_open_def\<close>)
  finally have c: "cycle demo_io ''t'' wake s ?c0 =
      finish_cycle demo_io ''t'' (quiet_schedule (setPhase Merging (quiet_schedule (quiet_open wake s)))) ?c2" .
  show ?thesis
    using quiet_finish[OF assms(5,6), of ?c2]
    by (elim exE) (simp add: reconcileEpic_def c split: sum.splits)
qed

definition empty_run :: epic_state where
  "empty_run = createEpicState (JObj [(''runId'', JStr ''r1''), (''epicId'', JStr ''E-1'')])"

definition parked_run :: epic_state where
  "parked_run = createEpicState (JObj [(''runId'', JStr ''r1''), (''epicId'', JStr ''E-1''),
     (''tickets'', JArr [JObj [(''id'', JStr ''A''), (''blockedBy'', JArr [JStr ''X''])]])])"

lemma empty_run_cycle:
  "\<exists>d acts. reconcileEpic demo_io ''t'' W_initial empty_run () =
     (Inr (\<lparr>cr_state = d, cr_status = es_status d, cr_blockers = []\<rparr>, acts), ())"
proof -
  have "\<exists>acts. reconcileEpic demo_io ''t'' W_initial empty_run () =
    (case transitionToDone (quiet_final (quiet_schedule (setPhase Merging (quiet_schedule (quiet_open W_initial empty_run))))) of
       Inl e \<Rightarrow> (Inl (Driver e), ())
     | Inr d \<Rightarrow> (Inr (\<lparr>cr_state = d, cr_status = es_status d, cr_blockers = []\<rparr>, acts), ()))"
    by (rule quiet_cycle) code_simp+
  moreover have "\<not> isl (transitionToDone (quiet_final (quiet_schedule (setPhase Merging
      (quiet_schedule (quiet_open W_initial empty_run))))))"
    by code_simp
  ultimately show ?thesis
    by (cases "transitionToDone (quiet_final (quiet_schedule (setPhase Merging
      (quiet_schedule (quiet_open W_initial empty_run)))))") auto
qed

text \<open>A ticket parked on an external blocker that nobody clears is not among the seven conditions of the
  terminal guard: with nothing else left to do, the cycle takes the terminal branch and then throws at the
  DONE transition instead of returning a non-terminal status.\<close>

theorem parked_ticket_throws:
  "reconcileEpic demo_io ''t'' W_initial parked_run () =
     (Inl (Driver (Not_done [Not_terminal [''A'']])), ())"
proof -
  have "\<exists>acts. reconcileEpic demo_io ''t'' W_initial parked_run () =
    (case transitionToDone (quiet_final (quiet_schedule (setPhase Merging (quiet_schedule (quiet_open W_initial parked_run))))) of
       Inl e \<Rightarrow> (Inl (Driver e), ())
     | Inr d \<Rightarrow> (Inr (\<lparr>cr_state = d, cr_status = es_status d, cr_blockers = []\<rparr>, acts), ()))"
    by (rule quiet_cycle) code_simp+
  moreover have "transitionToDone (quiet_final (quiet_schedule (setPhase Merging
      (quiet_schedule (quiet_open W_initial parked_run))))) = Inl (Not_done [Not_terminal [''A'']])"
    by code_simp
  ultimately show ?thesis by simp
qed

theorem reconcileEpic_is_run_witness:
  "\<exists>r acts us ms vs. reconcileEpic demo_io ''t'' W_initial empty_run () = (Inr (r, acts), ()) \<and>
     runs apply_transition empty_run (us @ ms @ vs @ (if cr_status r = DONE then [T_done] else [])) (cr_state r) \<and>
     list_all plain (us @ vs) \<and> length ms \<le> 1"
  using empty_run_cycle reconcileEpic_is_run[of demo_io "''t''" W_initial empty_run "()"] by blast

theorem reconcileEpic_report_witness:
  "\<exists>r acts. reconcileEpic demo_io ''t'' W_initial empty_run () = (Inr (r, acts), ()) \<and>
     cr_status r = DONE \<and> es_inFlight (cr_state r) = []"
proof -
  obtain d acts where e: "reconcileEpic demo_io ''t'' W_initial empty_run () =
      (Inr (\<lparr>cr_state = d, cr_status = es_status d, cr_blockers = []\<rparr>, acts), ())"
    using empty_run_cycle by blast
  from reconcileEpic_report[OF e] e show ?thesis by auto
qed

definition demo_cyc :: "unit cyc" where
  "demo_cyc = \<lparr>cy_world = (), cy_actions = []\<rparr>"

lemma schedule_one:
  assumes "eligible (normalize s) = [n]" "0 < headroom (setReady [nid n] (normalize s))"
    "\<not> isl (recordLaunch (setReady [nid n] (normalize s)) (nid n)
       \<lparr> ln_sessionId = JStr (''s-'' @ nid n), ln_chatId = JStr (''c-'' @ nid n), ln_at = ''t'',
         ln_prNumber = None, ln_prRepo = [], ln_prUrl = [], ln_adopted = False \<rparr>)"
  shows "\<exists>s' c'. scheduleReadyWork demo_io ''t'' s c = (Inr s', c')"
proof -
  obtain k where k: "headroom (setReady [nid n] (normalize s)) = Suc k" using assms(2) by (cases "headroom (setReady [nid n] (normalize s))") auto
  show ?thesis
    using assms(3)
    by (simp add: scheduleReadyWork_def Let_def assms(1) k launch_one_def bind_def ret_def lift_def push_def
        call_obj_def call_def persist_def demo_io_def isl_def split: sum.splits)
qed

theorem scheduleReadyWork_launches_witness:
  "\<exists>s' c'. scheduleReadyWork demo_io ''t'' (after [T_cycle]) demo_cyc = (Inr s', c') \<and>
     es_inFlight s' = [''A'']"
proof -
  have e: "map nid (eligible (normalize (after [T_cycle]))) = [''A'']"
    "headroom (normalize (after [T_cycle])) = 1" "es_inFlight (normalize (after [T_cycle])) = []"
    by code_simp+
  then obtain n where n: "eligible (normalize (after [T_cycle])) = [n]" "nid n = ''A''" by auto
  have h: "0 < headroom (setReady [nid n] (normalize (after [T_cycle])))"
    "\<not> isl (recordLaunch (setReady [nid n] (normalize (after [T_cycle]))) (nid n)
       \<lparr> ln_sessionId = JStr (''s-'' @ nid n), ln_chatId = JStr (''c-'' @ nid n), ln_at = ''t'',
         ln_prNumber = None, ln_prRepo = [], ln_prUrl = [], ln_adopted = False \<rparr>)"
    unfolding n by code_simp+
  obtain s' c' where "scheduleReadyWork demo_io ''t'' (after [T_cycle]) demo_cyc = (Inr s', c')"
    using schedule_one[OF n(1) h] by blast
  with scheduleReadyWork_launches[OF this] show ?thesis by (auto simp: e n)
qed

end
