(* ===== verification/EpicHealth.thy ===== *)
theory EpicHealth
  imports EpicCycle
begin

text \<open>
  What a cycle of \<open>epic-driver.mjs\<close> can throw. \<open>safe\<close> is total correctness up to the expected errors:
  the refused DONE transition and, unless every session the host names carries its ids (\<open>ow\<close>), the refusal
  to record such a session. \<open>healthy\<close> is the contract of the injected I/O under which the cycle of
  \<open>EpicCycle\<close> meets it (no call rejects), and \<open>workable\<close> the states it can start from.
\<close>

section \<open>Programs that fail only as expected\<close>

definition expected_error :: "bool \<Rightarrow> cycle_error \<Rightarrow> bool" where
  "expected_error ow e \<longleftrightarrow> (\<exists>bs. e = Driver (Not_done bs)) \<or>
     \<not> ow \<and> (e = Driver Launch_without_session \<or> e = Driver Launch_without_chat)"

text \<open>\<open>m\<close> returns a result with \<open>Q\<close> or fails with an expected error, from every world.\<close>

definition safe :: "bool \<Rightarrow> ('w, 'a) prog \<Rightarrow> ('a \<Rightarrow> bool) \<Rightarrow> bool" where
  "safe ow m Q \<longleftrightarrow> (\<forall>c. case m c of
     (Inl e, _) \<Rightarrow> expected_error ow e | (Inr x, _) \<Rightarrow> Q x)"

lemma safe_iff:
  "safe ow m Q \<longleftrightarrow> (\<forall>c x c'. m c = (Inr x, c') \<longrightarrow> Q x) \<and>
     (\<forall>c e c'. m c = (Inl e, c') \<longrightarrow> expected_error ow e)"
proof (intro iffI conjI allI impI)
  fix c x c' assume "safe ow m Q" "m c = (Inr x, c')"
  then show "Q x" unfolding safe_def by (auto dest: spec[of _ c])
next
  fix c e c' assume "safe ow m Q" "m c = (Inl e, c')"
  then show "expected_error ow e" unfolding safe_def by (auto dest: spec[of _ c])
next
  assume *: "(\<forall>c x c'. m c = (Inr x, c') \<longrightarrow> Q x) \<and>
     (\<forall>c e c'. m c = (Inl e, c') \<longrightarrow> expected_error ow e)"
  show "safe ow m Q" unfolding safe_def
  proof
    fix c
    obtain r c' where "m c = (r, c')" by (cases "m c")
    with * show "case m c of (Inl e, _) \<Rightarrow> expected_error ow e | (Inr x, _) \<Rightarrow> Q x"
      by (cases r) (simp; blast)+
  qed
qed

lemma safe_cases: "safe ow m Q \<Longrightarrow> (\<exists>x c'. m c = (Inr x, c') \<and> Q x) \<or> (\<exists>e c'. m c = (Inl e, c') \<and> expected_error ow e)"
  unfolding safe_def by (drule spec[of _ c]) (auto split: prod.splits sum.splits)

lemma safe_ret: "Q x \<Longrightarrow> safe ow (ret x) Q"
  by (simp add: safe_def ret_def)

lemma safe_bind:
  assumes "safe ow m P" "\<And>x. P x \<Longrightarrow> safe ow (f x) Q"
  shows "safe ow (bind m f) Q"
  unfolding safe_def
proof
  fix c
  from safe_cases[OF assms(1), of c]
  show "case bind m f c of (Inl e, _) \<Rightarrow> expected_error ow e | (Inr x, _) \<Rightarrow> Q x"
  proof (elim disjE exE conjE)
    fix x c' assume "m c = (Inr x, c')" "P x"
    with assms(2)[of x] show ?thesis by (simp add: bind_def safe_def)
  next
    fix e c' assume "m c = (Inl e, c')" "expected_error ow e"
    then show ?thesis by (simp add: bind_def)
  qed
qed

lemma safe_lift: "r = Inr x \<Longrightarrow> Q x \<Longrightarrow> safe ow (lift r) Q"
  by (simp add: safe_def lift_def)

lemma safe_push: "Q () \<Longrightarrow> safe ow (push a) Q"
  by (simp add: safe_def push_def)

lemma safe_each:
  assumes "\<And>x s. x \<in> set xs \<Longrightarrow> I s \<Longrightarrow> safe ow (f x s) I" and "I s"
  shows "safe ow (each f xs s) I"
  using assms by (induction xs arbitrary: s) (auto intro: safe_ret safe_bind)

lemma safe_conj: "safe ow m P \<Longrightarrow> wlp m Q \<Longrightarrow> safe ow m (\<lambda>x. P x \<and> Q x)"
  unfolding safe_iff by (blast dest: wlpD)

lemma safe_mono: "safe ow m P \<Longrightarrow> (\<And>x. P x \<Longrightarrow> Q x) \<Longrightarrow> safe ow m Q"
  unfolding safe_iff by blast

section \<open>A healthy host\<close>

text \<open>An operation that never rejects and answers with \<open>P\<close>.\<close>

definition answers :: "('w, 'a) op \<Rightarrow> ('a \<Rightarrow> bool) \<Rightarrow> bool" where
  "answers f P \<longleftrightarrow> (\<forall>w. case f w of (Inl _, _) \<Rightarrow> False | (Inr x, _) \<Rightarrow> P x)"

definition owned_row :: "jsval \<Rightarrow> bool" where
  "owned_row v \<longleftrightarrow> is_nonempty_string (prop_of v ''id'') \<and>
     is_nonempty_string (coalesce (coalesce (prop_of v ''agent_session_id'') (prop_of v ''chatId'')) (JStr []))"

definition created_ok :: "jsval \<Rightarrow> bool" where
  "created_ok v \<longleftrightarrow> is_nonempty_string (prop_of v ''sessionId'') \<and> is_nonempty_string (prop_of v ''chatId'')"

text \<open>Every listed session carries its ids (the chat's under either name), and a launch returns both ids.\<close>

definition carries_ids :: "'w epic_io \<Rightarrow> bool" where
  "carries_ids io \<longleftrightarrow>
     answers (io_listSessions io) (\<lambda>r. list_all owned_row (rows_of r)) \<and>
     (\<forall>n. answers (io_createSession io n) created_ok)"

text \<open>No call rejects, whatever it answers.\<close>

definition never_rejects :: "'w epic_io \<Rightarrow> bool" where
  "never_rejects io \<longleftrightarrow>
     answers (io_listSessions io) (\<lambda>_. True) \<and>
     (\<forall>i x y. answers (io_readSessionSnapshot io i x y) (\<lambda>_. True)) \<and>
     (\<forall>ids. answers (io_readExternalBlockers io ids) (\<lambda>_. True)) \<and>
     (\<forall>n. answers (io_createSession io n) (\<lambda>_. True)) \<and>
     (\<forall>i n r ts m. answers (io_armWatches io i n r ts m) (\<lambda>_. True)) \<and>
     (\<forall>i n r. answers (io_listWatches io i n r) (\<lambda>_. True)) \<and>
     (\<forall>i x m. answers (io_subscribeSessionOutcome io i x m) (\<lambda>_. True)) \<and>
     (\<forall>x. answers (io_listSessionSubscriptions io x) (\<lambda>_. True)) \<and>
     (\<forall>i cs b. answers (io_removeWatches io i cs b) (\<lambda>_. True)) \<and>
     (\<forall>i r. answers (io_scheduleFallbackWake io i r) (\<lambda>_. True)) \<and>
     (\<forall>i x. answers (io_mergeChild io i x) (\<lambda>_. True)) \<and>
     (\<forall>i x. answers (io_verifyMerged io i x) (\<lambda>_. True)) \<and>
     (\<forall>i. answers (io_moveTicketDone io i) (\<lambda>_. True)) \<and>
     (\<forall>s p. answers (io_upsertProgress io s p) (\<lambda>_. True)) \<and>
     (case io_save io of None \<Rightarrow> True | Some f \<Rightarrow> \<forall>s. answers (f s) (\<lambda>_. True))"

definition healthy :: "bool \<Rightarrow> 'w epic_io \<Rightarrow> bool" where
  "healthy ow io \<longleftrightarrow> never_rejects io \<and> (ow \<longrightarrow> carries_ids io)"

lemma answers_call: "answers f P \<Longrightarrow> \<exists>x c'. call f c = (Inr x, c') \<and> P x"
  unfolding answers_def call_def
  by (drule spec[of _ "cy_world c"]) (auto split: prod.splits sum.splits)

lemma safe_call: "answers f P \<Longrightarrow> (\<And>x. P x \<Longrightarrow> Q x) \<Longrightarrow> safe ow (call f) Q"
  unfolding safe_iff using answers_call[of f P] by (metis prod.inject sum.inject(2) sum.simps(4))

lemma safe_bind_call: "answers f P \<Longrightarrow> (\<And>x. P x \<Longrightarrow> safe ow (g x) Q) \<Longrightarrow> safe ow (bind (call f) g) Q"
  by (rule safe_bind[OF safe_call[where Q = P]]) auto

lemma safe_bind_obj:
  assumes "answers f P" "\<And>x. P x \<Longrightarrow> safe ow (g (coalesce x (JObj []))) Q"
  shows "safe ow (bind (call_obj f) g) Q"
  unfolding call_obj_def
  by (rule safe_bind[where P = "\<lambda>y. \<exists>x. y = coalesce x (JObj []) \<and> P x"],
      rule safe_bind_call[OF assms(1)]) (auto intro: safe_ret assms(2))

lemma safe_persist: "healthy ow io \<Longrightarrow> Q s \<Longrightarrow> safe ow (persist io s) Q"
  unfolding persist_def healthy_def never_rejects_def
  by (cases "io_save io")
    (auto intro: safe_ret intro!: safe_bind_call[where P = "\<lambda>_. True"])

lemma answers_weak:
  assumes "answers f P" "\<And>x. P x \<Longrightarrow> Q x"
  shows "answers f Q"
  unfolding answers_def
proof
  fix w
  show "case f w of (Inl _, _) \<Rightarrow> False | (Inr x, _) \<Rightarrow> Q x"
    using assms(1)[unfolded answers_def, rule_format, of w] assms(2) by (auto split: prod.splits sum.splits)
qed

lemma answers_conj: "answers f P \<Longrightarrow> ow \<longrightarrow> answers f Q \<Longrightarrow> answers f (\<lambda>x. ow \<longrightarrow> Q x)"
  by (cases ow) (auto elim: answers_weak)

lemma created_ok_coalesce: "created_ok v \<Longrightarrow> created_ok (coalesce v (JObj []))"
  by (cases v) (simp_all add: created_ok_def)

text \<open>The calls of a healthy host, inside a program.\<close>

lemma healthy_calls:
  assumes h: "healthy ow io"
  shows "(\<And>r. ow \<longrightarrow> list_all owned_row (rows_of r) \<Longrightarrow> safe ow (f1 r) Q1) \<Longrightarrow> safe ow (bind (call (io_listSessions io)) f1) Q1"
    and "(\<And>v. safe ow (f2 v) Q2) \<Longrightarrow> safe ow (bind (call_obj (io_readSessionSnapshot io i x y)) f2) Q2"
    and "(\<And>v. safe ow (f3 v) Q3) \<Longrightarrow> safe ow (bind (call_obj (io_readExternalBlockers io ids)) f3) Q3"
    and "(\<And>v. ow \<longrightarrow> created_ok v \<Longrightarrow> safe ow (f4 v) Q4) \<Longrightarrow> safe ow (bind (call_obj (io_createSession io n)) f4) Q4"
    and "(\<And>v. safe ow (f5 v) Q5) \<Longrightarrow> safe ow (bind (call_obj (io_armWatches io i pn pr ts m)) f5) Q5"
    and "(\<And>v. safe ow (f6 v) Q6) \<Longrightarrow> safe ow (bind (call (io_listWatches io i pn pr)) f6) Q6"
    and "(\<And>v. safe ow (f7 v) Q7) \<Longrightarrow> safe ow (bind (call_obj (io_subscribeSessionOutcome io i x m)) f7) Q7"
    and "(\<And>v. safe ow (f8 v) Q8) \<Longrightarrow> safe ow (bind (call (io_listSessionSubscriptions io x)) f8) Q8"
    and "(\<And>v. safe ow (f9 v) Q9) \<Longrightarrow> safe ow (bind (call (io_removeWatches io i cs b)) f9) Q9"
    and "(\<And>v. safe ow (f10 v) Q10) \<Longrightarrow> safe ow (bind (call (io_scheduleFallbackWake io i r)) f10) Q10"
    and "(\<And>v. safe ow (f11 v) Q11) \<Longrightarrow> safe ow (bind (call_obj (io_mergeChild io i x)) f11) Q11"
    and "(\<And>v. safe ow (f12 v) Q12) \<Longrightarrow> safe ow (bind (call (io_verifyMerged io i x)) f12) Q12"
    and "(\<And>v. safe ow (f13 v) Q13) \<Longrightarrow> safe ow (bind (call (io_moveTicketDone io i)) f13) Q13"
    and "(\<And>v. safe ow (f14 v) Q14) \<Longrightarrow> safe ow (bind (call_obj (io_upsertProgress io s p)) f14) Q14"
proof -
  note ans = conjunct1[OF h[unfolded healthy_def], unfolded never_rejects_def]
  have listed: "answers (io_listSessions io) (\<lambda>r. ow \<longrightarrow> list_all owned_row (rows_of r))"
    and created: "answers (io_createSession io n) (\<lambda>v. ow \<longrightarrow> created_ok v)"
    using h by (auto simp: healthy_def carries_ids_def never_rejects_def intro!: answers_conj)
  note c = safe_bind_call[where P = "\<lambda>_. True"] safe_bind_obj[where P = "\<lambda>_. True"]
  show "(\<And>r. ow \<longrightarrow> list_all owned_row (rows_of r) \<Longrightarrow> safe ow (f1 r) Q1) \<Longrightarrow> safe ow (bind (call (io_listSessions io)) f1) Q1"
    by (rule safe_bind_call[OF listed])
  show "(\<And>v. ow \<longrightarrow> created_ok v \<Longrightarrow> safe ow (f4 v) Q4) \<Longrightarrow> safe ow (bind (call_obj (io_createSession io n)) f4) Q4"
    by (rule safe_bind_obj[OF created]) (blast intro: created_ok_coalesce)
  show "(\<And>v. safe ow (f2 v) Q2) \<Longrightarrow> safe ow (bind (call_obj (io_readSessionSnapshot io i x y)) f2) Q2"
    "(\<And>v. safe ow (f3 v) Q3) \<Longrightarrow> safe ow (bind (call_obj (io_readExternalBlockers io ids)) f3) Q3"
    "(\<And>v. safe ow (f5 v) Q5) \<Longrightarrow> safe ow (bind (call_obj (io_armWatches io i pn pr ts m)) f5) Q5"
    "(\<And>v. safe ow (f6 v) Q6) \<Longrightarrow> safe ow (bind (call (io_listWatches io i pn pr)) f6) Q6"
    "(\<And>v. safe ow (f7 v) Q7) \<Longrightarrow> safe ow (bind (call_obj (io_subscribeSessionOutcome io i x m)) f7) Q7"
    "(\<And>v. safe ow (f8 v) Q8) \<Longrightarrow> safe ow (bind (call (io_listSessionSubscriptions io x)) f8) Q8"
    "(\<And>v. safe ow (f9 v) Q9) \<Longrightarrow> safe ow (bind (call (io_removeWatches io i cs b)) f9) Q9"
    "(\<And>v. safe ow (f10 v) Q10) \<Longrightarrow> safe ow (bind (call (io_scheduleFallbackWake io i r)) f10) Q10"
    "(\<And>v. safe ow (f11 v) Q11) \<Longrightarrow> safe ow (bind (call_obj (io_mergeChild io i x)) f11) Q11"
    "(\<And>v. safe ow (f12 v) Q12) \<Longrightarrow> safe ow (bind (call (io_verifyMerged io i x)) f12) Q12"
    "(\<And>v. safe ow (f13 v) Q13) \<Longrightarrow> safe ow (bind (call (io_moveTicketDone io i)) f13) Q13"
    "(\<And>v. safe ow (f14 v) Q14) \<Longrightarrow> safe ow (bind (call_obj (io_upsertProgress io s p)) f14) Q14"
    using ans by (elim conjE; intro c; simp)+
qed

section \<open>States a cycle can work on\<close>

definition workable :: "epic_state \<Rightarrow> bool" where
  "workable s \<longleftrightarrow> state_ok s \<and> nonblank (es_epicId s) \<and> list_all nonblank (map t_id (es_tickets s)) \<and>
     set (es_greens s) \<subseteq> tracked s"

lemma greens_step:
  assumes ok: "state_ok s" and step: "apply_transition t s = Inr s'"
  shows "set (es_greens s') \<subseteq> set (es_greens s) \<union> {i. t = T_green i}"
proof -
  note eq = ok_normalize[OF ok]
  show ?thesis
  proof (cases t)
    case (T_launch i l)
    with step have "recordLaunch s i l = Inr s'" by simp
    from recordLaunch_Inr(5)[OF eq this] show ?thesis by auto
  next
    case (T_adoption i l)
    with step have "recordLaunch s i (l\<lparr>ln_adopted := True\<rparr>) = Inr s'" by (simp add: recordAdoption_def)
    from recordLaunch_Inr(5)[OF eq this] show ?thesis by auto
  next
    case (T_merge i v)
    with step show ?thesis by (auto simp: recordMerge_def eq Let_def split: if_split_asm)
  next
    case T_done
    with step show ?thesis by (auto simp: transitionToDone_Inr eq)
  next
    case (T_adoption_reconciled i v)
    with step show ?thesis
      by (auto simp: recordAdoptionReconciled_def eq Let_def split: option.splits)
  qed (insert step, auto simp: recordWatchCoverage_def recordWatchFailure_def recordGreen_def
      recordGreenDemotion_def recordFailure_def recordWake_def recordReconciliation_def beginCycle_def
      recordProgressUpsert_def recordWatchCleanup_def setPhase_def setReady_def clearExternals_def
      setPr_def setObservation_def setNonTerminalStatus_def eq Let_def)
qed

lemma epicId_step:
  assumes ok: "state_ok s" and step: "apply_transition t s = Inr s'" and nb: "nonblank (es_epicId s)"
  shows "es_epicId s' = es_epicId s"
proof -
  note eq = ok_normalize[OF ok]
  have k: "keep_nonblank (es_epicId s) = es_epicId s" using nb by (simp add: keep_nonblank_def)
  have u: "es_epicId (update_session i f u) = es_epicId u" for i f u
    by (simp add: update_session_def split: option.splits)
  show ?thesis
  proof (cases t)
    case (T_launch i l)
    with step have "recordLaunch s i l = Inr s'" by simp
    from recordLaunch_Inr(5)[OF eq this] show ?thesis by (simp add: k)
  next
    case (T_adoption i l)
    with step have "recordLaunch s i (l\<lparr>ln_adopted := True\<rparr>) = Inr s'" by (simp add: recordAdoption_def)
    from recordLaunch_Inr(5)[OF eq this] show ?thesis by (simp add: k)
  next
    case (T_merge i v)
    with step k show ?thesis by (auto simp: recordMerge_def eq Let_def split: if_split_asm)
  next
    case T_done
    with step k show ?thesis by (auto simp: transitionToDone_Inr eq)
  next
    case (T_adoption_reconciled i v)
    with step k show ?thesis
      by (auto simp: recordAdoptionReconciled_def eq Let_def u split: option.splits)
  qed (insert step, auto simp: recordWatchCoverage_def recordWatchFailure_def recordGreen_def
      recordGreenDemotion_def recordFailure_def recordWake_def recordReconciliation_def beginCycle_def
      recordProgressUpsert_def recordWatchCleanup_def setPhase_def setReady_def clearExternals_def
      setPr_def setObservation_def setNonTerminalStatus_def eq Let_def k u)
qed

lemma workable_step:
  assumes w: "workable s" and step: "apply_transition t s = Inr s'" and g: "{i. t = T_green i} \<subseteq> tracked s"
  shows "workable s'"
proof -
  have ok: "state_ok s" using w by (simp add: workable_def)
  have "extends s s" using ok by (simp add: extends_def)
  from growth.preserve[OF this step] have e: "es_tickets s' = es_tickets s" "tracked s \<subseteq> tracked s'" "state_ok s'"
    by (simp_all add: extends_def)
  have "nonblank (es_epicId s)" using w by (simp add: workable_def)
  with epicId_step[OF ok step] have i: "nonblank (es_epicId s')" by simp
  have "set (es_greens s') \<subseteq> tracked s'"
    using greens_step[OF ok step] w g e(2) by (auto simp: workable_def)
  with w e i show ?thesis by (simp add: workable_def)
qed

text \<open>A workable state reached from \<open>s0\<close> without changing its tickets or its needs-human set.\<close>

definition good :: "epic_state \<Rightarrow> epic_state \<Rightarrow> bool" where
  "good s0 s \<longleftrightarrow> workable s \<and> extends s0 s"

lemma good_ok [simp]: "good s0 s \<Longrightarrow> normalize s = s"
  by (simp add: good_def workable_def state_ok_def)

lemma good_step:
  "good s0 a \<Longrightarrow> apply_transition t a = Inr b \<Longrightarrow> {i. t = T_green i} \<subseteq> tracked a \<Longrightarrow> good s0 b"
  unfolding good_def using workable_step growth.preserve by blast

lemma good_self: "workable s \<Longrightarrow> good s s"
  by (simp add: good_def workable_def extends_def)

lemma good_intros:
  assumes "good s a"
  shows "recordLaunch a i l = Inr b \<Longrightarrow> good s b"
    and "recordAdoption a i l = Inr b \<Longrightarrow> good s b"
    and "good s (recordAdoptionReconciled a i v)"
    and "good s (recordWatchCoverage a i cv)"
    and "good s (recordWatchFailure a i r fb tm bl)"
    and "i \<in> tracked a \<Longrightarrow> good s (recordGreen a i)"
    and "good s (recordGreenDemotion a i n)"
    and "good s (recordFailure a i r e)"
    and "good s (recordWake a k tm)"
    and "good s (recordReconciliation a tm e)"
    and "good s (beginCycle a)"
    and "good s (recordProgressUpsert a c f)"
    and "good s (recordWatchCleanup a tm)"
    and "good s (setPhase p a)"
    and "good s (setReady ids a)"
    and "good s (clearExternals ids a)"
    and "good s (setPr i pv a)"
    and "good s (setObservation i ob a)"
    and "good s (setNonTerminalStatus a)"
    and "recordMerge a i True = Inr b \<Longrightarrow> good s b"
  using good_step[OF assms, of "T_launch i l" b] good_step[OF assms, of "T_adoption i l" b]
    good_step[OF assms, of "T_adoption_reconciled i v"] good_step[OF assms, of "T_coverage i cv"]
    good_step[OF assms, of "T_watch_failure i r fb tm bl"] good_step[OF assms, of "T_green i"]
    good_step[OF assms, of "T_demotion i n"] good_step[OF assms, of "T_failure i r e"]
    good_step[OF assms, of "T_wake k tm"] good_step[OF assms, of "T_reconciliation tm e"]
    good_step[OF assms, of T_cycle] good_step[OF assms, of "T_progress c f"]
    good_step[OF assms, of "T_cleanup tm"] good_step[OF assms, of "T_phase p"]
    good_step[OF assms, of "T_ready ids"] good_step[OF assms, of "T_externals ids"]
    good_step[OF assms, of "T_pr i pv"] good_step[OF assms, of "T_observation i ob"]
    good_step[OF assms, of T_status] good_step[OF assms, of "T_merge i True" b]
  by simp_all

lemma recordLaunch_ok:
  assumes "normalize s = s" "nonblank i" "is_nonempty_string (ln_sessionId l)"
    "is_nonempty_string (ln_chatId l)" "i \<notin> set (es_needsHuman s)"
  shows "\<exists>b. recordLaunch s i l = Inr b"
  using assms by (simp add: recordLaunch_def Let_def)

lemma good_needsHuman: "good s a \<Longrightarrow> set (es_needsHuman a) = set (es_needsHuman s)"
  by (simp add: good_def extends_def)

lemma good_tickets: "good s a \<Longrightarrow> es_tickets a = es_tickets s"
  by (simp add: good_def extends_def)

lemma good_ids: "good s a \<Longrightarrow> t \<in> set (es_tickets a) \<Longrightarrow> nonblank (t_id t)"
  by (simp add: good_def workable_def list_all_iff)

lemma safe_lift_launch:
  assumes "good s a" "nonblank i" "ow \<longrightarrow> is_nonempty_string (ln_sessionId l)" "ow \<longrightarrow> is_nonempty_string (ln_chatId l)"
    "i \<notin> set (es_needsHuman s)"
  shows "safe ow (lift (recordLaunch a i l)) (good s)"
proof -
  note r = recordLaunch_def[of a i l, unfolded good_ok[OF assms(1)] Let_def]
  show ?thesis
  proof (cases "is_nonempty_string (ln_sessionId l) \<and> is_nonempty_string (ln_chatId l)")
    case True
    then obtain b where "recordLaunch a i l = Inr b"
      using recordLaunch_ok[OF good_ok[OF assms(1)] assms(2)] assms(5) good_needsHuman[OF assms(1)] by auto
    then show ?thesis by (auto intro: safe_lift good_intros(1)[OF assms(1)])
  next
    case False
    then show ?thesis using assms(2-4) by (auto simp: safe_def lift_def r expected_error_def)
  qed
qed

lemma launch_one_safe:
  assumes h: "healthy ow io" and g: "good s a" and n: "nonblank (nid n)" "nid n \<notin> set (es_needsHuman s)"
  shows "safe ow (launch_one io now n a) (good s)"
  unfolding launch_one_def
proof (rule healthy_calls(4)[OF h])
  fix v assume "ow \<longrightarrow> created_ok v"
  then have "safe ow (lift (recordLaunch a (nid n)
      \<lparr>ln_sessionId = prop_of v ''sessionId'', ln_chatId = prop_of v ''chatId'', ln_at = now,
       ln_prNumber = None, ln_prRepo = [], ln_prUrl = [], ln_adopted = False\<rparr>)) (good s)"
    by (intro safe_lift_launch[OF g n(1) _ _ n(2)]) (simp_all add: created_ok_def)
  then show "safe ow (bind (lift (recordLaunch a (nid n)
      \<lparr>ln_sessionId = prop_of v ''sessionId'', ln_chatId = prop_of v ''chatId'', ln_at = now,
       ln_prNumber = None, ln_prRepo = [], ln_prUrl = [], ln_adopted = False\<rparr>))
      (\<lambda>s'. bind (push (A_launch (nid n))) (\<lambda>_. persist io s'))) (good s)"
    by (rule safe_bind) (rule safe_bind[OF safe_push], rule TrueI, rule safe_persist[OF h])
qed

lemma eligible_nonblank:
  assumes "good s a" "n \<in> set (eligible a)"
  shows "nonblank (nid n) \<and> nid n \<notin> set (es_needsHuman s)"
proof -
  have "nid n \<in> nid ` set (readyTickets (buildGraph (map node_of (es_tickets a))) (progress_of a))"
    using assms(2) by (auto simp: eligible_def epic_graph_def)
  then have "nid n \<in> nid ` node_of ` set (es_tickets a)"
    using readyTickets_iff[of "nid n" "map node_of (es_tickets a)" "progress_of a"] by simp
  then obtain t where "t \<in> set (es_tickets a)" "nid n = t_id t" by (auto simp: node_of_def)
  with assms show ?thesis
    using good_ids[OF assms(1)] good_needsHuman[OF assms(1)] by (auto simp: eligible_def)
qed

lemma scheduleReadyWork_safe:
  assumes h: "healthy ow io" and g: "good s a" shows "safe ow (scheduleReadyWork io now a) (good s)"
  unfolding scheduleReadyWork_def Let_def good_ok[OF g]
  by (rule safe_bind[OF safe_each[where I = "good s"]])
    (use eligible_nonblank[OF g] in \<open>auto intro!: safe_ret good_intros(15) launch_one_safe[OF h] g
       dest!: in_set_takeD\<close>)

lemma prompt_ok:
  "nonblank e \<Longrightarrow> \<exists>m. buildContinuationPrompt e ''callback'' r = Inr m"
  "nonblank e \<Longrightarrow> \<exists>m. buildContinuationPrompt e ''subscription'' r = Inr m"
  by (simp_all add: buildContinuationPrompt_def EPIC_WAKE_KINDS_def)

lemma safe_bind_prompt:
  assumes "good s a" "kind = ''callback'' \<or> kind = ''subscription''" "\<And>m. safe ow (f m) Q"
  shows "safe ow (bind (lift (buildContinuationPrompt (es_epicId a) kind r)) f) Q"
proof -
  have "nonblank (es_epicId a)" using assms(1) by (simp add: good_def workable_def)
  then obtain m where "buildContinuationPrompt (es_epicId a) kind r = Inr m"
    using prompt_ok assms(2) by metis
  with assms(3) show ?thesis by (intro safe_bind[OF safe_lift]) auto
qed

lemma safe_push_bind: "safe ow m Q \<Longrightarrow> safe ow (bind (push a) (\<lambda>_. m)) Q"
  by (rule safe_bind[OF safe_push]) auto

lemma arm_safe:
  assumes h: "healthy ow io" and g: "good s a"
  shows "safe ow (arm_callbacks io a i r ts) (\<lambda>_. True)" "safe ow (arm_subscription io a i r) (\<lambda>_. True)"
  unfolding arm_callbacks_def arm_subscription_def Let_def
  by (auto intro!: safe_ret safe_bind_prompt[OF g] healthy_calls(5-8)[OF h] safe_push_bind
      split: prod.splits)

lemma ensureDurableCoverage_safe:
  assumes h: "healthy ow io" and g: "good s a" shows "safe ow (ensureDurableCoverage io now i a) (good s)"
proof -
  note parts = safe_bind[OF arm_safe(1)[OF h g]] safe_bind[OF arm_safe(2)[OF h g]]
  show ?thesis
    unfolding ensureDurableCoverage_def Let_def good_ok[OF g]
    by (auto intro!: safe_ret g parts healthy_calls(6,10)[OF h] safe_push_bind good_intros(4,5)[OF g]
        split: prod.splits)
qed

lemma cover_safe:
  assumes h: "healthy ow io" and g: "good s a"
  shows "safe ow (cover_one io now i a) (good s)" "safe ow (cover_uncovered io now i a) (good s)"
proof -
  show c: "safe ow (cover_one io now i a) (good s)"
    unfolding cover_one_def by (rule safe_bind[OF ensureDurableCoverage_safe[OF h g]]) (rule safe_persist[OF h])
  show "safe ow (cover_uncovered io now i a) (good s)"
    unfolding cover_uncovered_def using c g by (auto intro: safe_ret)
qed

lemma match_mem: "matchSessionForTicket rows i = Some m \<Longrightarrow> m \<in> set rows"
  unfolding matchSessionForTicket_def
  by (auto simp: find_Some_iff split: option.splits)

lemma adopt_one_safe:
  assumes rows: "ow \<longrightarrow> list_all owned_row rows" and t: "t \<in> set (es_tickets s)" and g: "good s (fst a)"
  shows "safe ow (adopt_one rows now t a) (\<lambda>b. good s (fst b))"
proof (cases a)
  case (Pair b adopted)
  with g have b: "good s b" by simp
  show ?thesis
  proof (cases "adoptable b (t_id t) \<and> matchSessionForTicket rows (t_id t) \<noteq> None")
    case True
    then obtain m where m: "matchSessionForTicket rows (t_id t) = Some m" by auto
    have own: "ow \<longrightarrow> owned_row m" using match_mem[OF m] rows by (simp add: list_all_iff)
    have nb: "nonblank (t_id t)" using t good_ids[OF b] good_tickets[OF b] by simp
    have nh: "t_id t \<notin> set (es_needsHuman s)" using True good_needsHuman[OF b] by (simp add: adoptable_def)
    have "safe ow (lift (recordAdoption b (t_id t)
        \<lparr>ln_sessionId = prop_of m ''id'',
         ln_chatId = coalesce (coalesce (prop_of m ''agent_session_id'') (prop_of m ''chatId'')) (JStr []),
         ln_at = now, ln_prNumber = None, ln_prRepo = [], ln_prUrl = [], ln_adopted = True\<rparr>)) (good s)"
      unfolding recordAdoption_def by (rule safe_lift_launch[OF b nb _ _ nh]) (use own in \<open>simp_all add: owned_row_def\<close>)
    then show ?thesis
      using True unfolding adopt_one_def Pair
      by (auto simp: m intro!: safe_bind[where P = "good s"] safe_push_bind safe_ret)
  next
    case False
    then show ?thesis unfolding adopt_one_def Pair using b by (auto simp: safe_ret split: option.splits)
  qed
qed

lemma adopt_sessions_safe:
  assumes h: "healthy ow io" and g: "good s a" shows "safe ow (adopt_sessions io now a) (good s)"
  unfolding adopt_sessions_def
proof (rule healthy_calls(1)[OF h])
  fix r assume r: "ow \<longrightarrow> list_all owned_row (rows_of r)"
  show "safe ow (bind (each (adopt_one (rows_of r) now) (es_tickets a) (a, []))
      (\<lambda>(s', adopted). if adopted \<noteq> [] then persist io s' else ret s')) (good s)"
    by (rule safe_bind[OF safe_each[where I = "\<lambda>b. good s (fst b)"]])
      (use good_tickets[OF g] in \<open>auto intro: adopt_one_safe[OF r] g safe_ret safe_persist[OF h]\<close>)
qed

lemma tracked_writes [simp]:
  "tracked (setPr i pv a) = tracked a" "tracked (setObservation i ob a) = tracked a"
  by (simp_all add: setPr_def setObservation_def)

lemma tracked_reconciled [simp]: "tracked (recordAdoptionReconciled a i v) = tracked a"
  by (simp add: recordAdoptionReconciled_def Let_def split: option.splits)

lemma session_tracked: "sr_sessionId (session_of a i) \<noteq> [] \<Longrightarrow> i \<in> tracked a"
  unfolding session_of_def tracked_def
  by (cases "map_of (es_sessions a) i") (auto simp: empty_row_def dest!: map_of_SomeD intro: rev_image_eqI)

lemma poll_child_safe:
  assumes h: "healthy ow io" and g: "good s a" shows "safe ow (poll_child io i a) (good s)"
proof -
  have p: "good s (setPr i pv (recordAdoptionReconciled a i v))" for pv v
    by (intro good_intros(17) good_intros(3) g)
  have "safe ow (admit_child io i snapshot (setPr i pv (recordAdoptionReconciled a i v))) (good s)"
    if "sr_sessionId (session_of a i) \<noteq> []" for snapshot pv v
    unfolding admit_child_def Let_def
    using session_tracked[OF that] p
    by (auto intro!: safe_push_bind safe_persist[OF h] good_intros(6,7) good_intros(18))
  with g p show ?thesis
    unfolding poll_child_def Let_def
    by (auto intro!: safe_ret healthy_calls(2)[OF h] safe_push_bind safe_persist[OF h] good_intros(8))
qed

lemma read_externals_safe:
  assumes h: "healthy ow io" and g: "good s a" shows "safe ow (read_externals io now a) (\<lambda>b. good s (fst b))"
proof -
  have "safe ow (bind (push (A_externals n)) (\<lambda>_. ret (recordReconciliation (clearExternals (cleared_in st) a) now True, st)))
      (\<lambda>b. good s (fst b))" for n st
    by (intro safe_push_bind safe_ret) (simp add: good_intros(10) good_intros(16) g)
  moreover have "safe ow (if external_ids a \<noteq> [] then call_obj (io_readExternalBlockers io (external_ids a)) else ret (JObj []))
      (\<lambda>_. True)"
    using h by (auto simp: healthy_def never_rejects_def call_obj_def intro!: safe_ret safe_bind_call[where P = "\<lambda>_. True"])
  ultimately show ?thesis
    unfolding read_externals_def Let_def
    by (intro safe_bind[where P = "\<lambda>_. True" and m = "if external_ids a \<noteq> [] then _ else _"]) simp_all
qed

lemma serialized_merge_safe:
  assumes h: "healthy ow io" and g: "good s a" shows "safe ow (serialized_merge io states a) (good s)"
proof -
  have "safe ow (merge_target io i a) (good s)" if i: "i \<in> set (es_greens a)" for i
  proof -
    have "i \<in> tracked a" using i g by (auto simp: good_def workable_def)
    then obtain r where r: "map_of (es_sessions a) i = Some r"
      unfolding tracked_def by (metis image_iff map_of_eq_None_iff not_None_eq)
    obtain b where b: "recordMerge a i True = Inr b" by (simp add: recordMerge_def Let_def)
    have "safe ow (lift (recordMerge a i True)) (good s)"
      by (rule safe_lift[OF b]) (rule good_intros(20)[OF g b])
    then show ?thesis
      unfolding merge_target_def r option.case
      by (auto intro!: healthy_calls(11-13)[OF h] safe_push_bind safe_persist[OF h] good_intros(7)[OF g]
          safe_bind[where P = "good s"])
  qed
  then show ?thesis
    unfolding serialized_merge_def Let_def
    using nextToMerge_Some[of "es_greens a" "epic_graph a" "es_merged a"] g
    by (auto simp: epic_graph_def intro!: safe_ret safe_push_bind split: option.splits)
qed

lemma upsert_safe:
  assumes h: "healthy ow io" and g: "good s a" shows "safe ow (upsert_progress io now nw fin a) (good s)"
  unfolding upsert_progress_def by (intro healthy_calls(14)[OF h] safe_ret good_intros(12) g)

lemma remove_watch_safe: "healthy ow io \<Longrightarrow> safe ow (remove_watch io s w u) (\<lambda>_. True)"
  unfolding remove_watch_def
  by (cases w) (auto intro!: safe_push healthy_calls(9))

lemma safe_done:
  assumes "good s a" shows "safe ow (lift (transitionToDone a)) (good s)"
  using good_step[OF assms, of T_done]
  by (cases "transitionToDone a") (auto simp: safe_def lift_def expected_error_def transitionToDone_def split: if_splits)

lemma terminal_cycle_safe:
  assumes h: "healthy ow io" and b: "good s b"
  shows "safe ow (terminal_cycle io now b) (\<lambda>r. good s (cr_state r))"
proof -
  have tail: "safe ow (bind (persist io d) (\<lambda>s3. bind (push A_done)
      (\<lambda>_. ret \<lparr>cr_state = s3, cr_status = es_status s3, cr_blockers = []\<rparr>))) (\<lambda>r. good s (cr_state r))"
    if "good s d" for d
    using that
    by (intro safe_bind[where P = "good s"]) (auto intro!: safe_push_bind safe_ret intro: safe_persist[OF h])
  have "safe ow (bind (upsert_progress io now [] now (recordWatchCleanup b now))
      (\<lambda>s1. bind (lift (transitionToDone s1)) (\<lambda>s2. bind (persist io s2) (\<lambda>s3. bind (push A_done)
        (\<lambda>_. ret \<lparr>cr_state = s3, cr_status = es_status s3, cr_blockers = []\<rparr>)))))
      (\<lambda>r. good s (cr_state r))"
    by (rule safe_bind[OF upsert_safe[OF h good_intros(13)[OF b]]], rule safe_bind[OF safe_done], assumption,
        rule tail)
  then show ?thesis
    unfolding terminal_cycle_def
    by (intro safe_bind[OF safe_each[where I = "\<lambda>_. True"]]) (auto intro: remove_watch_safe[OF h])
qed

lemma finish_cycle_safe:
  assumes h: "healthy ow io" and g: "good s a"
  shows "safe ow (finish_cycle io now a) (\<lambda>r. good s (cr_state r))"
proof -
  have stop: "safe ow (bind (persist io (setNonTerminalStatus b))
      (\<lambda>s'. ret \<lparr>cr_state = s', cr_status = es_status s', cr_blockers = bs\<rparr>)) (\<lambda>r. good s (cr_state r))"
    if "good s b" for b bs
    using good_intros(19)[OF that]
    by (intro safe_bind[where P = "good s"]) (auto intro!: safe_ret intro: safe_persist[OF h])
  show ?thesis
    unfolding finish_cycle_def Let_def
    by (rule safe_bind[OF upsert_safe[OF h g]]) (simp add: stop terminal_cycle_safe[OF h])
qed

section \<open>The cycle on a healthy host\<close>

lemma open_cycle_safe:
  assumes h: "healthy ow io" and w: "workable s" shows "safe ow (open_cycle io now wake s) (good s)"
proof -
  have "good s (setPhase Reconstructing (beginCycle (recordWake s wake now)))"
    by (intro good_intros(14) good_intros(11) good_intros(9) good_self w)
  then show ?thesis
    unfolding open_cycle_def
    by (intro safe_bind[where P = "good s"]) (auto intro: safe_persist[OF h] intro!: safe_push_bind safe_ret)
qed

lemma poll_children_safe: "healthy ow io \<Longrightarrow> good s a \<Longrightarrow> safe ow (poll_children io a) (good s)"
  unfolding poll_children_def Let_def
  by (rule safe_each) (simp_all add: poll_child_safe good_intros(14))

lemma close_cycle_safe:
  "healthy ow io \<Longrightarrow> good s a \<Longrightarrow> safe ow (close_cycle io now a) (\<lambda>r. good s (cr_state r))"
  unfolding close_cycle_def
  by (rule safe_bind[OF scheduleReadyWork_safe], assumption+, rule safe_bind[OF safe_each[where I = "good s"]])
    (simp_all add: cover_safe finish_cycle_safe)

lemma work_cycle_safe:
  assumes h: "healthy ow io" and g: "good s a"
  shows "safe ow (work_cycle io now states a) (\<lambda>r. good s (cr_state r))"
  unfolding work_cycle_def
  by (rule safe_bind[OF scheduleReadyWork_safe[OF h good_intros(14)[OF g]]],
      rule safe_bind[OF safe_each[where I = "good s"]])
    (auto intro: cover_safe[OF h] safe_bind[OF serialized_merge_safe[OF h]] close_cycle_safe[OF h] good_intros(14))

lemma cycle_safe:
  assumes h: "healthy ow io" and w: "workable s"
  shows "safe ow (cycle io now wake s) (\<lambda>r. good s (cr_state r))"
  unfolding cycle_def
  by (rule safe_bind[OF open_cycle_safe[OF h w]], rule safe_bind[OF adopt_sessions_safe[OF h]], assumption,
      rule safe_bind[OF poll_children_safe[OF h]], assumption, rule safe_bind[OF read_externals_safe[OF h]],
      assumption)
    (auto simp: work_cycle_safe[OF h])

text \<open>C36:
  Whatever the host answers, no cycle breaks. If no injected call rejects, a cycle that starts from a
  workable state (a normalized one with an epic id, no blank ticket id and a session for every queued
  green) returns a workable state with the same tickets, or stops at the DONE transition naming what is
  still open; or it stops because a session it matched or launched came without its session or chat id,
  which no host that carries the ids provokes. Every other exception of the driver is impossible.\<close>

theorem reconcileEpic_returns:
  assumes "never_rejects io" and "workable s"
  shows "(\<exists>r acts w'. reconcileEpic io now wake s w = (Inr (r, acts), w') \<and> workable (cr_state r) \<and>
      es_tickets (cr_state r) = es_tickets s) \<or>
    (\<exists>bs w'. reconcileEpic io now wake s w = (Inl (Driver (Not_done bs)), w')) \<or>
    \<not> carries_ids io \<and>
    (\<exists>w'. reconcileEpic io now wake s w = (Inl (Driver Launch_without_session), w') \<or>
       reconcileEpic io now wake s w = (Inl (Driver Launch_without_chat), w'))"
proof -
  have "healthy (carries_ids io) io" using assms(1) by (simp add: healthy_def)
  from safe_cases[OF cycle_safe[OF this assms(2), of now wake], of "\<lparr>cy_world = w, cy_actions = []\<rparr>"]
  show ?thesis by (auto simp: reconcileEpic_def good_def extends_def expected_error_def)
qed

lemma demo_healthy: "never_rejects demo_io" "carries_ids demo_io"
  by (simp_all add: never_rejects_def carries_ids_def answers_def demo_io_def rows_of_def created_ok_def trim_head is_ws_def)

lemma demo_workable: "workable (after [T_cycle])"
  unfolding workable_def by (intro conjI; code_simp)

lemma empty_workable: "workable empty_run"
  unfolding workable_def
  by (intro conjI; (simp add: empty_run_def createEpicState_ok)?) code_simp+

theorem reconcileEpic_returns_witness:
  "((\<exists>r acts. reconcileEpic demo_io ''t'' W_initial (after [T_cycle]) () = (Inr (r, acts), ()) \<and> workable (cr_state r) \<and>
       map t_id (es_tickets (cr_state r)) = map t_id (es_tickets (after [T_cycle]))) \<or>
    (\<exists>bs. reconcileEpic demo_io ''t'' W_initial (after [T_cycle]) () = (Inl (Driver (Not_done bs)), ()))) \<and>
   es_tickets (after [T_cycle]) \<noteq> [] \<and>
   (\<exists>r acts. reconcileEpic demo_io ''t'' W_initial empty_run () = (Inr (r, acts), ()) \<and> workable (cr_state r))"
proof (intro conjI)
  show "(\<exists>r acts. reconcileEpic demo_io ''t'' W_initial (after [T_cycle]) () = (Inr (r, acts), ()) \<and> workable (cr_state r) \<and>
       map t_id (es_tickets (cr_state r)) = map t_id (es_tickets (after [T_cycle]))) \<or>
    (\<exists>bs. reconcileEpic demo_io ''t'' W_initial (after [T_cycle]) () = (Inl (Driver (Not_done bs)), ()))"
    using reconcileEpic_returns[OF demo_healthy(1) demo_workable, of "''t''" W_initial "()"] demo_healthy(2) by auto
  show "es_tickets (after [T_cycle]) \<noteq> []" by code_simp
  show "\<exists>r acts. reconcileEpic demo_io ''t'' W_initial empty_run () = (Inr (r, acts), ()) \<and> workable (cr_state r)"
    using reconcileEpic_returns[OF demo_healthy(1) empty_workable, of "''t''" W_initial "()"] empty_run_cycle by auto
qed

end
