(* ===== verification/RankWork.thy ===== *)
theory RankWork
  imports JsBase "HOL-Library.Multiset"
begin

text \<open>
  \<open>rank-work.mjs\<close>: the build order of planned candidates from tracker facts. A node is the tracker's
  value as it comes; the two bounded breadth-first walks (dependent projects, blocked tickets) are
  worklist functions. The lemmas show that ranking permutes the candidates into comparator order,
  that the rank's tier and deadline are the least of their declared sources, and what the walks
  reach.
\<close>

section \<open>Facts of a node\<close>

definition RANK_WALK_LIMIT :: nat where "RANK_WALK_LIMIT = 10"

definition CLOSED_STATE_TYPES :: "string list" where
  "CLOSED_STATE_TYPES = [''completed'', ''canceled'', ''duplicate'']"

definition NONE :: int where "NONE = 5"

definition urgency :: "jsval \<Rightarrow> int" where
  "urgency priority =
     (case priority of JNum (Fin n) \<Rightarrow> (if 1 \<le> n \<and> n \<le> 4 then n else NONE) | _ \<Rightarrow> NONE)"

text \<open>\<open>/^\d{4}-\d{2}-\d{2}/\<close>.\<close>

definition date_prefix :: "string \<Rightarrow> bool" where
  "date_prefix s \<longleftrightarrow> length s \<ge> 10 \<and> list_all is_digit (take 4 s) \<and> s ! 4 = CHR ''-'' \<and>
     list_all is_digit (take 2 (drop 5 s)) \<and> s ! 7 = CHR ''-'' \<and> list_all is_digit (take 2 (drop 8 s))"

definition isDate :: "jsval \<Rightarrow> bool" where
  "isDate v = (case v of JStr s \<Rightarrow> date_prefix s | _ \<Rightarrow> False)"

definition day :: "jsval \<Rightarrow> string" where "day v = take 10 (string_or_empty v)"

text \<open>\<open>isDate(v) ? day(v) : null\<close>.\<close>

definition dated_day :: "jsval \<Rightarrow> string option" where
  "dated_day v = (if isDate v then Some (day v) else None)"

definition closed_type :: "jsval \<Rightarrow> bool" where
  "closed_type v = (case v of JStr s \<Rightarrow> s \<in> set CLOSED_STATE_TYPES | _ \<Rightarrow> False)"

definition isOpen :: "jsval \<Rightarrow> bool" where
  "isOpen issue \<longleftrightarrow> \<not> closed_type (prop_of (prop_of issue ''state'') ''type'')"

definition isOpenProject :: "jsval \<Rightarrow> bool" where
  "isOpenProject project \<longleftrightarrow> \<not> closed_type (prop_of (prop_of project ''status'') ''type'')"

definition ascending :: "jsval \<Rightarrow> jsval \<Rightarrow> int" where
  "ascending a b =
     (if nullish a then (if nullish b then 0 else 1)
      else if nullish b then - 1
      else if js_less a b then - 1
      else if js_less b a then 1 else 0)"

type_synonym tier_fact = "jsval \<times> string"
type_synonym deadline_fact = "string option \<times> string"

definition moreUrgent :: "tier_fact \<Rightarrow> tier_fact \<Rightarrow> tier_fact" where
  "moreUrgent best nxt = (if urgency (fst nxt) < urgency (fst best) then nxt else best)"

definition earlier :: "deadline_fact \<Rightarrow> deadline_fact \<Rightarrow> deadline_fact" where
  "earlier best nxt =
     (case fst nxt of
        None \<Rightarrow> best
      | Some d \<Rightarrow> (case fst best of None \<Rightarrow> nxt | Some b \<Rightarrow> if d < b then nxt else best))"

section \<open>The walks\<close>

text \<open>The parent chain: at most ten ancestors, cut where an identifier repeats.\<close>

fun ancestor_chain :: "nat \<Rightarrow> jsval list \<Rightarrow> jsval \<Rightarrow> jsval list" where
  "ancestor_chain 0 seen at = []"
| "ancestor_chain (Suc n) seen at =
     (if \<not> truthy at then []
      else (let ident = prop_of at ''identifier'' in
            if \<not> nullish ident \<and> ident \<in> set seen then []
            else at # ancestor_chain n (ident # seen) (prop_of at ''parent'')))"

definition ancestors :: "jsval \<Rightarrow> jsval list" where
  "ancestors issue = ancestor_chain RANK_WALK_LIMIT [prop_of issue ''identifier''] (prop_of issue ''parent'')"

type_synonym index = "(jsval \<times> jsval) list"

definition index_or :: "index \<Rightarrow> jsval \<Rightarrow> jsval \<Rightarrow> jsval" where
  "index_or idx k d = (case map_of idx k of Some v \<Rightarrow> coalesce v d | None \<Rightarrow> d)"

definition relation_nodes :: "jsval \<Rightarrow> jsval list" where
  "relation_nodes v = array_or_empty (coalesce (prop_of (prop_of v ''relations'') ''nodes'') (JArr []))"

text \<open>
  Both walks are one worklist loop: \<open>queue.shift()\<close>, skip at the depth limit, otherwise expand the
  entry and push what it found one level deeper. The multiset of the depths left decreases.
\<close>

definition depths_left :: "('a \<times> nat) list \<Rightarrow> nat multiset" where
  "depths_left queue = mset (map (\<lambda>(_, depth). RANK_WALK_LIMIT - depth) queue)"

lemma depths_left_Cons: "depths_left ((n, d) # queue) = add_mset (RANK_WALK_LIMIT - d) (depths_left queue)"
  by (simp add: depths_left_def)

lemma depths_left_append: "depths_left (xs @ ys) = depths_left xs + depths_left ys"
  by (simp add: depths_left_def)

lemma depths_left_level: "k \<in># depths_left (map (\<lambda>n. (n, d)) xs) \<Longrightarrow> k = RANK_WALK_LIMIT - d"
  by (auto simp: depths_left_def)

function walk :: "('s \<Rightarrow> 'n \<Rightarrow> 's \<times> 'n list) \<Rightarrow> 's \<Rightarrow> ('n \<times> nat) list \<Rightarrow> 's" where
  "walk expand st [] = st"
| "walk expand st ((at, depth) # queue) =
     (if depth \<ge> RANK_WALK_LIMIT then walk expand st queue
      else (case expand st at of (st', found) \<Rightarrow>
              walk expand st' (queue @ map (\<lambda>n. (n, depth + 1)) found)))"
  by pat_completeness auto

termination
proof (relation "inv_image (mult less_than) (\<lambda>(_, _, queue). depths_left queue)")
  show "wf (inv_image (mult less_than) (\<lambda>(_, _, queue). depths_left queue))"
    by (intro wf_inv_image wf_mult wf_less_than)
next
  fix expand :: "'s \<Rightarrow> 'n \<Rightarrow> 's \<times> 'n list" and st at depth queue
  show "((expand, st, queue), (expand, st, (at, depth) # queue))
      \<in> inv_image (mult less_than) (\<lambda>(_, _, queue). depths_left queue)"
    using one_step_implies_mult[of "{#RANK_WALK_LIMIT - depth#}" "{#}" less_than "depths_left queue"]
    by (simp add: depths_left_def)
next
  fix expand :: "'s \<Rightarrow> 'n \<Rightarrow> 's \<times> 'n list" and st st' :: 's and at and depth :: nat
    and queue :: "('n \<times> nat) list" and found :: "'n list"
  assume "\<not> RANK_WALK_LIMIT \<le> depth"
  then have "\<forall>k \<in># depths_left (map (\<lambda>n. (n, depth + 1)) found). \<exists>j \<in># {#RANK_WALK_LIMIT - depth#}. (k, j) \<in> less_than"
    by (fastforce dest: depths_left_level)
  then have "(depths_left queue + depths_left (map (\<lambda>n. (n, depth + 1)) found),
      depths_left queue + {#RANK_WALK_LIMIT - depth#}) \<in> mult less_than"
    by (intro one_step_implies_mult) auto
  then show "((expand, st', queue @ map (\<lambda>n. (n, depth + 1)) found), (expand, st, (at, depth) # queue))
      \<in> inv_image (mult less_than) (\<lambda>(_, _, queue). depths_left queue)"
    by (simp add: depths_left_append depths_left_Cons)
qed

text \<open>One relation of a project: the dependent it adds, unless seen or closed.\<close>

type_synonym dependent = "jsval \<times> string option"

definition project_step ::
  "index \<Rightarrow> jsval \<Rightarrow> jsval list \<times> dependent list \<Rightarrow> jsval list \<times> dependent list" where
  "project_step projectsById rel = (\<lambda>(seen, found).
     let ref = prop_of rel ''relatedProject''; rid = prop_of ref ''id'' in
     if prop_of rel ''type'' \<noteq> JStr ''dependency'' then (seen, found)
     else if nullish rid \<or> rid \<in> set seen \<or> \<not> isOpenProject ref then (seen, found)
     else (let full = index_or projectsById rid ref;
               anchor = (if prop_of rel ''relatedAnchorType'' = JStr ''end''
                         then prop_of full ''targetDate'' else prop_of full ''startDate'')
           in (rid # seen, found @ [(full, dated_day anchor)])))"

definition expand_project ::
  "index \<Rightarrow> jsval list \<times> dependent list \<Rightarrow> jsval \<Rightarrow> (jsval list \<times> dependent list) \<times> jsval list" where
  "expand_project projectsById = (\<lambda>(seen, out) at.
     case fold (project_step projectsById) (relation_nodes at) (seen, []) of
       (seen', found) \<Rightarrow> ((seen', out @ found), map fst found))"

definition dependentProjects :: "jsval \<Rightarrow> index \<Rightarrow> dependent list" where
  "dependentProjects project projectsById =
     snd (walk (expand_project projectsById) ([prop_of project ''id''], []) [(project, 0)])"

text \<open>One relation of an issue: the open ticket it blocks, queued further when it is a candidate.\<close>

definition blocks_step ::
  "index \<Rightarrow> jsval \<Rightarrow> jsval \<Rightarrow> index \<times> jsval list \<Rightarrow> index \<times> jsval list" where
  "blocks_step byId node rel = (\<lambda>(reached, found).
     let ref = prop_of rel ''relatedIssue''; ident = prop_of ref ''identifier'' in
     if prop_of rel ''type'' \<noteq> JStr ''blocks'' \<or> \<not> truthy ref then (reached, found)
     else if nullish ident \<or> ident = prop_of node ''identifier'' \<or> ident \<in> fst ` set reached
             \<or> \<not> isOpen ref then (reached, found)
     else (let full = index_or byId ident ref in
           (AList.update ident full reached,
            if ident \<in> fst ` set byId then found @ [full] else found)))"

definition expand_blocks :: "index \<Rightarrow> jsval \<Rightarrow> index \<Rightarrow> jsval \<Rightarrow> index \<times> jsval list" where
  "expand_blocks byId node reached issue =
     fold (blocks_step byId node) (relation_nodes issue) (reached, [])"

definition blockedClosure :: "jsval \<Rightarrow> index \<Rightarrow> index" where
  "blockedClosure node byId = walk (expand_blocks byId node) [] [(node, 0)]"

section \<open>The rank of a node\<close>

definition project_label :: "jsval \<Rightarrow> string" where
  "project_label project =
     js_string (coalesce (coalesce (prop_of project ''name'') (prop_of project ''id'')) (JStr ''project''))"

text \<open>\<open>issue?.project ? (projectsById.get(issue.project.id) ?? issue.project) : null\<close>.\<close>

definition project_of :: "jsval \<Rightarrow> index \<Rightarrow> jsval" where
  "project_of issue projectsById =
     (let p = prop_of issue ''project'' in
      if truthy p then index_or projectsById (prop_of p ''id'') p else JNull)"

definition fold_epic :: "jsval \<Rightarrow> tier_fact \<times> deadline_fact \<Rightarrow> tier_fact \<times> deadline_fact" where
  "fold_epic epic = (\<lambda>(tier, deadline).
     let from = ''epic '' @ js_string (prop_of epic ''identifier'') in
     (moreUrgent tier (prop_of epic ''priority'', from),
      if isDate (prop_of epic ''dueDate'')
      then earlier deadline (Some (day (prop_of epic ''dueDate'')), from) else deadline))"

definition fold_dependent :: "dependent \<Rightarrow> tier_fact \<times> deadline_fact \<Rightarrow> tier_fact \<times> deadline_fact" where
  "fold_dependent dependent = (\<lambda>(tier, deadline).
     let from = ''blocks project '' @ project_label (fst dependent) in
     (moreUrgent tier (prop_of (fst dependent) ''priority'', from),
      earlier deadline (snd dependent, from)))"

definition ownFacts :: "jsval \<Rightarrow> index \<Rightarrow> tier_fact \<times> deadline_fact" where
  "ownFacts issue projectsById =
     (let own = ((coalesce (prop_of issue ''priority'') (JNum (Fin 0)), ''own''),
                 (dated_day (prop_of issue ''dueDate''), ''own''));
          chained = fold fold_epic (ancestors issue) own;
          project = project_of issue projectsById in
      if truthy project
      then (case chained of (tier, deadline) \<Rightarrow>
              fold fold_dependent (dependentProjects project projectsById)
                (moreUrgent tier (prop_of project ''priority'', ''project''),
                 if isDate (prop_of project ''targetDate'')
                 then earlier deadline (Some (day (prop_of project ''targetDate'')), ''project'')
                 else deadline))
      else chained)"

definition scheduled :: "jsval \<Rightarrow> string \<Rightarrow> bool" where
  "scheduled project today \<longleftrightarrow>
     \<not> truthy project \<or> prop_of (prop_of project ''status'') ''type'' = JStr ''started'' \<or>
     isDate (prop_of project ''startDate'') \<and> day (prop_of project ''startDate'') \<le> today"

record rank =
  rk_tier :: jsval
  rk_tierFrom :: string
  rk_deadline :: "string option"
  rk_deadlineFrom :: "string option"
  rk_scheduled :: bool
  rk_leverage :: nat

definition fold_blocked ::
  "index \<Rightarrow> jsval \<times> jsval \<Rightarrow> tier_fact \<times> deadline_fact \<Rightarrow> tier_fact \<times> deadline_fact" where
  "fold_blocked projectsById = (\<lambda>(ident, dependent) (tier, deadline).
     case ownFacts dependent projectsById of (t, d) \<Rightarrow>
       (let from = ''blocks '' @ js_string ident in
        (moreUrgent tier (fst t, from), earlier deadline (fst d, from))))"

definition rankOf :: "index \<Rightarrow> index \<Rightarrow> string \<Rightarrow> jsval \<Rightarrow> rank" where
  "rankOf byId projectsById today node =
     (let closure = blockedClosure node byId in
      case fold (fold_blocked projectsById) closure (ownFacts node projectsById) of (tier, deadline) \<Rightarrow>
        \<lparr>rk_tier = (if urgency (fst tier) = NONE then JNum (Fin 0) else fst tier),
         rk_tierFrom = snd tier,
         rk_deadline = fst deadline,
         rk_deadlineFrom = (case fst deadline of None \<Rightarrow> None | Some _ \<Rightarrow> Some (snd deadline)),
         rk_scheduled = scheduled (project_of node projectsById) today,
         rk_leverage = length closure\<rparr>)"

section \<open>The order\<close>

definition issue_index :: "jsval list \<Rightarrow> index" where
  "issue_index xs =
     fold (\<lambda>n idx. AList.update (prop_of n ''identifier'') n idx)
       (filter (\<lambda>n. \<not> nullish (prop_of n ''identifier'')) xs) []"

definition note_project :: "jsval \<Rightarrow> index \<Rightarrow> index" where
  "note_project node idx =
     (let project = prop_of node ''project''; pid = prop_of project ''id'' in
      if \<not> nullish pid \<and> (pid \<notin> fst ` set idx \<or> truthy (prop_of project ''relations''))
      then AList.update pid project idx else idx)"

text \<open>\<open>Number(b) - Number(a)\<close> and the chain of \<open>||\<close>.\<close>

fun first_nonzero :: "int list \<Rightarrow> int" where
  "first_nonzero [] = 0"
| "first_nonzero (k # ks) = (if k \<noteq> 0 then k else first_nonzero ks)"

definition bool_num :: "bool \<Rightarrow> int" where "bool_num b = (if b then 1 else 0)"

definition opt_val :: "string option \<Rightarrow> jsval" where
  "opt_val v = (case v of Some s \<Rightarrow> JStr s | None \<Rightarrow> JNull)"

definition rank_order :: "jsval \<times> rank \<Rightarrow> jsval \<times> rank \<Rightarrow> int" where
  "rank_order = (\<lambda>(a, ra) (b, rb).
     first_nonzero
       [urgency (rk_tier ra) - urgency (rk_tier rb),
        ascending (opt_val (rk_deadline ra)) (opt_val (rk_deadline rb)),
        bool_num (rk_scheduled rb) - bool_num (rk_scheduled ra),
        int (rk_leverage rb) - int (rk_leverage ra),
        ascending (prop_of (prop_of a ''project'') ''prioritySortOrder'')
          (prop_of (prop_of b ''project'') ''prioritySortOrder''),
        ascending (prop_of a ''prioritySortOrder'') (prop_of b ''prioritySortOrder''),
        ascending (prop_of a ''createdAt'') (prop_of b ''createdAt'')])"

definition rankWork :: "string \<Rightarrow> jsval \<Rightarrow> (jsval \<times> rank) list" where
  "rankWork today nodes =
     (let xs = array_or_empty nodes;
          byId = issue_index xs;
          projectsById = fold note_project xs [] in
      sort_by rank_order (map (\<lambda>node. (node, rankOf byId projectsById today node)) xs))"

section \<open>The blocks closure\<close>

text \<open>
  The tickets an issue blocks directly (open, identified, not the ranked node itself), and those
  blocked within \<open>k\<close> steps, where a step goes on only through a candidate.
\<close>

definition blocked_by :: "jsval \<Rightarrow> jsval \<Rightarrow> jsval set" where
  "blocked_by node issue =
     {ident. \<exists>rel \<in> set (relation_nodes issue).
        prop_of rel ''type'' = JStr ''blocks'' \<and> truthy (prop_of rel ''relatedIssue'') \<and>
        ident = prop_of (prop_of rel ''relatedIssue'') ''identifier'' \<and> \<not> nullish ident \<and>
        ident \<noteq> prop_of node ''identifier'' \<and> isOpen (prop_of rel ''relatedIssue'')}"

primrec blocked_within :: "index \<Rightarrow> jsval \<Rightarrow> nat \<Rightarrow> jsval set" where
  "blocked_within byId node 0 = {}"
| "blocked_within byId node (Suc k) =
     blocked_by node node \<union>
     (\<Union>j \<in> blocked_within byId node k \<inter> fst ` set byId. blocked_by node (the (map_of byId j)))"

definition proper_index :: "index \<Rightarrow> bool" where
  "proper_index byId \<longleftrightarrow> (\<forall>v \<in> snd ` set byId. \<not> nullish v)"

lemma proper_index_full:
  assumes "proper_index byId" "j \<in> fst ` set byId"
  shows "index_or byId j ref = the (map_of byId j)"
proof -
  obtain v where v: "map_of byId j = Some v"
    using assms(2) by (metis map_of_eq_None_iff not_None_eq)
  then have "\<not> nullish v" using assms(1) map_of_SomeD[OF v] by (force simp: proper_index_def)
  then show ?thesis using v by (simp add: index_or_def coalesce_def)
qed

lemma update_subset: "set (AList.update k v al) \<subseteq> insert (k, v) (set al)"
  by (induction al) auto

lemma issue_index_proper: "proper_index (issue_index xs)"
proof -
  define ys where "ys = filter (\<lambda>n. \<not> nullish (prop_of n ''identifier'')) xs"
  have "proper_index al \<Longrightarrow> \<forall>n \<in> set ns. \<not> nullish (prop_of n ''identifier'') \<Longrightarrow>
      proper_index (fold (\<lambda>n idx. AList.update (prop_of n ''identifier'') n idx) ns al)" for ns al
  proof (induction ns arbitrary: al)
    case (Cons n ns)
    have "\<not> nullish n" using Cons.prems(2) by (auto simp: nullish_def)
    then have "proper_index (AList.update (prop_of n ''identifier'') n al)"
      using Cons.prems(1) update_subset[of "prop_of n ''identifier''" n al]
      by (auto simp: proper_index_def)
    then show ?case using Cons by simp
  qed simp
  from this[of "[]" ys] show ?thesis by (simp add: issue_index_def ys_def proper_index_def)
qed

text \<open>One expansion adds the direct successors; the candidates among the new ones are queued.\<close>

definition rels_blocked :: "jsval \<Rightarrow> jsval list \<Rightarrow> jsval set" where
  "rels_blocked node rels =
     {ident. \<exists>rel \<in> set rels.
        prop_of rel ''type'' = JStr ''blocks'' \<and> truthy (prop_of rel ''relatedIssue'') \<and>
        ident = prop_of (prop_of rel ''relatedIssue'') ''identifier'' \<and> \<not> nullish ident \<and>
        ident \<noteq> prop_of node ''identifier'' \<and> isOpen (prop_of rel ''relatedIssue'')}"

lemma fst_update: "fst ` set (AList.update k v al) = insert k (fst ` set al)"
  using amap.set_keys_put[of k v al] by simp

lemma blocks_step_spec:
  assumes "proper_index byId" "blocks_step byId node rel (reached, found) = (reached', found')"
  shows "fst ` set reached' = fst ` set reached \<union> rels_blocked node [rel]"
    and "set found' = set found \<union>
      (\<lambda>j. the (map_of byId j)) ` ((rels_blocked node [rel] - fst ` set reached) \<inter> fst ` set byId)"
    and "distinct (map fst reached) \<Longrightarrow> distinct (map fst reached')"
proof -
  let ?ref = "prop_of rel ''relatedIssue''"
  let ?i = "prop_of ?ref ''identifier''"
  let ?ok = "prop_of rel ''type'' = JStr ''blocks'' \<and> truthy ?ref \<and> \<not> nullish ?i \<and>
    ?i \<noteq> prop_of node ''identifier'' \<and> isOpen ?ref"
  have r: "rels_blocked node [rel] = (if ?ok then {?i} else {})"
    by (auto simp: rels_blocked_def)
  have eq: "(reached', found') = (if ?ok then (if ?i \<in> fst ` set reached then (reached, found)
      else (AList.update ?i (index_or byId ?i ?ref) reached,
        if ?i \<in> fst ` set byId then found @ [index_or byId ?i ?ref] else found)) else (reached, found))"
    unfolding assms(2)[symmetric] by (simp add: blocks_step_def Let_def)
  consider (skip) "\<not> ?ok" "reached' = reached" "found' = found"
    | (seen) ?ok "?i \<in> fst ` set reached" "reached' = reached" "found' = found"
    | (new) ?ok "?i \<notin> fst ` set reached" "reached' = AList.update ?i (index_or byId ?i ?ref) reached"
        "found' = (if ?i \<in> fst ` set byId then found @ [index_or byId ?i ?ref] else found)"
  proof (cases "?ok")
    case True
    then show thesis using eq that by (cases "?i \<in> fst ` set reached") simp_all
  next
    case False
    have "(reached', found') = (reached, found)" by (rule trans[OF eq if_not_P[OF False]])
    then show thesis using that(1)[OF False] by blast
  qed
  note cs = this
  show "fst ` set reached' = fst ` set reached \<union> rels_blocked node [rel]"
    by (cases rule: cs) (simp_all only: r fst_update if_True if_False, auto)
  show "set found' = set found \<union>
      (\<lambda>j. the (map_of byId j)) ` ((rels_blocked node [rel] - fst ` set reached) \<inter> fst ` set byId)"
    using proper_index_full[OF assms(1)]
    by (cases rule: cs; cases "?i \<in> fst ` set byId") (simp_all only: r Int_insert_left insert_Diff_if if_True if_False simp_thms, simp_all)
  show "distinct (map fst reached) \<Longrightarrow> distinct (map fst reached')"
    by (cases rule: cs) (auto simp: distinct_update)
qed

lemma blocks_fold:
  assumes "proper_index byId"
  shows "fold (blocks_step byId node) rels (reached, found) = (reached', found') \<Longrightarrow>
    fst ` set reached' = fst ` set reached \<union> rels_blocked node rels \<and>
    set found' = set found \<union>
      (\<lambda>j. the (map_of byId j)) ` ((rels_blocked node rels - fst ` set reached) \<inter> fst ` set byId) \<and>
    (distinct (map fst reached) \<longrightarrow> distinct (map fst reached'))"
proof (induction rels arbitrary: reached found)
  case Nil
  then show ?case by (simp add: rels_blocked_def)
next
  case (Cons rel rels)
  obtain r1 f1 where one: "blocks_step byId node rel (reached, found) = (r1, f1)" by fastforce
  note spec = blocks_step_spec[OF assms one]
  have split: "rels_blocked node (rel # rels) = rels_blocked node [rel] \<union> rels_blocked node rels"
    by (auto simp: rels_blocked_def)
  have IH: "fst ` set reached' = fst ` set r1 \<union> rels_blocked node rels"
    "set found' = set f1 \<union>
      (\<lambda>j. the (map_of byId j)) ` ((rels_blocked node rels - fst ` set r1) \<inter> fst ` set byId)"
    "distinct (map fst r1) \<longrightarrow> distinct (map fst reached')"
    using Cons.IH[of r1 f1] Cons.prems one by simp_all
  show ?case unfolding split IH(1,2) spec(1,2) using spec(3) IH(3) by blast
qed

lemma expand_blocks_spec:
  assumes "proper_index byId" "expand_blocks byId node reached issue = (reached', found)"
  shows "fst ` set reached' = fst ` set reached \<union> blocked_by node issue"
    and "set found = (\<lambda>j. the (map_of byId j)) ` ((blocked_by node issue - fst ` set reached) \<inter> fst ` set byId)"
    and "distinct (map fst reached) \<Longrightarrow> distinct (map fst reached')"
proof -
  have "blocked_by node issue = rels_blocked node (relation_nodes issue)"
    by (simp add: blocked_by_def rels_blocked_def)
  then show "fst ` set reached' = fst ` set reached \<union> blocked_by node issue"
    "set found = (\<lambda>j. the (map_of byId j)) ` ((blocked_by node issue - fst ` set reached) \<inter> fst ` set byId)"
    "distinct (map fst reached) \<Longrightarrow> distinct (map fst reached')"
    using blocks_fold[OF assms(1), of node "relation_nodes issue" reached "[]"] assms(2)
    by (simp_all add: expand_blocks_def)
qed

lemma within_mono: "blocked_within byId node k \<subseteq> blocked_within byId node (Suc k)"
  by (induction k) auto

lemma within_mono_le: "k \<le> m \<Longrightarrow> blocked_within byId node k \<subseteq> blocked_within byId node m"
  by (rule lift_Suc_mono_le[of "blocked_within byId node"]) (rule within_mono)

lemma walk_deep: "\<forall>(_, d) \<in> set queue. RANK_WALK_LIMIT \<le> d \<Longrightarrow> walk expand st queue = st"
  by (induction expand st queue rule: walk.induct) auto

text \<open>
  The breadth-first invariant: the queue holds the rest of level \<open>d\<close> and what level \<open>d\<close> has found so
  far; the tickets reached lie between the two levels.
\<close>

definition level_inv :: "index \<Rightarrow> jsval \<Rightarrow> index \<Rightarrow> nat \<Rightarrow> jsval list \<Rightarrow> jsval list \<Rightarrow> bool" where
  "level_inv byId node reached d now nxt \<longleftrightarrow>
     blocked_within byId node d \<subseteq> fst ` set reached \<and>
     blocked_within byId node (Suc d) = fst ` set reached \<union> (\<Union>n \<in> set now. blocked_by node n) \<and>
     set nxt = (\<lambda>j. the (map_of byId j)) ` ((fst ` set reached - blocked_within byId node d) \<inter> fst ` set byId)"

lemma union_frontier:
  assumes "A \<subseteq> N \<union> \<Union> (E ` (A \<inter> B))"
  shows "N \<union> \<Union> (E ` ((N \<union> \<Union> (E ` (A \<inter> B))) \<inter> B)) =
    N \<union> \<Union> (E ` (A \<inter> B)) \<union> \<Union> (E ` ((N \<union> \<Union> (E ` (A \<inter> B)) - A) \<inter> B))"
  using assms by blast

lemma image_frontier:
  "W \<subseteq> R \<Longrightarrow> f ` ((R - W) \<inter> B) \<union> f ` ((E - R) \<inter> B) = f ` ((R \<union> E - W) \<inter> B)"
  by blast

lemma level_next:
  assumes "level_inv byId node reached d [] nxt"
  shows "level_inv byId node reached (Suc d) nxt []"
proof -
  have r: "fst ` set reached = blocked_within byId node (Suc d)"
    using assms by (simp add: level_inv_def)
  have nxt: "set nxt = (\<lambda>j. the (map_of byId j)) ` ((fst ` set reached - blocked_within byId node d) \<inter> fst ` set byId)"
    using assms by (simp add: level_inv_def)
  have "blocked_within byId node (Suc (Suc d)) =
      fst ` set reached \<union> (\<Union>n \<in> set nxt. blocked_by node n)"
    unfolding nxt r using within_mono[of byId node d] by (simp add: union_frontier)
  then show ?thesis unfolding level_inv_def using r by auto
qed

lemma level_step:
  assumes "proper_index byId" "level_inv byId node reached d (n # now) nxt"
    and "expand_blocks byId node reached n = (reached', found)"
  shows "level_inv byId node reached' d now (nxt @ found)"
proof -
  note e = expand_blocks_spec(1,2)[OF assms(1,3)]
  have W: "blocked_within byId node d \<subseteq> fst ` set reached"
    and S: "blocked_within byId node (Suc d) = fst ` set reached \<union> (\<Union>m \<in> set (n # now). blocked_by node m)"
    and N: "set nxt = (\<lambda>j. the (map_of byId j)) ` ((fst ` set reached - blocked_within byId node d) \<inter> fst ` set byId)"
    using assms(2) unfolding level_inv_def by blast+
  have "set (nxt @ found) = (\<lambda>j. the (map_of byId j)) ` ((fst ` set reached' - blocked_within byId node d) \<inter> fst ` set byId)"
    unfolding set_append N e(2) e(1) by (rule image_frontier[OF W])
  moreover have "blocked_within byId node (Suc d) = fst ` set reached' \<union> (\<Union>m \<in> set now. blocked_by node m)"
    unfolding S e(1) by auto
  moreover have "blocked_within byId node d \<subseteq> fst ` set reached'"
    unfolding e(1) by (rule le_supI1[OF W])
  ultimately show ?thesis unfolding level_inv_def by (intro conjI)
qed

lemma level_done:
  assumes "level_inv byId node reached d [] []"
  shows "d < k \<Longrightarrow> fst ` set reached = blocked_within byId node k"
proof (induction k)
  case (Suc k)
  have step: "level_inv byId node reached m [] [] \<Longrightarrow> fst ` set reached = blocked_within byId node (Suc m)" for m
    by (simp add: level_inv_def)
  have "level_inv byId node reached (d + i) [] []" for i
    by (induction i) (use assms level_next in auto)
  from this[of "k - d"] Suc.prems show ?case using step[of k] by simp
qed simp

lemma walk_closure:
  assumes proper: "proper_index byId"
  shows "level_inv byId node reached d now nxt \<Longrightarrow> d < RANK_WALK_LIMIT \<Longrightarrow>
    queue = map (\<lambda>n. (n, d)) now @ map (\<lambda>n. (n, Suc d)) nxt \<Longrightarrow> distinct (map fst reached) \<Longrightarrow>
    fst ` set (walk (expand_blocks byId node) reached queue) = blocked_within byId node RANK_WALK_LIMIT \<and>
    distinct (map fst (walk (expand_blocks byId node) reached queue))"
proof (induction "expand_blocks byId node" reached queue arbitrary: d now nxt rule: walk.induct)
  case (1 st)
  then have "level_inv byId node st d [] []" by simp
  then show ?case using level_done[of byId node st d RANK_WALK_LIMIT] 1 by simp
next
  case (2 st at depth queue)
  have main: ?case if inv: "level_inv byId node st d' (at # now') nxt'" and d': "d' < RANK_WALK_LIMIT"
    and q: "(at, depth) # queue = map (\<lambda>n. (n, d')) (at # now') @ map (\<lambda>n. (n, Suc d')) nxt'" for d' now' nxt'
  proof -
    obtain st' found where e: "expand_blocks byId node st at = (st', found)" by fastforce
    have dq: "depth = d'" "queue @ map (\<lambda>n. (n, depth + 1)) found =
        map (\<lambda>n. (n, d')) now' @ map (\<lambda>n. (n, Suc d')) (nxt' @ found)"
      using q by auto
    have "\<not> RANK_WALK_LIMIT \<le> depth" using d' dq(1) by simp
    moreover from this have "fst ` set (walk (expand_blocks byId node) st' (queue @ map (\<lambda>n. (n, depth + 1)) found)) =
        blocked_within byId node RANK_WALK_LIMIT \<and>
        distinct (map fst (walk (expand_blocks byId node) st' (queue @ map (\<lambda>n. (n, depth + 1)) found)))"
      using "2.hyps"(2)[of st' found d' now' "nxt' @ found"] e level_step[OF proper inv e] d' dq(2)
        expand_blocks_spec(3)[OF proper e] "2.prems"(4)
      by simp
    ultimately show ?thesis using e by simp
  qed
  show ?case
  proof (cases now)
    case (Cons n now')
    then have n: "n = at" using "2.prems"(3) by simp
    show ?thesis
      by (rule main[OF _ "2.prems"(2) "2.prems"(3)[unfolded Cons n]]) (use "2.prems"(1) in \<open>simp only: Cons n\<close>)
  next
    case Nil
    then obtain nxt' where nxt: "nxt = at # nxt'" and dep: "depth = Suc d"
      using "2.prems"(3) by (cases nxt) auto
    have inv: "level_inv byId node st (Suc d) (at # nxt') []"
      using level_next "2.prems"(1) Nil nxt by blast
    show ?thesis
    proof (cases "Suc d < RANK_WALK_LIMIT")
      case True
      show ?thesis
        by (rule main[OF inv True]) (use "2.prems"(3) in \<open>simp add: Nil nxt\<close>)
    next
      case False
      then have "RANK_WALK_LIMIT = Suc d" using "2.prems"(2) by simp
      moreover have "fst ` set st = blocked_within byId node (Suc d)"
        using "2.prems"(1) Nil by (simp add: level_inv_def)
      moreover have "walk (expand_blocks byId node) st ((at, depth) # queue) = st"
        by (rule walk_deep) (use "2.prems"(3) Nil \<open>RANK_WALK_LIMIT = Suc d\<close> in auto)
      ultimately show ?thesis using "2.prems"(4) by simp
    qed
  qed
qed

text \<open>C32: the closure is exact. It holds each open ticket blocked within ten steps through candidates
  once, so the leverage of a node is their number.\<close>

theorem blockedClosure_exact:
  "set (map fst (blockedClosure node (issue_index xs))) =
     blocked_within (issue_index xs) node RANK_WALK_LIMIT \<and>
   rk_leverage (rankOf (issue_index xs) projectsById today node) =
     card (blocked_within (issue_index xs) node RANK_WALK_LIMIT)"
proof -
  have "level_inv (issue_index xs) node [] 0 [node] []" by (simp add: level_inv_def)
  from walk_closure[OF issue_index_proper this]
  have *: "fst ` set (blockedClosure node (issue_index xs)) = blocked_within (issue_index xs) node RANK_WALK_LIMIT"
    "distinct (map fst (blockedClosure node (issue_index xs)))"
    by (simp_all add: blockedClosure_def RANK_WALK_LIMIT_def)
  then have "length (blockedClosure node (issue_index xs)) = card (blocked_within (issue_index xs) node RANK_WALK_LIMIT)"
    using distinct_card[of "map fst (blockedClosure node (issue_index xs))"] by simp
  then show ?thesis using *(1) by (simp add: rankOf_def Let_def split: prod.splits)
qed

section \<open>The least of the sources\<close>

text \<open>
  Every source of a node's rank as a pair of a priority and a dated deadline: the node, its epic
  chain, its project, the projects that one holds up, and the same of each ticket it blocks.
\<close>

type_synonym source = "jsval \<times> string option"

definition own_sources :: "jsval \<Rightarrow> index \<Rightarrow> source list" where
  "own_sources issue projectsById =
     (coalesce (prop_of issue ''priority'') (JNum (Fin 0)), dated_day (prop_of issue ''dueDate'')) #
     map (\<lambda>epic. (prop_of epic ''priority'', dated_day (prop_of epic ''dueDate''))) (ancestors issue) @
     (let project = project_of issue projectsById in
      if truthy project
      then (prop_of project ''priority'', dated_day (prop_of project ''targetDate'')) #
        map (\<lambda>dep. (prop_of (fst dep) ''priority'', snd dep)) (dependentProjects project projectsById)
      else [])"

definition rank_sources :: "jsval \<Rightarrow> index \<Rightarrow> index \<Rightarrow> source list" where
  "rank_sources node byId projectsById =
     own_sources node projectsById @
     concat (map (\<lambda>(_, dependent). own_sources dependent projectsById) (blockedClosure node byId))"

fun earliest :: "string option \<Rightarrow> string option set \<Rightarrow> bool" where
  "earliest None D = (\<forall>x \<in> D. x = None)"
| "earliest (Some e) D = (Some e \<in> D \<and> (\<forall>d. Some d \<in> D \<longrightarrow> e \<le> d))"

definition least_of :: "source list \<Rightarrow> tier_fact \<times> deadline_fact \<Rightarrow> bool" where
  "least_of S = (\<lambda>(tier, deadline).
     S \<noteq> [] \<and> urgency (fst tier) = Min (urgency ` fst ` set S) \<and> earliest (fst deadline) (snd ` set S))"

lemma least_single: "least_of [(p, d)] ((p, f), (d, g))"
  by (cases d) (auto simp: least_of_def)

lemma urgency_moreUrgent: "urgency (fst (moreUrgent a b)) = min (urgency (fst a)) (urgency (fst b))"
  by (simp add: moreUrgent_def min_def)

lemma earliest_earlier:
  assumes "earliest (fst a) A" "earliest (fst b) B"
  shows "earliest (fst (earlier a b)) (A \<union> B)"
proof (cases "fst b")
  case None
  then show ?thesis using assms by (cases "fst a") (auto simp: earlier_def)
next
  case (Some d)
  then show ?thesis using assms by (cases "fst a") (auto simp: earlier_def)
qed

lemma earlier_None: "earlier best (None, f) = best"
  by (simp add: earlier_def)

lemma least_join:
  assumes "least_of S (t, d)" "least_of S' (t', d')"
  shows "least_of (S @ S') (moreUrgent t (fst t', f), earlier d (fst d', g))"
proof -
  have "Min (urgency ` fst ` set (S @ S')) = min (Min (urgency ` fst ` set S)) (Min (urgency ` fst ` set S'))"
    using assms by (simp add: least_of_def image_Un Min_Un)
  moreover have "earliest (fst (earlier d (fst d', g))) (snd ` set S \<union> snd ` set S')"
    using assms earliest_earlier[of d "snd ` set S" "(fst d', g)" "snd ` set S'"] by (simp add: least_of_def)
  ultimately show ?thesis
    using assms by (simp add: least_of_def urgency_moreUrgent image_Un)
qed

lemma least_fold:
  assumes step: "\<And>x S td. x \<in> set xs \<Longrightarrow> least_of S td \<Longrightarrow> least_of (S @ src x) (f x td)"
  shows "least_of S td \<Longrightarrow> least_of (S @ concat (map src xs)) (fold f xs td)"
  using step
proof (induction xs arbitrary: S td)
  case (Cons x xs)
  have "least_of (S @ src x) (f x td)" using Cons.prems by simp
  from Cons.IH[OF this] Cons.prems(2) show ?case by simp
qed simp

lemma least_epic:
  assumes "least_of S td"
  shows "least_of (S @ [(prop_of epic ''priority'', dated_day (prop_of epic ''dueDate''))]) (fold_epic epic td)"
proof -
  obtain t d where td: "td = (t, d)" by (cases td)
  show ?thesis
    using least_join[OF assms[unfolded td] least_single[of "prop_of epic ''priority''" "dated_day (prop_of epic ''dueDate'')"]]
    by (auto simp: td fold_epic_def Let_def dated_day_def earlier_None)
qed

lemma least_dependent:
  assumes "least_of S td"
  shows "least_of (S @ [(prop_of (fst dep) ''priority'', snd dep)]) (fold_dependent dep td)"
proof -
  obtain t d where td: "td = (t, d)" by (cases td)
  show ?thesis
    using least_join[OF assms[unfolded td] least_single[of "prop_of (fst dep) ''priority''" "snd dep"]]
    by (simp add: td fold_dependent_def Let_def)
qed

lemma ownFacts_least: "least_of (own_sources issue projectsById) (ownFacts issue projectsById)"
proof -
  define own where "own = ((coalesce (prop_of issue ''priority'') (JNum (Fin 0)), ''own''), (dated_day (prop_of issue ''dueDate''), ''own''))"
  define S0 where "S0 = (coalesce (prop_of issue ''priority'') (JNum (Fin 0)), dated_day (prop_of issue ''dueDate'')) #
     map (\<lambda>epic. (prop_of epic ''priority'', dated_day (prop_of epic ''dueDate''))) (ancestors issue)"
  have "least_of ([(coalesce (prop_of issue ''priority'') (JNum (Fin 0)), dated_day (prop_of issue ''dueDate''))] @
      concat (map (\<lambda>epic. [(prop_of epic ''priority'', dated_day (prop_of epic ''dueDate''))]) (ancestors issue)))
      (fold fold_epic (ancestors issue) own)"
    by (rule least_fold) (simp_all add: least_epic least_single own_def)
  then have chained: "least_of S0 (fold fold_epic (ancestors issue) own)"
    by (simp add: S0_def concat_map_singleton)
  obtain t d where td: "fold fold_epic (ancestors issue) own = (t, d)" by (metis surj_pair)
  define project where "project = project_of issue projectsById"
  show ?thesis
  proof (cases "truthy project")
    case False
    then show ?thesis using chained
      by (simp add: ownFacts_def own_sources_def own_def S0_def project_def Let_def)
  next
    case True
    have at_project: "least_of (S0 @ [(prop_of project ''priority'', dated_day (prop_of project ''targetDate''))])
        (moreUrgent t (prop_of project ''priority'', ''project''),
         if isDate (prop_of project ''targetDate'') then earlier d (Some (day (prop_of project ''targetDate'')), ''project'') else d)"
      using least_join[OF chained[unfolded td] least_single[of "prop_of project ''priority''" "dated_day (prop_of project ''targetDate'')"]]
      by (auto simp: dated_day_def earlier_None)
    from least_fold[of "dependentProjects project projectsById" "\<lambda>dep. [(prop_of (fst dep) ''priority'', snd dep)]" fold_dependent,
        OF least_dependent at_project]
    show ?thesis using True td
      by (simp add: ownFacts_def own_sources_def own_def[symmetric] S0_def project_def[symmetric] Let_def concat_map_singleton)
  qed
qed

text \<open>the rank is the least of its declared sources: the tier is the most urgent of all of them, and
  the deadline the earliest dated one, missing only when none is dated.\<close>

theorem rankOf_least:
  "urgency (rk_tier (rankOf byId projectsById today node)) =
     Min (urgency ` fst ` set (rank_sources node byId projectsById)) \<and>
   earliest (rk_deadline (rankOf byId projectsById today node)) (snd ` set (rank_sources node byId projectsById))"
proof -
  let ?facts = "fold (fold_blocked projectsById) (blockedClosure node byId) (ownFacts node projectsById)"
  have blocked: "least_of (S @ (case x of (_, dependent) \<Rightarrow> own_sources dependent projectsById)) (fold_blocked projectsById x td)"
    if "least_of S td" for x S td
  proof -
    obtain t d i dependent where x: "td = (t, d)" "x = (i, dependent)" by (cases td; cases x)
    obtain t' d' where own: "ownFacts dependent projectsById = (t', d')" by (metis surj_pair)
    show ?thesis
      using least_join[OF that[unfolded x] ownFacts_least[of dependent projectsById, unfolded own]]
      by (simp add: x fold_blocked_def own Let_def)
  qed
  have "least_of (rank_sources node byId projectsById) ?facts"
    unfolding rank_sources_def by (rule least_fold[OF blocked ownFacts_least])
  moreover obtain t d where "?facts = (t, d)" by (metis surj_pair)
  moreover have "urgency (JNum (Fin 0)) = NONE" by (simp add: urgency_def)
  ultimately show ?thesis
    by (auto simp: rankOf_def Let_def least_of_def split: if_splits)
qed

section \<open>Build order\<close>

text \<open>Values of one kind: \<open>ascending\<close> is lawful on strings and on numbers, each with missing ones.\<close>

definition one_kind :: "jsval set \<Rightarrow> bool" where
  "one_kind V \<longleftrightarrow> (\<forall>v \<in> V. nullish v \<or> (\<exists>s. v = JStr s)) \<or> (\<forall>v \<in> V. nullish v \<or> (\<exists>n. v = JNum (Fin n)))"

lemma ascending_values:
  "nullish a \<Longrightarrow> nullish b \<Longrightarrow> ascending a b = 0"
  "nullish a \<Longrightarrow> \<not> nullish b \<Longrightarrow> ascending a b = 1"
  "\<not> nullish a \<Longrightarrow> nullish b \<Longrightarrow> ascending a b = - 1"
  "ascending (JStr s) (JStr t) = (if s < t then - 1 else if t < s then 1 else 0)"
  "ascending (JNum (Fin i)) (JNum (Fin j)) = (if i < j then - 1 else if j < i then 1 else 0)"
  by (simp_all add: ascending_def js_less_def)

lemma ascending_le:
  "ascending (JStr s) (JStr t) \<le> 0 \<longleftrightarrow> s \<le> t"
  "ascending (JNum (Fin i)) (JNum (Fin j)) \<le> 0 \<longleftrightarrow> i \<le> j"
  by (auto simp: ascending_values)

lemma one_kind_cases:
  assumes "one_kind V"
  obtains "\<And>v. v \<in> V \<Longrightarrow> nullish v \<or> (\<exists>s. v = JStr s)"
    | "\<And>v. v \<in> V \<Longrightarrow> nullish v \<or> (\<exists>n. v = JNum (Fin n))"
  using assms unfolding one_kind_def by blast

lemma ascending_flip:
  assumes "one_kind V" "a \<in> V" "b \<in> V"
  shows "sgn (ascending b a) = - sgn (ascending a b)"
  using assms(1)
proof (cases rule: one_kind_cases)
  case 1
  from 1[OF assms(2)] 1[OF assms(3)] show ?thesis
    by (elim disjE exE) (simp_all add: ascending_values)
next
  case 2
  from 2[OF assms(2)] 2[OF assms(3)] show ?thesis
    by (elim disjE exE) (simp_all add: ascending_values)
qed

lemma ascending_trans:
  assumes "one_kind V" "a \<in> V" "b \<in> V" "c \<in> V" "ascending a b \<le> 0" "ascending b c \<le> 0"
  shows "ascending a c \<le> 0"
  using assms(1)
proof (cases rule: one_kind_cases)
  case 1
  from 1[OF assms(2)] 1[OF assms(3)] 1[OF assms(4)] assms(5,6) show ?thesis
    by (elim disjE exE) (simp_all add: ascending_values(1-3) ascending_le)
next
  case 2
  from 2[OF assms(2)] 2[OF assms(3)] 2[OF assms(4)] assms(5,6) show ?thesis
    by (elim disjE exE) (simp_all add: ascending_values(1-3) ascending_le)
qed

lemma ascending_sign:
  assumes "one_kind (f ` D)"
  shows "sign_comparator (\<lambda>x y. ascending (f x) (f y)) D"
proof unfold_locales
  fix x y assume x: "x \<in> D" and y: "y \<in> D"
  show "sgn (ascending (f y) (f x)) = - sgn (ascending (f x) (f y))"
    by (rule ascending_flip[OF assms imageI[OF x] imageI[OF y]])
  then show "ascending (f x) (f y) \<le> 0 \<or> ascending (f y) (f x) \<le> 0"
    by (rule sgn_flip_total)
  fix z assume "z \<in> D" "ascending (f x) (f y) \<le> 0" "ascending (f y) (f z) \<le> 0"
  then show "ascending (f x) (f z) \<le> 0"
    using ascending_trans[OF assms imageI[OF x] imageI[OF y]] by blast
qed

text \<open>The facts of a list of nodes the tracker sent: numbers order, strings date.\<close>

definition uniform :: "jsval set \<Rightarrow> bool" where
  "uniform N \<longleftrightarrow>
     one_kind ((\<lambda>n. prop_of (prop_of n ''project'') ''prioritySortOrder'') ` N) \<and>
     one_kind ((\<lambda>n. prop_of n ''prioritySortOrder'') ` N) \<and>
     one_kind ((\<lambda>n. prop_of n ''createdAt'') ` N)"

definition ranked_of :: "jsval set \<Rightarrow> (jsval \<times> rank) set" where
  "ranked_of N = (if uniform N then N \<times> UNIV else {})"

lemma rank_order_chain:
  "rank_order = (\<lambda>x y. if urgency (rk_tier (snd x)) - urgency (rk_tier (snd y)) \<noteq> 0
      then urgency (rk_tier (snd x)) - urgency (rk_tier (snd y)) else
    (if ascending (opt_val (rk_deadline (snd x))) (opt_val (rk_deadline (snd y))) \<noteq> 0
      then ascending (opt_val (rk_deadline (snd x))) (opt_val (rk_deadline (snd y))) else
    (if bool_num (rk_scheduled (snd y)) - bool_num (rk_scheduled (snd x)) \<noteq> 0
      then bool_num (rk_scheduled (snd y)) - bool_num (rk_scheduled (snd x)) else
    (if int (rk_leverage (snd y)) - int (rk_leverage (snd x)) \<noteq> 0
      then int (rk_leverage (snd y)) - int (rk_leverage (snd x)) else
    (if ascending (prop_of (prop_of (fst x) ''project'') ''prioritySortOrder'')
         (prop_of (prop_of (fst y) ''project'') ''prioritySortOrder'') \<noteq> 0
      then ascending (prop_of (prop_of (fst x) ''project'') ''prioritySortOrder'')
         (prop_of (prop_of (fst y) ''project'') ''prioritySortOrder'') else
    (if ascending (prop_of (fst x) ''prioritySortOrder'') (prop_of (fst y) ''prioritySortOrder'') \<noteq> 0
      then ascending (prop_of (fst x) ''prioritySortOrder'') (prop_of (fst y) ''prioritySortOrder'') else
     ascending (prop_of (fst x) ''createdAt'') (prop_of (fst y) ''createdAt'')))))))"
  by (intro ext) (simp add: rank_order_def split: prod.split)

lemma mset_insert_by [simp]: "mset (insert_by cmp x xs) = add_mset x (mset xs)"
  by (induction xs) auto

lemma mset_sort_by [simp]: "mset (sort_by cmp xs) = mset xs"
  by (induction xs) auto

lemma one_kind_subset: "one_kind V \<Longrightarrow> U \<subseteq> V \<Longrightarrow> one_kind U"
  by (auto simp: one_kind_def)

lemma ranked_kind: "one_kind (g ` N) \<Longrightarrow> uniform N \<Longrightarrow> one_kind ((\<lambda>x. g (fst x)) ` ranked_of N)"
  by (rule one_kind_subset[of "g ` N"]) (auto simp: ranked_of_def)

lemma uniform_kinds:
  assumes "uniform N"
  shows "one_kind ((\<lambda>n. prop_of (prop_of n ''project'') ''prioritySortOrder'') ` N)"
    and "one_kind ((\<lambda>n. prop_of n ''prioritySortOrder'') ` N)"
    and "one_kind ((\<lambda>n. prop_of n ''createdAt'') ` N)"
  using assms by (simp_all add: uniform_def)

lemma rank_order_sign: "sign_comparator rank_order (ranked_of N)"
proof (cases "uniform N")
  case True
  show ?thesis
    unfolding rank_order_chain
  proof (intro sign_comparator.chain difference_sign difference_sign' ascending_sign)
    show "one_kind ((\<lambda>x. opt_val (rk_deadline (snd x))) ` ranked_of N)"
      by (auto simp: one_kind_def opt_val_def split: option.splits)
  qed (rule ranked_kind[OF uniform_kinds(1) True] ranked_kind[OF uniform_kinds(2) True]
      ranked_kind[OF uniform_kinds(3) True], rule True)+
qed (simp add: ranked_of_def sign_comparator_def sign_comparator_axioms_def comparator_def)

interpretation build_order: sign_comparator rank_order "ranked_of N" for N
  by (rule rank_order_sign)

lemma rank_order_urgency: "rank_order a b \<le> 0 \<Longrightarrow> urgency (rk_tier (snd a)) \<le> urgency (rk_tier (snd b))"
  by (auto simp: rank_order_def split: prod.splits if_splits)

lemma ranked_list:
  "rankWork today (JArr xs) =
     sort_by rank_order (map (\<lambda>n. (n, rankOf (issue_index xs) (fold note_project xs []) today n)) xs)"
  by (simp add: rankWork_def array_or_empty_def Let_def)

lemma rankWork_sorted_wrt:
  assumes "uniform (set xs)"
  shows "sorted_wrt (\<lambda>a b. rank_order a b \<le> 0) (rankWork today (JArr xs))"
  unfolding ranked_list
  by (rule build_order.sorted_sort_by[of _ "set xs"]) (use assms in \<open>auto simp: ranked_of_def\<close>)

text \<open>ranking returns exactly the candidates, each with its own rank, in the order of the keys; so
  never a less urgent one before a more urgent one.\<close>

theorem rankWork_sorted:
  assumes "uniform (set xs)"
  shows "sorted_wrt (\<lambda>a b. rank_order a b \<le> 0) (rankWork today (JArr xs)) \<and>
    sorted (map (\<lambda>x. urgency (rk_tier (snd x))) (rankWork today (JArr xs))) \<and>
    mset (rankWork today (JArr xs)) =
      mset (map (\<lambda>n. (n, rankOf (issue_index xs) (fold note_project xs []) today n)) xs)"
proof -
  note s = rankWork_sorted_wrt[OF assms, of today]
  have "sorted (map (\<lambda>x. urgency (rk_tier (snd x))) (rankWork today (JArr xs)))"
    unfolding sorted_map by (rule sorted_wrt_mono_rel[OF _ s]) (rule rank_order_urgency)
  then show ?thesis using s by (simp add: ranked_list)
qed

definition demo_issue :: "string \<Rightarrow> int \<Rightarrow> string \<Rightarrow> jsval list \<Rightarrow> jsval" where
  "demo_issue ident priority created rels =
     JObj [(''identifier'', JStr ident), (''priority'', JNum (Fin priority)), (''createdAt'', JStr created),
           (''relations'', JObj [(''nodes'', JArr rels)])]"

definition demo_block :: "string \<Rightarrow> int \<Rightarrow> jsval" where
  "demo_block ident priority =
     JObj [(''type'', JStr ''blocks''), (''relatedIssue'', demo_issue ident priority [] [])]"

text \<open>A low ticket that blocks an urgent one is built before a ticket of its own tier.\<close>

theorem rankWork_sorted_witness:
  "sorted (map (\<lambda>x. urgency (rk_tier (snd x)))
     (rankWork ''2026-06-12'' (JArr [demo_issue ''A'' 3 ''2026-01-01'' [], demo_issue ''B'' 4 ''2026-01-02'' [demo_block ''C'' 1]]))) \<and>
   map (\<lambda>x. prop_of (fst x) ''identifier'')
     (rankWork ''2026-06-12'' (JArr [demo_issue ''A'' 3 ''2026-01-01'' [], demo_issue ''B'' 4 ''2026-01-02'' [demo_block ''C'' 1]]))
   = [JStr ''B'', JStr ''A'']"
proof -
  have "uniform (set [demo_issue ''A'' 3 ''2026-01-01'' [], demo_issue ''B'' 4 ''2026-01-02'' [demo_block ''C'' 1]])"
    by (simp add: uniform_def one_kind_def demo_issue_def)
  from rankWork_sorted[OF this, of "''2026-06-12''"]
  have "sorted (map (\<lambda>x. urgency (rk_tier (snd x)))
     (rankWork ''2026-06-12'' (JArr [demo_issue ''A'' 3 ''2026-01-01'' [], demo_issue ''B'' 4 ''2026-01-02'' [demo_block ''C'' 1]])))"
    by blast
  moreover have "map (\<lambda>x. prop_of (fst x) ''identifier'')
     (rankWork ''2026-06-12'' (JArr [demo_issue ''A'' 3 ''2026-01-01'' [], demo_issue ''B'' 4 ''2026-01-02'' [demo_block ''C'' 1]]))
   = [JStr ''B'', JStr ''A'']"
    by code_simp
  ultimately show ?thesis ..
qed

end
