(* ===== verification/StageChain.thy ===== *)
theory StageChain
  imports JsRegex
begin

text \<open>
  \<open>stage-chain.mjs\<close> and the callback target of \<open>callback/epic-target.mjs\<close>: consent by cron job, the
  choice of the verify chat, the arming of the verify callback and the retirement of superseded
  ones. Boss calls are the only effects: the answer to a call is an arbitrary function of the calls
  made so far, and a verb returns its result with those calls. The lemmas show that nothing is
  written without consent, that a callback is never armed twice, and which chat is chosen.
\<close>

section \<open>Repository identity\<close>

definition is_text :: "jsval \<Rightarrow> bool" where "is_text v = is_nonempty_string v"

fun after_first :: "string \<Rightarrow> string \<Rightarrow> string option" where
  "after_first p [] = (if p = [] then Some [] else None)"
| "after_first p (c # cs) =
     (if starts_with (c # cs) p then Some (drop (length p) (c # cs)) else after_first p cs)"

text \<open>\<open>s.replace(/\/+$/, '')\<close>.\<close>

definition strip_slashes :: "string \<Rightarrow> string" where
  "strip_slashes s = rev (dropWhile (\<lambda>c. c = CHR ''/'') (rev s))"

definition ends_with :: "string \<Rightarrow> string \<Rightarrow> bool" where
  "ends_with s p = starts_with (rev s) (rev p)"

definition stripGitSuffix :: "string \<Rightarrow> string" where
  "stripGitSuffix path =
     (let withoutSlashes = strip_slashes path in
      if \<not> ends_with (to_lower withoutSlashes) ''.git'' then withoutSlashes
      else strip_slashes (take (length withoutSlashes - 4) withoutSlashes))"

definition toOwnerRepoSlug :: "string \<Rightarrow> string option" where
  "toOwnerRepoSlug path =
     (case filter (\<lambda>s. s \<noteq> []) (split_on (CHR ''/'') (stripGitSuffix (trim path))) of
        owner # repo # _ \<Rightarrow>
          (if list_ex is_ws owner \<or> list_ex is_ws repo then None
           else Some (to_lower (owner @ ''/'' @ repo)))
      | _ \<Rightarrow> None)"

text \<open>\<open>/^[^/@\s]+@[^/:\s]+:(.+)$/\<close>, group 1.\<close>

definition scp_path :: "string \<Rightarrow> string option" where
  "scp_path s =
     (let user = takeWhile (\<lambda>c. c \<notin> set ''/@'' \<and> \<not> is_ws c) s; r1 = drop (length user) s;
          host = takeWhile (\<lambda>c. c \<notin> set ''/:'' \<and> \<not> is_ws c) (tl r1); r2 = drop (length host) (tl r1) in
      if user \<noteq> [] \<and> r1 \<noteq> [] \<and> hd r1 = CHR ''@'' \<and> host \<noteq> [] \<and> r2 \<noteq> [] \<and> hd r2 = CHR '':'' \<and>
         tl r2 \<noteq> [] \<and> list_all is_dot (tl r2)
      then Some (tl r2) else None)"

definition normalizeRepositoryIdentity :: "jsval \<Rightarrow> string option" where
  "normalizeRepositoryIdentity v =
     (case v of
        JStr s \<Rightarrow>
          (let t = trim s in
           if t = [] then None
           else (case scp_path t of
                   Some p \<Rightarrow> toOwnerRepoSlug p
                 | None \<Rightarrow>
                     (case after_first ''://'' t of
                        None \<Rightarrow> toOwnerRepoSlug t
                      | Some authorityAndPath \<Rightarrow>
                          (case after_first ''/'' authorityAndPath of
                             None \<Rightarrow> None | Some p \<Rightarrow> toOwnerRepoSlug p))))
      | _ \<Rightarrow> None)"

definition isVerifiedCandidate :: "jsval \<Rightarrow> string \<Rightarrow> bool" where
  "isVerifiedCandidate candidate wantedRepo \<longleftrightarrow>
     is_text (prop_of candidate ''chatId'') \<and>
     normalizeRepositoryIdentity (prop_of candidate ''repo'') = Some wantedRepo"

definition selectEpicCallbackTarget :: "jsval \<Rightarrow> jsval \<Rightarrow> jsval \<Rightarrow> (jsval \<times> string) option" where
  "selectEpicCallbackTarget childPrRepo orchestrator child =
     (case normalizeRepositoryIdentity childPrRepo of
        None \<Rightarrow> None
      | Some wantedRepo \<Rightarrow>
          (case find (\<lambda>c. isVerifiedCandidate c wantedRepo) [orchestrator, child] of
             None \<Rightarrow> None | Some c \<Rightarrow> Some (prop_of c ''chatId'', wantedRepo)))"

definition epicWaitGroup :: "int \<Rightarrow> string \<Rightarrow> string" where
  "epicWaitGroup pr trigger = ''epicwait-'' @ show_int pr @ ''-'' @ trigger"

definition isEpicWaitGroup :: "jsval \<Rightarrow> int \<Rightarrow> bool" where
  "isEpicWaitGroup groupId pr =
     (case groupId of JStr s \<Rightarrow> starts_with s (epicWaitGroup pr []) | _ \<Rightarrow> False)"

section \<open>Pure decisions\<close>

definition STAGE_SKILL :: "(string \<times> string) list" where
  "STAGE_SKILL = [(''plan'', ''boss-plan''), (''build'', ''boss-build''), (''verify'', ''boss-verify''),
     (''release'', ''boss-release'')]"

definition VERIFY_CHAT_ROLE :: string where "VERIFY_CHAT_ROLE = ''verify''"
definition VERIFY_CHAT_TITLE :: string where "VERIFY_CHAT_TITLE = ''verify''"
definition VERIFY_TRIGGER :: string where "VERIFY_TRIGGER = ''checks_passed_ready''"
definition VERIFY_CALLBACK_EXPIRY :: string where "VERIFY_CALLBACK_EXPIRY = ''7d''"

definition lower_alnum :: "char \<Rightarrow> bool" where
  "lower_alnum c = (is_digit c \<or> (97 \<le> (of_char c :: nat) \<and> (of_char c :: nat) \<le> 122))"

definition word_char :: "char \<Rightarrow> bool" where
  "word_char c = (lower_alnum (lower_char c) \<or> c = CHR ''_'')"

text \<open>
  \<open>[/$]([a-z0-9][a-z0-9-]*)(?![A-Za-z0-9_\-/:])\<close> at the front: a shorter name would be followed by a
  name character, which the look-ahead refuses, so the greedy name is the only one.
\<close>

definition skill_here :: "string \<Rightarrow> string option" where
  "skill_here s =
     (case s of
        c # d # ds \<Rightarrow>
          (let nm = takeWhile (\<lambda>x. lower_alnum x \<or> x = CHR ''-'') (d # ds);
               rest = drop (length nm) (d # ds) in
           if c \<in> set ''/$'' \<and> lower_alnum d \<and>
              (rest = [] \<or> \<not> (word_char (hd rest) \<or> hd rest \<in> set ''-/:''))
           then Some nm else None)
      | _ \<Rightarrow> None)"

fun skill_after_space :: "string \<Rightarrow> string option" where
  "skill_after_space [] = None"
| "skill_after_space (c # cs) =
     (case (if is_ws c then skill_here cs else None) of
        Some nm \<Rightarrow> Some nm | None \<Rightarrow> skill_after_space cs)"

definition invokedSkill :: "jsval \<Rightarrow> string option" where
  "invokedSkill prompt =
     (case prompt of
        JStr s \<Rightarrow> (case skill_here s of Some nm \<Rightarrow> Some nm | None \<Rightarrow> skill_after_space s)
      | _ \<Rightarrow> None)"

definition invokes :: "jsval \<Rightarrow> string \<Rightarrow> bool" where
  "invokes job skill \<longleftrightarrow> is_object job \<and> invokedSkill (prop_of job ''prompt'') = Some skill"

definition hasStageJob :: "string \<Rightarrow> jsval \<Rightarrow> bool" where
  "hasStageJob stage jobs =
     (case map_of STAGE_SKILL stage of
        None \<Rightarrow> False
      | Some skill \<Rightarrow>
          is_array jobs \<and>
          list_ex (\<lambda>job. invokes job skill \<and> prop_of job ''enabled'' = JBool True) (array_or_empty jobs))"

definition normalizeStatus :: "jsval \<Rightarrow> string" where
  "normalizeStatus status =
     (let s = to_upper (trim (js_string (coalesce status (JStr [])))) in
      if starts_with s ''CHAT_STATUS_'' then drop 12 s else s)"

definition chatIsBusy :: "jsval \<Rightarrow> bool" where
  "chatIsBusy chat = (normalizeStatus (prop_of chat ''status'') = ''WORKING'')"

text \<open>\<open>None\<close> is \<open>-Infinity\<close>.\<close>

definition createdMs :: "jsval \<Rightarrow> int option" where
  "createdMs chat = date_parse (js_string (coalesce (prop_of chat ''created_at'') (JStr [])))"

definition newer :: "jsval \<Rightarrow> jsval \<Rightarrow> bool" where
  "newer a b =
     (case (createdMs a, createdMs b) of
        (Some x, Some y) \<Rightarrow> y < x | (Some x, None) \<Rightarrow> True | (None, _) \<Rightarrow> False)"

definition keep_newer :: "jsval \<Rightarrow> jsval option \<Rightarrow> jsval option" where
  "keep_newer chat best = (case best of None \<Rightarrow> Some chat | Some b \<Rightarrow> if newer chat b then Some chat else best)"

definition chat_role :: "jsval \<Rightarrow> string" where
  "chat_role chat = to_lower (trim (string_or_empty (prop_of chat ''role'')))"

definition live_chat :: "jsval \<Rightarrow> bool" where
  "live_chat chat \<longleftrightarrow>
     is_object chat \<and> is_text (prop_of chat ''agent_session_id'') \<and>
     normalizeStatus (prop_of chat ''status'') \<noteq> ''STOPPED''"

definition pick_step :: "jsval \<Rightarrow> jsval option \<times> jsval option \<Rightarrow> jsval option \<times> jsval option" where
  "pick_step chat = (\<lambda>(byRole, byTitle).
     if \<not> live_chat chat then (byRole, byTitle)
     else if chat_role chat = VERIFY_CHAT_ROLE then (keep_newer chat byRole, byTitle)
     else if chat_role chat = [] \<and> is_string (prop_of chat ''title'') \<and>
             to_lower (trim (string_or_empty (prop_of chat ''title''))) = VERIFY_CHAT_TITLE
     then (byRole, keep_newer chat byTitle)
     else (byRole, byTitle))"

definition pickVerifyChat :: "jsval \<Rightarrow> jsval option" where
  "pickVerifyChat chats =
     (case fold pick_step (array_or_empty chats) (None, None) of
        (byRole, byTitle) \<Rightarrow> (case byRole of Some c \<Rightarrow> Some c | None \<Rightarrow> byTitle))"

definition is_verify_chat :: "jsval \<Rightarrow> bool" where
  "is_verify_chat chat \<longleftrightarrow>
     is_text (prop_of chat ''agent_session_id'') \<and>
     (let role = to_lower (trim (js_string (coalesce (prop_of chat ''role'') (JStr [])))) in
      role = VERIFY_CHAT_ROLE \<or>
      role = [] \<and> to_lower (trim (js_string (coalesce (prop_of chat ''title'') (JStr [])))) = VERIFY_CHAT_TITLE)"

definition verifyChats :: "jsval \<Rightarrow> jsval list" where
  "verifyChats chats = filter is_verify_chat (array_or_empty chats)"

definition nextVerifyTitle :: "jsval \<Rightarrow> string" where
  "nextVerifyTitle chats =
     (let count = length (verifyChats chats) in
      if count = 0 then VERIFY_CHAT_TITLE else VERIFY_CHAT_TITLE @ '' '' @ show_nat (count + 1))"

definition reverifyGroup :: "int \<Rightarrow> string \<Rightarrow> string" where
  "reverifyGroup pr head = ''reverify-'' @ show_int pr @ ''-'' @ take 12 head"

definition supersededRows :: "jsval \<Rightarrow> jsval list \<Rightarrow> int \<Rightarrow> jsval list" where
  "supersededRows rows chatIds pr =
     filter (\<lambda>row. truthy row \<and> is_text (prop_of row ''id'') \<and>
         prop_of row ''pr_number'' = JNum (Fin pr) \<and> prop_of row ''trigger'' = JStr VERIFY_TRIGGER \<and>
         to_lower (js_string (prop_of row ''state'')) = ''active'' \<and>
         prop_of row ''target_chat_id'' \<in> set chatIds)
       (array_or_empty rows)"

definition group_name :: "jsval \<Rightarrow> string" where
  "group_name row = js_string (coalesce (prop_of row ''group_id'') (JStr []))"

definition reverify_prefix :: "int \<Rightarrow> string" where
  "reverify_prefix pr = ''reverify-'' @ show_int pr @ ''-''"

definition routedSupersedeRows :: "jsval \<Rightarrow> jsval list \<Rightarrow> int \<Rightarrow> string \<Rightarrow> jsval list" where
  "routedSupersedeRows rows chatIds pr head =
     filter (\<lambda>row. \<not> starts_with (group_name row) (reverify_prefix pr) \<or> group_name row = reverifyGroup pr head)
       (supersededRows rows chatIds pr)"

definition reusableChat :: "jsval list \<Rightarrow> jsval list \<Rightarrow> int \<Rightarrow> jsval option" where
  "reusableChat rows chats pr =
     (let pendingIds = map (\<lambda>row. prop_of row ''target_chat_id'')
            (filter (\<lambda>row. starts_with (group_name row) (reverify_prefix pr)) rows) in
      pickVerifyChat (JArr (filter (\<lambda>chat. prop_of chat ''agent_session_id'' \<in> set pendingIds)
        (verifyChats (JArr chats)))))"

datatype arm = Arm_state | Arm_transition | Arm_none

definition arm_name :: "arm \<Rightarrow> string" where
  "arm_name a = (case a of Arm_state \<Rightarrow> ''state'' | Arm_transition \<Rightarrow> ''transition'' | Arm_none \<Rightarrow> ''none'')"

definition armDecision :: "jsval \<Rightarrow> jsval \<Rightarrow> arm \<times> string" where
  "armDecision rec runId =
     (if \<not> is_plain_object rec then (Arm_state, ''no-record'')
      else if is_text runId \<and> prop_of rec ''runId'' \<noteq> runId then (Arm_state, ''stale-record'')
      else if prop_of rec ''action'' = JStr ''merged'' then (Arm_none, ''merged'')
      else
        (let reason = trim (string_or_empty (prop_of rec ''reason'')); kind = hd (split_on (CHR '':'') reason) in
         if kind = ''human'' then (Arm_none, ''human'')
         else if kind = ''epic-child'' then (Arm_none, ''epic-child'')
         else if kind = ''defect'' \<or> kind = ''blocked'' then (Arm_transition, kind)
         else (Arm_state, if reason \<noteq> [] then reason else ''unrecognized-record'')))"

definition epicCoordinated :: "jsval list \<Rightarrow> int \<Rightarrow> string \<Rightarrow> jsval option" where
  "epicCoordinated rows pr repo =
     find (\<lambda>row. prop_of row ''pr_number'' = JNum (Fin pr) \<and> is_text (prop_of row ''repo_owner'') \<and>
         is_text (prop_of row ''repo_name'') \<and>
         to_lower (string_or_empty (prop_of row ''repo_owner'') @ ''/'' @ string_or_empty (prop_of row ''repo_name'')) = repo \<and>
         isEpicWaitGroup (prop_of row ''group_id'') pr \<and>
         to_lower (js_string (prop_of row ''state'')) \<in> set [''active'', ''leased'', ''triggered''])
       rows"

section \<open>Boss command lines\<close>

definition repoShowArgv :: "string \<Rightarrow> string list" where
  "repoShowArgv repoId = [''repo'', ''show'', repoId, ''--json'']"

definition repoSlugFromSettings :: "jsval \<Rightarrow> string option" where
  "repoSlugFromSettings v = normalizeRepositoryIdentity (prop_of v ''originUrl'')"

definition prWatchesArgv :: "int \<Rightarrow> string \<Rightarrow> string list" where
  "prWatchesArgv pr repo = [''callback'', ''list'', ''--pr'', show_int pr, ''--repo'', repo, ''--json'']"

definition cronListArgv :: "string \<Rightarrow> string list" where
  "cronListArgv repoId = [''cron'', ''ls'', ''--repo'', repoId, ''--json'']"

definition verifyChatArgv :: "string \<Rightarrow> string \<Rightarrow> string list" where
  "verifyChatArgv sessionId title =
     [''chat'', ''new'', sessionId, ''--title'', title, ''--role'', VERIFY_CHAT_ROLE, ''--json'']"

definition armedListArgv :: "int \<Rightarrow> string \<Rightarrow> string list" where
  "armedListArgv pr chatId =
     [''callback'', ''list'', ''--chat'', chatId, ''--pr'', show_int pr, ''--trigger'', VERIFY_TRIGGER,
      ''--state'', ''active'', ''--json'']"

definition verifyCallbackArgv :: "int \<Rightarrow> string \<Rightarrow> bool \<Rightarrow> string list" where
  "verifyCallbackArgv pr chatId onTransition =
     [''callback'', ''add'', show_int pr, VERIFY_TRIGGER, ''--chat'', chatId, ''--message'',
      ''/boss-verify '' @ show_int pr, ''--expires-in'', VERIFY_CALLBACK_EXPIRY] @
     (if onTransition then [''--on-transition''] else []) @ [''--json'']"

definition activeVerifyCallbacksArgv :: "int \<Rightarrow> string list" where
  "activeVerifyCallbacksArgv pr =
     [''callback'', ''list'', ''--pr'', show_int pr, ''--trigger'', VERIFY_TRIGGER, ''--state'', ''active'', ''--json'']"

definition removeCallbackArgv :: "jsval \<Rightarrow> string list" where
  "removeCallbackArgv row =
     [''callback'', ''remove'', js_string (prop_of row ''id''), ''--chat'', js_string (prop_of row ''target_chat_id'')]"

definition reverifyCallbackArgv :: "int \<Rightarrow> string \<Rightarrow> string \<Rightarrow> string list" where
  "reverifyCallbackArgv pr chatId head =
     butlast (verifyCallbackArgv pr chatId False) @ [''--group'', reverifyGroup pr head, ''--json'']"

definition phaseArgv :: "string \<Rightarrow> string list" where "phaseArgv name = [''session'', ''phase'', name]"

section \<open>The command line\<close>

datatype usage_error =
    Unknown_verb "string option"
  | Needs_value string
  | Unknown_argument string
  | Bad_pr
  | Bad_head
  | Bad_phase

record chain_opts =
  o_verb :: string
  o_dryRun :: bool
  o_pr :: "string option"
  o_head :: "string option"
  o_completion :: "string option"
  o_runId :: "string option"
  o_session :: "string option"
  o_positionals :: "string list"

definition flag_value :: "string \<Rightarrow> string list \<Rightarrow> usage_error + (string \<times> string list)" where
  "flag_value arg rest =
     (case rest of
        [] \<Rightarrow> Inl (Needs_value arg)
      | v # vs \<Rightarrow> if starts_with v ''--'' then Inl (Needs_value arg) else Inr (v, vs))"

text \<open>The flags of a verb, by the field each one sets.\<close>

definition value_flag :: "string \<Rightarrow> string \<Rightarrow> (string \<Rightarrow> chain_opts \<Rightarrow> chain_opts) option" where
  "value_flag verb arg =
     (if arg = ''--pr'' \<and> verb \<noteq> ''phase'' then Some (\<lambda>v o'. o'\<lparr>o_pr := Some v\<rparr>)
      else if arg = ''--head'' \<and> verb = ''arm-reverify'' then Some (\<lambda>v o'. o'\<lparr>o_head := Some v\<rparr>)
      else if arg = ''--completion'' \<and> verb = ''arm-verify'' then Some (\<lambda>v o'. o'\<lparr>o_completion := Some v\<rparr>)
      else if arg = ''--run-id'' \<and> verb = ''arm-verify'' then Some (\<lambda>v o'. o'\<lparr>o_runId := Some v\<rparr>)
      else if arg = ''--session'' \<and> verb \<noteq> ''phase'' then Some (\<lambda>v o'. o'\<lparr>o_session := Some v\<rparr>)
      else None)"

fun parse_rest :: "nat \<Rightarrow> string list \<Rightarrow> chain_opts \<Rightarrow> usage_error + chain_opts" where
  "parse_rest 0 args o' = Inr o'"
| "parse_rest (Suc n) [] o' = Inr o'"
| "parse_rest (Suc n) (arg # rest) o' =
     (if arg = ''--dry-run'' then parse_rest n rest (o'\<lparr>o_dryRun := True\<rparr>)
      else case value_flag (o_verb o') arg of
          Some put \<Rightarrow>
            (case flag_value arg rest of
               Inl e \<Rightarrow> Inl e | Inr (v, vs) \<Rightarrow> parse_rest n vs (put v o'))
        | None \<Rightarrow>
            if \<not> starts_with arg ''--'' \<and> o_verb o' = ''phase''
            then parse_rest n rest (o'\<lparr>o_positionals := o_positionals o' @ [arg]\<rparr>)
            else Inl (Unknown_argument arg))"

text \<open>\<open>/^[1-9]\d*$/\<close> and \<open>/^[a-fA-F0-9]{7,40}$/\<close>.\<close>

definition pr_number :: "string \<Rightarrow> bool" where
  "pr_number s \<longleftrightarrow> s \<noteq> [] \<and> hd s \<noteq> CHR ''0'' \<and> list_all is_digit s"

definition short_sha :: "string \<Rightarrow> bool" where
  "short_sha s \<longleftrightarrow> 7 \<le> length s \<and> length s \<le> 40 \<and>
     list_all (\<lambda>c. is_digit c \<or> lower_char c \<in> set ''abcdef'') s"

definition opt_string :: "string option \<Rightarrow> string" where
  "opt_string v = (case v of Some s \<Rightarrow> s | None \<Rightarrow> [])"

definition check_opts :: "chain_opts \<Rightarrow> usage_error + chain_opts" where
  "check_opts o' =
     (if o_verb o' \<noteq> ''phase'' \<and> \<not> pr_number (opt_string (o_pr o')) then Inl Bad_pr
      else if o_verb o' = ''arm-reverify'' \<and> \<not> short_sha (opt_string (o_head o')) then Inl Bad_head
      else if o_verb o' = ''phase'' \<and> \<not> (\<exists>p \<in> set (o_positionals o'). o_positionals o' = [p] \<and> trim p \<noteq> [])
      then Inl Bad_phase
      else Inr o')"

definition parseArgs :: "string list \<Rightarrow> usage_error + chain_opts" where
  "parseArgs argv =
     (case argv of
        [] \<Rightarrow> Inl (Unknown_verb None)
      | verb # rest \<Rightarrow>
          if verb \<notin> set [''arm-verify'', ''arm-reverify'', ''phase''] then Inl (Unknown_verb (Some verb))
          else (case parse_rest (length rest) rest
                  \<lparr>o_verb = verb, o_dryRun = False, o_pr = None, o_head = None, o_completion = None,
                   o_runId = None, o_session = None, o_positionals = []\<rparr> of
                  Inl e \<Rightarrow> Inl e | Inr o' \<Rightarrow> check_opts o'))"

section \<open>Verbs\<close>

text \<open>
  One answer of the boss binary. The host answers as an arbitrary function of the calls made so far,
  the last of them the one it answers; \<open>JSON.parse\<close> is an argument.
\<close>

record call_answer =
  ca_ok :: bool
  ca_error :: string
  ca_stdout :: string
  ca_stderr :: string

record chain_host =
  ch_env :: "string \<Rightarrow> string option"
  ch_boss :: "string + string"
  ch_call :: "string list list \<Rightarrow> call_answer"
  ch_parse :: "string \<Rightarrow> jsval option"
  ch_file :: "string \<Rightarrow> jsval"

type_synonym calls = "string list list"

definition firstLine :: "string \<Rightarrow> string" where
  "firstLine s =
     (case find (\<lambda>l. l \<noteq> []) (map trim (split_on (CHR 0x0A) s)) of Some l \<Rightarrow> l | None \<Rightarrow> [])"

definition callJson :: "chain_host \<Rightarrow> calls \<Rightarrow> string list \<Rightarrow> (string \<times> string) + jsval" where
  "callJson host h args =
     (let r = ch_call host (h @ [args]) in
      if \<not> ca_ok r then Inl (ca_error r, firstLine (ca_stderr r))
      else case ch_parse host (ca_stdout r) of
          None \<Rightarrow> Inl (''unreadable-json'', [])
        | Some v \<Rightarrow> Inr v)"

definition verb_out :: "string \<Rightarrow> jsval dict \<Rightarrow> jsval" where
  "verb_out verb fs = JObj ((''verb'', JStr verb) # fs)"

definition with_detail :: "string \<Rightarrow> jsval dict" where
  "with_detail detail = (if detail = [] then [] else [(''detail'', JStr detail)])"

definition skipped_out :: "string \<Rightarrow> string \<Rightarrow> string \<Rightarrow> jsval" where
  "skipped_out verb reason detail =
     verb_out verb ([(''action'', JStr ''skipped''), (''reason'', JStr reason)] @ with_detail detail)"

definition failed_out :: "string \<Rightarrow> string \<Rightarrow> string \<Rightarrow> jsval" where
  "failed_out verb reason detail =
     verb_out verb ([(''action'', JStr ''error''), (''reason'', JStr reason)] @ with_detail detail)"

definition none_out :: "string \<Rightarrow> string \<Rightarrow> jsval" where
  "none_out verb reason = verb_out verb [(''action'', JStr ''none''), (''reason'', JStr reason)]"

definition strings :: "string list list \<Rightarrow> jsval" where
  "strings argvs = JArr (map (\<lambda>argv. JArr (map JStr argv)) argvs)"

definition run_phase :: "chain_host \<Rightarrow> chain_opts \<Rightarrow> jsval \<times> calls" where
  "run_phase host o' =
     (let verb = o_verb o'; nm = hd (o_positionals o'); argv = phaseArgv nm in
      if o_dryRun o' then (verb_out verb [(''action'', JStr ''dry-run''), (''argv'', strings [argv])], [])
      else (let r = ch_call host [argv] in
        (if ca_ok r then verb_out verb [(''action'', JStr ''set''), (''phase'', JStr nm)]
         else if str_contains (to_lower (ca_stderr r @ [CHR 0x0A] @ ca_stdout r)) ''unknown command''
         then skipped_out verb ''phase-unsupported'' []
         else failed_out verb (ca_error r) (firstLine (ca_stderr r)), [argv])))"

definition created_chat :: "jsval \<Rightarrow> string" where
  "created_chat v =
     trim (js_string (coalesce (prop_of (prop_of v ''chat'') ''agent_session_id'') (JStr [])))"

definition id_of :: "jsval \<Rightarrow> jsval" where
  "id_of v = JStr (js_string (coalesce (prop_of v ''id'') (JStr [])))"

definition live_callback :: "jsval list \<Rightarrow> int \<Rightarrow> string \<Rightarrow> jsval option" where
  "live_callback rows pr chatId =
     find (\<lambda>row. truthy row \<and> prop_of row ''pr_number'' = JNum (Fin pr) \<and>
         prop_of row ''target_chat_id'' = JStr chatId \<and> prop_of row ''trigger'' = JStr VERIFY_TRIGGER \<and>
         to_lower (js_string (prop_of row ''state'')) = ''active'') rows"

text \<open>The add of \<open>arm-verify\<close>, once the chat is known.\<close>

definition arm_chat ::
  "chain_host \<Rightarrow> string \<Rightarrow> calls \<Rightarrow> int \<Rightarrow> arm \<Rightarrow> string \<Rightarrow> string \<Rightarrow> bool \<Rightarrow> jsval \<times> calls" where
  "arm_chat host verb h pr mode reason chatId chatCreated =
     (let argv = verifyCallbackArgv pr chatId (mode = Arm_transition) in
      (case callJson host h argv of
         Inl (e, detail) \<Rightarrow> failed_out verb (''callback-add-'' @ e) detail
       | Inr v \<Rightarrow> verb_out verb
           [(''action'', JStr ''armed''), (''chatId'', JStr chatId), (''chatCreated'', JBool chatCreated),
            (''mode'', JStr (arm_name mode)), (''reason'', JStr reason), (''callbackId'', id_of v)],
       h @ [argv]))"

definition arm_verify ::
  "chain_host \<Rightarrow> chain_opts \<Rightarrow> string \<Rightarrow> int \<Rightarrow> calls \<Rightarrow> jsval \<times> calls" where
  "arm_verify host o' sessionId pr h =
     (let verb = o_verb o';
          rec = (if trim (opt_string (o_completion o')) = [] then JNull
                 else ch_file host (opt_string (o_completion o')));
          runId = (case o_runId o' of Some r \<Rightarrow> JStr r | None \<Rightarrow> JUndef) in
      case armDecision rec runId of (mode, reason) \<Rightarrow>
      if mode = Arm_none then (none_out verb reason, h)
      else
        (let chats = [''chats'', sessionId, ''--json''] in
         case callJson host h chats of
           Inl (e, detail) \<Rightarrow> (failed_out verb (''chats-'' @ e) detail, h @ [chats])
         | Inr listed \<Rightarrow>
             if \<not> is_array (prop_of listed ''chats'')
             then (failed_out verb ''chats-unreadable-json'' [], h @ [chats])
             else
               (case pickVerifyChat (prop_of listed ''chats'') of
                  Some chat \<Rightarrow>
                    (let chatId = string_or_empty (prop_of chat ''agent_session_id'');
                         list_armed = armedListArgv pr chatId; h1 = h @ [chats, list_armed] in
                     case callJson host (h @ [chats]) list_armed of
                       Inl (e, detail) \<Rightarrow> (failed_out verb (''callback-list-'' @ e) detail, h1)
                     | Inr armed \<Rightarrow>
                         if \<not> is_array armed then (failed_out verb ''callback-list-unreadable-json'' [], h1)
                         else
                           (case live_callback (array_or_empty armed) pr chatId of
                              Some live \<Rightarrow>
                                (verb_out verb [(''action'', JStr ''already-armed''), (''chatId'', JStr chatId),
                                   (''callbackId'', id_of live)], h1)
                            | None \<Rightarrow> arm_chat host verb h1 pr mode reason chatId False))
                | None \<Rightarrow>
                    (let new = verifyChatArgv sessionId VERIFY_CHAT_TITLE; h1 = h @ [chats, new] in
                     case callJson host (h @ [chats]) new of
                       Inl (e, detail) \<Rightarrow> (failed_out verb (''chat-new-'' @ e) detail, h1)
                     | Inr created \<Rightarrow>
                         if created_chat created = [] then (failed_out verb ''chat-new-no-chat-id'' [], h1)
                         else arm_chat host verb h1 pr mode reason (created_chat created) True))))"

text \<open>\<open>for (const row of superseded)\<close>: remove each, keeping who failed.\<close>

fun remove_rows :: "chain_host \<Rightarrow> calls \<Rightarrow> jsval list \<Rightarrow> (jsval list \<times> jsval list) \<times> calls" where
  "remove_rows host h [] = (([], []), h)"
| "remove_rows host h (row # rows) =
     (let argv = removeCallbackArgv row; r = ch_call host (h @ [argv]) in
      case remove_rows host (h @ [argv]) rows of ((removed, failed), h') \<Rightarrow>
        ((if ca_ok r then (prop_of row ''id'' # removed, failed)
          else (removed, JObj [(''id'', prop_of row ''id''),
                  (''reason'', JStr (if firstLine (ca_stderr r) \<noteq> [] then firstLine (ca_stderr r) else ca_error r))]
                # failed)), h'))"

text \<open>The add of \<open>arm-reverify\<close>, once the chat is known, and the retirement of the old rows.\<close>

definition rearm_chat ::
  "chain_host \<Rightarrow> string \<Rightarrow> calls \<Rightarrow> int \<Rightarrow> string \<Rightarrow> jsval list \<Rightarrow> string \<Rightarrow> jsval \<Rightarrow> bool \<Rightarrow> jsval \<times> calls" where
  "rearm_chat host verb h pr head superseded chatId chatTitle chatCreated =
     (let argv = reverifyCallbackArgv pr chatId head in
      case callJson host h argv of
        Inl (e, detail) \<Rightarrow> (failed_out verb (''callback-add-'' @ e) detail, h @ [argv])
      | Inr v \<Rightarrow>
          (case remove_rows host (h @ [argv]) superseded of ((removed, failed), h') \<Rightarrow>
             (verb_out verb
                [(''action'', JStr ''armed''), (''chatId'', JStr chatId), (''chatCreated'', JBool chatCreated),
                 (''chatTitle'', chatTitle), (''head'', JStr head), (''callbackId'', id_of v),
                 (''superseded'', JArr removed), (''supersedeFailed'', JArr failed)], h')))"

definition armReverify ::
  "chain_host \<Rightarrow> chain_opts \<Rightarrow> string \<Rightarrow> int \<Rightarrow> jsval \<Rightarrow> calls \<Rightarrow> jsval \<times> calls" where
  "armReverify host o' sessionId pr rows h =
     (let verb = o_verb o'; head = opt_string (o_head o'); listing = [''chats'', sessionId, ''--json''];
          h0 = h @ [listing] in
      case callJson host h listing of
        Inl (e, detail) \<Rightarrow> (failed_out verb (''chats-'' @ e) detail, h0)
      | Inr listed \<Rightarrow>
          if \<not> is_array (prop_of listed ''chats'') then (failed_out verb ''chats-unreadable-json'' [], h0)
          else
            (let chats = verifyChats (prop_of listed ''chats'');
                 superseded = supersededRows rows (map (\<lambda>c. prop_of c ''agent_session_id'') chats) pr;
                 reusable = reusableChat superseded chats pr in
             case reusable of
               Some chat \<Rightarrow>
                 rearm_chat host verb h0 pr head superseded (string_or_empty (prop_of chat ''agent_session_id''))
                   (coalesce (prop_of chat ''title'') (JStr (nextVerifyTitle (JArr chats)))) False
             | None \<Rightarrow>
                 (let title = nextVerifyTitle (JArr chats); new = verifyChatArgv sessionId title; h1 = h0 @ [new] in
                  case callJson host h0 new of
                    Inl (e, detail) \<Rightarrow> (failed_out verb (''chat-new-'' @ e) detail, h1)
                  | Inr created \<Rightarrow>
                      if created_chat created = [] then (failed_out verb ''chat-new-no-chat-id'' [], h1)
                      else rearm_chat host verb h1 pr head superseded (created_chat created) (JStr title) True)))"

definition dry_run :: "string \<Rightarrow> string \<Rightarrow> string \<Rightarrow> int \<Rightarrow> string \<Rightarrow> string list list" where
  "dry_run verb repoId sessionId pr head =
     [cronListArgv repoId, repoShowArgv repoId, prWatchesArgv pr ''<owner/repo>'', [''chats'', sessionId, ''--json'']] @
     (if verb = ''arm-reverify''
      then [verifyChatArgv sessionId ''<nextVerifyTitle>'', reverifyCallbackArgv pr ''<verifyChat>'' head,
            removeCallbackArgv (JObj [(''id'', JStr ''<supersededId>''), (''target_chat_id'', JStr ''<supersededChat>'')])]
      else [verifyChatArgv sessionId VERIFY_CHAT_TITLE, armedListArgv pr ''<verifyChat>'',
            verifyCallbackArgv pr ''<verifyChat>'' False])"

text \<open>Consent, the repository and the epic coordinator, before either arming verb writes.\<close>

definition arm_either :: "chain_host \<Rightarrow> chain_opts \<Rightarrow> string \<Rightarrow> string \<Rightarrow> int \<Rightarrow> jsval \<times> calls" where
  "arm_either host o' repoId sessionId pr =
     (let verb = o_verb o'; cron = cronListArgv repoId; show = repoShowArgv repoId in
      case callJson host [] cron of
        Inl (e, detail) \<Rightarrow> (failed_out verb (''cron-ls-'' @ e) detail, [cron])
      | Inr jobs \<Rightarrow>
        if \<not> hasStageJob ''verify'' jobs then (none_out verb ''no-verify-cron'', [cron])
        else
        (case callJson host [cron] show of
           Inl (e, detail) \<Rightarrow> (failed_out verb (''repo-identity-'' @ e) detail, [cron, show])
         | Inr settings \<Rightarrow>
         (case repoSlugFromSettings settings of
            None \<Rightarrow> (failed_out verb ''repo-identity-unresolved'' [], [cron, show])
          | Some repo \<Rightarrow>
          (let list_watches = prWatchesArgv pr repo; h = [cron, show, list_watches] in
           case callJson host [cron, show] list_watches of
             Inl (e, detail) \<Rightarrow> (failed_out verb (''callback-list-'' @ e) detail, h)
           | Inr watches \<Rightarrow>
             if \<not> is_array watches then (failed_out verb ''callback-list-unreadable-json'' [], h)
             else (case epicCoordinated (array_or_empty watches) pr repo of
                 Some coordinator \<Rightarrow>
                   (skipped_out verb ''epic-child'' (string_or_empty (prop_of coordinator ''group_id'')), h)
               | None \<Rightarrow>
                   if verb = ''arm-reverify'' then armReverify host o' sessionId pr watches h
                   else arm_verify host o' sessionId pr h)))))"

definition runVerb :: "chain_host \<Rightarrow> chain_opts \<Rightarrow> jsval \<times> calls" where
  "runVerb host o' =
     (let verb = o_verb o';
          repoId = trim (opt_string (ch_env host ''BOSS_REPO_ID''));
          pr = (case decimal_val (opt_string (o_pr o')) of Some n \<Rightarrow> n | None \<Rightarrow> 0);
          sessionId = (if trim (opt_string (o_session o')) \<noteq> [] then trim (opt_string (o_session o'))
                       else trim (opt_string (ch_env host ''BOSS_SESSION_ID''))) in
      if opt_string (ch_env host ''BOSS_SESSION_ID'') = [] then (skipped_out verb ''not-managed'' [], [])
      else if verb \<noteq> ''phase'' \<and> repoId = [] then (skipped_out verb ''no-repo-id'' [], [])
      else case ch_boss host of
          Inl reason \<Rightarrow> (skipped_out verb ''no-boss-binary'' reason, [])
        | Inr _ \<Rightarrow>
            if verb = ''phase'' then run_phase host o'
            else if o_dryRun o'
            then (verb_out verb [(''action'', JStr ''dry-run''),
                    (''argv'', strings (dry_run verb repoId sessionId pr (opt_string (o_head o'))))], [])
            else arm_either host o' repoId sessionId pr)"

text \<open>\<open>main\<close>: a usage error exits 64 with nothing printed; everything else prints one line and exits 0.\<close>

definition stage_main :: "chain_host \<Rightarrow> string list \<Rightarrow> (nat \<times> jsval option) \<times> calls" where
  "stage_main host argv =
     (case parseArgs argv of
        Inl e \<Rightarrow> ((64, None), [])
      | Inr o' \<Rightarrow> (case runVerb host o' of (result, calls) \<Rightarrow> ((0, Some result), calls)))"

section \<open>The verify chat\<close>

text \<open>The two classes a verify chat is chosen from.\<close>

definition by_role :: "jsval \<Rightarrow> bool" where
  "by_role chat \<longleftrightarrow> live_chat chat \<and> chat_role chat = VERIFY_CHAT_ROLE"

definition by_title :: "jsval \<Rightarrow> bool" where
  "by_title chat \<longleftrightarrow> live_chat chat \<and> chat_role chat = [] \<and> is_string (prop_of chat ''title'') \<and>
     to_lower (trim (string_or_empty (prop_of chat ''title''))) = VERIFY_CHAT_TITLE"

definition newest_of :: "jsval option \<Rightarrow> jsval set \<Rightarrow> bool" where
  "newest_of best D =
     (case best of None \<Rightarrow> D = {} | Some c \<Rightarrow> c \<in> D \<and> (\<forall>d \<in> D. \<not> newer d c))"

lemma newer_trans: "\<not> newer d b \<Longrightarrow> newer c b \<Longrightarrow> \<not> newer d c"
  by (auto simp: newer_def split: option.splits)

lemma newer_irrefl [simp]: "\<not> newer c c"
  by (simp add: newer_def split: option.split)

lemma keep_newer_newest: "newest_of best D \<Longrightarrow> newest_of (keep_newer chat best) (insert chat D)"
  by (auto simp: newest_of_def keep_newer_def split: option.splits dest: newer_trans)

lemma pick_step_newest:
  assumes "newest_of r (Collect by_role \<inter> D)" "newest_of t (Collect by_title \<inter> D)"
    and "pick_step chat (r, t) = (r', t')"
  shows "newest_of r' (Collect by_role \<inter> insert chat D) \<and> newest_of t' (Collect by_title \<inter> insert chat D)"
proof -
  have ne: "VERIFY_CHAT_ROLE \<noteq> []" by (simp add: VERIFY_CHAT_ROLE_def)
  consider (role) "by_role chat" "\<not> by_title chat" "r' = keep_newer chat r" "t' = t"
    | (title) "by_title chat" "\<not> by_role chat" "r' = r" "t' = keep_newer chat t"
    | (none) "\<not> by_role chat" "\<not> by_title chat" "r' = r" "t' = t"
    using assms(3) ne by (auto simp: pick_step_def by_role_def by_title_def split: if_splits)
  then show ?thesis
    using assms(1,2) keep_newer_newest[of r "Collect by_role \<inter> D" chat]
      keep_newer_newest[of t "Collect by_title \<inter> D" chat]
    by cases simp_all
qed

lemma pick_fold_newest:
  "newest_of r (Collect by_role \<inter> D) \<Longrightarrow> newest_of t (Collect by_title \<inter> D) \<Longrightarrow>
   fold pick_step cs (r, t) = (r', t') \<Longrightarrow>
   newest_of r' (Collect by_role \<inter> (D \<union> set cs)) \<and> newest_of t' (Collect by_title \<inter> (D \<union> set cs))"
proof (induction cs arbitrary: r t D)
  case (Cons c cs)
  obtain r1 t1 where one: "pick_step c (r, t) = (r1, t1)" by (metis surj_pair)
  from pick_step_newest[OF Cons.prems(1,2) one] Cons.IH[of r1 "insert c D" t1] Cons.prems(3) one
  show ?case by simp
qed simp

text \<open>the verify chat of a session is the newest live chat with the verify role, failing that the
  newest live role-less one titled verify, and there is none exactly when no chat is either.\<close>

theorem pickVerifyChat_exact:
  "(if Collect by_role \<inter> set (array_or_empty chats) \<noteq> {}
    then newest_of (pickVerifyChat chats) (Collect by_role \<inter> set (array_or_empty chats))
    else newest_of (pickVerifyChat chats) (Collect by_title \<inter> set (array_or_empty chats)))"
proof -
  obtain r t where rt: "fold pick_step (array_or_empty chats) (None, None) = (r, t)" by (metis surj_pair)
  have "newest_of r (Collect by_role \<inter> set (array_or_empty chats))"
    and "newest_of t (Collect by_title \<inter> set (array_or_empty chats))"
    using pick_fold_newest[OF _ _ rt, of "{}"] by (simp_all add: newest_of_def)
  then show ?thesis using rt by (auto simp: pickVerifyChat_def newest_of_def split: option.splits)
qed

section \<open>What the verbs write\<close>

definition is_add :: "string list \<Rightarrow> bool" where "is_add argv \<longleftrightarrow> take 2 argv = [''callback'', ''add'']"
definition is_remove :: "string list \<Rightarrow> bool" where "is_remove argv \<longleftrightarrow> take 2 argv = [''callback'', ''remove'']"
definition is_new_chat :: "string list \<Rightarrow> bool" where "is_new_chat argv \<longleftrightarrow> take 2 argv = [''chat'', ''new'']"

definition writes :: "string list \<Rightarrow> bool" where
  "writes argv \<longleftrightarrow> is_add argv \<or> is_remove argv \<or> is_new_chat argv"

lemma argv_kinds [simp]:
  "\<not> writes (cronListArgv r)" "\<not> writes (repoShowArgv r)" "\<not> writes (prWatchesArgv pr s)"
  "\<not> writes (armedListArgv pr c)" "\<not> writes [''chats'', s, ''--json'']" "\<not> writes (phaseArgv p)"
  "is_add (verifyCallbackArgv pr c b)" "is_add (reverifyCallbackArgv pr c hd')"
  "is_remove (removeCallbackArgv row)"
  "\<not> is_add (verifyChatArgv s t)" "\<not> is_remove (verifyChatArgv s t)"
  by (simp_all add: writes_def is_add_def is_remove_def is_new_chat_def cronListArgv_def repoShowArgv_def
      prWatchesArgv_def armedListArgv_def phaseArgv_def verifyCallbackArgv_def reverifyCallbackArgv_def
      removeCallbackArgv_def verifyChatArgv_def)

lemma not_writes: "\<not> writes argv \<Longrightarrow> \<not> is_add argv \<and> \<not> is_remove argv"
  by (simp add: writes_def)

text \<open>The calls of a verb: reads and chat creation, then at most one add, then removals.\<close>

definition add_then_retire :: "chain_host \<Rightarrow> calls \<Rightarrow> bool" where
  "add_then_retire host calls \<longleftrightarrow>
     (\<exists>pre post. calls = pre @ post \<and> (\<forall>argv \<in> set pre. \<not> is_add argv \<and> \<not> is_remove argv) \<and>
       (post = [] \<or> (\<exists>argv rows. post = argv # map removeCallbackArgv rows \<and> is_add argv \<and>
          (rows = [] \<or> ca_ok (ch_call host (pre @ [argv]))))))"

lemma reads_only: "\<forall>argv \<in> set calls. \<not> is_add argv \<and> \<not> is_remove argv \<Longrightarrow> add_then_retire host calls"
  unfolding add_then_retire_def by (intro exI[of _ calls] exI[of _ "[]"]) simp

lemma remove_rows_calls: "snd (remove_rows host h rows) = h @ map removeCallbackArgv rows"
  by (induction rows arbitrary: h) (simp_all add: Let_def split_beta)

lemma callJson_ok: "callJson host h argv = Inr v \<Longrightarrow> ca_ok (ch_call host (h @ [argv]))"
  by (auto simp: callJson_def Let_def split: if_splits)

lemma arm_chat_calls:
  "\<forall>argv \<in> set h. \<not> is_add argv \<and> \<not> is_remove argv \<Longrightarrow>
     add_then_retire host (snd (arm_chat host verb h pr mode reason chatId created))"
  unfolding add_then_retire_def
  by (intro exI[of _ h] exI[of _ "[verifyCallbackArgv pr chatId (mode = Arm_transition)]"])
     (auto simp: arm_chat_def Let_def)

lemma rearm_chat_calls:
  assumes "\<forall>argv \<in> set h. \<not> is_add argv \<and> \<not> is_remove argv"
  shows "add_then_retire host (snd (rearm_chat host verb h pr head rows chatId title created))"
proof (cases "callJson host h (reverifyCallbackArgv pr chatId head)")
  case (Inl e)
  then show ?thesis unfolding add_then_retire_def
    by (intro exI[of _ h] exI[of _ "[reverifyCallbackArgv pr chatId head]"])
       (use assms in \<open>auto simp: rearm_chat_def Let_def split: prod.splits\<close>)
next
  case (Inr v)
  have "snd (rearm_chat host verb h pr head rows chatId title created) =
      h @ reverifyCallbackArgv pr chatId head # map removeCallbackArgv rows"
    using remove_rows_calls[of host "h @ [reverifyCallbackArgv pr chatId head]" rows] Inr
    by (simp add: rearm_chat_def Let_def split_beta)
  then show ?thesis unfolding add_then_retire_def
    by (intro exI[of _ h] exI[of _ "reverifyCallbackArgv pr chatId head # map removeCallbackArgv rows"])
       (use assms callJson_ok[OF Inr] in \<open>auto\<close>)
qed

lemma plain_reads:
  "\<not> is_add [''chats'', s, ''--json'']" "\<not> is_remove [''chats'', s, ''--json'']"
  "\<not> is_add (armedListArgv pr c)" "\<not> is_remove (armedListArgv pr c)"
  using not_writes argv_kinds by blast+

lemma arm_verify_calls:
  assumes h: "\<forall>argv \<in> set h. \<not> is_add argv \<and> \<not> is_remove argv"
  shows "add_then_retire host (snd (arm_verify host o' sessionId pr h))"
proof -
  define rec where "rec = (if trim (opt_string (o_completion o')) = [] then JNull else ch_file host (opt_string (o_completion o')))"
  define runId where "runId = (case o_runId o' of Some r \<Rightarrow> JStr r | None \<Rightarrow> JUndef)"
  obtain mode reason where d: "armDecision rec runId = (mode, reason)" by (metis surj_pair)
  note def = arm_verify_def[of host o' sessionId pr h, folded rec_def runId_def, unfolded Let_def, folded rec_def runId_def]
  have r1: "\<forall>argv \<in> set (h @ [[''chats'', sessionId, ''--json'']]). \<not> is_add argv \<and> \<not> is_remove argv"
    using h plain_reads by simp
  show ?thesis
  proof (cases "mode = Arm_none")
    case True
    then show ?thesis using h d by (simp add: def reads_only)
  next
    case live: False
    show ?thesis
    proof (cases "callJson host h [''chats'', sessionId, ''--json'']")
      case (Inl e)
      then show ?thesis using d live reads_only[OF r1] by (cases e) (simp add: def)
    next
      case (Inr listed)
      note common = d live Inr
      show ?thesis
      proof (cases "is_array (prop_of listed ''chats'')")
        case False
        then show ?thesis using common reads_only[OF r1] by (simp add: def)
      next
        case arr: True
        show ?thesis
        proof (cases "pickVerifyChat (prop_of listed ''chats'')")
          case None
          let ?new = "verifyChatArgv sessionId VERIFY_CHAT_TITLE"
          have r2: "\<forall>argv \<in> set (h @ [[''chats'', sessionId, ''--json''], ?new]). \<not> is_add argv \<and> \<not> is_remove argv"
            using r1 by simp
          show ?thesis
          proof (cases "callJson host (h @ [[''chats'', sessionId, ''--json'']]) ?new")
            case (Inl e)
            then show ?thesis using common arr None reads_only[OF r2] by (cases e) (simp add: def)
          next
            case created: (Inr v)
            show ?thesis
              using common arr None created reads_only[OF r2] arm_chat_calls[OF r2]
              by (cases "created_chat v = []") (simp_all add: def)
          qed
        next
          case (Some chat)
          define chatId where "chatId = string_or_empty (prop_of chat ''agent_session_id'')"
          let ?l = "armedListArgv pr chatId"
          have r2: "\<forall>argv \<in> set (h @ [[''chats'', sessionId, ''--json''], ?l]). \<not> is_add argv \<and> \<not> is_remove argv"
            using r1 plain_reads by simp
          show ?thesis
          proof (cases "callJson host (h @ [[''chats'', sessionId, ''--json'']]) ?l")
            case (Inl e)
            then show ?thesis using common arr Some reads_only[OF r2]
              by (cases e) (simp add: def chatId_def)
          next
            case armed: (Inr v)
            show ?thesis
            proof (cases "is_array v")
              case False
              then show ?thesis using common arr Some armed reads_only[OF r2] by (simp add: def chatId_def)
            next
              case True
              then show ?thesis using common arr Some armed reads_only[OF r2] arm_chat_calls[OF r2]
                by (cases "live_callback (array_or_empty v) pr chatId") (simp_all add: def chatId_def)
            qed
          qed
        qed
      qed
    qed
  qed
qed

lemma armReverify_calls:
  assumes h: "\<forall>argv \<in> set h. \<not> is_add argv \<and> \<not> is_remove argv"
  shows "add_then_retire host (snd (armReverify host o' sessionId pr rows h))"
proof -
  note def = armReverify_def[of host o' sessionId pr rows h, unfolded Let_def]
  have r1: "\<forall>argv \<in> set (h @ [[''chats'', sessionId, ''--json'']]). \<not> is_add argv \<and> \<not> is_remove argv"
    using h plain_reads by simp
  show ?thesis
  proof (cases "callJson host h [''chats'', sessionId, ''--json'']")
    case (Inl e)
    then show ?thesis using reads_only[OF r1] by (cases e) (simp add: def)
  next
    case (Inr listed)
    define chats where "chats = verifyChats (prop_of listed ''chats'')"
    define sup where "sup = supersededRows rows (map (\<lambda>c. prop_of c ''agent_session_id'') chats) pr"
    note names = chats_def[symmetric] sup_def[symmetric]
    show ?thesis
    proof (cases "is_array (prop_of listed ''chats'')")
      case False
      then show ?thesis using Inr reads_only[OF r1] by (simp add: def)
    next
      case arr: True
      show ?thesis
      proof (cases "reusableChat sup chats pr")
        case (Some chat)
        then show ?thesis using Inr arr rearm_chat_calls[OF r1] by (simp add: def names)
      next
        case None
        define new where "new = verifyChatArgv sessionId (nextVerifyTitle (JArr chats))"
        have r2: "\<forall>argv \<in> set (h @ [[''chats'', sessionId, ''--json''], new]). \<not> is_add argv \<and> \<not> is_remove argv"
          using r1 by (simp add: new_def)
        show ?thesis
        proof (cases "callJson host (h @ [[''chats'', sessionId, ''--json'']]) new")
          case (Inl e)
          then show ?thesis using Inr arr None reads_only[OF r2] by (cases e) (simp add: def names new_def)
        next
          case created: (Inr v)
          then show ?thesis using Inr arr None reads_only[OF r2] rearm_chat_calls[OF r2]
            by (cases "created_chat v = []") (simp_all add: def names new_def)
        qed
      qed
    qed
  qed
qed

text \<open>What had to be read before an arming verb may write.\<close>

definition may_arm :: "chain_host \<Rightarrow> string \<Rightarrow> int \<Rightarrow> bool" where
  "may_arm host repoId pr \<longleftrightarrow>
     (\<exists>jobs settings repo watches.
        callJson host [] (cronListArgv repoId) = Inr jobs \<and> hasStageJob ''verify'' jobs \<and>
        callJson host [cronListArgv repoId] (repoShowArgv repoId) = Inr settings \<and>
        repoSlugFromSettings settings = Some repo \<and>
        callJson host [cronListArgv repoId, repoShowArgv repoId] (prWatchesArgv pr repo) = Inr (JArr watches) \<and>
        epicCoordinated watches pr repo = None)"

lemma is_array_iff: "is_array v \<longleftrightarrow> (\<exists>xs. v = JArr xs)"
  by (cases v) (simp_all add: is_array_def)

lemma arm_either_calls:
  "add_then_retire host (snd (arm_either host o' repoId sessionId pr)) \<and>
   ((\<exists>argv \<in> set (snd (arm_either host o' repoId sessionId pr)). writes argv) \<longrightarrow> may_arm host repoId pr)"
proof (cases "may_arm host repoId pr")
  case True
  have "add_then_retire host (snd (arm_either host o' repoId sessionId pr))"
    unfolding arm_either_def Let_def
    by (simp add: not_writes reads_only arm_verify_calls armReverify_calls split: prod.split sum.split option.split)
  with True show ?thesis by blast
next
  case False
  have "\<forall>argv \<in> set (snd (arm_either host o' repoId sessionId pr)). \<not> writes argv"
    using False unfolding arm_either_def Let_def may_arm_def
    by (auto simp: is_array_iff array_or_empty_def split: prod.splits sum.splits option.splits)
  then show ?thesis using not_writes reads_only by blast
qed

definition session_env :: "chain_host \<Rightarrow> string" where
  "session_env host = opt_string (ch_env host ''BOSS_SESSION_ID'')"

definition repo_env :: "chain_host \<Rightarrow> string" where
  "repo_env host = trim (opt_string (ch_env host ''BOSS_REPO_ID''))"

definition pr_of :: "chain_opts \<Rightarrow> int" where
  "pr_of o' = (case decimal_val (opt_string (o_pr o')) of Some n \<Rightarrow> n | None \<Rightarrow> 0)"

lemma run_phase_calls: "\<forall>argv \<in> set (snd (run_phase host o')). \<not> writes argv"
  by (simp add: run_phase_def Let_def)

lemma runVerb_calls:
  "(\<forall>argv \<in> set (snd (runVerb host o')). \<not> writes argv) \<or>
   session_env host \<noteq> [] \<and> repo_env host \<noteq> [] \<and> o_verb o' \<noteq> ''phase'' \<and> \<not> o_dryRun o' \<and>
   (\<exists>sessionId. runVerb host o' = arm_either host o' (repo_env host) sessionId (pr_of o'))"
proof -
  define s where "s = (if trim (opt_string (o_session o')) \<noteq> [] then trim (opt_string (o_session o'))
                       else trim (opt_string (ch_env host ''BOSS_SESSION_ID'')))"
  have def: "runVerb host o' =
     (if session_env host = [] then (skipped_out (o_verb o') ''not-managed'' [], [])
      else if o_verb o' \<noteq> ''phase'' \<and> repo_env host = [] then (skipped_out (o_verb o') ''no-repo-id'' [], [])
      else case ch_boss host of
          Inl reason \<Rightarrow> (skipped_out (o_verb o') ''no-boss-binary'' reason, [])
        | Inr _ \<Rightarrow>
            if o_verb o' = ''phase'' then run_phase host o'
            else if o_dryRun o'
            then (verb_out (o_verb o') [(''action'', JStr ''dry-run''),
                    (''argv'', strings (dry_run (o_verb o') (repo_env host) s (pr_of o') (opt_string (o_head o'))))], [])
            else arm_either host o' (repo_env host) s (pr_of o'))"
    unfolding runVerb_def Let_def s_def session_env_def repo_env_def pr_of_def by (rule refl)
  show ?thesis
  proof (cases "session_env host = [] \<or> o_verb o' = ''phase'' \<or> repo_env host = [] \<or> o_dryRun o' \<or> isl (ch_boss host)")
    case True
    then have "\<forall>argv \<in> set (snd (runVerb host o')). \<not> writes argv"
      using run_phase_calls[of host o'] by (cases "ch_boss host") (auto simp: def split: if_splits)
    then show ?thesis ..
  next
    case False
    then obtain p where "ch_boss host = Inr p" by (cases "ch_boss host") auto
    then have "runVerb host o' = arm_either host o' (repo_env host) s (pr_of o')"
      using False by (simp add: def)
    then show ?thesis using False by blast
  qed
qed

text \<open>an arming verb retires old callbacks last. Its calls are reads and at most one chat creation,
  then at most one callback add, then removals only, and those only after the add succeeded; so at no
  point does it leave a pull request without the callback it had.\<close>

theorem runVerb_adds_then_retires: "add_then_retire host (snd (runVerb host o'))"
proof -
  consider "\<forall>argv \<in> set (snd (runVerb host o')). \<not> writes argv"
    | s where "runVerb host o' = arm_either host o' (repo_env host) s (pr_of o')"
    using runVerb_calls by blast
  then show ?thesis
  proof cases
    case 1
    then show ?thesis using not_writes reads_only by blast
  next
    case 2
    then show ?thesis using arm_either_calls by simp
  qed
qed

text \<open>C27: nothing is written without consent. A verb creates a chat, adds or removes a callback only for
  a managed session of a known repository, outside a dry run, after the cron listing of that
  repository showed an enabled verify job and the watches of the pull request showed no epic
  coordinator.\<close>

theorem runVerb_needs_consent:
  assumes "argv \<in> set (snd (runVerb host o'))" "writes argv"
  shows "session_env host \<noteq> [] \<and> repo_env host \<noteq> [] \<and> o_verb o' \<noteq> ''phase'' \<and> \<not> o_dryRun o' \<and>
    may_arm host (repo_env host) (pr_of o')"
  using runVerb_calls[of host o'] arm_either_calls assms by fastforce

definition demo_answers :: "jsval dict" where
  "demo_answers =
     [(''cronls'', JArr [JObj [(''prompt'', JStr ''/boss-verify 7''), (''enabled'', JBool True)]]),
      (''reposhow'', JObj [(''originUrl'', JStr ''https://github.com/Acme/app.git'')]),
      (''callbacklist'', JArr []), (''chatss1'', JObj [(''chats'', JArr [])]),
      (''chatnew'', JObj [(''chat'', JObj [(''agent_session_id'', JStr ''c1'')])]),
      (''callbackadd'', JObj [(''id'', JStr ''cb1'')])]"

definition demo_chain :: chain_host where
  "demo_chain = \<lparr>
     ch_env = map_of [(''BOSS_SESSION_ID'', ''s1''), (''BOSS_REPO_ID'', ''r1'')],
     ch_boss = Inr ''boss'',
     ch_call = (\<lambda>h. \<lparr>ca_ok = True, ca_error = [], ca_stdout = concat (take 2 (last h)), ca_stderr = []\<rparr>),
     ch_parse = map_of demo_answers,
     ch_file = (\<lambda>_. JNull)\<rparr>"

definition demo_opts :: chain_opts where
  "demo_opts = projr (parseArgs [''arm-verify'', ''--pr'', ''7''])"

theorem runVerb_needs_consent_witness:
  "verifyCallbackArgv 7 ''c1'' False \<in> set (snd (runVerb demo_chain demo_opts)) \<and>
   may_arm demo_chain (repo_env demo_chain) (pr_of demo_opts)"
proof -
  have add: "verifyCallbackArgv 7 ''c1'' False \<in> set (snd (runVerb demo_chain demo_opts))"
    by code_simp
  have "writes (verifyCallbackArgv 7 ''c1'' False)" by (simp add: writes_def)
  from runVerb_needs_consent[OF add this] add show ?thesis by blast
qed

end
