(* ===== verification/ReadyGate.thy ===== *)
theory ReadyGate
  imports MergeEligibility
begin

text \<open>
  \<open>build/ready-gate.mjs\<close>: may a head be marked finished? Its review must be clean (or waived) and its
  tree must be what the reviewed head becomes when replayed onto the head's base. Git is an argument:
  \<open>read('git', args)\<close> of a repository that does not change while the gate reads it. The lemmas show
  when the gate opens and what each drift verdict proves about the trees.
\<close>

section \<open>Readers\<close>

record git_read =
  gr_ok :: bool
  gr_status :: "int option"
  gr_output :: string

type_synonym git = "string list \<Rightarrow> git_read"

definition READY_GATE_REASONS :: "string list" where
  "READY_GATE_REASONS = [''review-verdict-unknown'', ''review-not-clean'', ''reviewed-head-unknown'',
     ''tree-changed-since-review'', ''tree-drift-unknown'']"

definition reviewReasons :: "jsval \<Rightarrow> string list" where
  "reviewReasons verdict =
     (let v = (if is_nonempty_string verdict then trim (string_or_empty verdict) else []) in
      if v = ''clean'' then []
      else if v = ''capped'' \<or> v = ''disabled'' then [''review-not-clean'']
      else [''review-verdict-unknown''])"

definition driftReasons :: "string \<Rightarrow> string list" where
  "driftReasons treeDrift =
     (if treeDrift = ''none'' then []
      else [if treeDrift = ''changed'' then ''tree-changed-since-review'' else ''tree-drift-unknown''])"

definition readOid :: "git \<Rightarrow> string list \<Rightarrow> string option" where
  "readOid git args =
     (let result = git args; v = (if gr_ok result then trim (gr_output result) else []) in
      if SHA v then Some (to_lower v) else None)"

definition rev_parse_tree :: "string \<Rightarrow> string list" where
  "rev_parse_tree head = [''rev-parse'', ''--verify'', ''--quiet'', head @ ''^{tree}'']"

definition merge_tree :: "string \<Rightarrow> string \<Rightarrow> string \<Rightarrow> string list" where
  "merge_tree reviewedBase headBase reviewedHead =
     [''merge-tree'', ''--write-tree'', ''--merge-base='' @ reviewedBase, headBase, reviewedHead]"

definition remote_of :: "string \<Rightarrow> string" where
  "remote_of branch =
     (let b = trim branch in ''origin/'' @ (if starts_with b ''origin/'' then drop 7 b else b))"

datatype expected = Expected string string | Not_expected string

definition expectedReviewedTree :: "git \<Rightarrow> jsval \<Rightarrow> string \<Rightarrow> string \<Rightarrow> expected" where
  "expectedReviewedTree git branch reviewedHead head =
     (if \<not> is_nonempty_string branch then Not_expected ''unknown''
      else
        (let remote = remote_of (string_or_empty branch) in
         case (readOid git [''merge-base'', remote, reviewedHead], readOid git [''merge-base'', remote, head]) of
           (Some reviewedBase, Some headBase) \<Rightarrow>
             (if reviewedBase = headBase
              then (case readOid git (rev_parse_tree reviewedHead) of
                      Some tree \<Rightarrow> Expected tree headBase | None \<Rightarrow> Not_expected ''unknown'')
              else
                (let replay = git (merge_tree reviewedBase headBase reviewedHead) in
                 if \<not> gr_ok replay
                 then Not_expected (if gr_status replay = Some 1 then ''changed'' else ''unknown'')
                 else
                   (let tree = trim (hd (split_on (CHR 0x0A) (gr_output replay))) in
                    if SHA tree then Expected (to_lower tree) headBase else Not_expected ''unknown'')))
         | _ \<Rightarrow> Not_expected ''unknown''))"

definition reviewedTreeDrift :: "git \<Rightarrow> jsval \<Rightarrow> jsval \<Rightarrow> jsval \<Rightarrow> string" where
  "reviewedTreeDrift git base reviewedHead pushedHead =
     (if \<not> sha reviewedHead \<or> \<not> sha pushedHead then ''unknown''
      else
        (let reviewed = string_or_empty reviewedHead; pushed = string_or_empty pushedHead in
         if to_lower reviewed = to_lower pushed then ''none''
         else case readOid git (rev_parse_tree pushed) of
             None \<Rightarrow> ''unknown''
           | Some pushedTree \<Rightarrow>
               (case expectedReviewedTree git base reviewed pushed of
                  Not_expected outcome \<Rightarrow> outcome
                | Expected tree _ \<Rightarrow> if tree = pushedTree then ''none'' else ''changed'')))"

section \<open>The gate\<close>

definition READY_GATE_WAIVERS :: "(string \<times> string list) list" where
  "READY_GATE_WAIVERS = [(''disabled'', [''review-not-clean'']), (''partial'', [''review-not-clean''])]"

record ready =
  rg_ready :: bool
  rg_reasons :: "string list"
  rg_admittedFor :: "string option"

definition waive :: "string \<Rightarrow> string list \<times> string option \<Rightarrow> string list \<times> string option" where
  "waive waiver = (\<lambda>(reasons, admittedFor).
     let admitted = (case map_of READY_GATE_WAIVERS waiver of Some rs \<Rightarrow> rs | None \<Rightarrow> []) in
     if list_ex (\<lambda>r. r \<in> set admitted) reasons
     then (filter (\<lambda>r. r \<notin> set admitted) reasons,
           case admittedFor of None \<Rightarrow> Some waiver | Some w \<Rightarrow> Some w)
     else (reasons, admittedFor))"

definition readyGate :: "jsval \<Rightarrow> jsval \<Rightarrow> jsval \<Rightarrow> string \<Rightarrow> bool \<Rightarrow> ready" where
  "readyGate reviewVerdict reviewedHead pushedHead treeDrift partial =
     (let verdict = (if is_nonempty_string reviewVerdict then trim (string_or_empty reviewVerdict) else []);
          reasons = reviewReasons (JStr verdict) @
            (if \<not> sha reviewedHead then [''reviewed-head-unknown'']
             else driftReasons (if sha pushedHead then treeDrift else ''unknown''));
          waivers = (if verdict = ''disabled'' then [''disabled''] else []) @ (if partial then [''partial''] else []) in
      case fold waive waivers (reasons, None) of
        (rs, admittedFor) \<Rightarrow> \<lparr>rg_ready = (rs = []), rg_reasons = rs, rg_admittedFor = admittedFor\<rparr>)"

text \<open>\<open>/^REVIEW_VERDICT=(.*)$/m\<close>, trimmed: the first such line of the file.\<close>

definition review_verdict_of :: "string \<Rightarrow> string" where
  "review_verdict_of file =
     (case find (\<lambda>l. starts_with l ''REVIEW_VERDICT='') (split_on (CHR 0x0A) (trim file)) of
        Some l \<Rightarrow> trim (takeWhile is_dot (drop 15 l)) | None \<Rightarrow> [])"

text \<open>
  \<open>readyGateReport\<close> over the contents of the three files (\<open>reviewFiles\<close>; an unreadable file is empty)
  and the base branch of the pull request.
\<close>

record ready_report =
  rr_gate :: ready
  rr_reviewVerdict :: string
  rr_reviewedHead :: string
  rr_head :: string
  rr_treeDrift :: string

definition readyGateReport ::
  "git \<Rightarrow> string \<Rightarrow> string \<Rightarrow> string \<Rightarrow> jsval \<Rightarrow> jsval \<Rightarrow> jsval \<Rightarrow> bool \<Rightarrow> bool \<Rightarrow> ready_report" where
  "readyGateReport git verdictFile headFile routeFile prBase optHead optBase partial honourRoute =
     (let reviewVerdict = review_verdict_of verdictFile;
          reviewedHead = trim headFile; route = trim routeFile;
          local = git [''rev-parse'', ''HEAD''];
          head = (if is_nonempty_string optHead then string_or_empty optHead
                  else if gr_ok local then gr_output local else []);
          base = (if is_nonempty_string optBase then optBase else prBase);
          treeDrift = reviewedTreeDrift git base (JStr reviewedHead) (JStr head) in
      \<lparr>rr_gate = readyGate (JStr reviewVerdict) (JStr reviewedHead) (JStr head) treeDrift
          (partial \<or> honourRoute \<and> to_lower route = ''partial''),
       rr_reviewVerdict = reviewVerdict, rr_reviewedHead = reviewedHead, rr_head = head,
       rr_treeDrift = treeDrift\<rparr>)"

section \<open>Remapping the reviewed head\<close>

record remap =
  rm_outcome :: string
  rm_mappedHead :: "string option"

text \<open>\<open>line.trim().split(/\s+/)\<close>.\<close>

fun split_ws :: "string \<Rightarrow> string list" where
  "split_ws [] = [[]]"
| "split_ws (c # cs) =
     (if is_ws c then (if cs \<noteq> [] \<and> is_ws (hd cs) then split_ws cs else [] # split_ws cs)
      else (case split_ws cs of [] \<Rightarrow> [[c]] | w # ws \<Rightarrow> (c # w) # ws))"

text \<open>The loop over the log: an unreadable line makes the whole answer unknown.\<close>

fun scan_log :: "string \<Rightarrow> string option \<Rightarrow> string list \<Rightarrow> string option option" where
  "scan_log tree found [] = Some found"
| "scan_log tree found (l # ls) =
     (case split_ws (trim l) of
        candidate # t # extra \<Rightarrow>
          (if \<not> SHA candidate \<or> \<not> SHA t \<or> (extra \<noteq> [] \<and> hd extra \<noteq> []) then None
           else scan_log tree
             (case found of Some f \<Rightarrow> Some f | None \<Rightarrow> if to_lower t = tree then Some candidate else None) ls)
      | _ \<Rightarrow> None)"

definition log_range :: "string \<Rightarrow> string \<Rightarrow> string list" where
  "log_range headBase head = [''log'', ''--format=%H %T'', headBase @ ''..'' @ head]"

text \<open>\<open>remapReviewedHead\<close>; a remapped head is also written to the reviewed-head file by a rename.\<close>

definition remapReviewedHead :: "git \<Rightarrow> jsval \<Rightarrow> string \<Rightarrow> jsval \<Rightarrow> remap" where
  "remapReviewedHead git base reviewedHead optHead =
     (let current = git [''rev-parse'', ''HEAD''];
          head = (if is_nonempty_string optHead then string_or_empty optHead
                  else if gr_ok current then gr_output current else []);
          unknown = \<lparr>rm_outcome = ''unknown'', rm_mappedHead = None\<rparr> in
      if \<not> SHA reviewedHead \<or> \<not> SHA head then unknown
      else if to_lower reviewedHead = to_lower head
      then \<lparr>rm_outcome = ''kept'', rm_mappedHead = Some reviewedHead\<rparr>
      else
        (let ancestor = git [''merge-base'', ''--is-ancestor'', reviewedHead, head] in
         if gr_ok ancestor then \<lparr>rm_outcome = ''kept'', rm_mappedHead = Some reviewedHead\<rparr>
         else if gr_status ancestor \<noteq> Some 1 then unknown
         else case expectedReviewedTree git base reviewedHead head of
             Not_expected outcome \<Rightarrow>
               \<lparr>rm_outcome = (if outcome = ''changed'' then ''unmatched'' else ''unknown''), rm_mappedHead = None\<rparr>
           | Expected tree headBase \<Rightarrow>
               (let candidates = git (log_range headBase head) in
                if \<not> gr_ok candidates then unknown
                else (case scan_log tree None (filter (\<lambda>l. l \<noteq> []) (split_on (CHR 0x0A) (gr_output candidates))) of
                        None \<Rightarrow> unknown
                      | Some None \<Rightarrow> \<lparr>rm_outcome = ''unmatched'', rm_mappedHead = None\<rparr>
                      | Some (Some m) \<Rightarrow> \<lparr>rm_outcome = ''remapped'', rm_mappedHead = Some m\<rparr>))))"

section \<open>When the gate opens\<close>

definition reviewed_clean :: "jsval \<Rightarrow> bool \<Rightarrow> bool" where
  "reviewed_clean reviewVerdict partial \<longleftrightarrow>
     (\<exists>s. reviewVerdict = JStr s \<and> (trim s = ''clean'' \<or> trim s = ''disabled'' \<or> partial \<and> trim s = ''capped''))"

lemma verdict_reasons:
  "reviewReasons (JStr ''clean'') = []" "reviewReasons (JStr ''capped'') = [''review-not-clean'']"
  "reviewReasons (JStr ''disabled'') = [''review-not-clean'']"
  by code_simp+

text \<open>the gate opens exactly for a review that is clean, switched off by the operator, or capped on
  the partial route, with both heads named and no drift between their trees; no waiver ever admits
  an unnamed head, a drift or an unknown review.\<close>

theorem readyGate_iff:
  "rg_ready (readyGate reviewVerdict reviewedHead pushedHead treeDrift partial) \<longleftrightarrow>
     reviewed_clean reviewVerdict partial \<and> sha reviewedHead \<and> sha pushedHead \<and> treeDrift = ''none''"
proof -
  define v where "v = (if is_nonempty_string reviewVerdict then trim (string_or_empty reviewVerdict) else [])"
  have nonblank: "is_nonempty_string (JStr v) \<longleftrightarrow> v \<noteq> []" and trim: "trim v = v"
    by (simp_all add: v_def)
  have reviewed: "reviewed_clean reviewVerdict partial \<longleftrightarrow> v = ''clean'' \<or> v = ''disabled'' \<or> partial \<and> v = ''capped''"
    by (cases reviewVerdict) (auto simp: reviewed_clean_def v_def string_or_empty_def)
  define d where "d = (if \<not> sha reviewedHead then [''reviewed-head-unknown'']
      else driftReasons (if sha pushedHead then treeDrift else ''unknown''))"
  have d: "d = [] \<longleftrightarrow> sha reviewedHead \<and> sha pushedHead \<and> treeDrift = ''none''"
    "''review-not-clean'' \<notin> set d"
    by (auto simp: d_def driftReasons_def)
  then have keep: "filter (\<lambda>r. r \<notin> set [''review-not-clean'']) d = d"
    by (auto intro!: filter_True)
  note def = readyGate_def[of reviewVerdict reviewedHead pushedHead treeDrift partial, folded v_def, unfolded Let_def, folded v_def d_def]
  consider (clean) "v = ''clean''" | (disabled) "v = ''disabled''" | (capped) "v = ''capped''"
    | (other) "v \<noteq> ''clean''" "v \<noteq> ''disabled''" "v \<noteq> ''capped''" by blast
  then show ?thesis
  proof cases
    case clean
    then show ?thesis using d keep unfolding reviewed
      by (simp add: def verdict_reasons waive_def READY_GATE_WAIVERS_def list_ex_iff)
  next
    case disabled
    then show ?thesis using d keep unfolding reviewed
      by (simp add: def verdict_reasons waive_def READY_GATE_WAIVERS_def list_ex_iff)
  next
    case capped
    then show ?thesis using d keep unfolding reviewed
      by (simp add: def verdict_reasons waive_def READY_GATE_WAIVERS_def list_ex_iff)
  next
    case other
    then have "reviewReasons (JStr v) = [''review-verdict-unknown'']"
      by (simp add: reviewReasons_def trim string_or_empty_def)
    then show ?thesis using other d keep unfolding reviewed
      by (simp add: def waive_def READY_GATE_WAIVERS_def list_ex_iff)
  qed
qed

text \<open>
  What no drift means of the trees git names: the pushed tree is the tree of the reviewed head, or,
  on another base, the tree of the reviewed head replayed onto it without a conflict.
\<close>

definition carries_review :: "git \<Rightarrow> string \<Rightarrow> string \<Rightarrow> string \<Rightarrow> bool" where
  "carries_review git remote reviewed pushed \<longleftrightarrow>
     (\<exists>tree reviewedBase headBase.
        readOid git (rev_parse_tree pushed) = Some tree \<and>
        readOid git [''merge-base'', remote, reviewed] = Some reviewedBase \<and>
        readOid git [''merge-base'', remote, pushed] = Some headBase \<and>
        (if reviewedBase = headBase then readOid git (rev_parse_tree reviewed) = Some tree
         else gr_ok (git (merge_tree reviewedBase headBase reviewed)) \<and>
           to_lower (trim (hd (split_on (CHR 0x0A) (gr_output (git (merge_tree reviewedBase headBase reviewed)))))) = tree))"

lemma expected_cases:
  assumes "expectedReviewedTree git branch reviewed head = Expected tree headBase"
  obtains reviewedBase where "is_nonempty_string branch"
    "readOid git [''merge-base'', remote_of (string_or_empty branch), reviewed] = Some reviewedBase"
    "readOid git [''merge-base'', remote_of (string_or_empty branch), head] = Some headBase"
    "reviewedBase = headBase \<Longrightarrow> readOid git (rev_parse_tree reviewed) = Some tree"
    "reviewedBase \<noteq> headBase \<Longrightarrow> gr_ok (git (merge_tree reviewedBase headBase reviewed)) \<and>
       to_lower (trim (hd (split_on (CHR 0x0A) (gr_output (git (merge_tree reviewedBase headBase reviewed)))))) = tree"
  using assms by (auto simp: expectedReviewedTree_def Let_def split: if_splits option.splits)

lemma expected_never_none: "expectedReviewedTree git branch reviewed head \<noteq> Not_expected ''none''"
  by (auto simp: expectedReviewedTree_def Let_def split: option.splits)

lemma drift_none:
  assumes "reviewedTreeDrift git base (JStr reviewed) (JStr pushed) = ''none''"
  shows "SHA reviewed \<and> SHA pushed \<and>
    (to_lower reviewed = to_lower pushed \<or>
     carries_review git (remote_of (string_or_empty base)) reviewed pushed)"
proof -
  have heads: "SHA reviewed" "SHA pushed"
    using assms by (auto simp: reviewedTreeDrift_def sha_def split: if_splits)
  show ?thesis
  proof (cases "to_lower reviewed = to_lower pushed")
    case False
    then obtain tree where tree: "readOid git (rev_parse_tree pushed) = Some tree"
      using assms heads by (auto simp: reviewedTreeDrift_def sha_def string_or_empty_def Let_def split: option.splits)
    then obtain headBase where "expectedReviewedTree git base reviewed pushed = Expected tree headBase"
      using assms heads False expected_never_none
      by (auto simp: reviewedTreeDrift_def sha_def string_or_empty_def Let_def split: expected.splits if_splits)
    then have "carries_review git (remote_of (string_or_empty base)) reviewed pushed"
      by (rule expected_cases) (auto simp: carries_review_def tree)
    then show ?thesis using heads by simp
  qed (use heads in simp)
qed

text \<open>a head that is reported ready carries the reviewed work: its review passed or was waived, and
  it is the reviewed head or git names its tree as that head's, replayed onto its base.\<close>

theorem readyGateReport_sound:
  assumes "report = readyGateReport git verdictFile headFile routeFile prBase optHead optBase partial honourRoute"
    and "rg_ready (rr_gate report)"
  shows "reviewed_clean (JStr (rr_reviewVerdict report)) (partial \<or> honourRoute \<and> to_lower (trim routeFile) = ''partial'') \<and>
    (to_lower (rr_reviewedHead report) = to_lower (rr_head report) \<or>
     carries_review git (remote_of (string_or_empty (if is_nonempty_string optBase then optBase else prBase)))
       (rr_reviewedHead report) (rr_head report))"
proof -
  have "reviewed_clean (JStr (rr_reviewVerdict report)) (partial \<or> honourRoute \<and> to_lower (trim routeFile) = ''partial'') \<and>
      reviewedTreeDrift git (if is_nonempty_string optBase then optBase else prBase)
        (JStr (rr_reviewedHead report)) (JStr (rr_head report)) = ''none''"
    using assms(2) by (simp only: assms(1) readyGateReport_def Let_def ready_report.simps readyGate_iff)
  then show ?thesis using drift_none by blast
qed

lemma scan_log_found:
  assumes "scan_log tree found ls = Some (Some m)"
  shows "found = Some m \<or> (\<exists>l \<in> set ls. \<exists>t rest. split_ws (trim l) = m # t # rest \<and> SHA m \<and> to_lower t = tree)"
  using assms
proof (induction ls arbitrary: found)
  case (Cons l ls)
  then show ?case
    by (auto split: list.splits if_splits option.splits)
qed simp

text \<open>a remapped head is a commit of the branch whose tree is the reviewed work replayed onto the
  branch's base, and it is only sought when the reviewed head is no ancestor.\<close>

theorem remap_sound:
  assumes "remapReviewedHead git base reviewed (JStr head) = r" "rm_outcome r = ''remapped''" "trim head \<noteq> []"
  shows "\<exists>m tree headBase. rm_mappedHead r = Some m \<and>
    expectedReviewedTree git base reviewed head = Expected tree headBase \<and>
    gr_status (git [''merge-base'', ''--is-ancestor'', reviewed, head]) = Some 1 \<and>
    (\<exists>l \<in> set (split_on (CHR 0x0A) (gr_output (git (log_range headBase head)))).
       \<exists>t rest. split_ws (trim l) = m # t # rest \<and> SHA m \<and> to_lower t = tree)"
proof -
  have head: "(if is_nonempty_string (JStr head) then string_or_empty (JStr head) else x) = head" for x
    using assms(3) by (simp add: string_or_empty_def)
  obtain tree headBase where e: "expectedReviewedTree git base reviewed head = Expected tree headBase"
    using assms(1,2) unfolding remapReviewedHead_def Let_def head
    by (auto split: if_splits expected.splits)
  obtain m where m: "scan_log tree None (filter (\<lambda>l. l \<noteq> []) (split_on (CHR 0x0A) (gr_output (git (log_range headBase head))))) = Some (Some m)"
      and r: "rm_mappedHead r = Some m"
      and anc: "gr_status (git [''merge-base'', ''--is-ancestor'', reviewed, head]) = Some 1"
    using assms(1,2) e unfolding remapReviewedHead_def Let_def head
    by (auto split: if_splits option.splits)
  from scan_log_found[OF m] show ?thesis using e r anc by auto
qed

text \<open>A repository where the reviewed head was rebased: both heads have one base and one tree.\<close>

definition sha_of :: "char \<Rightarrow> string" where "sha_of c = replicate 40 c"

definition demo_git :: git where
  "demo_git args =
     (if args = [''merge-base'', ''--is-ancestor'', sha_of CHR ''a'', sha_of CHR ''d'']
      then \<lparr>gr_ok = False, gr_status = Some 1, gr_output = []\<rparr>
      else \<lparr>gr_ok = True, gr_status = Some 0,
             gr_output = (if hd args = ''merge-base'' then sha_of CHR ''b''
                          else if hd args = ''log'' then sha_of CHR ''e'' @ '' '' @ sha_of CHR ''c''
                          else sha_of CHR ''c'')\<rparr>)"

theorem readyGateReport_sound_witness:
  "carries_review demo_git ''origin/main'' (sha_of CHR ''a'') (sha_of CHR ''d'')"
proof -
  let ?r = "readyGateReport demo_git ''REVIEW_VERDICT=clean'' (sha_of CHR ''a'') [] (JStr ''main'') (JStr (sha_of CHR ''d'')) JUndef False True"
  have "rg_ready (rr_gate ?r)" by code_simp
  from readyGateReport_sound[OF refl this]
  have "to_lower (rr_reviewedHead ?r) = to_lower (rr_head ?r) \<or>
      carries_review demo_git (remote_of (string_or_empty (if is_nonempty_string JUndef then JUndef else JStr ''main'')))
       (rr_reviewedHead ?r) (rr_head ?r)" by blast
  moreover have "to_lower (rr_reviewedHead ?r) \<noteq> to_lower (rr_head ?r)" by code_simp
  moreover have "rr_reviewedHead ?r = sha_of CHR ''a''" "rr_head ?r = sha_of CHR ''d''" by code_simp+
  moreover have "remote_of (string_or_empty (if is_nonempty_string JUndef then JUndef else JStr ''main'')) = ''origin/main''"
    by code_simp
  ultimately show ?thesis by simp
qed

theorem remap_sound_witness:
  "\<exists>tree headBase. expectedReviewedTree demo_git (JStr ''main'') (sha_of CHR ''a'') (sha_of CHR ''d'') = Expected tree headBase"
proof -
  let ?r = "remapReviewedHead demo_git (JStr ''main'') (sha_of CHR ''a'') (JStr (sha_of CHR ''d''))"
  have "rm_outcome ?r = ''remapped''" "trim (sha_of CHR ''d'') \<noteq> []" by code_simp+
  from remap_sound[OF refl this] show ?thesis by blast
qed

end
