(* ===== verification/VerifyBlockers.thy ===== *)
theory VerifyBlockers
  imports MergeEligibility
begin

text \<open>
  \<open>verify/verify-blockers.mjs\<close>: the blockers that hold a head back, collected from review findings,
  failed checks and conflicts, the validation of the file they travel in and the trailer of a pull
  request comment that carries it. The SHA-256 prefix, the codec of a trailer (base64url of JSON) and
  the outcome classifier are arguments. The lemmas show that every collected list validates and that
  a validated file survives its trailer.
\<close>

section \<open>Values\<close>

definition BLOCKER_KINDS :: "string list" where
  "BLOCKER_KINDS = [''operator-note'', ''review-finding'', ''check'', ''conflict'', ''no-review'']"

definition SEVERITIES :: "string list" where "SEVERITIES = [''P0'', ''P1'', ''P2'']"

definition newline_char :: "char \<Rightarrow> bool" where
  "newline_char c \<longleftrightarrow> c = CHR 0x0A \<or> c = CHR 0x0D"

definition is_line :: "jsval \<Rightarrow> bool" where
  "is_line v \<longleftrightarrow> is_nonempty_string v \<and> \<not> list_ex newline_char (string_or_empty v)"

text \<open>\<open>typeof value === 'string' ? value.trim().toUpperCase() : ''\<close>.\<close>

definition normalized :: "jsval \<Rightarrow> string" where
  "normalized v = (case v of JStr s \<Rightarrow> to_upper (trim s) | _ \<Rightarrow> [])"

text \<open>\<open>s.replace(/[\r\n]+/g, ' ')\<close>: one space for each run.\<close>

fun join_lines :: "string \<Rightarrow> string" where
  "join_lines [] = []"
| "join_lines (c # cs) =
     (if newline_char c
      then (if cs \<noteq> [] \<and> newline_char (hd cs) then join_lines cs else CHR '' '' # join_lines cs)
      else c # join_lines cs)"

definition oneLine :: "jsval \<Rightarrow> string" where
  "oneLine v = trim (join_lines (js_string (coalesce v (JStr []))))"

definition js_compare :: "jsval \<Rightarrow> jsval \<Rightarrow> int" where
  "js_compare a b = (if js_less a b then - 1 else if js_less b a then 1 else 0)"

definition MAX_OPERATOR_NOTE_CHARS :: nat where "MAX_OPERATOR_NOTE_CHARS = 2000"

text \<open>\<open>Array.from(note).length\<close> counts code points: the bytes that do not continue one.\<close>

definition continuation :: "char \<Rightarrow> bool" where
  "continuation c = (128 \<le> (of_char c :: nat) \<and> (of_char c :: nat) \<le> 191)"

definition code_points :: "string \<Rightarrow> nat" where
  "code_points s = length (filter (\<lambda>c. \<not> continuation c) s)"

text \<open>\<open>[\u0000-\u0008\u000b-\u001f\u007f-\u009f]\<close>; the last range is \<open>C2 80\<close> to \<open>C2 9F\<close>.\<close>

fun has_control :: "string \<Rightarrow> bool" where
  "has_control [] = False"
| "has_control (c # cs) =
     (let n = (of_char c :: nat) in
      n \<le> 8 \<or> 11 \<le> n \<and> n \<le> 31 \<or> n = 127 \<or>
      n = 194 \<and> cs \<noteq> [] \<and> 128 \<le> (of_char (hd cs) :: nat) \<and> (of_char (hd cs) :: nat) \<le> 159 \<or>
      has_control cs)"

definition isValidOperatorText :: "jsval \<Rightarrow> bool" where
  "isValidOperatorText note \<longleftrightarrow>
     is_nonempty_string note \<and> code_points (string_or_empty note) \<le> MAX_OPERATOR_NOTE_CHARS \<and>
     \<not> has_control (string_or_empty note)"

section \<open>Collecting\<close>

definition blocker_obj :: "string \<Rightarrow> string \<Rightarrow> jsval \<Rightarrow> jsval \<Rightarrow> jsval \<Rightarrow> string \<Rightarrow> string \<Rightarrow> jsval" where
  "blocker_obj ident kind sev file line summary txt' =
     JObj [(''id'', JStr ident), (''kind'', JStr kind), (''severity'', sev), (''file'', file),
           (''line'', line), (''summary'', JStr summary), (''text'', JStr txt')]"

definition operatorNoteBlocker :: "jsval \<Rightarrow> jsval option" where
  "operatorNoteBlocker note =
     (if \<not> isValidOperatorText note then None
      else Some (blocker_obj ''operator-note'' ''operator-note'' JNull JNull JNull
        ''the operator sent this head back'' (string_or_empty note)))"

definition isNoteFinding :: "jsval \<Rightarrow> bool" where
  "isNoteFinding finding \<longleftrightarrow>
     normalized (prop_of finding ''severity'') \<in> set [''P3'', ''STYLE''] \<or>
     normalized (prop_of finding ''category'') = ''STYLE''"

fun position_of :: "'a \<Rightarrow> 'a list \<Rightarrow> int" where
  "position_of x [] = - 1"
| "position_of x (y # ys) = (if x = y then 0 else (let i = position_of x ys in if i < 0 then - 1 else i + 1))"

definition kind_index :: "jsval \<Rightarrow> int" where
  "kind_index b = position_of (prop_of b ''kind'') (map JStr BLOCKER_KINDS)"

definition field_or_empty :: "jsval \<Rightarrow> string \<Rightarrow> jsval" where
  "field_or_empty b k = coalesce (prop_of b k) (JStr [])"

text \<open>\<open>(b.line ?? 0)\<close> as the subtraction reads it; \<open>NaN\<close> compares equal.\<close>

definition line_number :: "jsval \<Rightarrow> int" where
  "line_number b = (case js_number (coalesce (prop_of b ''line'') (JNum (Fin 0))) of Fin i \<Rightarrow> i | _ \<Rightarrow> 0)"

definition blockerOrder :: "jsval \<Rightarrow> jsval \<Rightarrow> int" where
  "blockerOrder a b =
     (if kind_index a - kind_index b \<noteq> 0 then kind_index a - kind_index b
      else if js_compare (field_or_empty a ''severity'') (field_or_empty b ''severity'') \<noteq> 0
      then js_compare (field_or_empty a ''severity'') (field_or_empty b ''severity'')
      else if js_compare (field_or_empty a ''file'') (field_or_empty b ''file'') \<noteq> 0
      then js_compare (field_or_empty a ''file'') (field_or_empty b ''file'')
      else if line_number a - line_number b \<noteq> 0 then line_number a - line_number b
      else if js_compare (prop_of a ''summary'') (prop_of b ''summary'') \<noteq> 0
      then js_compare (prop_of a ''summary'') (prop_of b ''summary'')
      else js_compare (prop_of a ''id'') (prop_of b ''id''))"

definition reviewId :: "(string \<Rightarrow> string) \<Rightarrow> jsval \<Rightarrow> string" where
  "reviewId hash finding =
     ''review:'' @ hash (join [CHR 0x00] (map (\<lambda>v. if nullish v then [] else js_string v)
       [prop_of finding ''file'', prop_of finding ''line'', prop_of finding ''title'']))"

definition safe_positive :: "jsval \<Rightarrow> bool" where
  "safe_positive v = (case v of JNum (Fin n) \<Rightarrow> 1 \<le> n \<and> n \<le> 9007199254740991 | _ \<Rightarrow> False)"

definition blocking_finding :: "jsval \<Rightarrow> bool" where
  "blocking_finding f \<longleftrightarrow>
     prop_of f ''verified'' = JBool True \<and> prop_of f ''introduced'' = JBool True \<and>
     prop_of f ''fixed'' \<noteq> JBool True \<and> \<not> isNoteFinding f \<and>
     normalized (prop_of f ''severity'') \<in> set SEVERITIES"

definition finding_blocker :: "(string \<Rightarrow> string) \<Rightarrow> jsval \<Rightarrow> jsval" where
  "finding_blocker hash f =
     (let file = prop_of f ''file''; l = prop_of f ''line'' in
      blocker_obj (reviewId hash f) ''review-finding'' (JStr (normalized (prop_of f ''severity'')))
        (if is_nonempty_string file then file else JNull)
        (if is_nonempty_string file \<and> safe_positive l then l else JNull)
        (oneLine (prop_of f ''title'')) (js_string (coalesce (prop_of f ''evidence'') (JStr []))))"

definition check_name :: "jsval \<Rightarrow> string" where
  "check_name check = oneLine (if is_string check then check else prop_of check ''name'')"

definition blocking_check :: "jsval \<Rightarrow> bool" where
  "blocking_check check \<longleftrightarrow> check_name check \<noteq> [] \<and> \<not> starts_with (check_name check) ''boss/''"

definition check_blocker :: "jsval \<Rightarrow> jsval" where
  "check_blocker check =
     (let nm = check_name check in
      blocker_obj (''check:'' @ nm) ''check'' JNull JNull JNull nm
        (if is_string check then nm else js_string (coalesce (prop_of check ''text'') (JStr nm))))"

definition conflict_blocker :: jsval where
  "conflict_blocker =
     blocker_obj ''conflict'' ''conflict'' JNull JNull JNull ''the head conflicts with its base''
       ''Rebase the head onto its base and resolve the merge conflicts.''"

text \<open>Keep the first blocker of each id.\<close>

fun first_ids :: "jsval list \<Rightarrow> jsval list \<Rightarrow> jsval list" where
  "first_ids seen [] = []"
| "first_ids seen (b # bs) =
     (if prop_of b ''id'' \<in> set seen then first_ids seen bs
      else b # first_ids (prop_of b ''id'' # seen) bs)"

definition sort_order :: "jsval \<Rightarrow> jsval \<Rightarrow> int" where
  "sort_order a b =
     (if blockerOrder a b \<noteq> 0 then blockerOrder a b
      else js_compare (prop_of a ''text'') (prop_of b ''text''))"

definition collected ::
  "(string \<Rightarrow> string) \<Rightarrow> jsval list \<Rightarrow> jsval list \<Rightarrow> bool \<Rightarrow> bool \<Rightarrow> jsval list" where
  "collected hash reviewFindings failedChecks conflict partial =
     (if partial then [] else map (finding_blocker hash) (filter blocking_finding reviewFindings)) @
     map check_blocker (filter blocking_check failedChecks) @
     (if conflict then [conflict_blocker] else [])"

definition buildBlockers ::
  "(string \<Rightarrow> string) \<Rightarrow> jsval list \<Rightarrow> jsval list \<Rightarrow> bool \<Rightarrow> bool \<Rightarrow> jsval list" where
  "buildBlockers hash reviewFindings failedChecks conflict partial =
     first_ids [] (sort_by sort_order (collected hash reviewFindings failedChecks conflict partial))"

section \<open>Validating\<close>

definition exactKeys :: "jsval \<Rightarrow> string list \<Rightarrow> bool" where
  "exactKeys v ks \<longleftrightarrow>
     is_plain_object v \<and> length (entries_of v) = length ks \<and> list_all (has_key v) ks"

text \<open>\<open>/^review:[a-f0-9]{12}$/\<close>.\<close>

definition review_id_form :: "jsval \<Rightarrow> bool" where
  "review_id_form v =
     (case v of JStr s \<Rightarrow> starts_with s ''review:'' \<and> length s = 19 \<and>
        list_all (\<lambda>c. is_digit c \<or> c \<in> set ''abcdef'') (drop 7 s) | _ \<Rightarrow> False)"

definition BLOCKER_FIELDS :: "string list" where
  "BLOCKER_FIELDS = [''id'', ''kind'', ''severity'', ''file'', ''line'', ''summary'', ''text'']"

definition unless :: "bool \<Rightarrow> string \<Rightarrow> string list" where
  "unless ok msg = (if ok then [] else [msg])"

text \<open>The faults of one entry; \<open>previous\<close> is the raw entry before it.\<close>

definition entry_faults :: "string \<Rightarrow> jsval list \<Rightarrow> jsval option \<Rightarrow> jsval \<Rightarrow> string list" where
  "entry_faults pos ids previous b =
     (let ident = prop_of b ''id''; kind = prop_of b ''kind''; summary = prop_of b ''summary'';
          sev = prop_of b ''severity''; file = prop_of b ''file''; l = prop_of b ''line'' in
      unless (kind \<in> set (map JStr BLOCKER_KINDS)) (pos @ '' has invalid kind'') @
      unless (is_nonempty_string ident \<and> ident \<notin> set ids) (pos @ '' has invalid or duplicate id'') @
      unless (is_line summary) (pos @ ''.summary must be one line'') @
      unless (is_string (prop_of b ''text'')) (pos @ ''.text must be a string'') @
      unless (kind = JStr ''operator-note'' \<longrightarrow> isValidOperatorText (prop_of b ''text''))
        (pos @ '' has invalid operator note'') @
      (if kind = JStr ''review-finding''
       then unless (review_id_form ident) (pos @ '' has invalid review id'') @
         unless (sev \<in> set (map JStr SEVERITIES)) (pos @ '' has invalid severity'') @
         unless (file = JNull \<or> is_nonempty_string file) (pos @ '' has invalid file'') @
         unless (l = JNull \<or> safe_positive l \<and> file \<noteq> JNull) (pos @ '' has invalid line'')
       else unless (sev = JNull \<and> file = JNull \<and> l = JNull) (pos @ '' has unexpected location or severity'') @
         unless (if kind = JStr ''check''
                 then is_nonempty_string summary \<and> ident = JStr (''check:'' @ string_or_empty summary) \<and>
                   \<not> starts_with (string_or_empty summary) ''boss/''
                 else ident = kind) (pos @ '' has invalid id'')) @
      unless (case previous of Some p \<Rightarrow> \<not> (is_plain_object p \<and> blockerOrder p b > 0) | None \<Rightarrow> True)
        (pos @ '' is out of order''))"

fun entries_faults :: "nat \<Rightarrow> jsval list \<Rightarrow> jsval option \<Rightarrow> jsval list \<Rightarrow> string list" where
  "entries_faults i ids previous [] = []"
| "entries_faults i ids previous (b # bs) =
     (let pos = ''blockers['' @ show_nat i @ '']'' in
      if \<not> exactKeys b BLOCKER_FIELDS
      then (pos @ '' has invalid fields'') # entries_faults (Suc i) ids (Some b) bs
      else entry_faults pos ids previous b @ entries_faults (Suc i) (prop_of b ''id'' # ids) (Some b) bs)"

definition blocker_file_errors :: "jsval \<Rightarrow> string list" where
  "blocker_file_errors input =
     (if \<not> exactKeys input [''version'', ''pr'', ''head'', ''blockers'']
      then [''expected version, pr, head and blockers'']
      else
        (let head_errors =
             unless (prop_of input ''version'' = JNum (Fin 1)) ''version must be 1'' @
             unless (safe_positive (prop_of input ''pr'')) ''pr must be a positive integer'' @
             unless (sha (prop_of input ''head'')) ''head must be a 40-hex SHA'';
             blockers = prop_of input ''blockers'' in
         if \<not> is_array blockers \<or> array_or_empty blockers = []
         then head_errors @ [''blockers must be a non-empty array'']
         else head_errors @ entries_faults 0 [] None (array_or_empty blockers)))"

definition validateBlockerFile :: "jsval \<Rightarrow> bool \<times> string list" where
  "validateBlockerFile input = (let errors = blocker_file_errors input in (errors = [], errors))"

definition severity_count :: "nat \<Rightarrow> string \<Rightarrow> string list" where
  "severity_count n label = (if n = 0 then [] else [show_nat n @ '' '' @ label])"

definition blockedDescription :: "jsval list \<Rightarrow> bool \<Rightarrow> string" where
  "blockedDescription blockers parked =
     (let has = (\<lambda>k. list_ex (\<lambda>b. prop_of b ''kind'' = JStr k) blockers);
          checks = length (filter (\<lambda>b. prop_of b ''kind'' = JStr ''check'') blockers);
          parts = (if has ''operator-note'' then [''operator note''] else []) @
            concat (map (\<lambda>s. severity_count (length (filter (\<lambda>b. prop_of b ''severity'' = JStr s) blockers)) s) SEVERITIES) @
            (if checks = 0 then [] else [show_nat checks @ '' failing check'' @ (if checks = 1 then [] else ''s'')]) @
            (if has ''conflict'' then [''conflict''] else []) @
            (if has ''no-review'' then [''no review''] else []) in
      ''blocked: '' @ join '', '' parts @ (if parked then '', needs human'' else []))"

section \<open>Trailers\<close>

definition b64_char :: "char \<Rightarrow> bool" where
  "b64_char c =
     (let n = (of_char c :: nat) in
      65 \<le> n \<and> n \<le> 90 \<or> 97 \<le> n \<and> n \<le> 122 \<or> 48 \<le> n \<and> n \<le> 57 \<or> c \<in> set ''_-'')"

definition trailer_open :: string where "trailer_open = ''<!-- boss-verify-blockers head=''"

definition encodeBlockerTrailer :: "(jsval \<Rightarrow> string) \<Rightarrow> jsval \<Rightarrow> string list + string" where
  "encodeBlockerTrailer encode file =
     (case validateBlockerFile file of
        (ok, errors) \<Rightarrow>
          if \<not> ok then Inl errors
          else Inr (trailer_open @ string_or_empty (prop_of file ''head'') @ '' v1 '' @ encode file @ '' -->''))"

definition trim_end :: "string \<Rightarrow> string" where
  "trim_end s = rev (dropWhile is_ws (rev s))"

text \<open>
  \<open>(?:^|\n)<!-- boss-verify-blockers head=(SHA) v1 (B64+) -->$\<close>, ignoring case: the pattern has no
  line break, so it matches the whole last line or nothing.
\<close>

definition trailer_match :: "string \<Rightarrow> (string \<times> string) option" where
  "trailer_match l =
     (let n = length trailer_open; h = take 40 (drop n l); rest = drop (n + 44) l;
          payload = take (length rest - 4) rest in
      if to_lower (take n l) = trailer_open \<and> SHA h \<and> to_lower (take 4 (drop (n + 40) l)) = '' v1 '' \<and>
         5 \<le> length rest \<and> drop (length rest - 4) rest = '' -->'' \<and> list_all b64_char payload
      then Some (h, payload) else None)"

definition parseBlockerTrailer :: "(string \<Rightarrow> jsval option) \<Rightarrow> jsval \<Rightarrow> jsval option" where
  "parseBlockerTrailer decode body =
     (case body of
        JStr s \<Rightarrow>
          (case trailer_match (last (split_on (CHR 0x0A) (trim_end s))) of
             None \<Rightarrow> None
           | Some (h, payload) \<Rightarrow>
               (case decode payload of
                  None \<Rightarrow> None
                | Some file \<Rightarrow>
                    if fst (validateBlockerFile file) \<and> prop_of file ''head'' = JStr h then Some file else None))
      | _ \<Rightarrow> None)"

section \<open>Repair outcomes\<close>

fun outcome_faults :: "jsval list \<Rightarrow> jsval list \<Rightarrow> string list" where
  "outcome_faults ids [] = []"
| "outcome_faults ids (x # xs) =
     (let ident = prop_of x ''id''; nm = string_or_empty ident in
      if \<not> truthy x \<or> \<not> is_line ident \<or> ident \<in> set ids then ''invalid or duplicate id'' # outcome_faults ids xs
      else
        (if prop_of x ''outcome'' = JStr ''fixed''
         then unless (sha (prop_of x ''commit'')) (nm @ '': fixed requires a 40-hex commit'')
         else if prop_of x ''outcome'' = JStr ''not-fixable''
         then unless (is_line (prop_of x ''reason'')) (nm @ '': reason must be one non-empty line'')
         else [nm @ '': invalid outcome'']) @
        outcome_faults (ident # ids) xs)"

definition validateOutcomeFile :: "jsval \<Rightarrow> bool \<times> string list" where
  "validateOutcomeFile input =
     (if \<not> truthy input \<or> prop_of input ''version'' \<noteq> JNum (Fin 1) \<or> \<not> sha (prop_of input ''blockersHead'') \<or>
         \<not> sha (prop_of input ''pushedHead'') \<or> \<not> is_array (prop_of input ''outcomes'')
      then (False, [''expected version 1, blockersHead, pushedHead and outcomes''])
      else (let errors = outcome_faults [] (array_or_empty (prop_of input ''outcomes'')) in (errors = [], errors)))"

section \<open>Extension results\<close>

definition defectDescription :: "int \<Rightarrow> bool \<Rightarrow> string" where
  "defectDescription count parked =
     ''defect: '' @ show_int count @ '' finding(s)'' @ (if parked then '', needs human'' else [])"

record aggregate =
  ag_verdict :: string
  ag_reason :: string
  ag_outcomes :: "jsval list"
  ag_failed :: "string list"
  ag_findings :: "jsval list"
  ag_findingNotes :: "jsval list"
  ag_humanReasons :: "string list"
  ag_waitReason :: jsval

definition declared_reasons :: "jsval list \<Rightarrow> string list \<Rightarrow> string dict" where
  "declared_reasons installed HUMAN_REASONS =
     fold (\<lambda>ext m.
         case (prop_of ext ''name'', prop_of ext ''malfunctionReason'') of
           (JStr nm, JStr r) \<Rightarrow>
             if trim nm \<noteq> [] \<and> prop_of ext ''optional'' \<noteq> JBool True \<and> r \<in> set HUMAN_REASONS
             then AList.update nm r m else m
         | _ \<Rightarrow> m) installed []"

text \<open>The entries judged: those reported, then one crashed entry per installed extension not among them.\<close>

definition judged_entries :: "jsval list \<Rightarrow> jsval list \<Rightarrow> jsval list" where
  "judged_entries results installed =
     (let entries = filter is_object results;
          seen = filter is_nonempty_string (map (\<lambda>e. prop_of e ''extension'') entries) in
      entries @
      map (\<lambda>ext. JObj [(''extension'', prop_of ext ''name''),
             (''optional'', JBool (prop_of ext ''optional'' = JBool True)), (''crashed'', JBool True)])
        (filter (\<lambda>ext. is_nonempty_string (prop_of ext ''name'') \<and> prop_of ext ''name'' \<notin> set seen) installed))"

definition extension_name :: "jsval \<Rightarrow> string" where
  "extension_name entry =
     (if is_nonempty_string (prop_of entry ''extension'') then string_or_empty (prop_of entry ''extension'')
      else ''(unnamed)'')"

definition outcome_is :: "jsval \<Rightarrow> string \<Rightarrow> bool" where
  "outcome_is x k \<longleftrightarrow> prop_of x ''outcome'' = JStr k"

definition ok_verdict :: "jsval \<Rightarrow> string \<Rightarrow> bool" where
  "ok_verdict x k \<longleftrightarrow> outcome_is x ''ok'' \<and> prop_of x ''verdict'' = JStr k"

text \<open>\<open>{ ...base, ...v }\<close>.\<close>

definition spread :: "jsval dict \<Rightarrow> jsval \<Rightarrow> jsval" where
  "spread base v = JObj (foldl (\<lambda>al (k, x). AList.update k x al) base (entries_of v))"

text \<open>
  \<open>aggregateBlockerExtensions\<close> of an array of results; \<open>classify result timedOut crashed optional\<close> is
  the outcome object of one entry.
\<close>

definition aggregateBlockerExtensions ::
  "(jsval \<Rightarrow> bool \<Rightarrow> bool \<Rightarrow> bool \<Rightarrow> jsval) \<Rightarrow> string list \<Rightarrow> jsval \<Rightarrow> jsval list \<Rightarrow> aggregate" where
  "aggregateBlockerExtensions classify HUMAN_REASONS results installed =
     (let declared = declared_reasons installed HUMAN_REASONS in
      if \<not> is_array results
      then \<lparr>ag_verdict = ''human'', ag_reason = ''extension-failed'', ag_outcomes = [],
             ag_failed = [''(results unreadable)''], ag_findings = [], ag_findingNotes = [],
             ag_humanReasons = filter (\<lambda>code. code \<in> snd ` set declared) HUMAN_REASONS, ag_waitReason = JNull\<rparr>
      else
        (let entries = judged_entries (array_or_empty results) installed;
             outcomes = map (\<lambda>e. (extension_name e, classify (prop_of e ''result'')
                 (prop_of e ''timedOut'' = JBool True) (prop_of e ''crashed'' = JBool True)
                 (prop_of e ''optional'' = JBool True))) entries;
             failed = map fst (filter (\<lambda>(_, x). outcome_is x ''failed'') outcomes);
             malfunctions = map (\<lambda>nm. map_of declared nm) failed;
             humanReasons = filter (\<lambda>code. Some code \<in> set malfunctions \<or>
                 list_ex (\<lambda>(_, x). ok_verdict x ''human'' \<and> prop_of x ''humanReason'' = JStr code) outcomes)
               HUMAN_REASONS;
             reported = concat (map (\<lambda>(e, (nm, x)).
                 if ok_verdict x ''fail''
                 then map (\<lambda>f. (nm, f)) (array_or_empty (prop_of (prop_of e ''result'') ''findings'')) else [])
               (zip entries outcomes));
             with_name = (\<lambda>(nm, f). spread [(''extension'', JStr nm)] f);
             findings = map with_name (filter (\<lambda>(_, f). \<not> isNoteFinding f) reported);
             notes = map with_name (filter (\<lambda>(_, f). isNoteFinding f) reported);
             waitReason = (case find (\<lambda>(_, x). ok_verdict x ''wait'') outcomes of
                 Some (_, x) \<Rightarrow> coalesce (prop_of x ''waitReason'') JNull | None \<Rightarrow> JNull);
             verdict = (if failed \<noteq> [] then (''human'', ''extension-failed'')
               else if findings \<noteq> [] then (''defect'', ''findings'')
               else if truthy waitReason then (''wait'', js_string waitReason)
               else if humanReasons \<noteq> [] then (''human'', join '','' humanReasons)
               else (''pass'', ''verified'')) in
         \<lparr>ag_verdict = fst verdict, ag_reason = snd verdict,
          ag_outcomes = map (\<lambda>(nm, x). spread [(''extension'', JStr nm)] x) outcomes,
          ag_failed = failed, ag_findings = findings, ag_findingNotes = notes,
          ag_humanReasons = humanReasons, ag_waitReason = waitReason\<rparr>))"

definition splitEligibility :: "string list \<Rightarrow> string list \<times> bool" where
  "splitEligibility reasons =
     (filter (\<lambda>r. r \<notin> set [''partial-marker'', ''ci-not-settled'', ''ci-not-green-on-head'', ''merge-state-dirty'']) reasons,
      ''partial-marker'' \<in> set reasons)"

section \<open>Collected blockers validate\<close>

lemma set_dropWhile_keep: "c \<in> set s \<Longrightarrow> \<not> P c \<Longrightarrow> c \<in> set (dropWhile P s)"
  by (induction s) auto

lemma trim_nonblank: "c \<in> set s \<Longrightarrow> \<not> is_ws c \<Longrightarrow> trim s \<noteq> []"
  by (auto simp: trim_def dropWhile_eq_Nil_conv dest: set_dropWhile_keep)

lemma join_lines_no_newline: "\<not> list_ex newline_char (join_lines s)"
  by (induction s rule: join_lines.induct) (auto simp: newline_char_def)

lemma oneLine_line: "is_line (JStr (oneLine v)) \<longleftrightarrow> oneLine v \<noteq> []"
proof -
  have "\<not> list_ex newline_char (oneLine v)"
    using join_lines_no_newline set_trim unfolding oneLine_def list_ex_iff by blast
  then show ?thesis by (simp add: is_line_def string_or_empty_def oneLine_def)
qed

text \<open>The shapes the collector makes.\<close>

definition located :: "jsval \<Rightarrow> jsval \<Rightarrow> jsval \<Rightarrow> bool" where
  "located sev file l \<longleftrightarrow>
     sev \<in> set (map JStr SEVERITIES) \<and> (file = JNull \<or> is_nonempty_string file) \<and>
     (l = JNull \<or> safe_positive l \<and> file \<noteq> JNull)"

inductive proper_blocker :: "jsval \<Rightarrow> bool" where
  review: "review_id_form (JStr i) \<Longrightarrow> located sev file l \<Longrightarrow> is_line (JStr s) \<Longrightarrow>
    proper_blocker (blocker_obj i ''review-finding'' sev file l s t)"
| check: "is_line (JStr s) \<Longrightarrow> \<not> starts_with s ''boss/'' \<Longrightarrow>
    proper_blocker (blocker_obj (''check:'' @ s) ''check'' JNull JNull JNull s t)"
| conflict: "is_line (JStr s) \<Longrightarrow>
    proper_blocker (blocker_obj ''conflict'' ''conflict'' JNull JNull JNull s t)"

lemma blocker_obj_props [simp]:
  "prop_of (blocker_obj i k sev file l s t) ''id'' = JStr i"
  "prop_of (blocker_obj i k sev file l s t) ''kind'' = JStr k"
  "prop_of (blocker_obj i k sev file l s t) ''severity'' = sev"
  "prop_of (blocker_obj i k sev file l s t) ''file'' = file"
  "prop_of (blocker_obj i k sev file l s t) ''line'' = l"
  "prop_of (blocker_obj i k sev file l s t) ''summary'' = JStr s"
  "prop_of (blocker_obj i k sev file l s t) ''text'' = JStr t"
  by (simp_all add: blocker_obj_def)

lemma exactKeys_blocker [simp]: "exactKeys (blocker_obj i k sev file l s t) BLOCKER_FIELDS"
  by (simp add: exactKeys_def blocker_obj_def BLOCKER_FIELDS_def is_plain_object_def entries_of_def has_key_def)

definition hash_form :: "(string \<Rightarrow> string) \<Rightarrow> bool" where
  "hash_form hash \<longleftrightarrow>
     (\<forall>s. length (hash s) = 12 \<and> list_all (\<lambda>c. is_digit c \<or> c \<in> set ''abcdef'') (hash s))"

lemma reviewId_form: "hash_form hash \<Longrightarrow> review_id_form (JStr (reviewId hash f))"
  by (simp add: review_id_form_def reviewId_def starts_with_def hash_form_def)

lemma finding_proper:
  assumes "hash_form hash" "blocking_finding f" "oneLine (prop_of f ''title'') \<noteq> []"
  shows "proper_blocker (finding_blocker hash f)"
  unfolding finding_blocker_def Let_def
  by (rule proper_blocker.review)
     (use assms reviewId_form oneLine_line in \<open>auto simp: located_def blocking_finding_def\<close>)

lemma check_proper: "blocking_check c \<Longrightarrow> proper_blocker (check_blocker c)"
  unfolding check_blocker_def Let_def
  by (rule proper_blocker.check) (use oneLine_line in \<open>auto simp: blocking_check_def check_name_def\<close>)

lemma conflict_proper: "proper_blocker conflict_blocker"
  unfolding conflict_blocker_def
  by (rule proper_blocker.conflict) (simp add: is_line_def string_or_empty_def trim_def is_ws_def newline_char_def)

lemma collected_proper:
  assumes "hash_form hash"
    and "\<not> partial \<Longrightarrow> \<forall>f \<in> set findings. blocking_finding f \<longrightarrow> oneLine (prop_of f ''title'') \<noteq> []"
  shows "\<forall>b \<in> set (collected hash findings checks conflict partial). proper_blocker b"
  using assms finding_proper check_proper conflict_proper by (auto simp: collected_def)

lemma js_compare_sign:
  assumes "\<And>x. x \<in> D \<Longrightarrow> \<exists>s. f x = JStr s"
  shows "sign_comparator (\<lambda>x y. js_compare (f x) (f y)) D"
proof -
  have eq: "js_compare (f x) (f y) = (let s = string_or_empty (f x); t = string_or_empty (f y) in
      if s < t then - 1 else if t < s then 1 else 0)" if "x \<in> D" "y \<in> D" for x y
    using assms[OF that(1)] assms[OF that(2)] by (auto simp: js_compare_def js_less_def string_or_empty_def Let_def)
  show ?thesis
    by unfold_locales (auto simp: eq Let_def split: if_splits)
qed

lemma proper_strings_all:
  assumes "proper_blocker b"
  shows "(\<exists>s. field_or_empty b ''severity'' = JStr s) \<and> (\<exists>s. field_or_empty b ''file'' = JStr s) \<and>
    (\<exists>s. prop_of b ''summary'' = JStr s) \<and> (\<exists>s. prop_of b ''id'' = JStr s) \<and> (\<exists>s. prop_of b ''text'' = JStr s)"
  using assms
proof cases
  case (review i sev fl l s t)
  have "fl = JNull \<or> (\<exists>x. fl = JStr x)" "\<exists>x. sev = JStr x"
    using review(3) by (cases fl; auto simp: located_def SEVERITIES_def)+
  then show ?thesis using review(1) by (auto simp: field_or_empty_def)
qed (simp_all add: field_or_empty_def)

lemma proper_strings:
  assumes "proper_blocker b"
  shows "\<exists>s. field_or_empty b ''severity'' = JStr s" "\<exists>s. field_or_empty b ''file'' = JStr s"
    "\<exists>s. prop_of b ''summary'' = JStr s" "\<exists>s. prop_of b ''id'' = JStr s" "\<exists>s. prop_of b ''text'' = JStr s"
  using proper_strings_all[OF assms] by blast+

lemma blockerOrder_sign: "sign_comparator blockerOrder (Collect proper_blocker)"
  unfolding blockerOrder_def[abs_def]
  by (intro sign_comparator.chain difference_sign js_compare_sign) (simp_all add: proper_strings)

lemma sort_order_sign: "sign_comparator sort_order (Collect proper_blocker)"
  unfolding sort_order_def[abs_def]
  by (intro sign_comparator.chain blockerOrder_sign js_compare_sign) (simp add: proper_strings)

interpretation blocker_order: sign_comparator sort_order "Collect proper_blocker"
  by (rule sort_order_sign)

lemma sort_order_le: "sort_order a b \<le> 0 \<Longrightarrow> blockerOrder a b \<le> 0"
  by (simp add: sort_order_def split: if_splits)

lemma first_ids_member: "b \<in> set (first_ids seen bs) \<Longrightarrow> b \<in> set bs \<and> prop_of b ''id'' \<notin> set seen"
  by (induction bs arbitrary: seen) (fastforce split: if_splits)+

lemma first_ids_subset: "set (first_ids seen bs) \<subseteq> {b \<in> set bs. prop_of b ''id'' \<notin> set seen}"
  using first_ids_member by blast

lemma first_ids_distinct: "distinct (map (\<lambda>b. prop_of b ''id'') (first_ids seen bs))"
proof (induction bs arbitrary: seen)
  case (Cons b bs)
  have "prop_of b ''id'' \<notin> (\<lambda>b. prop_of b ''id'') ` set (first_ids (prop_of b ''id'' # seen) bs)"
    using first_ids_subset[of "prop_of b ''id'' # seen" bs] by auto
  with Cons.IH show ?case by simp
qed simp

lemma first_ids_sorted: "sorted_wrt R bs \<Longrightarrow> sorted_wrt R (first_ids seen bs)"
proof (induction bs arbitrary: seen)
  case (Cons b bs)
  then show ?case using first_ids_subset[of "prop_of b ''id'' # seen" bs] by auto
qed simp

lemma proper_faults:
  assumes "proper_blocker b" "prop_of b ''id'' \<notin> set ids"
    and "\<And>p. previous = Some p \<Longrightarrow> blockerOrder p b \<le> 0"
  shows "entry_faults pos ids previous b = []"
proof -
  have prev: "(case previous of Some p \<Rightarrow> \<not> (is_plain_object p \<and> blockerOrder p b > 0) | None \<Rightarrow> True)"
    using assms(3) by (fastforce split: option.split)
  have kinds: "JStr ''review-finding'' \<in> set (map JStr BLOCKER_KINDS)" "JStr ''check'' \<in> set (map JStr BLOCKER_KINDS)"
    "JStr ''conflict'' \<in> set (map JStr BLOCKER_KINDS)"
    by (simp_all add: BLOCKER_KINDS_def)
  show ?thesis
    using assms(1)
  proof cases
    case (review i sev fl l s t)
    have "CHR ''r'' \<in> set i"
      using review(2) by (cases i) (auto simp: review_id_form_def starts_with_def)
    then have "is_nonempty_string (JStr i)" using trim_nonblank[of "CHR ''r''" i] by (simp add: is_ws_def)
    then show ?thesis using review(2-) assms(2) prev kinds
      by (simp add: blocker_obj_props[of i "''review-finding''" sev fl l s t, folded review(1)] entry_faults_def Let_def unless_def located_def is_string_def)
  next
    case (check s t)
    have "is_nonempty_string (JStr (''check:'' @ s))"
      using trim_nonblank[of "CHR ''c''" "''check:'' @ s"] by (simp add: is_ws_def)
    then show ?thesis using check(2-) assms(2) prev kinds
      by (simp add: blocker_obj_props[of "''check:'' @ s" "''check''" JNull JNull JNull s t, folded check(1)] entry_faults_def Let_def unless_def string_or_empty_def is_line_def is_string_def)
  next
    case (conflict s t)
    have "is_nonempty_string (JStr ''conflict'')"
      using trim_nonblank[of "CHR ''c''" "''conflict''"] by (simp add: is_ws_def)
    then show ?thesis using conflict(2-) assms(2) prev kinds
      by (simp add: blocker_obj_props[of "''conflict''" "''conflict''" JNull JNull JNull s t, folded conflict(1)] entry_faults_def Let_def unless_def is_string_def)
  qed
qed

lemma proper_exact: "proper_blocker b \<Longrightarrow> exactKeys b BLOCKER_FIELDS"
  by (auto elim!: proper_blocker.cases)

lemma proper_entries:
  assumes "\<forall>b \<in> set bs. proper_blocker b" "sorted_wrt (\<lambda>a b. blockerOrder a b \<le> 0) bs"
    and "distinct (map (\<lambda>b. prop_of b ''id'') bs)" "\<forall>b \<in> set bs. prop_of b ''id'' \<notin> set ids"
    and "\<And>p b. previous = Some p \<Longrightarrow> b \<in> set bs \<Longrightarrow> blockerOrder p b \<le> 0"
  shows "entries_faults i ids previous bs = []"
  using assms
proof (induction bs arbitrary: i ids previous)
  case (Cons b bs)
  have p: "proper_blocker b" "\<forall>b \<in> set bs. proper_blocker b" using Cons.prems(1) by auto
  have s: "\<forall>c \<in> set bs. blockerOrder b c \<le> 0" "sorted_wrt (\<lambda>a b. blockerOrder a b \<le> 0) bs"
    using Cons.prems(2) by auto
  have d: "prop_of b ''id'' \<notin> (\<lambda>b. prop_of b ''id'') ` set bs" "distinct (map (\<lambda>b. prop_of b ''id'') bs)"
    using Cons.prems(3) by auto
  have ids: "prop_of b ''id'' \<notin> set ids" "\<forall>c \<in> set bs. prop_of c ''id'' \<notin> set ids"
    using Cons.prems(4) by auto
  have "entry_faults (''blockers['' @ show_nat i @ '']'') ids previous b = []"
    by (rule proper_faults[OF p(1) ids(1)]) (rule Cons.prems(5), simp_all)
  moreover have "\<forall>c \<in> set bs. prop_of c ''id'' \<notin> set (prop_of b ''id'' # ids)"
    using d(1) ids(2) by (metis image_eqI set_ConsD)
  then have "entries_faults (Suc i) (prop_of b ''id'' # ids) (Some b) bs = []"
    by (rule Cons.IH[OF p(2) s(2) d(2)]) (use s(1) in blast)
  ultimately show ?case using proper_exact[OF p(1)] by (simp add: Let_def)
qed simp

definition blocker_file :: "jsval \<Rightarrow> jsval \<Rightarrow> jsval list \<Rightarrow> jsval" where
  "blocker_file pr head blockers =
     JObj [(''version'', JNum (Fin 1)), (''pr'', pr), (''head'', head), (''blockers'', JArr blockers)]"

lemma blocker_file_errors_simp:
  "safe_positive pr \<Longrightarrow> sha head \<Longrightarrow> bs \<noteq> [] \<Longrightarrow>
     blocker_file_errors (blocker_file pr head bs) = entries_faults 0 [] None bs"
  by (simp add: blocker_file_errors_def blocker_file_def exactKeys_def is_plain_object_def entries_of_def
      has_key_def unless_def is_array_def array_or_empty_def Let_def)

text \<open>C35: whatever is collected is accepted. The blockers of any findings with titles, any checks and any
  conflict make a file that validates, in order and without a repeated id.\<close>

theorem buildBlockers_validate:
  assumes hash: "hash_form hash"
    and titled: "\<forall>f \<in> set findings. blocking_finding f \<longrightarrow> oneLine (prop_of f ''title'') \<noteq> []"
    and nonempty: "buildBlockers hash findings checks conflict partial \<noteq> []"
    and facts: "safe_positive pr" "sha head"
  shows "validateBlockerFile (blocker_file pr head (buildBlockers hash findings checks conflict partial)) = (True, [])"
proof -
  let ?c = "collected hash findings checks conflict partial"
  have proper: "\<forall>b \<in> set ?c. proper_blocker b"
    by (rule collected_proper[OF hash]) (use titled in blast)
  have "sorted_wrt (\<lambda>a b. sort_order a b \<le> 0) (sort_by sort_order ?c)"
    by (rule blocker_order.sorted_sort_by) (use proper in auto)
  then have "sorted_wrt (\<lambda>a b. blockerOrder a b \<le> 0) (sort_by sort_order ?c)"
    by (rule sorted_wrt_mono_rel[rotated]) (rule sort_order_le)
  then have "entries_faults 0 [] None (buildBlockers hash findings checks conflict partial) = []"
    unfolding buildBlockers_def
    by (intro proper_entries first_ids_sorted first_ids_distinct)
       (use proper first_ids_subset[of "[]" "sort_by sort_order ?c"] in auto)
  then show ?thesis
    using blocker_file_errors_simp[OF facts nonempty] by (simp add: validateBlockerFile_def Let_def)
qed

text \<open>one blocking finding without a title is enough to lose the file: its own entry is refused, and
  with it every other blocker of the head.\<close>

theorem untitled_finding_refused:
  assumes "blocking_finding f" "oneLine (prop_of f ''title'') = []"
  shows "\<not> fst (validateBlockerFile (blocker_file pr head (buildBlockers hash [f] [] False False)))"
proof -
  have b: "buildBlockers hash [f] [] False False = [finding_blocker hash f]"
    using assms(1) by (simp add: buildBlockers_def collected_def)
  have "\<not> is_line (JStr (oneLine (prop_of f ''title'')))" using assms(2) oneLine_line by blast
  then have "entries_faults 0 [] None [finding_blocker hash f] \<noteq> []"
    by (simp add: finding_blocker_def entry_faults_def unless_def Let_def)
  then show ?thesis
    by (simp add: b validateBlockerFile_def blocker_file_errors_def blocker_file_def exactKeys_def is_plain_object_def
      entries_of_def has_key_def is_array_def array_or_empty_def Let_def)
qed

section \<open>Trailers come back\<close>

lemma split_on_concat: "split_on c (s @ c # t) = split_on c s @ split_on c t"
proof (induction s)
  case (Cons d ds)
  then show ?case by (cases "split_on c ds") auto
qed simp

lemma last_split_on: "c \<notin> set t \<Longrightarrow> last (split_on c (s @ c # t)) = t"
  by (simp add: split_on_concat split_on_whole)

lemma trim_end_id: "s \<noteq> [] \<Longrightarrow> \<not> is_ws (last s) \<Longrightarrow> trim_end s = s"
  by (cases s rule: rev_cases) (simp_all add: trim_end_def)

lemma SHA_no_newline: "SHA h \<Longrightarrow> CHR 0x0A \<notin> set h"
  by (auto simp: SHA_def list_all_iff is_hex_def is_digit_def lower_char_def)

lemma b64_no_newline: "list_all b64_char p \<Longrightarrow> CHR 0x0A \<notin> set p"
  by (auto simp: list_all_iff b64_char_def)

lemma trailer_open_facts: "length trailer_open = 31" "to_lower trailer_open = trailer_open" "CHR 0x0A \<notin> set trailer_open"
  by code_simp+

lemma trailer_match_written:
  assumes "SHA h" "p \<noteq> []" "list_all b64_char p"
  shows "trailer_match (trailer_open @ h @ '' v1 '' @ p @ '' -->'') = Some (h, p)"
proof -
  let ?l = "trailer_open @ h @ '' v1 '' @ p @ '' -->''"
  have h: "length h = 40" using assms(1) by (simp add: SHA_def)
  have parts: "drop (31 + 44) ?l = p @ '' -->''" "take 40 (drop 31 ?l) = h" "take 4 (drop (31 + 40) ?l) = '' v1 ''"
    "take 31 ?l = trailer_open"
    using h trailer_open_facts(1) by simp_all
  have "to_lower '' v1 '' = '' v1 ''" by code_simp
  moreover have "5 \<le> length (p @ '' -->'')" using assms(2) by (cases p) simp_all
  moreover have "take (length (p @ '' -->'') - 4) (p @ '' -->'') = p" "drop (length (p @ '' -->'') - 4) (p @ '' -->'') = '' -->''"
    by simp_all
  ultimately show ?thesis
    using assms(1,3) unfolding trailer_match_def Let_def trailer_open_facts(1) parts trailer_open_facts(2)
    by (simp del: length_append)
qed

lemma valid_head:
  assumes "validateBlockerFile f = (True, errs)"
  shows "sha (prop_of f ''head'')"
proof -
  have "blocker_file_errors f = []" using assms by (simp add: validateBlockerFile_def Let_def)
  then show ?thesis by (auto simp: blocker_file_errors_def unless_def Let_def split: if_splits)
qed

text \<open>a blocker file survives its comment: whatever text precedes it, the trailer that was written is
  read back as the same file, for any codec that decodes what it encoded for this file.\<close>

theorem trailer_roundtrip:
  assumes written: "encodeBlockerTrailer encode f = Inr t"
    and codec: "decode (encode f) = Some f" "encode f \<noteq> []" "list_all b64_char (encode f)"
  shows "parseBlockerTrailer decode (JStr (comment @ [CHR 0x0A] @ t)) = Some f"
proof -
  obtain errs where v: "validateBlockerFile f = (True, errs)"
      and t: "t = trailer_open @ string_or_empty (prop_of f ''head'') @ '' v1 '' @ encode f @ '' -->''"
    using written by (auto simp: encodeBlockerTrailer_def split: prod.splits if_splits)
  obtain h where h: "prop_of f ''head'' = JStr h" "SHA h"
    using valid_head[OF v] by (cases "prop_of f ''head''") (simp_all add: sha_def)
  have t: "t = trailer_open @ h @ '' v1 '' @ encode f @ '' -->''"
    using t h(1) by (simp add: string_or_empty_def)
  have "CHR 0x0A \<notin> set t"
    using SHA_no_newline[OF h(2)] b64_no_newline[OF codec(3)] trailer_open_facts(3) by (simp add: t)
  then have last: "last (split_on (CHR 0x0A) (comment @ [CHR 0x0A] @ t)) = t"
    using last_split_on by simp
  have "last (comment @ [CHR 0x0A] @ t) = CHR ''>''" by (simp add: t)
  then have "trim_end (comment @ [CHR 0x0A] @ t) = comment @ [CHR 0x0A] @ t"
    by (intro trim_end_id) (simp_all add: is_ws_def)
  then show ?thesis
    using last trailer_match_written[OF h(2) codec(2,3)] codec(1) v h(1)
    by (simp add: parseBlockerTrailer_def t)
qed

definition demo_finding :: "string \<Rightarrow> string \<Rightarrow> jsval" where
  "demo_finding sev title =
     JObj [(''verified'', JBool True), (''introduced'', JBool True), (''severity'', JStr sev),
           (''title'', JStr title), (''file'', JStr ''a.ts''), (''line'', JNum (Fin 7))]"

definition demo_hash :: "string \<Rightarrow> string" where "demo_hash s = ''0123456789ab''"

definition demo_head :: string where "demo_head = replicate 40 CHR ''a''"

definition demo_blockers :: "jsval list" where
  "demo_blockers = buildBlockers demo_hash [demo_finding ''p1'' ''leak'', demo_finding ''P3'' ''style'']
     [JStr ''lint'', JStr ''boss/verify'', JStr ''e2e''] True False"

lemma demo_titled: "blocking_finding (demo_finding s t) \<Longrightarrow> oneLine (prop_of (demo_finding s t) ''title'') = oneLine (JStr t)"
  by (simp add: demo_finding_def)

lemma demo_hash_form: "hash_form demo_hash"
  by (simp add: hash_form_def demo_hash_def is_digit_def)

theorem buildBlockers_validate_witness:
  "validateBlockerFile (blocker_file (JNum (Fin 7)) (JStr demo_head) demo_blockers) = (True, []) \<and>
   map (\<lambda>b. prop_of b ''id'') demo_blockers =
     [JStr ''review:0123456789ab'', JStr ''check:e2e'', JStr ''check:lint'', JStr ''conflict'']"
proof -
  have titled: "\<forall>f \<in> set [demo_finding ''p1'' ''leak'', demo_finding ''P3'' ''style'']. blocking_finding f \<longrightarrow> oneLine (prop_of f ''title'') \<noteq> []"
    by code_simp
  have ids: "map (\<lambda>b. prop_of b ''id'') demo_blockers =
     [JStr ''review:0123456789ab'', JStr ''check:e2e'', JStr ''check:lint'', JStr ''conflict'']"
    by code_simp
  then have "demo_blockers \<noteq> []" by auto
  moreover have "safe_positive (JNum (Fin 7))" "sha (JStr demo_head)" by code_simp+
  ultimately show ?thesis
    using buildBlockers_validate[OF demo_hash_form titled, of "[JStr ''lint'', JStr ''boss/verify'', JStr ''e2e'']" True False "JNum (Fin 7)" "JStr demo_head"] ids
    unfolding demo_blockers_def by blast
qed

theorem untitled_finding_refused_witness:
  "\<not> fst (validateBlockerFile (blocker_file (JNum (Fin 7)) (JStr demo_head)
     (buildBlockers demo_hash [demo_finding ''p0'' '' ''] [] False False)))"
  by (rule untitled_finding_refused) code_simp+

theorem trailer_roundtrip_witness:
  "parseBlockerTrailer (\<lambda>_. Some (blocker_file (JNum (Fin 7)) (JStr demo_head) [conflict_blocker]))
     (JStr (''text'' @ [CHR 0x0A] @ projr (encodeBlockerTrailer (\<lambda>_. ''e30'') (blocker_file (JNum (Fin 7)) (JStr demo_head) [conflict_blocker])))) =
   Some (blocker_file (JNum (Fin 7)) (JStr demo_head) [conflict_blocker])"
proof (rule trailer_roundtrip)
  show "encodeBlockerTrailer (\<lambda>_. ''e30'') (blocker_file (JNum (Fin 7)) (JStr demo_head) [conflict_blocker]) =
    Inr (projr (encodeBlockerTrailer (\<lambda>_. ''e30'') (blocker_file (JNum (Fin 7)) (JStr demo_head) [conflict_blocker])))"
    by code_simp
  show "list_all b64_char ''e30''" by code_simp
qed simp_all

section \<open>Extension results\<close>

text \<open>a pass accounts for every installed extension: each one either reported a result, or its silence
  was judged as a crash and the classifier did not call that a failure.\<close>

theorem aggregate_pass_accounts:
  assumes "ag_verdict (aggregateBlockerExtensions classify reasons results installed) = ''pass''"
    and "ext \<in> set installed" "is_nonempty_string (prop_of ext ''name'')"
  shows "(\<exists>e \<in> set (array_or_empty results). prop_of e ''extension'' = prop_of ext ''name'') \<or>
    \<not> outcome_is (classify JUndef False True (prop_of ext ''optional'' = JBool True)) ''failed''"
proof (rule disjCI)
  assume "\<not> \<not> outcome_is (classify JUndef False True (prop_of ext ''optional'' = JBool True)) ''failed''"
  then have fails: "outcome_is (classify JUndef False True (prop_of ext ''optional'' = JBool True)) ''failed''" by simp
  show "\<exists>e \<in> set (array_or_empty results). prop_of e ''extension'' = prop_of ext ''name''"
  proof (rule ccontr)
    assume silent: "\<not> ?thesis"
    define crashed where "crashed = JObj [(''extension'', prop_of ext ''name''),
      (''optional'', JBool (prop_of ext ''optional'' = JBool True)), (''crashed'', JBool True)]"
    define entries where "entries = judged_entries (array_or_empty results) installed"
    have crashed: "crashed \<in> set entries"
    proof -
      have "prop_of ext ''name'' \<notin> set (filter is_nonempty_string (map (\<lambda>e. prop_of e ''extension'') (filter is_object (array_or_empty results))))"
        using silent by auto
      then show ?thesis
        unfolding entries_def judged_entries_def Let_def crashed_def set_append set_map using assms(2,3)
        by (intro UnI2 image_eqI[where x = ext]) simp_all
    qed
    define judge where "judge = (\<lambda>e. (extension_name e, classify (prop_of e ''result'')
        (prop_of e ''timedOut'' = JBool True) (prop_of e ''crashed'' = JBool True) (prop_of e ''optional'' = JBool True)))"
    have "outcome_is (snd (judge crashed)) ''failed''"
      using fails by (simp add: judge_def crashed_def)
    then have "filter (\<lambda>(_, x). outcome_is x ''failed'') (map judge entries) \<noteq> []"
      using crashed by (auto simp: filter_empty_conv case_prod_unfold)
    then have failed: "(map fst (filter (\<lambda>(_, x). outcome_is x ''failed'') (map judge entries)) \<noteq> []) = True" by simp
    have "is_array results = True"
      using assms(1) by (rule contrapos_pp) (simp add: aggregateBlockerExtensions_def Let_def)
    then have "ag_verdict (aggregateBlockerExtensions classify reasons results installed) = ''human''"
      unfolding aggregateBlockerExtensions_def Let_def entries_def[symmetric] judge_def[symmetric]
      by (simp only: failed if_True if_False not_True_eq_False aggregate.select_convs fst_conv)
    then show False using assms(1) by simp
  qed
qed

definition demo_classify :: "jsval \<Rightarrow> bool \<Rightarrow> bool \<Rightarrow> bool \<Rightarrow> jsval" where
  "demo_classify result timedOut crashed optional =
     JObj [(''outcome'', JStr (if crashed \<or> timedOut then ''failed'' else ''ok'')), (''verdict'', JStr ''pass'')]"

theorem aggregate_pass_accounts_witness:
  "\<exists>e \<in> set (array_or_empty (JArr [JObj [(''extension'', JStr ''lint'')]])). prop_of e ''extension'' = JStr ''lint''"
proof -
  let ?ext = "JObj [(''name'', JStr ''lint'')]"
  have "ag_verdict (aggregateBlockerExtensions demo_classify [] (JArr [JObj [(''extension'', JStr ''lint'')]]) [?ext]) = ''pass''"
    "is_nonempty_string (prop_of ?ext ''name'')" by code_simp+
  moreover have "outcome_is (demo_classify JUndef False True (prop_of ?ext ''optional'' = JBool True)) ''failed''"
    by code_simp
  ultimately show ?thesis
    using aggregate_pass_accounts[of demo_classify "[]" "JArr [JObj [(''extension'', JStr ''lint'')]]" "[?ext]" ?ext]
    by simp
qed

lemma unless_Nil [simp]: "unless P r = [] \<longleftrightarrow> P"
  by (simp add: unless_def)

end
