(* ===== verification/CompletionGate.thy ===== *)
theory CompletionGate
  imports ReadyGate StageChain VerifyBlockers
begin

text \<open>
  \<open>build/completion-gate.mjs\<close>: the merge envelope of a finished build and the verify fast path that
  judges, posts and merges through the sibling verify gate. The reads of an envelope are arguments;
  the fast path runs against a host that answers each command as an arbitrary function of the commands
  issued so far, and returns its result with those commands. The lemmas show what must hold before
  the merge verb is ever called and what a recorded merge proves.
\<close>

section \<open>Classifiers\<close>

definition classifyVerifyConsent :: "jsval \<Rightarrow> jsval \<Rightarrow> string" where
  "classifyVerifyConsent jobs repoId =
     (if \<not> is_nonempty_string repoId then ''unknown''
      else if \<not> is_array jobs \<or> list_ex (\<lambda>job. \<not> is_plain_object job) (array_or_empty jobs) then ''unknown''
      else if list_ex (\<lambda>job. prop_of job ''enabled'' = JBool True \<and> prop_of job ''repo_id'' = repoId \<and>
             invokedSkill (prop_of job ''prompt'') = map_of STAGE_SKILL ''verify'') (array_or_empty jobs)
      then ''present'' else ''absent'')"

definition classifyLaunchOrigin :: "jsval \<Rightarrow> string" where
  "classifyLaunchOrigin report =
     (let mode = (if is_string report then report else prop_of report ''mode'') in
      if mode = JStr ''cron'' \<or> mode = JStr ''managed'' then ''standalone''
      else if mode = JStr ''unattended'' then ''epic-child''
      else ''launch-origin-unknown'')"

definition positive_int :: "jsval \<Rightarrow> bool" where
  "positive_int v = (case v of JNum (Fin n) \<Rightarrow> 1 \<le> n | _ \<Rightarrow> False)"

fun watch_scan :: "jsval \<Rightarrow> jsval \<Rightarrow> jsval list \<Rightarrow> string" where
  "watch_scan targetChatId pr [] = ''own-chat-only''"
| "watch_scan targetChatId pr (w # ws) =
     (let state = to_lower (js_string (prop_of w ''state'')) in
      if \<not> is_object w \<or> \<not> positive_int (prop_of w ''pr_number'') then ''pr-watchers-unknown''
      else if truthy pr \<and> prop_of w ''pr_number'' \<noteq> pr then watch_scan targetChatId pr ws
      else if state \<in> set [''delivered'', ''expired'', ''cancelled'', ''canceled'', ''failed'']
      then watch_scan targetChatId pr ws
      else if state \<notin> set [''active'', ''triggered'', ''leased''] \<or>
              \<not> is_nonempty_string (prop_of w ''target_chat_id'')
      then ''pr-watchers-unknown''
      else if prop_of w ''target_chat_id'' \<noteq> targetChatId then ''foreign-pr-watcher''
      else watch_scan targetChatId pr ws)"

definition classifyWatchers :: "jsval \<Rightarrow> jsval \<Rightarrow> jsval \<Rightarrow> bool \<Rightarrow> jsval \<Rightarrow> string" where
  "classifyWatchers callbacksAvailable watches targetChatId listingOk pr =
     (if callbacksAvailable = JBool False then ''not-checked''
      else if callbacksAvailable \<noteq> JBool True \<or> \<not> listingOk \<or> \<not> is_array watches \<or>
              \<not> is_nonempty_string targetChatId
      then ''pr-watchers-unknown''
      else watch_scan targetChatId pr (array_or_empty watches))"

section \<open>Eligibility\<close>

definition repo_char :: "char \<Rightarrow> bool" where
  "repo_char c \<longleftrightarrow> word_char c \<or> c \<in> set ''.-''"

text \<open>\<open>/^[\w.-]+\/[\w.-]+$/\<close>.\<close>

definition repo_slug :: "jsval \<Rightarrow> bool" where
  "repo_slug v =
     (case v of
        JStr s \<Rightarrow>
          (case split_on (CHR ''/'') s of
             [owner, repo] \<Rightarrow> owner \<noteq> [] \<and> repo \<noteq> [] \<and> list_all repo_char owner \<and> list_all repo_char repo
           | _ \<Rightarrow> False)
      | _ \<Rightarrow> False)"

definition REDUCED :: rx where
  "REDUCED = RSeqs [RLitI ''reduced'', RStar RSpace, RLit ''('']"

text \<open>\<open>'full'\<close>, or \<open>/^quick:\s*\S/\<close> without \<open>/reduced\s*\(/i\<close>.\<close>

definition full_coverage :: "string \<Rightarrow> bool" where
  "full_coverage cov \<longleftrightarrow>
     cov = ''full'' \<or>
     starts_with cov ''quick:'' \<and> dropWhile is_ws (drop 6 cov) \<noteq> [] \<and> \<not> rx_anywhere REDUCED cov"

definition coverage_reasons :: "jsval \<Rightarrow> string list" where
  "coverage_reasons cov =
     (if \<not> is_nonempty_string cov then [''coverage-unknown'']
      else unless (full_coverage (string_or_empty cov)) ''coverage-not-full'')"

definition cross_model_reasons :: "jsval \<Rightarrow> string list" where
  "cross_model_reasons v =
     (if \<not> is_nonempty_string v then [''cross-model-unknown'']
      else unless (to_lower (take 6 (string_or_empty v)) \<noteq> ''error:'') ''cross-model-error'')"

definition string_field :: "jsval \<Rightarrow> string \<Rightarrow> string" where
  "string_field i k = string_or_empty (prop_of i k)"

definition session_reasons :: "jsval \<Rightarrow> string list" where
  "session_reasons i =
     (if prop_of i ''launchOrigin'' = JStr ''epic-child'' then [''epic-child'']
      else unless (prop_of i ''launchOrigin'' = JStr ''standalone'') ''launch-origin-unknown'') @
     (if prop_of i ''watchers'' = JStr ''foreign-pr-watcher'' then [''foreign-pr-watcher'']
      else unless (prop_of i ''watchers'' \<in> set [JStr ''own-chat-only'', JStr ''not-checked'']) ''pr-watchers-unknown'')"

definition consent_reasons :: "jsval \<Rightarrow> string list" where
  "consent_reasons i =
     (if prop_of i ''verifyConsent'' = JStr ''absent'' then [''no-verify-cron'']
      else unless (prop_of i ''verifyConsent'' = JStr ''present'') ''verify-consent-unknown'')"

definition eligibility_reasons :: "jsval \<Rightarrow> string list" where
  "eligibility_reasons i =
     unless (prop_of i ''outcome'' = JStr ''REVIEW_READY'') ''outcome-not-review-ready'' @
     unless (is_nonempty_string (prop_of i ''sessionId'')) ''no-session'' @
     unless (positive_int (prop_of i ''pr'')) ''no-pr'' @
     unless (repo_slug (prop_of i ''repo'')) ''repo-unknown'' @
     reviewReasons (prop_of i ''reviewVerdict'') @
     unless (prop_of i ''openFindings'' = JNum (Fin 0)) ''open-findings'' @
     coverage_reasons (prop_of i ''reviewCoverage'') @
     cross_model_reasons (prop_of i ''crossModelReview'') @
     ciReasons (prop_of i ''ciWaitState'') (prop_of i ''checkVerdict'') (prop_of i ''pushedHead'') @
     mergeStateReasons (prop_of i ''prView'') @
     prShapeReasons (prop_of i ''prView'') @
     headReasons (JArr [prop_of i ''pushedHead'', prop_of i ''localHead'', prop_of i ''upstreamHead'',
       prop_of (prop_of i ''prView'') ''headRefOid'']) @
     (case prop_of i ''treeDrift'' of JStr d \<Rightarrow> driftReasons d | _ \<Rightarrow> driftReasons []) @
     session_reasons i"

record completion_eligibility =
  ce_mergeEligible :: bool
  ce_ineligibleReasons :: "string list"
  ce_mergeAuthorized :: bool
  ce_authorizationReasons :: "string list"

definition computeEligibility :: "jsval \<Rightarrow> completion_eligibility" where
  "computeEligibility inputs =
     (let i = coalesce inputs (JObj []); reasons = eligibility_reasons i;
          authorizationReasons = reasons @ consent_reasons i in
      \<lparr>ce_mergeEligible = (reasons = []), ce_ineligibleReasons = reasons,
       ce_mergeAuthorized = (authorizationReasons = []), ce_authorizationReasons = authorizationReasons\<rparr>)"

section \<open>Settling\<close>

definition skipped_record :: "jsval \<Rightarrow> string \<Rightarrow> jsval" where
  "skipped_record runId reason =
     JObj [(''runId'', runId), (''action'', JStr ''skipped''), (''reason'', JStr reason), (''mergeSha'', JStr [])]"

definition tracker_writes :: "jsval \<Rightarrow> jsval dict" where
  "tracker_writes mergeResult =
     (let t = prop_of mergeResult ''trackerWrites'' in
      if is_nonempty_string t \<and> t \<noteq> JStr ''ok'' then [(''trackerWrites'', t)] else [])"

definition settleCompletion :: "jsval \<Rightarrow> jsval \<Rightarrow> jsval \<Rightarrow> string \<Rightarrow> jsval" where
  "settleCompletion runId livePr mergeResult reason =
     (let state = prop_of livePr ''state''; oid = prop_of (prop_of livePr ''mergeCommit'') ''oid'' in
      if state = JStr ''MERGED'' \<and> sha oid
      then JObj ([(''runId'', runId), (''action'', JStr ''merged''),
          (''reason'', JStr (if prop_of mergeResult ''merged'' = JBool True \<and> prop_of mergeResult ''mergeSha'' = oid
             then ''merged-by-verify'' else ''merged-outside-gate'')),
          (''mergeSha'', oid)] @ tracker_writes mergeResult)
      else if \<not> truthy livePr \<or> state \<notin> set [JStr ''OPEN'', JStr ''CLOSED'', JStr ''MERGED''] \<or> state = JStr ''MERGED''
      then skipped_record runId ''merge-state-unreadable''
      else if \<not> truthy mergeResult
      then skipped_record runId (if trim reason \<noteq> [] then reason else ''merge-not-attempted'')
      else if truthy (prop_of mergeResult ''abandoned'') then skipped_record runId ''claim-lost''
      else if prop_of mergeResult ''verdict'' = JStr ''reverify'' then skipped_record runId ''reverify''
      else if prop_of mergeResult ''dryRun'' = JBool True then skipped_record runId ''dry-run''
      else if prop_of mergeResult ''merged'' = JBool True then skipped_record runId ''merge-not-observed''
      else
        (let first_reason = (case prop_of mergeResult ''reasons'' of JArr (r # _) \<Rightarrow> r | _ \<Rightarrow> JUndef) in
         skipped_record runId
           (case find is_nonempty_string [prop_of mergeResult ''reason'', first_reason, prop_of mergeResult ''verdict''] of
              Some (JStr s) \<Rightarrow> s | _ \<Rightarrow> ''merge-not-observed'')))"

definition postStop :: "jsval \<Rightarrow> string option" where
  "postStop result =
     (if \<not> truthy result then Some ''verify-gate-unreadable''
      else if truthy (prop_of result ''abandoned'') then Some ''claim-lost''
      else if prop_of result ''verdict'' = JStr ''reverify'' then Some ''reverify''
      else if is_nonempty_string (prop_of result ''trackerWrites'') \<and> prop_of result ''trackerWrites'' \<noteq> JStr ''ok''
      then Some (''tracker-writes-'' @ string_field result ''trackerWrites'')
      else if prop_of result ''posted'' \<noteq> JBool True \<and> prop_of result ''skipped'' \<noteq> JStr ''already-posted''
      then Some (if is_nonempty_string (prop_of result ''reason'') then string_field result ''reason''
                 else ''status-not-posted'')
      else None)"

section \<open>The fast path\<close>

datatype command =
    Gate "string list"
  | Gh "string list"
  | Write_json string jsval

text \<open>The answer to the last command of a history; \<open>null\<close> stands for an unreadable one.\<close>

type_synonym gate_host = "command list \<Rightarrow> jsval"

record fast_path =
  fp_host :: gate_host
  fp_envelope :: jsval
  fp_out :: string
  fp_dir :: string
  fp_extensionResults :: jsval
  fp_judgeAreas :: jsval
  fp_token :: jsval
  fp_dryRun :: bool

type_synonym history = "command list"

definition run_id :: "fast_path \<Rightarrow> jsval" where "run_id c = prop_of (fp_envelope c) ''runId''"

definition pr_arg :: "fast_path \<Rightarrow> string" where "pr_arg c = js_string (prop_of (fp_envelope c) ''pr'')"

definition head_arg :: "fast_path \<Rightarrow> string" where "head_arg c = js_string (prop_of (fp_envelope c) ''pushedHead'')"

definition repo_arg :: "fast_path \<Rightarrow> string" where "repo_arg c = js_string (prop_of (fp_envelope c) ''repo'')"

definition gate_ask :: "fast_path \<Rightarrow> history \<Rightarrow> string list \<Rightarrow> jsval" where
  "gate_ask c h args = (let p = fp_host c (h @ [Gate args]) in if is_plain_object p then p else JNull)"

definition finish :: "fast_path \<Rightarrow> history \<Rightarrow> jsval \<Rightarrow> jsval \<times> history" where
  "finish c h result = (result, if fp_dryRun c then h else h @ [Write_json (fp_out c) result])"

definition stop :: "fast_path \<Rightarrow> history \<Rightarrow> string \<Rightarrow> jsval \<times> history" where
  "stop c h reason = finish c h (skipped_record (run_id c) reason)"

definition gate_tail :: "fast_path \<Rightarrow> string list \<Rightarrow> string list" where
  "gate_tail c extra =
     extra @ (if is_nonempty_string (fp_token c) then [''--token'', string_or_empty (fp_token c)] else []) @
     [''--repo'', repo_arg c] @ (if fp_dryRun c then [''--dry-run''] else [])"

definition post_args :: "fast_path \<Rightarrow> string \<Rightarrow> string list \<Rightarrow> string list" where
  "post_args c verdict extra =
     [''post'', ''--pr'', pr_arg c, ''--head'', head_arg c, ''--verdict'', verdict] @ gate_tail c extra"

definition PR_FIELDS :: string where
  "PR_FIELDS = ''state,mergeCommit,number,title,body,isDraft,headRefOid,baseRefName,mergeStateStatus,statusCheckRollup''"

definition pr_view_args :: "string \<Rightarrow> string \<Rightarrow> string list" where
  "pr_view_args pr repo =
     [''pr'', ''view'', pr] @ (if repo \<noteq> [] then [''--repo'', repo] else []) @ [''--json'', PR_FIELDS]"

definition settle :: "fast_path \<Rightarrow> history \<Rightarrow> string \<Rightarrow> jsval \<Rightarrow> jsval \<times> history" where
  "settle c h reason mergeResult =
     (let h' = h @ [Gh (pr_view_args (pr_arg c) (repo_arg c))] in
      finish c h' (settleCompletion (run_id c) (fp_host c h') mergeResult reason))"

text \<open>\<open>encodeURIComponent\<close> on the bytes of UTF-8.\<close>

definition uri_char :: "char \<Rightarrow> bool" where
  "uri_char c \<longleftrightarrow> lower_alnum (lower_char c) \<or> c \<in> set ''-_.!~*'' \<or> c = CHR 0x27 \<or> c \<in> set ''()''"

definition uri_digit :: "nat \<Rightarrow> char" where "uri_digit n = ''0123456789ABCDEF'' ! n"

definition encodeURIComponent :: "string \<Rightarrow> string" where
  "encodeURIComponent s =
     concat (map (\<lambda>c. if uri_char c then [c]
        else [CHR ''%'', uri_digit (of_char c div 16), uri_digit (of_char c mod 16)]) s)"

definition beside :: "fast_path \<Rightarrow> string \<Rightarrow> string" where
  "beside c kind =
     fp_dir c @ ''/boss-build-verify-'' @ kind @ ''-'' @ encodeURIComponent (js_string (run_id c)) @ ''.json''"

definition reason_of :: "jsval \<Rightarrow> string \<Rightarrow> string" where
  "reason_of v d = (if is_nonempty_string (prop_of v ''reason'') then string_field v ''reason'' else d)"

text \<open>\<open>wait\<close>: release the claim, if any, and settle.\<close>

definition on_wait :: "fast_path \<Rightarrow> history \<Rightarrow> string \<Rightarrow> jsval \<times> history" where
  "on_wait c h reason =
     (if \<not> is_nonempty_string (fp_token c) then settle c h (''wait:'' @ reason) JNull
      else (let args = post_args c ''wait'' [''--reason'', reason] in
        settle c (h @ [Gate args])
          (case postStop (gate_ask c h args) of Some s \<Rightarrow> s | None \<Rightarrow> ''wait:'' @ reason) JNull))"

text \<open>\<open>extensions-required\<close> and \<open>judge-required\<close>: claim the head and hand the work to the caller.\<close>

definition hand_out :: "fast_path \<Rightarrow> history \<Rightarrow> jsval \<Rightarrow> string \<Rightarrow> jsval \<times> history" where
  "hand_out c h judged verdict =
     (let judge = (verdict = ''judge-required'');
          dispatch = prop_of judged (if judge then ''judgeEnvelope'' else ''extensionEnvelope'') in
      if \<not> truthy dispatch \<or> truthy (prop_of dispatch ''invalid'')
      then stop c h (if judge then ''judge-envelope-invalid'' else ''extension-envelope-invalid'')
      else
        (let args = post_args c ''claim'' [];
             h' = (if is_nonempty_string (fp_token c) then h else h @ [Gate args]);
             claim = (if is_nonempty_string (fp_token c) then JObj [(''won'', JBool True), (''token'', fp_token c)]
                      else gate_ask c h args) in
         if \<not> truthy claim then stop c h' ''verify-gate-unreadable''
         else if prop_of claim ''won'' \<noteq> JBool True \<or> \<not> is_nonempty_string (prop_of claim ''token'')
         then stop c h' (if \<not> is_nonempty_string (prop_of claim ''reason'') \<or> prop_of claim ''reason'' = JStr ''claim-held''
                         then ''claim-lost'' else string_field claim ''reason'')
         else if judge
         then (JObj [(''runId'', run_id c), (''action'', JStr ''judge-required''), (''token'', prop_of claim ''token''),
                     (''judgeEnvelope'', dispatch)], h')
         else
           (let applicable = prop_of (prop_of judged ''facts'') ''extensionsApplicable'' in
            (JObj ([(''runId'', run_id c), (''action'', JStr ''extensions-required''), (''token'', prop_of claim ''token''),
                    (''extensionEnvelope'', prop_of judged ''extensionEnvelope'')] @
                   (if is_array applicable then [(''extensionsApplicable'', applicable)] else [])), h'))))"

text \<open>\<open>human\<close>, \<open>defect\<close> and \<open>blocked\<close>: write the evidence beside the record and post the verdict.\<close>

definition post_and_settle ::
  "fast_path \<Rightarrow> history \<Rightarrow> string \<Rightarrow> string \<Rightarrow> string list \<Rightarrow> jsval \<times> history" where
  "post_and_settle c h verdict reason extra =
     (let args = post_args c verdict extra; posted = gate_ask c h args in
      settle c (h @ [Gate args])
        (case postStop posted of Some s \<Rightarrow> s
         | None \<Rightarrow> js_string (coalesce (prop_of posted ''verdict'') (JStr verdict)) @ '':'' @ reason_of posted reason)
        JNull)"

definition on_refusal :: "fast_path \<Rightarrow> history \<Rightarrow> jsval \<Rightarrow> string \<Rightarrow> string \<Rightarrow> jsval \<times> history" where
  "on_refusal c h judged verdict reason =
     (if verdict = ''human'' then
        (let confidence = prop_of judged ''confidence''; file = beside c ''confidence'';
             h' = (if truthy confidence then h @ [Write_json file confidence] else h) in
         post_and_settle c h' verdict reason
           ([''--reason'', reason] @
            (if truthy confidence then [''--confidence'', file] else []) @
            (if is_nonempty_string (prop_of judged ''judgeRecord'')
             then [''--judge-record'', string_field judged ''judgeRecord''] else [])))
      else if verdict = ''defect'' then
        (let file = beside c ''findings'' in
         post_and_settle c (h @ [Write_json file (JArr (array_or_empty (prop_of judged ''findings'')))]) verdict reason
           [''--reason'', reason, ''--findings'', file])
      else
        (let file = beside c ''blockers'';
             payload = JObj [(''version'', JNum (Fin 1)),
               (''pr'', coalesce (prop_of judged ''pr'') (prop_of (fp_envelope c) ''pr'')),
               (''head'', prop_of judged ''headSha''), (''blockers'', prop_of judged ''blockers'')] in
         if \<not> fst (validateBlockerFile payload) then settle c h ''blockers-invalid'' JNull
         else post_and_settle c (h @ [Write_json file payload]) verdict reason
           [''--reason'', reason, ''--blockers'', file]))"

text \<open>\<open>pass\<close>: post it, and only then merge.\<close>

definition merge_args :: "fast_path \<Rightarrow> string list" where
  "merge_args c = [''merge'', ''--pr'', pr_arg c, ''--head'', head_arg c] @ gate_tail c []"

definition on_pass :: "fast_path \<Rightarrow> history \<Rightarrow> jsval \<times> history" where
  "on_pass c h =
     (let args = post_args c ''pass'' []; h1 = h @ [Gate args] in
      case postStop (gate_ask c h args) of
        Some stopped \<Rightarrow> settle c h1 stopped JNull
      | None \<Rightarrow>
          (let merged = gate_ask c h1 (merge_args c); h2 = h1 @ [Gate (merge_args c)] in
           if \<not> truthy merged then settle c h2 ''verify-gate-unreadable'' JNull
           else settle c h2 [] merged))"

definition judge_args :: "fast_path \<Rightarrow> string list" where
  "judge_args c =
     [''judge'', ''--pr'', pr_arg c, ''--repo'', repo_arg c] @
     (if is_nonempty_string (fp_extensionResults c) then [''--extension-results'', string_or_empty (fp_extensionResults c)] else []) @
     (if is_nonempty_string (fp_judgeAreas c) then [''--judge-areas'', string_or_empty (fp_judgeAreas c)] else [])"

text \<open>Results were supplied, so a second request for them cannot resolve here.\<close>

definition resolved_verdict :: "fast_path \<Rightarrow> jsval \<Rightarrow> string \<times> string" where
  "resolved_verdict c judged =
     (let v = string_field judged ''verdict''; r = reason_of judged ''unknown'';
          first = (if v = ''extensions-required'' \<and> is_nonempty_string (fp_token c)
                   then (''wait'', ''extensions-unresolved'') else (v, r)) in
      if fst first = ''judge-required'' \<and> is_nonempty_string (fp_judgeAreas c)
      then (''wait'', ''judge-unresolved'') else first)"

definition judge_and_act :: "fast_path \<Rightarrow> jsval \<times> history" where
  "judge_and_act c =
     (let judged = gate_ask c [] (judge_args c); h = [Gate (judge_args c)] in
      if \<not> truthy judged \<or> \<not> is_nonempty_string (prop_of judged ''verdict'') then stop c h ''verify-gate-unreadable''
      else if sha (prop_of judged ''headSha'') \<and> to_lower (string_field judged ''headSha'') \<noteq> to_lower (head_arg c)
      then stop c h ''head-mismatch''
      else
        (case resolved_verdict c judged of (verdict, reason) \<Rightarrow>
         if verdict = ''wait'' then on_wait c h reason
         else if verdict \<in> set [''extensions-required'', ''judge-required''] then hand_out c h judged verdict
         else if verdict \<in> set [''human'', ''defect'', ''blocked''] then on_refusal c h judged verdict reason
         else if verdict \<noteq> ''pass'' then settle c h verdict JNull
         else on_pass c h))"

text \<open>\<open>prior\<close> is what \<open>out\<close> holds; \<open>None\<close> is the throw on a missing run id or output path.\<close>

definition fastPath :: "fast_path \<Rightarrow> jsval \<Rightarrow> (jsval \<times> history) option" where
  "fastPath c prior =
     (if \<not> is_nonempty_string (run_id c) \<or> trim (fp_out c) = [] then None
      else if prop_of prior ''runId'' = run_id c \<and> prop_of prior ''action'' \<in> set [JStr ''merged'', JStr ''skipped'']
      then Some (prior, [])
      else
        (let eligibility = computeEligibility (fp_envelope c); reasons = ce_authorizationReasons eligibility in
         Some (if \<not> ce_mergeAuthorized eligibility
               then stop c [] (if ''epic-child'' \<in> set reasons then ''epic-child'' else hd reasons)
               else if prop_of (fp_envelope c) ''verifyFastPath'' \<noteq> JBool True then stop c [] ''fast-path-off''
               else judge_and_act c)))"

section \<open>What reaches the verify gate\<close>

text \<open>The questions put to the verify gate, in order.\<close>

definition gates :: "history \<Rightarrow> string list list" where
  "gates h = concat (map (\<lambda>x. case x of Gate args \<Rightarrow> [args] | _ \<Rightarrow> []) h)"

lemma gates_append [simp]: "gates (g @ h) = gates g @ gates h"
  by (simp add: gates_def)

lemma gates_simps [simp]:
  "gates [] = []" "gates [Gate a] = [a]" "gates [Gh b] = []" "gates [Write_json f v] = []"
  "gates (Gate a # h) = a # gates h"
  by (simp_all add: gates_def)

lemma gates_finish [simp]: "gates (snd (finish c h r)) = gates h"
  by (simp add: finish_def)

lemma gates_stop [simp]: "gates (snd (stop c h r)) = gates h"
  by (simp add: stop_def)

lemma gates_settle [simp]: "gates (snd (settle c h r m)) = gates h"
  by (simp add: settle_def Let_def)

lemma hd_post_args [simp]: "hd (post_args c v extra) = ''post''"
  by (simp add: post_args_def)

lemma hd_judge_args [simp]: "hd (judge_args c) = ''judge''"
  by (simp add: judge_args_def)

lemma gates_on_wait: "gates (snd (on_wait c h r)) \<in> {gates h, gates h @ [post_args c ''wait'' [''--reason'', r]]}"
  by (simp add: on_wait_def Let_def)

lemma gates_post_and_settle [simp]:
  "gates (snd (post_and_settle c h v r e)) = gates h @ [post_args c v e]"
  by (simp add: post_and_settle_def Let_def)

lemma gates_hand_out:
  "gates (snd (hand_out c h judged v)) \<in> {gates h, gates h @ [post_args c ''claim'' []]}"
  by (simp add: hand_out_def Let_def)

lemma gates_on_refusal:
  "\<exists>extra. gates (snd (on_refusal c h judged v r)) \<in> {gates h, gates h @ [post_args c v extra]}"
proof -
  let ?conf = "truthy (prop_of judged ''confidence'')"
  consider "v = ''human''" | "v = ''defect''" "v \<noteq> ''human''" | "v \<noteq> ''defect''" "v \<noteq> ''human''" by blast
  then show ?thesis
  proof cases
    case 1 then show ?thesis by (cases ?conf) (auto simp: on_refusal_def Let_def)
  next
    case 2 then show ?thesis by (auto simp: on_refusal_def Let_def)
  next
    case 3 then show ?thesis by (auto simp: on_refusal_def Let_def)
  qed
qed

lemma gates_on_pass:
  "gates (snd (on_pass c h)) =
     (if postStop (gate_ask c h (post_args c ''pass'' [])) = None
      then gates h @ [post_args c ''pass'' [], merge_args c] else gates h @ [post_args c ''pass'' []])"
  by (simp add: on_pass_def Let_def split: option.split)

text \<open>The verdict the gate's judgement leaves to act on.\<close>

definition judged_pass :: "fast_path \<Rightarrow> bool" where
  "judged_pass c =
     (let judged = gate_ask c [] (judge_args c) in
      prop_of judged ''verdict'' = JStr ''pass'' \<and>
      (sha (prop_of judged ''headSha'') \<longrightarrow> to_lower (string_field judged ''headSha'') = to_lower (head_arg c)))"

lemma resolved_pass:
  assumes "resolved_verdict c judged = (''pass'', r)" "is_nonempty_string (prop_of judged ''verdict'')"
  shows "prop_of judged ''verdict'' = JStr ''pass''"
  using assms
  by (auto simp: resolved_verdict_def Let_def string_field_def is_nonempty_string_def string_or_empty_def
      split: if_splits jsval.splits)

lemma gates_judge_and_act:
  assumes "args \<in> set (gates (snd (judge_and_act c)))" "hd args = ''merge''"
  shows "judged_pass c \<and> judge_and_act c = on_pass c [Gate (judge_args c)]"
proof -
  define judged where "judged = gate_ask c [] (judge_args c)"
  define h where "h = [Gate (judge_args c)]"
  obtain v r where vr: "resolved_verdict c judged = (v, r)" by fastforce
  have ja: "judge_and_act c =
      (if \<not> truthy judged \<or> \<not> is_nonempty_string (prop_of judged ''verdict'') then stop c h ''verify-gate-unreadable''
       else if sha (prop_of judged ''headSha'') \<and> to_lower (string_field judged ''headSha'') \<noteq> to_lower (head_arg c)
       then stop c h ''head-mismatch''
       else if v = ''wait'' then on_wait c h r
       else if v \<in> set [''extensions-required'', ''judge-required''] then hand_out c h judged v
       else if v \<in> set [''human'', ''defect'', ''blocked''] then on_refusal c h judged v r
       else if v \<noteq> ''pass'' then settle c h v JNull
       else on_pass c h)"
    unfolding judge_and_act_def Let_def judged_def[symmetric] h_def[symmetric] vr by simp
  have gh: "gates h = [judge_args c]" by (simp add: h_def)
  have no: "args \<notin> set (gates (snd (stop c h s)))" "args \<notin> set (gates (snd (settle c h s m)))"
     "args \<notin> set (gates (snd (on_wait c h s)))" "args \<notin> set (gates (snd (hand_out c h judged s)))"
     "args \<notin> set (gates (snd (on_refusal c h judged s t)))" for s m t
    using assms(2) gates_on_wait[of c h s] gates_hand_out[of c h judged s] gates_on_refusal[of c h judged s t]
    by (auto simp: gh)
  have pass: "v = ''pass''" "is_nonempty_string (prop_of judged ''verdict'')"
     "sha (prop_of judged ''headSha'') \<longrightarrow> to_lower (string_field judged ''headSha'') = to_lower (head_arg c)"
    "judge_and_act c = on_pass c h"
    using assms(1) no unfolding ja by (auto split: if_splits)
  then show ?thesis
    using resolved_pass[of c judged r] vr by (auto simp: judged_pass_def judged_def h_def)
qed

lemma fastPath_acts:
  assumes "fastPath c prior = Some (result, calls)" "args \<in> set (gates calls)"
  shows "ce_mergeAuthorized (computeEligibility (fp_envelope c)) \<and>
     prop_of (fp_envelope c) ''verifyFastPath'' = JBool True \<and> judge_and_act c = (result, calls)"
proof -
  have no: "stop c [] s \<noteq> (result, calls)" for s
    using assms(2) gates_stop[of c "[]" s] by (metis empty_iff gates_simps(1) list.set(1) snd_conv)
  show ?thesis using assms no unfolding fastPath_def Let_def
    by (auto split: if_splits)
qed

text \<open>C4:
  The merge verb reaches the verify gate only through the whole protocol. If a fast path ever asks the
  gate to merge, the envelope's recorded facts authorize a merge and the repository turned the fast
  path on; the gate judged this very head (a head it names is the envelope's) to pass; the passing
  status was posted and nothing stopped there (the claim is still held, the tracker writes worked, the
  status is posted); and the gate was asked exactly three things in this order: judge, post pass, and
  one merge of the envelope's head. A prior record, a wait, a refusal or a hand-out never merges.\<close>

theorem fastPath_merge_guarded:
  assumes "fastPath c prior = Some (result, calls)" "args \<in> set (gates calls)" "hd args = ''merge''"
  shows "ce_mergeAuthorized (computeEligibility (fp_envelope c)) \<and>
     prop_of (fp_envelope c) ''verifyFastPath'' = JBool True \<and> judged_pass c \<and>
     postStop (gate_ask c [Gate (judge_args c)] (post_args c ''pass'' [])) = None \<and>
     gates calls = [judge_args c, post_args c ''pass'' [], merge_args c]"
proof -
  have f: "ce_mergeAuthorized (computeEligibility (fp_envelope c))"
     "prop_of (fp_envelope c) ''verifyFastPath'' = JBool True" "judge_and_act c = (result, calls)"
    using fastPath_acts[OF assms(1,2)] by auto
  have p: "judged_pass c" "on_pass c [Gate (judge_args c)] = (result, calls)"
    using gates_judge_and_act[of args c] assms(2,3) f(3) by auto
  have g: "gates calls = gates (snd (on_pass c [Gate (judge_args c)]))" by (simp add: p)
  have post: "postStop (gate_ask c [Gate (judge_args c)] (post_args c ''pass'' [])) = None"
  proof (rule ccontr)
    assume "postStop (gate_ask c [Gate (judge_args c)] (post_args c ''pass'' [])) \<noteq> None"
    then have "gates calls = [judge_args c, post_args c ''pass'' []]"
      unfolding g gates_on_pass by (simp only: if_False gates_simps append.simps)
    then have "args = judge_args c \<or> args = post_args c ''pass'' []" using assms(2) by simp
    with assms(3) show False by auto
  qed
  then have "gates calls = [judge_args c, post_args c ''pass'' [], merge_args c]"
    unfolding g gates_on_pass by (simp only: if_True gates_simps append.simps simp_thms)
  with f p post show ?thesis by blast
qed

section \<open>What a recorded merge proves\<close>

lemma action_skipped [simp]: "prop_of (skipped_record i r) ''action'' = JStr ''skipped''"
  by (simp add: skipped_record_def)

lemma fst_finish [simp]: "fst (finish c h r) = r"
  by (simp add: finish_def)

lemma fst_stop [simp]: "fst (stop c h r) = skipped_record (run_id c) r"
  by (simp add: stop_def)

definition merged_at :: "jsval \<Rightarrow> jsval \<Rightarrow> bool" where
  "merged_at live oid \<longleftrightarrow>
     prop_of live ''state'' = JStr ''MERGED'' \<and> sha oid \<and> prop_of (prop_of live ''mergeCommit'') ''oid'' = oid"

lemma settleCompletion_merged:
  assumes "prop_of (settleCompletion i live m r) ''action'' = JStr ''merged''"
  shows "merged_at live (prop_of (settleCompletion i live m r) ''mergeSha'') \<and>
     (prop_of (settleCompletion i live m r) ''reason'' = JStr ''merged-by-verify'' \<longleftrightarrow>
      prop_of m ''merged'' = JBool True \<and>
      prop_of m ''mergeSha'' = prop_of (settleCompletion i live m r) ''mergeSha'')"
proof (cases "prop_of live ''state'' = JStr ''MERGED'' \<and> sha (prop_of (prop_of live ''mergeCommit'') ''oid'')")
  case True then show ?thesis by (simp add: settleCompletion_def Let_def merged_at_def)
next
  case False
  have "prop_of (settleCompletion i live m r) ''action'' = JStr ''skipped''"
    unfolding settleCompletion_def Let_def if_not_P[OF False]
    by (simp only: if_distrib[of "\<lambda>x. prop_of x _"] action_skipped if_cancel)
  with assms show ?thesis by simp
qed


text \<open>An outcome whose merge, if it records one, was read from the pull request.\<close>

definition observed :: "fast_path \<Rightarrow> jsval \<times> history \<Rightarrow> bool" where
  "observed c out \<longleftrightarrow>
     (prop_of (fst out) ''action'' = JStr ''merged'' \<longrightarrow>
      (\<exists>h rest. snd out = h @ Gh (pr_view_args (pr_arg c) (repo_arg c)) # rest \<and>
         merged_at (fp_host c (h @ [Gh (pr_view_args (pr_arg c) (repo_arg c))])) (prop_of (fst out) ''mergeSha'') \<and>
         (prop_of (fst out) ''reason'' = JStr ''merged-by-verify'' \<longrightarrow>
          (\<exists>g. h = g @ [Gate (merge_args c)] \<and>
             prop_of (gate_ask c g (merge_args c)) ''mergeSha'' = prop_of (fst out) ''mergeSha''))))"

lemma snd_settle:
  "\<exists>rest. snd (settle c h r m) = h @ Gh (pr_view_args (pr_arg c) (repo_arg c)) # rest"
  by (simp add: settle_def Let_def finish_def)

lemma fst_settle:
  "fst (settle c h r m) =
     settleCompletion (run_id c) (fp_host c (h @ [Gh (pr_view_args (pr_arg c) (repo_arg c))])) m r"
  by (simp add: settle_def Let_def)

lemma observed_settle:
  assumes "prop_of m ''merged'' = JBool True \<Longrightarrow> \<exists>g. h = g @ [Gate (merge_args c)] \<and> m = gate_ask c g (merge_args c)"
  shows "observed c (settle c h r m)"
  unfolding observed_def
proof (intro impI)
  let ?live = "fp_host c (h @ [Gh (pr_view_args (pr_arg c) (repo_arg c))])"
  assume "prop_of (fst (settle c h r m)) ''action'' = JStr ''merged''"
  then have "prop_of (settleCompletion (run_id c) ?live m r) ''action'' = JStr ''merged''" by (simp only: fst_settle)
  note s = settleCompletion_merged[OF this, folded fst_settle]
  obtain rest where rest: "snd (settle c h r m) = h @ Gh (pr_view_args (pr_arg c) (repo_arg c)) # rest"
    using snd_settle by blast
  have "\<exists>g. h = g @ [Gate (merge_args c)] \<and>
      prop_of (gate_ask c g (merge_args c)) ''mergeSha'' = prop_of (fst (settle c h r m)) ''mergeSha''"
    if "prop_of (fst (settle c h r m)) ''reason'' = JStr ''merged-by-verify''"
    using s that assms by metis
  with rest s show "\<exists>h' rest. snd (settle c h r m) = h' @ Gh (pr_view_args (pr_arg c) (repo_arg c)) # rest \<and>
      merged_at (fp_host c (h' @ [Gh (pr_view_args (pr_arg c) (repo_arg c))])) (prop_of (fst (settle c h r m)) ''mergeSha'') \<and>
      (prop_of (fst (settle c h r m)) ''reason'' = JStr ''merged-by-verify'' \<longrightarrow>
       (\<exists>g. h' = g @ [Gate (merge_args c)] \<and>
          prop_of (gate_ask c g (merge_args c)) ''mergeSha'' = prop_of (fst (settle c h r m)) ''mergeSha''))"
    by blast
qed

lemma observed_no_merge [simp]: "observed c (settle c h r JNull)"
  by (rule observed_settle) simp

lemma observed_stop [simp]: "observed c (stop c h r)"
  by (simp add: observed_def)

lemma observed_on_wait: "observed c (on_wait c h r)"
  by (simp add: on_wait_def Let_def)

lemma observed_post [simp]: "observed c (post_and_settle c h v r e)"
  by (simp add: post_and_settle_def Let_def)

lemma observed_handed [simp]:
  "observed c (JObj ((''runId'', i) # (''action'', JStr ''judge-required'') # rest), h)"
  "observed c (JObj ((''runId'', i) # (''action'', JStr ''extensions-required'') # rest), h)"
  by (simp_all add: observed_def)

lemma observed_hand_out: "observed c (hand_out c h judged v)"
  unfolding hand_out_def Let_def by (simp only: if_distrib[of "observed c"] observed_stop observed_handed append.simps) simp

lemma observed_on_refusal: "observed c (on_refusal c h judged v r)"
  unfolding on_refusal_def Let_def by simp

lemma observed_on_pass: "observed c (on_pass c h)"
proof (cases "postStop (gate_ask c h (post_args c ''pass'' []))")
  case (Some s) then show ?thesis by (simp add: on_pass_def Let_def)
next
  case None
  let ?g = "h @ [Gate (post_args c ''pass'' [])]"
  have "observed c (settle c (?g @ [Gate (merge_args c)]) [] (gate_ask c ?g (merge_args c)))"
    by (rule observed_settle) blast
  with None show ?thesis unfolding on_pass_def Let_def by simp
qed

lemma observed_judge_and_act: "observed c (judge_and_act c)"
  unfolding judge_and_act_def Let_def
  by (simp add: observed_on_wait observed_hand_out observed_on_refusal observed_on_pass case_prod_unfold)

text \<open>C17:
  A merge that the fast path records itself was observed: its last reading of the pull request, made
  after every gate call, says MERGED with the recorded commit id, a full SHA. The record names the
  merge \<open>merged-by-verify\<close> only when the command just before that reading was the gate's merge and its
  answer named that same commit.\<close>

theorem fastPath_merge_observed:
  assumes "fastPath c prior = Some (result, calls)" "result \<noteq> prior"
    and "prop_of result ''action'' = JStr ''merged''"
  shows "\<exists>h rest. calls = h @ Gh (pr_view_args (pr_arg c) (repo_arg c)) # rest \<and>
     merged_at (fp_host c (h @ [Gh (pr_view_args (pr_arg c) (repo_arg c))])) (prop_of result ''mergeSha'') \<and>
     (prop_of result ''reason'' = JStr ''merged-by-verify'' \<longrightarrow>
      (\<exists>g. h = g @ [Gate (merge_args c)] \<and>
         prop_of (gate_ask c g (merge_args c)) ''mergeSha'' = prop_of result ''mergeSha''))"
proof -
  have "observed c (result, calls)"
  proof -
    have "(result, calls) = judge_and_act c \<or> (\<exists>r. (result, calls) = stop c [] r)"
      using assms(1,2) unfolding fastPath_def Let_def by (simp split: if_splits) metis+
    then show ?thesis using observed_judge_and_act observed_stop by metis
  qed
  with assms(3) show ?thesis by (simp add: observed_def)
qed

section \<open>What authorization means\<close>

definition shared_facts :: "jsval \<Rightarrow> jsval" where
  "shared_facts i = JObj
     [(''ciWaitState'', prop_of i ''ciWaitState''), (''checkVerdict'', prop_of i ''checkVerdict''),
      (''headSha'', prop_of i ''pushedHead''), (''prView'', prop_of i ''prView''),
      (''heads'', JArr [prop_of i ''pushedHead'', prop_of i ''localHead'', prop_of i ''upstreamHead'',
         prop_of (prop_of i ''prView'') ''headRefOid''])]"

lemma shared_facts_reasons:
  "shared_reasons (shared_facts i) =
     ciReasons (prop_of i ''ciWaitState'') (prop_of i ''checkVerdict'') (prop_of i ''pushedHead'') @
     mergeStateReasons (prop_of i ''prView'') @ prShapeReasons (prop_of i ''prView'') @
     headReasons (JArr [prop_of i ''pushedHead'', prop_of i ''localHead'', prop_of i ''upstreamHead'',
       prop_of (prop_of i ''prView'') ''headRefOid''])"
  by (simp add: shared_reasons_def shared_facts_def)

lemma review_clean: "reviewReasons v = [] \<longleftrightarrow> (\<exists>s. v = JStr s \<and> trim s = ''clean'')"
  by (cases v) (simp_all add: reviewReasons_def Let_def string_or_empty_def)

lemma coverage_full: "coverage_reasons v = [] \<longleftrightarrow> (\<exists>s. v = JStr s \<and> full_coverage s \<and> trim s \<noteq> [])"
  by (cases v) (simp_all add: coverage_reasons_def string_or_empty_def conj_commute)

lemma cross_model_ran:
  "cross_model_reasons v = [] \<longleftrightarrow> (\<exists>s. v = JStr s \<and> trim s \<noteq> [] \<and> to_lower (take 6 s) \<noteq> ''error:'')"
  by (cases v) (simp_all add: cross_model_reasons_def string_or_empty_def)

lemma drift_clear: "(case v of JStr d \<Rightarrow> driftReasons d | _ \<Rightarrow> driftReasons []) = [] \<longleftrightarrow> v = JStr ''none''"
  by (cases v) (simp_all add: driftReasons_def)

text \<open>Authorization is exactly this conjunction: consent and launch origin, an unwatched pull request, a
  clean review without open findings at full coverage by two models, an unchanged tree since that
  review, and the shared merge eligibility of the four head readings (pushed, local, upstream and the
  pull request's), which \<open>sharedEligibility_iff\<close> spells out.\<close>

theorem mergeAuthorized_iff:
  "ce_mergeAuthorized (computeEligibility i) \<longleftrightarrow>
     prop_of i ''verifyConsent'' = JStr ''present'' \<and> prop_of i ''outcome'' = JStr ''REVIEW_READY'' \<and>
     prop_of i ''launchOrigin'' = JStr ''standalone'' \<and>
     prop_of i ''watchers'' \<in> {JStr ''own-chat-only'', JStr ''not-checked''} \<and>
     is_nonempty_string (prop_of i ''sessionId'') \<and> positive_int (prop_of i ''pr'') \<and> repo_slug (prop_of i ''repo'') \<and>
     (\<exists>v. prop_of i ''reviewVerdict'' = JStr v \<and> trim v = ''clean'') \<and>
     prop_of i ''openFindings'' = JNum (Fin 0) \<and> prop_of i ''treeDrift'' = JStr ''none'' \<and>
     (\<exists>cov. prop_of i ''reviewCoverage'' = JStr cov \<and> full_coverage cov \<and> trim cov \<noteq> []) \<and>
     (\<exists>m. prop_of i ''crossModelReview'' = JStr m \<and> trim m \<noteq> [] \<and> to_lower (take 6 m) \<noteq> ''error:'') \<and>
     el_eligible (sharedEligibility (shared_facts i))"
proof -
  have co: "prop_of (coalesce i (JObj [])) k = prop_of i k" for k
    by (cases "nullish i") (auto simp: nullish_def coalesce_def)
  have session: "session_reasons i = [] \<longleftrightarrow> prop_of i ''launchOrigin'' = JStr ''standalone'' \<and>
      prop_of i ''watchers'' \<in> {JStr ''own-chat-only'', JStr ''not-checked''}"
    by (auto simp: session_reasons_def unless_def)
  have consent: "consent_reasons i = [] \<longleftrightarrow> prop_of i ''verifyConsent'' = JStr ''present''"
    by (auto simp: consent_reasons_def unless_def)
  have "ce_mergeAuthorized (computeEligibility i) \<longleftrightarrow> eligibility_reasons i = [] \<and> consent_reasons i = []"
    by (simp add: computeEligibility_def Let_def eligibility_reasons_def session_reasons_def consent_reasons_def co)
  moreover have "el_eligible (sharedEligibility (shared_facts i)) \<longleftrightarrow>
      ciReasons (prop_of i ''ciWaitState'') (prop_of i ''checkVerdict'') (prop_of i ''pushedHead'') = [] \<and>
      mergeStateReasons (prop_of i ''prView'') = [] \<and> prShapeReasons (prop_of i ''prView'') = [] \<and>
      headReasons (JArr [prop_of i ''pushedHead'', prop_of i ''localHead'', prop_of i ''upstreamHead'',
        prop_of (prop_of i ''prView'') ''headRefOid'']) = []"
    by (simp add: sharedEligibility_def Let_def shared_facts_reasons)
  ultimately show ?thesis
    unfolding eligibility_reasons_def append_is_Nil_conv unless_Nil review_clean coverage_full cross_model_ran
      drift_clear session consent
    by (simp only: conj_ac)
qed

section \<open>A merging run\<close>

definition demo_oid :: jsval where
  "demo_oid = JStr ''0123456789abcdef0123456789abcdef01234567''"

definition demo_merge :: jsval where
  "demo_merge = JStr ''fedcba9876543210fedcba9876543210fedcba98''"

definition demo_envelope :: jsval where
  "demo_envelope = JObj
     [(''runId'', JStr ''r1''), (''verifyFastPath'', JBool True), (''outcome'', JStr ''REVIEW_READY''),
      (''pr'', JNum (Fin 7)), (''repo'', JStr ''o/r''), (''sessionId'', JStr ''s1''), (''pushedHead'', demo_oid),
      (''localHead'', demo_oid), (''upstreamHead'', demo_oid), (''reviewVerdict'', JStr ''clean''),
      (''reviewCoverage'', JStr ''full''), (''crossModelReview'', JStr ''agreed''), (''openFindings'', JNum (Fin 0)),
      (''ciWaitState'', JStr ''settled''),
      (''checkVerdict'', JObj [(''state'', JStr ''green''), (''headSHA'', demo_oid), (''observedSHA'', demo_oid)]),
      (''prView'', JObj [(''state'', JStr ''OPEN''), (''isDraft'', JBool False), (''mergeStateStatus'', JStr ''CLEAN''),
         (''headRefOid'', demo_oid), (''title'', JStr ''Add x''), (''body'', JStr ''done'')]),
      (''treeDrift'', JStr ''none''), (''launchOrigin'', JStr ''standalone''), (''watchers'', JStr ''own-chat-only''),
      (''verifyConsent'', JStr ''present'')]"

definition demo_gate_host :: gate_host where
  "demo_gate_host h =
     (case last h of
        Gate (verb # _) \<Rightarrow>
          (if verb = ''judge'' then JObj [(''verdict'', JStr ''pass''), (''headSha'', demo_oid)]
           else if verb = ''post'' then JObj [(''posted'', JBool True)]
           else JObj [(''merged'', JBool True), (''mergeSha'', demo_merge)])
      | _ \<Rightarrow> JObj [(''state'', JStr ''MERGED''), (''mergeCommit'', JObj [(''oid'', demo_merge)])])"

definition demo_path :: fast_path where
  "demo_path = \<lparr>fp_host = demo_gate_host, fp_envelope = demo_envelope, fp_out = ''/t/out.json'', fp_dir = ''/t'',
     fp_extensionResults = JUndef, fp_judgeAreas = JUndef, fp_token = JUndef, fp_dryRun = False\<rparr>"

definition demo_outcome :: "jsval \<times> history" where
  "demo_outcome = the (fastPath demo_path JNull)"

lemma demo_outcome_some: "fastPath demo_path JNull \<noteq> None"
  by code_simp

lemma demo_outcome_run:
  "fastPath demo_path JNull = Some (fst demo_outcome, snd demo_outcome)"
  "merge_args demo_path \<in> set (gates (snd demo_outcome))" "hd (merge_args demo_path) = ''merge''"
  "fst demo_outcome \<noteq> JNull" "prop_of (fst demo_outcome) ''action'' = JStr ''merged''"
  "prop_of (fst demo_outcome) ''reason'' = JStr ''merged-by-verify''"
proof -
  show "fastPath demo_path JNull = Some (fst demo_outcome, snd demo_outcome)"
    using demo_outcome_some by (simp add: demo_outcome_def)
  show "merge_args demo_path \<in> set (gates (snd demo_outcome))" by code_simp
  show "hd (merge_args demo_path) = ''merge''" by code_simp
  show "fst demo_outcome \<noteq> JNull" by code_simp
  show "prop_of (fst demo_outcome) ''action'' = JStr ''merged''" by code_simp
  show "prop_of (fst demo_outcome) ''reason'' = JStr ''merged-by-verify''" by code_simp
qed

theorem fastPath_merge_guarded_witness:
  "judged_pass demo_path \<and>
   gates (snd demo_outcome) = [judge_args demo_path, post_args demo_path ''pass'' [], merge_args demo_path]"
  using fastPath_merge_guarded[OF demo_outcome_run(1,2,3)] by (elim conjE) (intro conjI; assumption)

theorem fastPath_merge_observed_witness:
  "\<exists>g. prop_of (gate_ask demo_path g (merge_args demo_path)) ''mergeSha'' = prop_of (fst demo_outcome) ''mergeSha''"
  using fastPath_merge_observed[OF demo_outcome_run(1,4,5)] demo_outcome_run(6) by blast

end
