(* ===== verification/Confidence.thy ===== *)
theory Confidence
  imports JsBase
begin

text \<open>
  The confidence level of a head: \<open>verify/verify-confidence.mjs\<close> (the level and its reasons),
  \<open>verify/verify-level.mjs\<close> (the facts it reads, the park codes it stands for) and the caps of
  \<open>verify/verify-area-caps.mjs\<close>. Area detection over paths and the collation of \<open>localeCompare\<close> are
  arguments. The lemmas show what a level says of its facts, that more to look at never raises it,
  what the size percentiles are, and that every code a level parks on is a sign-off code.
\<close>

section \<open>Data\<close>

record cap_escape =
  ce_original :: int
  ce_fix :: int
  ce_fixMergedAt :: string

record area_cap =
  cap_key :: string
  cap_label :: string
  cap_cappedAt :: string
  cap_escapes :: "cap_escape list"

record bump =
  bp_name :: string
  bp_from :: string
  bp_to :: string

record area =
  ar_area :: string
  ar_label :: string
  ar_defaultAsk :: string
  ar_paths :: "string list option"
  ar_source :: "string option"
  ar_reason :: string
  ar_cap :: "area_cap option"
  ar_bumps :: "bump list"

record ask =
  as_area :: string
  as_label :: string
  as_source :: string
  as_cap :: "area_cap option"

record thresholds =
  th_p90 :: int
  th_p99 :: int

datatype baseline = Baseline "thresholds option" bool | Baseline_error

fun baseline_ok :: "baseline option \<Rightarrow> bool" where
  "baseline_ok (Some (Baseline _ _)) = True"
| "baseline_ok _ = False"

fun baseline_thresholds :: "baseline option \<Rightarrow> thresholds option" where
  "baseline_thresholds (Some (Baseline t _)) = t"
| "baseline_thresholds _ = None"

record confidence_facts =
  cf_blockers :: "(string \<times> string) list"
  cf_evidence :: "(string option \<times> (string \<times> bool) list) option"
  cf_areas :: "area list"
  cf_size :: "(int option \<times> baseline option) option"
  cf_ui :: "string option"
  cf_behavior :: "string option"
  cf_secondModel :: "bool option"

datatype level = High | Moderate | Low | Blocked_level | Cannot_assess

fun level_name :: "level \<Rightarrow> string" where
  "level_name High = ''high''"
| "level_name Moderate = ''moderate''"
| "level_name Low = ''low''"
| "level_name Blocked_level = ''blocked''"
| "level_name Cannot_assess = ''cannot-assess''"

record confidence_result =
  cr_level :: level
  cr_asks :: "ask list"
  cr_reasons :: "string list"
  cr_loweredBy :: "string list"
  cr_health :: "string list"

definition MAX_REASONS :: nat where "MAX_REASONS = 3"

definition MAX_ASKS_BEFORE_LOW :: nat where "MAX_ASKS_BEFORE_LOW = 3"

section \<open>Sizes\<close>

text \<open>
  \<open>Math.ceil(n * 0.9)\<close> and \<open>Math.ceil(n * 0.99)\<close>: the products of an exact multiple round to the
  integer, so both are the exact ceilings. \<open>None\<close> entries are the values that are no integer.
\<close>

definition nearest_rank :: "nat \<Rightarrow> int list \<Rightarrow> int" where
  "nearest_rank pct values = values ! ((pct * length values + 99) div 100 - 1)"

definition sizeThresholds :: "int option list \<Rightarrow> nat \<Rightarrow> (thresholds \<times> nat) option" where
  "sizeThresholds changedLineCounts minSample =
     (let values = sort (filter (\<lambda>v. 0 \<le> v) (List.map_filter id changedLineCounts)) in
      if values = [] \<or> length values < minSample then None
      else Some (\<lparr>th_p90 = nearest_rank 90 values, th_p99 = nearest_rank 99 values\<rparr>, length values))"

text \<open>\<open>toLocaleString('en-US')\<close> of a non-negative integer.\<close>

fun group_digits :: "string \<Rightarrow> string" where
  "group_digits (a # b # c # d # rest) = a # b # c # CHR '','' # group_digits (d # rest)"
| "group_digits s = s"

definition toLocaleString :: "int \<Rightarrow> string" where
  "toLocaleString n = rev (group_digits (rev (show_nat (nat n))))"

section \<open>The level\<close>

definition asked :: "confidence_facts \<Rightarrow> area \<Rightarrow> bool" where
  "asked facts entry \<longleftrightarrow>
     ar_defaultAsk entry = ''always'' \<or>
     ar_defaultAsk entry = ''unless-proven'' \<and> cf_ui facts \<noteq> Some ''proven''"

definition ask_identity :: "area \<Rightarrow> string" where
  "ask_identity entry =
     (if ar_source entry = Some ''cap''
      then (case ar_cap entry of Some c \<Rightarrow> cap_key c | None \<Rightarrow> ar_area entry) else ar_area entry)"

fun first_asked :: "string list \<Rightarrow> area list \<Rightarrow> area list" where
  "first_asked seen [] = []"
| "first_asked seen (e # es) =
     (if ask_identity e \<in> set seen then first_asked seen es
      else e # first_asked (ask_identity e # seen) es)"

definition ask_of :: "area \<Rightarrow> ask" where
  "ask_of e = \<lparr>as_area = ar_area e, as_label = ar_label e,
     as_source = (case ar_source e of Some s \<Rightarrow> s | None \<Rightarrow> ''builtin''), as_cap = None\<rparr>"

definition asked_areas :: "confidence_facts \<Rightarrow> area list" where
  "asked_areas facts = first_asked [] (filter (asked facts) (cf_areas facts))"

definition uiUnproven :: "confidence_facts \<Rightarrow> bool" where
  "uiUnproven facts \<longleftrightarrow> list_ex (\<lambda>e. ar_area e = ''ui'') (cf_areas facts) \<and> cf_ui facts \<noteq> Some ''proven''"

definition behaviorUnproven :: "confidence_facts \<Rightarrow> bool" where
  "behaviorUnproven facts \<longleftrightarrow> cf_behavior facts = Some ''unproven''"

definition asks_of :: "confidence_facts \<Rightarrow> ask list" where
  "asks_of facts =
     map ask_of (asked_areas facts) @
     (if behaviorUnproven facts \<and> ''unproven-behavior'' \<notin> ask_identity ` set (asked_areas facts)
      then [\<lparr>as_area = ''unproven-behavior'', as_label = ''Unproven behavior'', as_source = ''proof'', as_cap = None\<rparr>]
      else [])"

text \<open>\<open>areaById.get\<close>: the last asked area of that id.\<close>

definition area_by_id :: "area list \<Rightarrow> string \<Rightarrow> area option" where
  "area_by_id areas k = find (\<lambda>e. ar_area e = k) (rev areas)"

definition arrow :: string where "arrow = [CHR 0xE2, CHR 0x86, CHR 0x92]"

definition area_reason :: "area list \<Rightarrow> ask \<Rightarrow> string" where
  "area_reason areas a =
     (case area_by_id areas (as_area a) of
        None \<Rightarrow> ''Changes '' @ as_label a @ ''. Reviewing this area would raise this.''
      | Some e \<Rightarrow>
          if ar_source e = Some ''judge''
          then ''Reviewing '' @ as_label a @ '' in '' @
               (case ar_paths e of Some ps \<Rightarrow> join '', '' ps | None \<Rightarrow> ''undefined'') @
               '' ('' @ ar_reason e @ '') would raise this.''
          else (case ar_bumps e of
             b # _ \<Rightarrow> ''Bumps '' @ bp_name b @ '' '' @ bp_from b @ '' '' @ arrow @ '' '' @ bp_to b @
                 '', a major version. Reviewing the bump would raise this.''
           | [] \<Rightarrow>
               if ar_source e = Some ''config''
               then ''Matches your review area '' @ [CHR 0x22] @ as_label a @ [CHR 0x22] @ ''. Reviewing this area would raise this.''
               else ''Changes '' @ as_label a @ ''. Reviewing this area would raise this.''))"

definition missing_evidence :: "confidence_facts \<Rightarrow> string list" where
  "missing_evidence facts =
     (case cf_evidence facts of
        None \<Rightarrow> [''Evidence is missing. Collecting it would raise this.'']
      | Some (review, collectors) \<Rightarrow>
          (if review \<noteq> Some ''ran'' then [''The review did not run. Rerunning it would raise this.''] else []) @
          map (\<lambda>c. fst c @ '' could not be collected. Collecting it would raise this.'')
            (filter (\<lambda>c. \<not> snd c) collectors)) @
     (case cf_size facts of
        Some (Some n, _) \<Rightarrow> if n < 0 then [''The changed-line count is missing. Counting it would raise this.''] else []
      | _ \<Rightarrow> [''The changed-line count is missing. Counting it would raise this.'']) @
     (if baseline_ok (case cf_size facts of Some (_, b) \<Rightarrow> b | None \<Rightarrow> None) then []
      else [''The size baseline could not be read. Reading it would raise this.''])"

text \<open>A cap: its code, its rank and its reasons.\<close>

type_synonym rank_cap = "string \<times> nat \<times> string list"

definition size_reason :: "string \<Rightarrow> int \<Rightarrow> int \<Rightarrow> string" where
  "size_reason percentile lines cutoff =
     ''Changes '' @ toLocaleString lines @ '' lines, above the '' @ percentile @ '' size cutoff of '' @
     toLocaleString cutoff @ '' lines for merged PRs here. Splitting it would raise this.''"

definition size_caps :: "int \<Rightarrow> thresholds option \<Rightarrow> rank_cap list" where
  "size_caps lines t =
     (case t of None \<Rightarrow> []
      | Some th \<Rightarrow>
          (if th_p90 th < lines then [(''size-p90'', 1, [size_reason ''p90'' lines (th_p90 th)])] else []) @
          (if th_p99 th < lines then [(''size-p99'', 2, [size_reason ''p99'' lines (th_p99 th)])] else []))"

definition rank_caps :: "confidence_facts \<Rightarrow> int \<Rightarrow> thresholds option \<Rightarrow> rank_cap list" where
  "rank_caps facts lines t =
     (if asked_areas facts = [] then []
      else [(''area-asks'', 1, map (area_reason (asked_areas facts)) (map ask_of (asked_areas facts)))]) @
     size_caps lines t @
     (if MAX_ASKS_BEFORE_LOW < length (asks_of facts)
      then [(''asks-over-3'', 2, [''Asks about '' @ show_nat (length (asks_of facts)) @
              '' areas. Splitting the change would raise this.''])] else []) @
     (if uiUnproven facts \<or> behaviorUnproven facts
      then [(''unproven'', 1,
        (if uiUnproven facts then [''The UI change is unproven. A proof recording would raise this.''] else []) @
        (if behaviorUnproven facts then [''The behavior change is unproven. Proving it would raise this.''] else []))]
      else [])"

definition top_rank :: "rank_cap list \<Rightarrow> nat" where
  "top_rank caps = fold (\<lambda>c m. max m (fst (snd c))) caps 0"

definition cap_reasons :: "rank_cap list \<Rightarrow> string list" where
  "cap_reasons caps =
     concat (map (\<lambda>c. snd (snd c))
       (filter (\<lambda>c. fst (snd c) = top_rank caps) caps @ filter (\<lambda>c. fst (snd c) \<noteq> top_rank caps) caps))"

definition level_of_rank :: "nat \<Rightarrow> level" where
  "level_of_rank r = (if r = 2 then Low else if r = 1 then Moderate else High)"

definition confidence_health :: "confidence_facts \<Rightarrow> string list" where
  "confidence_health facts =
     (case cf_size facts of Some (_, Some (Baseline None _)) \<Rightarrow> [''size-baseline-thin''] | _ \<Rightarrow> []) @
     (if cf_secondModel facts = Some False then [''second-model-skipped''] else [])"

definition confidence :: "confidence_facts \<Rightarrow> confidence_result" where
  "confidence facts =
     (let result = (\<lambda>lv loweredBy reasons. \<lparr>cr_level = lv, cr_asks = asks_of facts,
            cr_reasons = take MAX_REASONS (uniq reasons), cr_loweredBy = loweredBy, cr_health = confidence_health facts\<rparr>) in
      if cf_blockers facts \<noteq> []
      then result Blocked_level [''blocker''] (map (\<lambda>b. snd b @ ''. Resolving it would raise this.'') (cf_blockers facts))
      else if missing_evidence facts \<noteq> []
      then result Cannot_assess [''evidence-missing''] (missing_evidence facts)
      else
        (case cf_size facts of
           Some (Some lines, b) \<Rightarrow>
             (let caps = rank_caps facts lines (baseline_thresholds b) in
              result (level_of_rank (top_rank caps)) (map fst caps) (cap_reasons caps))
         | _ \<Rightarrow> result Cannot_assess [] []))"

text \<open>The last branch does not arise: a missing count is missing evidence (\<open>counted\<close>).\<close>

section \<open>Area caps\<close>

definition parent_key :: "string \<Rightarrow> string" where
  "parent_key path =
     (let dirs = join ''/'' (take 2 (butlast (split_on (CHR ''/'') path))) in
      ''other:'' @ (if dirs = [] then ''.'' else dirs))"

definition capKeys :: "string \<Rightarrow> string list \<Rightarrow> string list" where
  "capKeys a paths = (if a \<noteq> ''other'' then [a] else sort (uniq (map parent_key paths)))"

type_synonym head_area = "string \<times> string list"

text \<open>\<open>localeCompare\<close> is the argument \<open>collate\<close>.\<close>

type_synonym collation = "string \<Rightarrow> string \<Rightarrow> int"

definition capped_area :: "head_area list \<Rightarrow> area_cap \<Rightarrow> area" where
  "capped_area matching cap =
     \<lparr>ar_area = ''capped:'' @ cap_key cap, ar_label = cap_label cap @ '' (capped)'', ar_defaultAsk = ''always'',
      ar_paths = Some (sort (uniq (concat (map (\<lambda>(a, paths). filter (\<lambda>p. cap_key cap \<in> set (capKeys a [p])) paths) matching)))),
      ar_source = Some ''cap'', ar_reason = [], ar_cap = Some cap, ar_bumps = []\<rparr>"

fun cap_each :: "head_area list \<Rightarrow> string list \<Rightarrow> area_cap list \<Rightarrow> area list" where
  "cap_each headAreas done [] = []"
| "cap_each headAreas done (cap # caps) =
     (let matching = filter (\<lambda>(a, paths). cap_key cap \<in> set (capKeys a paths)) headAreas in
      if matching = [] \<or> cap_key cap \<in> set done then cap_each headAreas done caps
      else capped_area matching cap # cap_each headAreas (cap_key cap # done) caps)"

definition capAreas :: "collation \<Rightarrow> head_area list \<Rightarrow> area_cap list \<Rightarrow> area list" where
  "capAreas collate headAreas caps =
     cap_each headAreas [] (sort_by (\<lambda>a b. collate (cap_key a) (cap_key b)) caps)"

definition capReason :: "area_cap \<Rightarrow> string" where
  "capReason cap =
     cap_label cap @ '' is capped at Moderate since '' @ take 10 (cap_cappedAt cap) @ '' after escapes '' @
     join '' and '' (map (\<lambda>e. ''#'' @ show_int (ce_original e) @ '' (fixed by #'' @ show_int (ce_fix e) @ '')'') (cap_escapes cap)) @
     ''. An operator clearing the cap would raise this.''"

section \<open>From the gate's facts to a level\<close>

record gate_facts =
  gf_areaCaps :: "(area_cap list \<times> string list) option"
  gf_changedPaths :: "string list option"
  gf_areas :: "area list"
  gf_changedLines :: "int option"
  gf_judgeAreas :: "area list option"
  gf_judgeFailed :: bool
  gf_sizeBaseline :: "baseline option"
  gf_delta :: bool
  gf_policySurfaceHit :: bool
  gf_blockers :: "(string \<times> string) list"

definition COMPUTED_HUMAN_REVIEW_CODES :: "string list" where
  "COMPUTED_HUMAN_REVIEW_CODES = [''human-review:policy'', ''human-review:judge'', ''human-review:api-contract'',
     ''human-review:infra'', ''human-review:asks'', ''human-review:size'']"

definition expandLegacyWaiver :: "string list \<Rightarrow> string list" where
  "expandLegacyWaiver codes =
     uniq (codes @ (if ''always-human-path'' \<in> set codes then COMPUTED_HUMAN_REVIEW_CODES else []))"

definition SIGN_OFF_CODES :: "string list" where
  "SIGN_OFF_CODES = [''always-human-path'', ''human-review:database'', ''human-review:security'', ''human-review:ui''] @
     COMPUTED_HUMAN_REVIEW_CODES @ [''human-review:unproven'']"

definition levelSignOff :: "string \<Rightarrow> bool" where
  "levelSignOff code \<longleftrightarrow> code \<in> set SIGN_OFF_CODES"

definition policy_area :: area where
  "policy_area = \<lparr>ar_area = ''verify-policy'', ar_label = ''Verify policy'', ar_defaultAsk = ''always'',
     ar_paths = None, ar_source = None, ar_reason = [], ar_cap = None, ar_bumps = []\<rparr>"

definition extension_area :: "string \<Rightarrow> area" where
  "extension_area code =
     \<lparr>ar_area = ''extension:'' @ code,
      ar_label = (if code = ''always-human-path'' then ''Protected path'' else drop 13 code),
      ar_defaultAsk = ''always'', ar_paths = None, ar_source = Some ''extension'', ar_reason = [], ar_cap = None, ar_bumps = []\<rparr>"

definition caps_of :: "'a gate_facts_scheme \<Rightarrow> area_cap list" where
  "caps_of gate = (case gf_areaCaps gate of Some (caps, _) \<Rightarrow> caps | None \<Rightarrow> [])"

text \<open>\<open>detect\<close> is \<open>detectAreas\<close> of \<open>verify/verify-areas.mjs\<close>.\<close>

type_synonym detector = "string list \<Rightarrow> area list"

definition head_area_of :: "area \<Rightarrow> head_area" where
  "head_area_of e = (ar_area e, case ar_paths e of Some ps \<Rightarrow> ps | None \<Rightarrow> [])"

definition level_areas :: "detector \<Rightarrow> collation \<Rightarrow> 'a gate_facts_scheme \<Rightarrow> string list \<Rightarrow> area list" where
  "level_areas detect collate gate extensionReasons =
     (let changed = (case gf_changedPaths gate of Some ps \<Rightarrow> ps | None \<Rightarrow> []) in
      capAreas collate (map head_area_of (detect changed @ gf_areas gate)) (caps_of gate) @
      gf_areas gate @
      (if gf_policySurfaceHit gate then [policy_area] else []) @
      map extension_area
        (filter (\<lambda>code. code \<noteq> ''human-review:unproven'') (filter levelSignOff extensionReasons)) @
      (case gf_judgeAreas gate of Some js \<Rightarrow> js | None \<Rightarrow> []))"

text \<open>
  \<open>levelFacts\<close> with the size a delta skips put back, as \<open>levelConfidence\<close> does.
\<close>

definition levelFacts :: "detector \<Rightarrow> collation \<Rightarrow> 'a gate_facts_scheme \<Rightarrow> string list \<Rightarrow> confidence_facts" where
  "levelFacts detect collate gate extensionReasons =
     \<lparr>cf_blockers = gf_blockers gate,
      cf_evidence = Some (Some ''ran'',
        [(''changed-files'', gf_changedPaths gate \<noteq> None), (''size-baseline'', baseline_ok (gf_sizeBaseline gate))] @
        (if gf_judgeFailed gate then [(''judge'', False)] else [])),
      cf_areas = level_areas detect collate gate extensionReasons,
      cf_size = Some (if gf_delta gate then Some 0 else gf_changedLines gate, gf_sizeBaseline gate),
      cf_ui = None,
      cf_behavior = (if ''human-review:unproven'' \<in> set extensionReasons then Some ''unproven'' else None),
      cf_secondModel = None\<rparr>"

definition capped_of :: "area list \<Rightarrow> area list" where
  "capped_of areas = filter (\<lambda>e. ar_source e = Some ''cap'') areas"

definition with_cap :: "area list \<Rightarrow> ask \<Rightarrow> ask" where
  "with_cap capped a =
     (case area_by_id (rev capped) (as_area a) of
        Some e \<Rightarrow> a\<lparr>as_cap := ar_cap e\<rparr> | None \<Rightarrow> a)"

definition levelConfidence ::
  "detector \<Rightarrow> collation \<Rightarrow> 'a gate_facts_scheme \<Rightarrow> string list \<Rightarrow> confidence_result" where
  "levelConfidence detect collate gate extensionReasons =
     (let facts = levelFacts detect collate gate extensionReasons; r = confidence facts; capped = capped_of (cf_areas facts) in
      r\<lparr>cr_asks := map (with_cap capped) (cr_asks r),
        cr_reasons := take MAX_REASONS (map capReason (List.map_filter ar_cap capped) @ cr_reasons r),
        cr_health := cr_health r @ (case gf_areaCaps gate of Some (_, health) \<Rightarrow> health | None \<Rightarrow> []) @
          (case gf_sizeBaseline gate of Some (Baseline _ True) \<Rightarrow> [''size-baseline-stale''] | _ \<Rightarrow> [])\<rparr>)"

section \<open>Park codes\<close>

text \<open>\<open>alwaysReview\<close>: the name and the park code of each configured area.\<close>

type_synonym always_review = "(string \<times> string) list"

text \<open>The id of the entry at an index: its name, numbered when an earlier entry has the same.\<close>

definition config_id :: "always_review \<Rightarrow> nat \<Rightarrow> string" where
  "config_id review i =
     ''config:'' @ fst (review ! i) @
     (if fst (review ! i) \<in> fst ` set (take i review) then '':'' @ show_nat i else [])"

definition config_code :: "always_review \<Rightarrow> string \<Rightarrow> string" where
  "config_code review a =
     (case find (\<lambda>i. a = config_id review i) [0..<length review] of
        Some i \<Rightarrow> snd (review ! i) | None \<Rightarrow> ''always-human-path'')"

definition AREA_CODES :: "(string \<times> string) list" where
  "AREA_CODES = [(''migrations'', ''human-review:database''), (''api-contract'', ''human-review:api-contract''),
     (''infra'', ''human-review:infra''), (''ui'', ''human-review:ui''), (''unproven-behavior'', ''human-review:unproven'')]"

definition ask_code :: "always_review \<Rightarrow> ask \<Rightarrow> string" where
  "ask_code review entry =
     (let (a, source) =
        (case (as_source entry = ''cap'', as_cap entry) of
           (True, Some c) \<Rightarrow> (cap_key c, if starts_with (cap_key c) ''config:'' then ''config'' else ''builtin'')
         | _ \<Rightarrow> (as_area entry, as_source entry)) in
      if source = ''config'' then config_code review a
      else if starts_with a ''extension:'' then drop 10 a
      else if source = ''judge'' then ''human-review:judge''
      else (case map_of AREA_CODES a of Some c \<Rightarrow> c | None \<Rightarrow> ''human-review:asks''))"

definition legacyCodes :: "always_review \<Rightarrow> level \<Rightarrow> ask list \<Rightarrow> string list" where
  "legacyCodes review lv asks =
     (if lv = Cannot_assess then [''cannot-assess'']
      else if lv = High \<or> lv = Blocked_level then []
      else (let codes = (if asks = [] then [''human-review:size''] else map (ask_code review) asks) in
            filter (\<lambda>code. code \<in> set codes) SIGN_OFF_CODES))"

text \<open>\<open>/Changes ([\d,]+) lines/\<close>: the first match of a reason.\<close>

fun changes_lines :: "string \<Rightarrow> string option" where
  "changes_lines [] = None"
| "changes_lines (c # s) =
     (let rest = drop 8 (c # s); n = takeWhile (\<lambda>d. is_digit d \<or> d = CHR '','') rest in
      if starts_with (c # s) ''Changes '' \<and> n \<noteq> [] \<and> starts_with (drop (length n) rest) '' lines'' then Some n
      else changes_lines s)"

definition levelLabel :: "confidence_result \<Rightarrow> string" where
  "levelLabel r =
     (let labels = map as_label (cr_asks r);
          named = join '', '' (take MAX_ASKS_BEFORE_LOW labels) @
            (if MAX_ASKS_BEFORE_LOW < length labels then '' +'' @ show_nat (length labels - MAX_ASKS_BEFORE_LOW) else []);
          reasons = join '' '' (cr_reasons r) in
      level_name (cr_level r) @ '': '' @
      (if named \<noteq> [] then named
       else (case List.map_filter changes_lines (cr_reasons r) of
               n # _ \<Rightarrow> n @ '' lines''
             | [] \<Rightarrow> if reasons \<noteq> [] then reasons else ''Review evidence'')))"

text \<open>\<open>parkLevel\<close> of a park's codes (\<open>None\<close>: unknown) and label.\<close>

definition parkLevel :: "(string list option \<times> string) option \<Rightarrow> level option" where
  "parkLevel park =
     (case park of None \<Rightarrow> None
      | Some (codes, label) \<Rightarrow>
          if starts_with label ''moderate:'' then Some Moderate
          else if starts_with label ''low:'' then Some Low
          else (case codes of None \<Rightarrow> None
            | Some cs \<Rightarrow>
                if ''cannot-assess'' \<in> set cs then Some Cannot_assess
                else if cs \<noteq> [] \<and> list_all (\<lambda>c. levelSignOff c \<or> c = ''no-receipt'' \<or> c = ''human-merge'') cs
                then Some Moderate else None))"

section \<open>What a level says\<close>

definition level_rank :: "level \<Rightarrow> nat" where
  "level_rank lv = (case lv of High \<Rightarrow> 0 | Moderate \<Rightarrow> 1 | Low \<Rightarrow> 2 | Cannot_assess \<Rightarrow> 3 | Blocked_level \<Rightarrow> 4)"

lemma top_rank_fold: "fold (\<lambda>c m. max m (fst (snd c))) caps (k::nat) = Max (insert k ((fst \<circ> snd) ` set caps))"
proof (induction caps arbitrary: k)
  case (Cons c cs)
  then show ?case by (cases "cs = []") (simp_all add: max.commute max.left_commute)
qed simp

lemma top_rank_le: "top_rank caps \<le> r \<longleftrightarrow> (\<forall>c\<in>set caps. fst (snd c) \<le> r)"
  by (simp add: top_rank_def top_rank_fold)

lemma rank_caps_ranks: "c \<in> set (rank_caps facts lines t) \<Longrightarrow> fst (snd c) = 1 \<or> fst (snd c) = 2"
  by (auto simp: rank_caps_def size_caps_def split: if_splits option.splits)

lemma top_rank_cases: "top_rank (rank_caps facts lines t) \<in> {0, 1, 2}"
proof -
  have "top_rank (rank_caps facts lines t) \<le> 2"
    using rank_caps_ranks by (fastforce simp: top_rank_le)
  then show ?thesis by auto
qed

lemma top_rank_zero: "top_rank (rank_caps facts lines t) = 0 \<longleftrightarrow> rank_caps facts lines t = []"
proof
  assume "top_rank (rank_caps facts lines t) = 0"
  then have "\<forall>c\<in>set (rank_caps facts lines t). fst (snd c) \<le> 0" by (metis top_rank_le order_refl)
  then show "rank_caps facts lines t = []"
    using rank_caps_ranks[of _ facts lines t] by (cases "rank_caps facts lines t") fastforce+
qed (simp add: top_rank_def)

definition low_caps :: "confidence_facts \<Rightarrow> int \<Rightarrow> thresholds option \<Rightarrow> bool" where
  "low_caps facts lines t \<longleftrightarrow>
     MAX_ASKS_BEFORE_LOW < length (asks_of facts) \<or> (\<exists>th. t = Some th \<and> th_p99 th < lines)"

lemma image_if_list:
  "f ` set (if P then [a] else []) = (if P then {f a} else {})"
  "f ` set (if P then [] else [a]) = (if P then {} else {f a})"
  by (cases P; simp)+

lemma rank_caps_image:
  "(fst \<circ> snd) ` set (rank_caps facts lines t) =
     (if asked_areas facts = [] then {} else {1}) \<union>
     (case t of None \<Rightarrow> {} | Some th \<Rightarrow>
        (if th_p90 th < lines then {1} else {}) \<union> (if th_p99 th < lines then {2} else {})) \<union>
     (if MAX_ASKS_BEFORE_LOW < length (asks_of facts) then {2} else {}) \<union>
     (if uiUnproven facts \<or> behaviorUnproven facts then {1} else {})"
  unfolding rank_caps_def size_caps_def set_append image_Un image_if_list
  by (cases t) (simp_all only: option.case set_append image_Un image_if_list list.set image_empty comp_def fst_conv snd_conv Un_assoc Un_empty_left)

lemma top_rank_two: "top_rank (rank_caps facts lines t) = 2 \<longleftrightarrow> low_caps facts lines t"
proof -
  have "top_rank (rank_caps facts lines t) \<noteq> 2 \<longleftrightarrow> top_rank (rank_caps facts lines t) \<le> 1"
    using top_rank_cases[of facts lines t] by auto
  also have "\<dots> \<longleftrightarrow> (\<forall>r\<in>(fst \<circ> snd) ` set (rank_caps facts lines t). r \<le> 1)" by (simp add: top_rank_le)
  also have "\<dots> \<longleftrightarrow> \<not> low_caps facts lines t"
    unfolding rank_caps_image by (auto simp: low_caps_def split: option.splits)
  finally show ?thesis by blast
qed

lemma first_asked_set: "ask_identity ` set (first_asked seen es) = ask_identity ` set es - set seen"
  by (induction seen es rule: first_asked.induct) auto

lemma first_asked_distinct: "distinct (map ask_identity (first_asked seen es))"
proof (induction seen es rule: first_asked.induct)
  case (2 seen e es)
  then show ?case using first_asked_set[of "ask_identity e # seen" es] by auto
qed simp

lemma first_asked_subset: "set (first_asked seen es) \<subseteq> set es"
  by (induction seen es rule: first_asked.induct) auto

definition ask_ids :: "confidence_facts \<Rightarrow> string set" where
  "ask_ids facts = ask_identity ` {e \<in> set (cf_areas facts). asked facts e} \<union>
     (if behaviorUnproven facts then {''unproven-behavior''} else {})"

lemma asked_identities: "ask_identity ` set (asked_areas facts) = ask_identity ` {e \<in> set (cf_areas facts). asked facts e}"
  by (simp add: asked_areas_def first_asked_set)

lemma length_asked: "length (asked_areas facts) = card (ask_identity ` {e \<in> set (cf_areas facts). asked facts e})"
  using distinct_card[OF first_asked_distinct[of "[]" "filter (asked facts) (cf_areas facts)"]] asked_identities[of facts]
  by (simp add: asked_areas_def)

lemma length_asks: "length (asks_of facts) = card (ask_ids facts)"
proof -
  have fin: "finite (ask_identity ` {e \<in> set (cf_areas facts). asked facts e})" by simp
  show ?thesis
    by (simp add: asks_of_def ask_ids_def length_asked asked_identities insert_absorb
        del: set_filter)
qed

lemma finite_ask_ids: "finite (ask_ids facts)"
  by (simp add: ask_ids_def)

lemma asks_Nil: "asks_of facts = [] \<longleftrightarrow> ask_ids facts = {}"
  using length_asks[of facts] finite_ask_ids[of facts] by (metis card_eq_0_iff length_0_conv)

lemma asked_Nil: "asked_areas facts = [] \<longleftrightarrow> (\<forall>e\<in>set (cf_areas facts). \<not> asked facts e)"
  using asked_identities[of facts] by (metis (mono_tags, lifting) Collect_empty_eq empty_set image_is_empty set_empty)

lemma counted:
  assumes "missing_evidence facts = []"
  obtains lines b where "cf_size facts = Some (Some lines, b)" "0 \<le> lines" "baseline_ok b"
  using assms by (auto simp: missing_evidence_def split: option.splits if_splits prod.splits)

lemma confidence_level:
  "cr_level (confidence facts) =
     (if cf_blockers facts \<noteq> [] then Blocked_level
      else if missing_evidence facts \<noteq> [] then Cannot_assess
      else (case cf_size facts of
              Some (Some lines, b) \<Rightarrow> level_of_rank (top_rank (rank_caps facts lines (baseline_thresholds b)))
            | _ \<Rightarrow> Cannot_assess))"
  by (simp add: confidence_def Let_def split: option.split)

lemma confidence_asks: "cr_asks (confidence facts) = asks_of facts"
  by (simp add: confidence_def Let_def split: option.split)

lemma rank_caps_Nil:
  "rank_caps facts lines t = [] \<longleftrightarrow>
     asked_areas facts = [] \<and> asks_of facts = [] \<and> \<not> uiUnproven facts \<and> \<not> behaviorUnproven facts \<and>
     (\<forall>th. t = Some th \<longrightarrow> lines \<le> th_p90 th \<and> lines \<le> th_p99 th)"
proof -
  have "rank_caps facts lines t = [] \<longleftrightarrow> (fst \<circ> snd) ` set (rank_caps facts lines t) = {}" by simp
  also have "\<dots> \<longleftrightarrow> asked_areas facts = [] \<and> asks_of facts = [] \<and> \<not> uiUnproven facts \<and> \<not> behaviorUnproven facts \<and>
     (\<forall>th. t = Some th \<longrightarrow> lines \<le> th_p90 th \<and> lines \<le> th_p99 th)"
    unfolding rank_caps_image
    by (auto simp: MAX_ASKS_BEFORE_LOW_def asks_of_def split: option.splits if_splits)
  finally show ?thesis .
qed

text \<open>High confidence means exactly this: no blocker, no missing evidence, no area that asks for a person
  (one that always asks, or asks unless proven while the UI is not proven), nothing unproven, and a
  counted change no larger than both size cutoffs of the repository when it has them.\<close>

theorem confidence_high_iff:
  "cr_level (confidence facts) = High \<longleftrightarrow>
     cf_blockers facts = [] \<and> missing_evidence facts = [] \<and>
     (\<forall>e\<in>set (cf_areas facts). \<not> asked facts e) \<and> \<not> uiUnproven facts \<and> \<not> behaviorUnproven facts \<and>
     (\<exists>lines b. cf_size facts = Some (Some lines, b) \<and>
        (\<forall>th. baseline_thresholds b = Some th \<longrightarrow> lines \<le> th_p90 th \<and> lines \<le> th_p99 th))"
proof (cases "cf_blockers facts = [] \<and> missing_evidence facts = []")
  case True
  then obtain lines b where size: "cf_size facts = Some (Some lines, b)" using counted by blast
  let ?caps = "rank_caps facts lines (baseline_thresholds b)"
  have "cr_level (confidence facts) = High \<longleftrightarrow> top_rank ?caps = 0"
    using True size top_rank_cases[of facts lines "baseline_thresholds b"]
    by (auto simp: confidence_level level_of_rank_def)
  also have "\<dots> \<longleftrightarrow> ?caps = []" by (rule top_rank_zero)
  finally show ?thesis
    using True size unfolding rank_caps_Nil by (auto simp: asked_Nil asks_of_def)
next
  case False then show ?thesis by (auto simp: confidence_level)
qed

text \<open>More areas of the same facts.\<close>

lemma more_areas_parts:
  assumes "set (cf_areas f) \<subseteq> set areas"
  shows "uiUnproven f \<Longrightarrow> uiUnproven (f\<lparr>cf_areas := areas\<rparr>)"
    "behaviorUnproven (f\<lparr>cf_areas := areas\<rparr>) = behaviorUnproven f"
    "missing_evidence (f\<lparr>cf_areas := areas\<rparr>) = missing_evidence f"
    "asked (f\<lparr>cf_areas := areas\<rparr>) = asked f"
    "ask_ids f \<subseteq> ask_ids (f\<lparr>cf_areas := areas\<rparr>)"
  using assms by (auto simp: uiUnproven_def behaviorUnproven_def missing_evidence_def asked_def ask_ids_def list_ex_iff fun_eq_iff)

text \<open>C37:
  More to look at never raises the level: whatever areas are added to a head's facts, in whatever order
  and with whatever duplicates, the level stays or falls (high, moderate, low), and the states blocked
  and cannot-assess do not depend on areas at all.\<close>

theorem confidence_monotone:
  assumes "set (cf_areas f) \<subseteq> set areas"
  shows "level_rank (cr_level (confidence f)) \<le> level_rank (cr_level (confidence (f\<lparr>cf_areas := areas\<rparr>)))"
proof (cases "cf_blockers f = [] \<and> missing_evidence f = []")
  case True
  let ?g = "f\<lparr>cf_areas := areas\<rparr>"
  from True obtain lines b where size: "cf_size f = Some (Some lines, b)" using counted by blast
  let ?t = "baseline_thresholds b"
  note parts = more_areas_parts[OF assms]
  have level: "level_rank (cr_level (confidence h)) = top_rank (rank_caps h lines ?t)" if "h \<in> {f, ?g}" for h
    using that True size parts(3) top_rank_cases[of h lines ?t]
    by (auto simp: confidence_level level_of_rank_def level_rank_def)
  have "length (asks_of f) \<le> length (asks_of ?g)"
    unfolding length_asks by (rule card_mono[OF finite_ask_ids parts(5)])
  then have low: "low_caps f lines ?t \<Longrightarrow> low_caps ?g lines ?t" by (auto simp: low_caps_def)
  have none: "rank_caps ?g lines ?t = [] \<Longrightarrow> rank_caps f lines ?t = []"
    using assms parts(1,2,4,5) unfolding rank_caps_Nil asked_Nil asks_Nil by auto
  have "top_rank (rank_caps f lines ?t) \<le> top_rank (rank_caps ?g lines ?t)"
    using low none top_rank_two[of f lines ?t] top_rank_two[of ?g lines ?t] top_rank_zero[of f lines ?t]
      top_rank_zero[of ?g lines ?t] top_rank_cases[of f lines ?t] top_rank_cases[of ?g lines ?t] by auto
  then show ?thesis using level by simp
next
  case False
  then show ?thesis using more_areas_parts(3)[OF assms] by (auto simp: confidence_level level_rank_def)
qed

section \<open>Percentiles\<close>

lemma filter_length_split: "length (filter P xs) = length (filter P (take k xs)) + length (filter P (drop k xs))"
  by (metis append_take_drop_id filter_append length_append)

lemma sorted_rank:
  fixes xs :: "int list"
  assumes "sorted xs" "k < length xs"
  shows "k < length (filter (\<lambda>v. v \<le> xs ! k) xs)" "length (filter (\<lambda>v. v < xs ! k) xs) \<le> k"
proof -
  have "\<forall>v\<in>set (take (Suc k) xs). v \<le> xs ! k"
    using assms by (auto simp: in_set_conv_nth sorted_nth_mono)
  then have "filter (\<lambda>v. v \<le> xs ! k) (take (Suc k) xs) = take (Suc k) xs" by (simp add: filter_id_conv)
  then show "k < length (filter (\<lambda>v. v \<le> xs ! k) xs)"
    using assms(2) filter_length_split[of "\<lambda>v. v \<le> xs ! k" xs "Suc k"] by simp
  have "\<forall>v\<in>set (drop k xs). \<not> v < xs ! k"
  proof
    fix v assume "v \<in> set (drop k xs)"
    then obtain i where "i < length xs - k" "v = xs ! (k + i)" by (auto simp: in_set_conv_nth)
    then show "\<not> v < xs ! k" using sorted_nth_mono[OF assms(1), of k "k + i"] by (simp add: less_diff_conv add.commute not_less)
  qed
  then have "filter (\<lambda>v. v < xs ! k) (drop k xs) = []" by (simp add: filter_empty_conv)
  then show "length (filter (\<lambda>v. v < xs ! k) xs) \<le> k"
    using filter_length_split[of "\<lambda>v. v < xs ! k" xs k] length_filter_le[of "\<lambda>v. v < xs ! k" "take k xs"] by simp
qed

lemma ceiling_percent:
  "0 < m \<Longrightarrow> m \<le> 100 * Suc ((m + 99) div 100 - 1) \<and> 100 * ((m + 99) div 100 - 1) < m" for m :: nat
proof -
  assume "0 < m"
  moreover have "100 * ((m + 99) div 100) \<le> m + 99" by (rule times_div_less_eq_dividend)
  moreover have "m + 99 < 100 * ((m + 99) div 100) + 100" using dividend_less_times_div[of 100 "m + 99"] by simp
  moreover obtain q where "(m + 99) div 100 = Suc q" using calculation by (cases "(m + 99) div 100") auto
  ultimately show ?thesis by simp
qed

lemma nearest_rank_correct:
  assumes "sorted vals" "vals \<noteq> []" "0 < pct" "pct \<le> 100"
  shows "nearest_rank pct vals \<in> set vals"
    "pct * length vals \<le> 100 * length (filter (\<lambda>v. v \<le> nearest_rank pct vals) vals)"
    "100 * length (filter (\<lambda>v. v < nearest_rank pct vals) vals) < pct * length vals"
proof -
  define n where "n = length vals"
  define k where "k = (pct * n + 99) div 100 - 1"
  have n: "0 < n" using assms(2) by (simp add: n_def)
  have "pct * n \<le> 100 * n" using assms(4) by (rule mult_le_mono1)
  moreover have p: "0 < pct * n" using assms(3) n by simp
  moreover have "pct * n \<le> 100 * Suc k \<and> 100 * k < pct * n" unfolding k_def by (rule ceiling_percent[OF p])
  ultimately have k: "k < n" "pct * n \<le> 100 * Suc k" "100 * k < pct * n" by linarith+
  have nr: "nearest_rank pct vals = vals ! k" by (simp add: nearest_rank_def k_def n_def)
  show "nearest_rank pct vals \<in> set vals" using k(1) by (simp add: nr n_def)
  show "pct * length vals \<le> 100 * length (filter (\<lambda>v. v \<le> nearest_rank pct vals) vals)"
    using k(2) sorted_rank(1)[OF assms(1), of k] k(1) unfolding nr n_def by simp
  show "100 * length (filter (\<lambda>v. v < nearest_rank pct vals) vals) < pct * length vals"
    using k(3) sorted_rank(2)[OF assms(1), of k] k(1) unfolding nr n_def by simp
qed

lemma nearest_rank_mono:
  assumes "sorted vals" "vals \<noteq> []" "0 < p" "p \<le> q" "q \<le> 100"
  shows "nearest_rank p vals \<le> nearest_rank q vals"
proof -
  define n where "n = length vals"
  have "p * n \<le> q * n" "q * n \<le> 100 * n" using assms(4,5) by (simp_all add: mult_le_mono1)
  moreover have "0 < n" using assms(2) by (simp add: n_def)
  moreover have "0 < q * n" using assms(3,4) calculation(3) by simp
  ultimately have "(p * n + 99) div 100 - 1 \<le> (q * n + 99) div 100 - 1" "(q * n + 99) div 100 - 1 < n" by linarith+
  then show ?thesis using sorted_nth_mono[OF assms(1)] by (simp add: nearest_rank_def n_def)
qed

definition measured :: "int option list \<Rightarrow> int list" where
  "measured counts = filter (\<lambda>v. 0 \<le> v) (List.map_filter id counts)"

lemma length_filter_sort: "length (filter P (sort xs)) = length (filter P (xs :: int list))"
  by (metis filter_sort length_sort)

text \<open>C40:
  The size cutoffs are nearest-rank percentiles of the measured counts (the non-negative integers of
  the input): each is one of them, at least 90 (99) percent of the sample is at most the cutoff and
  less than 90 (99) percent is below it, the p90 cutoff is at most the p99 one, and no cutoffs are
  given for fewer counts than the minimum.\<close>

theorem sizeThresholds_percentiles:
  assumes "sizeThresholds counts minSample = Some (th, n)"
  shows "n = length (measured counts) \<and> minSample \<le> n \<and>
     {th_p90 th, th_p99 th} \<subseteq> set (measured counts) \<and> 0 \<le> th_p90 th \<and> th_p90 th \<le> th_p99 th \<and>
     90 * n \<le> 100 * length (filter (\<lambda>v. v \<le> th_p90 th) (measured counts)) \<and>
     100 * length (filter (\<lambda>v. v < th_p90 th) (measured counts)) < 90 * n \<and>
     99 * n \<le> 100 * length (filter (\<lambda>v. v \<le> th_p99 th) (measured counts)) \<and>
     100 * length (filter (\<lambda>v. v < th_p99 th) (measured counts)) < 99 * n"
proof -
  define vals where "vals = sort (measured counts)"
  have vs: "vals \<noteq> []" "n = length vals" "minSample \<le> n" "th_p90 th = nearest_rank 90 vals" "th_p99 th = nearest_rank 99 vals"
    using assms by (auto simp: sizeThresholds_def Let_def vals_def measured_def split: if_splits)
  have sv: "sorted vals" "set vals = set (measured counts)" "length vals = length (measured counts)"
    by (simp_all add: vals_def)
  note fl = length_filter_sort[of _ "measured counts", folded vals_def]
  have mem: "{th_p90 th, th_p99 th} \<subseteq> set (measured counts)"
    using nearest_rank_correct(1)[OF sv(1) vs(1)] vs(4,5) sv(2) by simp
  then have "0 \<le> th_p90 th" by (auto simp: measured_def)
  then show ?thesis
    using mem vs sv nearest_rank_correct(2,3)[OF sv(1) vs(1), of 90] nearest_rank_correct(2,3)[OF sv(1) vs(1), of 99]
      nearest_rank_mono[OF sv(1) vs(1), of 90 99] by (simp add: fl)
qed

section \<open>A lowered level parks\<close>

lemma legacyCodes_lowered:
  assumes "lv \<in> {Moderate, Low}" "\<forall>a\<in>set asks. levelSignOff (ask_code review a)"
  shows "legacyCodes review lv asks \<noteq> [] \<and> set (legacyCodes review lv asks) \<subseteq> set SIGN_OFF_CODES"
proof (cases asks)
  case Nil then show ?thesis using assms(1) by (auto simp: legacyCodes_def SIGN_OFF_CODES_def COMPUTED_HUMAN_REVIEW_CODES_def)
next
  case (Cons a rest)
  then have "ask_code review a \<in> set (legacyCodes review lv asks)"
    using assms by (auto simp: legacyCodes_def levelSignOff_def)
  then show ?thesis using assms(1) by (auto simp: legacyCodes_def)
qed

definition plain_area :: "area \<Rightarrow> bool" where
  "plain_area e \<longleftrightarrow> \<not> starts_with (ar_area e) ''extension:'' \<and> ar_cap e = None"

definition sign_off_ask :: "always_review \<Rightarrow> ask \<Rightarrow> bool" where
  "sign_off_ask review a \<longleftrightarrow> levelSignOff (ask_code review a)"

lemma config_code_sign_off: "list_all (\<lambda>e. levelSignOff (snd e)) review \<Longrightarrow> levelSignOff (config_code review a)"
  by (auto simp: config_code_def list_all_length levelSignOff_def SIGN_OFF_CODES_def find_Some_iff split: option.split)

lemma area_code_sign_off: "levelSignOff (case map_of AREA_CODES a of Some c \<Rightarrow> c | None \<Rightarrow> ''human-review:asks'')"
  by (simp add: AREA_CODES_def levelSignOff_def SIGN_OFF_CODES_def COMPUTED_HUMAN_REVIEW_CODES_def)

lemma ask_code_sign_off:
  assumes "list_all (\<lambda>e. levelSignOff (snd e)) review"
    and "\<not> starts_with (as_area a) ''extension:'' \<or> levelSignOff (drop 10 (as_area a))"
    and "\<forall>c. as_cap a = Some c \<longrightarrow> \<not> starts_with (cap_key c) ''extension:''"
  shows "levelSignOff (ask_code review a)"
proof -
  have "levelSignOff ''human-review:judge''" by (simp add: levelSignOff_def SIGN_OFF_CODES_def COMPUTED_HUMAN_REVIEW_CODES_def)
  then show ?thesis
    using assms config_code_sign_off[OF assms(1)] area_code_sign_off
    by (auto simp: ask_code_def Let_def split: option.splits bool.splits)
qed

lemma cap_each_areas: "e \<in> set (cap_each h d caps) \<Longrightarrow> starts_with (ar_area e) ''capped:'' \<and> (\<exists>c\<in>set caps. ar_cap e = Some c)"
  by (induction h d caps rule: cap_each.induct)
    (auto simp: Let_def capped_area_def starts_with_def split: if_splits)

lemma not_extension: "starts_with a ''capped:'' \<Longrightarrow> \<not> starts_with a ''extension:''"
  by (cases a) (auto simp: starts_with_def)

definition parkable :: "area_cap list \<Rightarrow> area \<Rightarrow> bool" where
  "parkable caps e \<longleftrightarrow>
     (\<not> starts_with (ar_area e) ''extension:'' \<or> levelSignOff (drop 10 (ar_area e))) \<and>
     (\<forall>c. ar_cap e = Some c \<longrightarrow> c \<in> set caps)"

lemma level_areas_parkable:
  assumes "\<forall>e\<in>set (gf_areas gate) \<union> set (case gf_judgeAreas gate of Some js \<Rightarrow> js | None \<Rightarrow> []). plain_area e"
    and "e \<in> set (level_areas detect collate gate reasons)"
  shows "parkable (caps_of gate) e"
proof -
  have ext: "parkable (caps_of gate) (extension_area code)" if "levelSignOff code" for code
    using that by (simp add: parkable_def extension_area_def starts_with_def)
  have pol: "parkable (caps_of gate) policy_area" by (simp add: parkable_def policy_area_def starts_with_def)
  have plain: "plain_area e \<Longrightarrow> parkable (caps_of gate) e" for e by (auto simp: parkable_def plain_area_def)
  have capd: "parkable (caps_of gate) e" if "e \<in> set (capAreas collate h (caps_of gate))" for h
    using cap_each_areas[OF that[unfolded capAreas_def]] not_extension by (auto simp: parkable_def)
  from assms show ?thesis
    unfolding level_areas_def Let_def by (auto intro: ext pol plain capd split: if_splits option.splits)
qed

lemma area_by_id_Some: "area_by_id areas k = Some e \<Longrightarrow> e \<in> set areas"
  by (auto simp: area_by_id_def find_Some_iff) (metis nth_mem set_rev length_rev)

lemma level_asks_sign_off:
  assumes "list_all (\<lambda>e. levelSignOff (snd e)) review"
    and "\<forall>c\<in>set (caps_of gate). \<not> starts_with (cap_key c) ''extension:''"
    and plain: "\<forall>e\<in>set (gf_areas gate) \<union> set (case gf_judgeAreas gate of Some js \<Rightarrow> js | None \<Rightarrow> []). plain_area e"
    and "a \<in> set (cr_asks (levelConfidence detect collate gate reasons))"
  shows "levelSignOff (ask_code review a)"
proof -
  define facts where "facts = levelFacts detect collate gate reasons"
  have areas: "cf_areas facts = level_areas detect collate gate reasons" by (simp add: facts_def levelFacts_def)
  note park = level_areas_parkable[OF plain, of _ detect collate reasons, folded areas]
  obtain a0 where a0: "a0 \<in> set (asks_of facts)" "a = with_cap (capped_of (cf_areas facts)) a0"
    using assms(4) by (auto simp: levelConfidence_def Let_def facts_def confidence_asks)
  have "as_cap a0 = None \<and> (\<not> starts_with (as_area a0) ''extension:'' \<or> levelSignOff (drop 10 (as_area a0)))"
    using a0(1) park first_asked_subset[of "[]" "filter (asked facts) (cf_areas facts)"]
    by (auto simp: asks_of_def ask_of_def asked_areas_def parkable_def starts_with_def split: if_splits)
  moreover have "c \<in> set (caps_of gate)" if "as_cap a = Some c" "as_cap a0 = None" for c
  proof -
    from that a0(2) obtain e where "area_by_id (rev (capped_of (cf_areas facts))) (as_area a0) = Some e" "ar_cap e = Some c"
      by (auto simp: with_cap_def split: option.splits)
    then show ?thesis using park[of e] area_by_id_Some by (fastforce simp: capped_of_def parkable_def)
  qed
  moreover have "as_area a = as_area a0" using a0(2) by (simp add: with_cap_def split: option.split)
  ultimately show ?thesis using assms(1,2) by (intro ask_code_sign_off) auto
qed

text \<open>C29:
  A lowered level always has a code to park on, so it can never pass as if nothing had been asked: below
  high, the park codes of a head are not empty and are sign-off codes (or \<open>cannot-assess\<close>). The
  hypotheses are what the callers keep: configured areas park on sign-off codes, and only extension
  sign-offs take ids that begin with \<open>extension:\<close>.\<close>

theorem lowered_level_parks:
  assumes "list_all (\<lambda>e. levelSignOff (snd e)) review"
    and "\<forall>c\<in>set (caps_of gate). \<not> starts_with (cap_key c) ''extension:''"
    and "\<forall>e\<in>set (gf_areas gate) \<union> set (case gf_judgeAreas gate of Some js \<Rightarrow> js | None \<Rightarrow> []). plain_area e"
    and "cr_level (levelConfidence detect collate gate reasons) \<in> {Moderate, Low, Cannot_assess}"
  shows "let r = levelConfidence detect collate gate reasons; codes = legacyCodes review (cr_level r) (cr_asks r) in
     codes \<noteq> [] \<and> set codes \<subseteq> insert ''cannot-assess'' (set SIGN_OFF_CODES)"
proof (cases "cr_level (levelConfidence detect collate gate reasons) = Cannot_assess")
  case True then show ?thesis by (simp add: legacyCodes_def)
next
  case False
  then have "cr_level (levelConfidence detect collate gate reasons) \<in> {Moderate, Low}" using assms(4) by auto
  from legacyCodes_lowered[OF this] level_asks_sign_off[OF assms(1-3)]
  show ?thesis unfolding Let_def by blast
qed

section \<open>A capped change\<close>

definition demo_facts :: gate_facts where
  "demo_facts = \<lparr>gf_areaCaps = None, gf_changedPaths = Some [''a.ts''], gf_areas = [policy_area], gf_changedLines = Some 12,
     gf_judgeAreas = Some [], gf_judgeFailed = False, gf_sizeBaseline = Some (Baseline None False), gf_delta = False,
     gf_policySurfaceHit = False, gf_blockers = []\<rparr>"

theorem lowered_level_parks_witness:
  "legacyCodes [] Moderate (cr_asks (levelConfidence (\<lambda>_. []) (\<lambda>_ _. 0) demo_facts [])) \<noteq> []"
proof -
  have m: "cr_level (levelConfidence (\<lambda>_. []) (\<lambda>_ _. 0) demo_facts []) = Moderate" by code_simp
  then have low: "cr_level (levelConfidence (\<lambda>_. []) (\<lambda>_ _. 0) demo_facts []) \<in> {Moderate, Low, Cannot_assess}" by simp
  have caps: "\<forall>c\<in>set (caps_of demo_facts). \<not> starts_with (cap_key c) ''extension:''"
    by (simp add: caps_of_def demo_facts_def)
  have plain: "\<forall>e\<in>set (gf_areas demo_facts) \<union> set (case gf_judgeAreas demo_facts of Some js \<Rightarrow> js | None \<Rightarrow> []). plain_area e"
    by (simp add: demo_facts_def plain_area_def policy_area_def starts_with_def)
  show ?thesis using lowered_level_parks[OF _ caps plain low, of "[]"] by (simp add: m Let_def)
qed

theorem confidence_monotone_witness:
  "level_rank (cr_level (confidence (levelFacts (\<lambda>_. []) (\<lambda>_ _. 0) (demo_facts\<lparr>gf_areas := []\<rparr>) []))) \<le>
   level_rank (cr_level (confidence ((levelFacts (\<lambda>_. []) (\<lambda>_ _. 0) (demo_facts\<lparr>gf_areas := []\<rparr>) [])\<lparr>cf_areas := [policy_area]\<rparr>)))"
  by (rule confidence_monotone) (simp add: levelFacts_def level_areas_def demo_facts_def capAreas_def caps_of_def)

theorem sizeThresholds_percentiles_witness:
  "th_p90 (fst (the (sizeThresholds [Some 3, None, Some 1, Some 7] 2))) \<le>
   th_p99 (fst (the (sizeThresholds [Some 3, None, Some 1, Some 7] 2)))"
proof -
  have "sizeThresholds [Some 3, None, Some 1, Some 7] 2 = Some (\<lparr>th_p90 = 7, th_p99 = 7\<rparr>, 3)" by code_simp
  from sizeThresholds_percentiles[OF this] show ?thesis using \<open>_ = Some _\<close> by simp
qed

end
