(* ===== verification/VerifyContract.thy ===== *)
theory VerifyContract
  imports VerifyBlockers
begin

text \<open>
  The contract of a verify extension: the shape of its result (\<open>refineVerify\<close> of
  \<open>verify/verify-contract.mjs\<close>, \<open>validateResult\<close> of \<open>skill-extensions.mjs\<close> for the role \<open>verify\<close>), the
  classification of one dispatched extension, and the shape of the context it is given. The lemmas show
  what an accepted result carries and that a broken extension is never read as a pass.
\<close>

section \<open>Results\<close>

definition VERIFY_PASS_WITHOUT_EVIDENCE :: string where
  "VERIFY_PASS_WITHOUT_EVIDENCE = ''pass requires at least one evidence item''"

definition VERIFY_VERDICTS :: "string list" where
  "VERIFY_VERDICTS = [''pass'', ''fail'', ''abstain'', ''human'', ''wait'']"

definition lower_letter :: "char \<Rightarrow> bool" where
  "lower_letter c \<longleftrightarrow> (let n = (of_char c :: nat) in 97 \<le> n \<and> n \<le> 122)"

definition quoted :: "string \<Rightarrow> string" where
  "quoted s = [CHR 0x22] @ s @ [CHR 0x22]"

text \<open>\<open>/^[a-z][a-z-]*$/\<close>.\<close>

definition kebab :: "string \<Rightarrow> bool" where
  "kebab s = (case s of [] \<Rightarrow> False | c # cs \<Rightarrow> lower_letter c \<and> list_all (\<lambda>d. lower_letter d \<or> d = CHR ''-'') cs)"

definition VERIFY_HUMAN_REASON :: "string \<Rightarrow> bool" where
  "VERIFY_HUMAN_REASON s \<longleftrightarrow> starts_with s ''human-review:'' \<and> kebab (drop 13 s)"

definition VERIFY_WAIT_REASON :: "string \<Rightarrow> bool" where
  "VERIFY_WAIT_REASON s = kebab s"

definition evidence_item :: "jsval \<Rightarrow> bool" where
  "evidence_item item \<longleftrightarrow>
     is_plain_object item \<and> is_nonempty_string (prop_of item ''kind'') \<and> is_nonempty_string (prop_of item ''ref'')"

definition titled_item :: "jsval \<Rightarrow> bool" where
  "titled_item item \<longleftrightarrow> is_plain_object item \<and> is_nonempty_string (prop_of item ''title'')"

definition item_faults :: "(jsval \<Rightarrow> bool) \<Rightarrow> string \<Rightarrow> string \<Rightarrow> jsval list \<Rightarrow> string list" where
  "item_faults ok name need items =
     concat (map (\<lambda>(idx, item). unless (ok item) (name @ '' '' @ show_nat idx @ '' '' @ need)) (enumerate 0 items))"

definition verdict_is :: "jsval \<Rightarrow> string \<Rightarrow> bool" where
  "verdict_is envelope v \<longleftrightarrow> prop_of envelope ''verdict'' = JStr v"

definition empty_array :: "jsval \<Rightarrow> bool" where
  "empty_array v \<longleftrightarrow> v = JArr []"

definition refineVerify :: "jsval \<Rightarrow> string list" where
  "refineVerify envelope =
     (let evidence = prop_of envelope ''evidence''; findings = prop_of envelope ''findings'';
          reason = prop_of envelope ''reason'' in
      unless (list_ex (verdict_is envelope) VERIFY_VERDICTS) (''verdict must be one of '' @ join '', '' VERIFY_VERDICTS) @
      (if is_array evidence
       then item_faults evidence_item ''evidence'' (''needs non-empty string '' @ quoted ''kind'' @ '' and '' @ quoted ''ref'') (array_or_empty evidence)
       else [''evidence must be an array'']) @
      (if is_array findings
       then item_faults titled_item ''finding'' (''needs a non-empty string '' @ quoted ''title'') (array_or_empty findings)
       else [''findings must be an array'']) @
      unless (\<not> (verdict_is envelope ''pass'' \<and> empty_array evidence)) VERIFY_PASS_WITHOUT_EVIDENCE @
      unless (\<not> (verdict_is envelope ''fail'' \<and> empty_array findings)) ''fail requires at least one finding'' @
      (if verdict_is envelope ''human''
       then unless (is_string reason \<and> VERIFY_HUMAN_REASON (string_or_empty reason))
              ''human requires a reason of the form human-review:<category>'' @
            unless (\<not> empty_array evidence) ''human requires at least one evidence item''
       else []) @
      (if verdict_is envelope ''wait''
       then unless (is_string reason \<and> VERIFY_WAIT_REASON (string_or_empty reason))
              ''wait requires a reason of the form <kebab-case-code>'' @
            unless (\<not> (is_array findings \<and> \<not> empty_array findings)) ''wait must not carry findings''
       else []))"

text \<open>\<open>validateResult(envelope, 'verify')\<close>: the errors; it is ok when there are none.\<close>

definition header_faults :: "jsval \<Rightarrow> string list" where
  "header_faults envelope =
     (case prop_of envelope ''ok'' of
        JBool True \<Rightarrow> []
      | JBool False \<Rightarrow>
          [''extension reported failure (ok:false): '' @
           (if is_nonempty_string (prop_of envelope ''error'') then trim (string_or_empty (prop_of envelope ''error''))
            else ''no error detail provided'')]
      | _ \<Rightarrow> [''ok is not a boolean'']) @
     unless (is_string (prop_of envelope ''extension'') \<and> prop_of envelope ''extension'' \<noteq> JStr [])
       ''extension is not a non-empty string'' @
     unless (prop_of envelope ''role'' = JStr ''verify'')
       (''envelope role '' @ quoted (js_string (prop_of envelope ''role'')) @ '' does not match expected '' @ quoted ''verify'')"

definition validateVerifyResult :: "jsval \<Rightarrow> string list" where
  "validateVerifyResult envelope =
     (if \<not> is_object envelope then [''envelope is not an object'']
      else header_faults envelope @
        concat (map (\<lambda>k. unless (has_key envelope k) (''missing '' @ quoted k)) [''verdict'', ''evidence'', ''findings'']) @
        refineVerify envelope)"

definition malfunction :: "bool \<Rightarrow> string \<Rightarrow> jsval dict" where
  "malfunction optional reason =
     [(''outcome'', JStr (if optional then ''abstain'' else ''failed'')), (''reason'', JStr reason), (''verdict'', JNull)]"

definition outcome_obj :: "string \<Rightarrow> string \<Rightarrow> jsval \<Rightarrow> jsval dict" where
  "outcome_obj k reason verdict = [(''outcome'', JStr k), (''reason'', JStr reason), (''verdict'', verdict)]"

definition classifyVerifyOutcome :: "string list \<Rightarrow> jsval \<Rightarrow> bool \<Rightarrow> bool \<Rightarrow> bool \<Rightarrow> jsval" where
  "classifyVerifyOutcome humanReasons result timedOut crashed optional =
     JObj (if timedOut then malfunction optional ''timed-out''
      else if crashed then malfunction optional ''crashed''
      else if is_plain_object result \<and> prop_of result ''ok'' = JBool False then malfunction optional ''reported-failure''
      else if validateVerifyResult result \<noteq> []
      then malfunction optional (if validateVerifyResult result = [VERIFY_PASS_WITHOUT_EVIDENCE]
             then ''pass-without-evidence'' else ''malformed-result'')
      else if verdict_is result ''abstain'' then outcome_obj ''abstain'' ''abstain'' JNull
      else if verdict_is result ''human''
      then (if prop_of result ''reason'' \<notin> JStr ` set humanReasons
            then malfunction optional ''malformed-result'' @ [(''humanReason'', prop_of result ''reason'')]
            else outcome_obj ''ok'' ''human'' (JStr ''human'') @ [(''humanReason'', prop_of result ''reason'')])
      else if verdict_is result ''wait''
      then outcome_obj ''ok'' ''wait'' (JStr ''wait'') @ [(''waitReason'', prop_of result ''reason'')]
      else outcome_obj ''ok'' (js_string (prop_of result ''verdict'')) (prop_of result ''verdict''))"

definition VERIFY_OUTCOME_REASONS :: "string list" where
  "VERIFY_OUTCOME_REASONS = [''timed-out'', ''crashed'', ''reported-failure'', ''pass-without-evidence'', ''malformed-result'',
     ''abstain'', ''pass'', ''fail'', ''human'', ''wait'']"

section \<open>Contexts\<close>

definition VERIFY_CONTEXT_KEYS :: "string list" where
  "VERIFY_CONTEXT_KEYS = [''pr'', ''headSha'', ''baseSha'', ''changedPaths'', ''ticket'']"

definition INTENT_SOURCES :: "string list" where
  "INTENT_SOURCES = [''acceptance-criteria'', ''issue'', ''pr-body'', ''commits'', ''unknown'']"

definition key_faults :: "string list \<Rightarrow> string \<Rightarrow> jsval \<Rightarrow> string list" where
  "key_faults allowed label v =
     concat (map (\<lambda>(k, _). unless (k \<in> set allowed) (''unexpected '' @ label @ '' key '' @ quoted k)) (entries_of v))"

definition optional_strings :: "jsval \<Rightarrow> string \<Rightarrow> string list \<Rightarrow> string list" where
  "optional_strings v label ks =
     concat (map (\<lambda>k. unless (\<not> has_key v k \<or> is_string (prop_of v k)) (label @ ''.'' @ k @ '' must be a string'')) ks)"

definition full_sha :: "jsval \<Rightarrow> bool" where
  "full_sha v = (case v of JStr s \<Rightarrow> SHA s | _ \<Rightarrow> False)"

definition pr_faults :: "jsval \<Rightarrow> string list" where
  "pr_faults v =
     (if \<not> is_plain_object v then [''pr must be an object'']
      else unless (case prop_of v ''number'' of JNum (Fin n) \<Rightarrow> 1 \<le> n | _ \<Rightarrow> False) ''pr.number must be a positive integer'' @
        optional_strings v ''pr'' [''url'', ''title'', ''body''])"

definition paths_faults :: "jsval \<Rightarrow> string list" where
  "paths_faults v =
     (if \<not> is_array v then [''changedPaths must be an array'']
      else item_faults is_nonempty_string ''changedPaths'' ''must be a non-empty string'' (array_or_empty v))"

definition ticket_faults :: "jsval \<Rightarrow> string list" where
  "ticket_faults v =
     (if v = JNull then [] else if \<not> is_plain_object v then [''ticket must be null or an object'']
      else optional_strings v ''ticket'' [''id'', ''url'', ''title'', ''description''])"

definition range_faults :: "jsval \<Rightarrow> string list" where
  "range_faults v =
     (if \<not> is_plain_object v then [''range must be an object'']
      else key_faults [''kind'', ''anchorSha''] ''range'' v @
        concat (map (\<lambda>k. unless (has_key v k) (''missing range key '' @ quoted k)) [''kind'', ''anchorSha'']) @
        unless (\<not> has_key v ''kind'' \<or> prop_of v ''kind'' \<in> set [JStr ''full'', JStr ''delta'']) (''range.kind must be '' @ quoted ''full'' @ '' or '' @ quoted ''delta'') @
        unless (\<not> has_key v ''anchorSha'' \<or> (prop_of v ''anchorSha'' = JNull \<and> prop_of v ''kind'' = JStr ''full'') \<or>
                full_sha (prop_of v ''anchorSha'')) ''range.anchorSha must be a 40-hex SHA'')"

text \<open>\<open>length\<close> counts UTF-16 units; for text outside the supplementary planes that is its code points.\<close>

definition separator_char :: "string \<Rightarrow> bool" where
  "separator_char s \<longleftrightarrow> str_contains s [CHR 0xE2, CHR 0x80, CHR 0xA8] \<or> str_contains s [CHR 0xE2, CHR 0x80, CHR 0xA9]"

definition short_line :: "jsval \<Rightarrow> bool" where
  "short_line v =
     (case v of JStr s \<Rightarrow> trim s \<noteq> [] \<and> \<not> list_ex newline_char s \<and> \<not> separator_char s \<and> code_points s \<le> 300
      | _ \<Rightarrow> False)"

definition intent_faults :: "jsval \<Rightarrow> string list" where
  "intent_faults v =
     (if \<not> is_plain_object v then [''intent must be an object'']
      else (let bullets = prop_of v ''bullets''; unknown = (prop_of v ''source'' = JStr ''unknown'') in
        key_faults [''source'', ''ref'', ''bullets''] ''intent'' v @
        unless (prop_of v ''source'' \<in> JStr ` set INTENT_SOURCES) ''intent.source must name an intent source'' @
        (if \<not> is_array bullets \<or> 5 < length (array_or_empty bullets) \<or> \<not> list_all short_line (array_or_empty bullets)
         then [''intent.bullets must contain at most five short single-line strings'']
         else unless (unknown = (array_or_empty bullets = [])) ''intent.bullets must be empty exactly when source is unknown'') @
        unless (\<not> (has_key v ''ref'' \<and> (unknown \<or> \<not> short_line (prop_of v ''ref''))))
          ''intent.ref must be short single-line text on a known source''))"

definition when_key :: "jsval \<Rightarrow> string \<Rightarrow> (jsval \<Rightarrow> string list) \<Rightarrow> string list" where
  "when_key v k faults = (if has_key v k then faults (prop_of v k) else [])"

definition validateVerifyContext :: "jsval \<Rightarrow> string list" where
  "validateVerifyContext context =
     (if \<not> is_plain_object context then [''context is not an object'']
      else key_faults (VERIFY_CONTEXT_KEYS @ [''range'', ''intent'']) ''context'' context @
        concat (map (\<lambda>k. unless (has_key context k) (''missing context key '' @ quoted k)) VERIFY_CONTEXT_KEYS) @
        when_key context ''pr'' pr_faults @
        concat (map (\<lambda>k. when_key context k (\<lambda>v. unless (full_sha v) (k @ '' must be a 40-hex SHA''))) [''headSha'', ''baseSha'']) @
        when_key context ''changedPaths'' paths_faults @
        when_key context ''ticket'' ticket_faults @
        when_key context ''range'' range_faults @
        when_key context ''intent'' intent_faults)"

section \<open>What an accepted result carries\<close>

lemma item_faults_Nil: "item_faults ok name need items = [] \<longleftrightarrow> (\<forall>item\<in>set items. ok item)"
proof -
  have "snd ` set (enumerate 0 items) = set items" by (metis list.set_map map_snd_enumerate)
  then have items: "set items = snd ` set (enumerate 0 items)" by simp
  show ?thesis unfolding items by (simp add: item_faults_def case_prod_unfold)
qed

lemma refineVerify_Nil:
  assumes "refineVerify envelope = []"
  shows "list_ex (verdict_is envelope) VERIFY_VERDICTS"
    "\<exists>ev. prop_of envelope ''evidence'' = JArr ev \<and> (\<forall>x\<in>set ev. evidence_item x) \<and>
       (verdict_is envelope ''pass'' \<or> verdict_is envelope ''human'' \<longrightarrow> ev \<noteq> [])"
    "\<exists>fs. prop_of envelope ''findings'' = JArr fs \<and> (\<forall>x\<in>set fs. titled_item x) \<and>
       (verdict_is envelope ''fail'' \<longrightarrow> fs \<noteq> [])"
proof -
  have arr: "is_array v \<longleftrightarrow> (\<exists>xs. v = JArr xs)" for v by (cases v) (auto simp: is_array_def)
  note r = assms[unfolded refineVerify_def Let_def append_is_Nil_conv unless_Nil]
  from r show "list_ex (verdict_is envelope) VERIFY_VERDICTS" by blast
  from r obtain ev where ev: "prop_of envelope ''evidence'' = JArr ev" by (auto simp: arr split: if_splits)
  with r show "\<exists>ev. prop_of envelope ''evidence'' = JArr ev \<and> (\<forall>x\<in>set ev. evidence_item x) \<and>
       (verdict_is envelope ''pass'' \<or> verdict_is envelope ''human'' \<longrightarrow> ev \<noteq> [])"
    by (auto simp: is_array_def array_or_empty_def empty_array_def item_faults_Nil split: if_splits)
  from r obtain fs where fs: "prop_of envelope ''findings'' = JArr fs" by (auto simp: arr split: if_splits)
  with r show "\<exists>fs. prop_of envelope ''findings'' = JArr fs \<and> (\<forall>x\<in>set fs. titled_item x) \<and>
       (verdict_is envelope ''fail'' \<longrightarrow> fs \<noteq> [])"
    by (auto simp: is_array_def array_or_empty_def empty_array_def item_faults_Nil split: if_splits)
qed

text \<open>A broken extension is never read as an answer. The outcome is \<open>ok\<close> only for a result that came in
  time, did not crash and satisfies the contract: it says ok for itself, names its extension and the
  role, carries a known verdict, and backs a pass or a human verdict with at least one piece of
  evidence and a failure with at least one titled finding; a human verdict names a known code. Every
  malfunction is \<open>failed\<close>, or an abstention of an optional extension.\<close>

theorem classifyVerifyOutcome_ok:
  assumes "prop_of (classifyVerifyOutcome codes result timedOut crashed optional) ''outcome'' = JStr ''ok''"
  shows "\<not> timedOut \<and> \<not> crashed \<and> validateVerifyResult result = [] \<and> prop_of result ''ok'' = JBool True \<and>
     prop_of result ''role'' = JStr ''verify'' \<and> list_ex (verdict_is result) [''pass'', ''fail'', ''human'', ''wait''] \<and>
     prop_of (classifyVerifyOutcome codes result timedOut crashed optional) ''verdict'' = prop_of result ''verdict'' \<and>
     (verdict_is result ''pass'' \<or> verdict_is result ''human'' \<longrightarrow>
        (\<exists>e es. prop_of result ''evidence'' = JArr (e # es) \<and> evidence_item e)) \<and>
     (verdict_is result ''fail'' \<longrightarrow> (\<exists>g gs. prop_of result ''findings'' = JArr (g # gs) \<and> titled_item g)) \<and>
     (verdict_is result ''human'' \<longrightarrow> prop_of result ''reason'' \<in> JStr ` set codes)"
proof -
  let ?out = "classifyVerifyOutcome codes result timedOut crashed optional"
  have ok: "\<not> timedOut" "\<not> crashed" "validateVerifyResult result = []" "\<not> verdict_is result ''abstain''"
    "verdict_is result ''human'' \<longrightarrow> prop_of result ''reason'' \<in> JStr ` set codes"
    using assms unfolding classifyVerifyOutcome_def by (auto simp: outcome_obj_def malfunction_def split: if_splits)
  have v: "prop_of ?out ''verdict'' = prop_of result ''verdict''"
    using assms ok unfolding classifyVerifyOutcome_def by (auto simp: verdict_is_def outcome_obj_def malfunction_def split: if_splits)
  have parts: "header_faults result = []" "refineVerify result = []"
    using ok(3) by (auto simp: validateVerifyResult_def split: if_splits)
  have head: "prop_of result ''ok'' = JBool True" "prop_of result ''role'' = JStr ''verify''"
    using parts(1) by (auto simp: header_faults_def split: jsval.splits bool.splits)
  note ref = refineVerify_Nil[OF parts(2)]
  have "list_ex (verdict_is result) [''pass'', ''fail'', ''human'', ''wait'']"
    using ref(1) ok(4) by (auto simp: VERIFY_VERDICTS_def)
  moreover have "verdict_is result ''pass'' \<or> verdict_is result ''human'' \<longrightarrow>
        (\<exists>e es. prop_of result ''evidence'' = JArr (e # es) \<and> evidence_item e)"
    using ref(2) by (metis list.exhaust list.set_intros(1))
  moreover have "verdict_is result ''fail'' \<longrightarrow> (\<exists>g gs. prop_of result ''findings'' = JArr (g # gs) \<and> titled_item g)"
    using ref(3) by (metis list.exhaust list.set_intros(1))
  ultimately show ?thesis using ok v head by blast
qed

definition demo_result :: jsval where
  "demo_result = JObj [(''ok'', JBool True), (''extension'', JStr ''x''), (''role'', JStr ''verify''), (''verdict'', JStr ''pass''),
     (''evidence'', JArr [JObj [(''kind'', JStr ''test''), (''ref'', JStr ''a'')]]), (''findings'', JArr [])]"

theorem classifyVerifyOutcome_ok_witness:
  "validateVerifyResult demo_result = [] \<and> prop_of (classifyVerifyOutcome [] demo_result False False False) ''verdict'' = JStr ''pass''"
proof -
  have "prop_of (classifyVerifyOutcome [] demo_result False False False) ''outcome'' = JStr ''ok''" by code_simp
  from classifyVerifyOutcome_ok[OF this] show ?thesis by (simp add: demo_result_def)
qed

lemma classify_no_extension: "prop_of (classifyVerifyOutcome codes r t c opt) ''extension'' = JUndef"
  by (simp add: classifyVerifyOutcome_def malfunction_def outcome_obj_def prop_of_def)

end
