(* ===== verification/VerifyVerdict.thy ===== *)
theory VerifyVerdict
  imports Confidence VerifyContract
begin

text \<open>
  The decisions of \<open>verify/verify-gate.mjs\<close> over gathered facts: the park codes and their status
  description, the claim on a head, the record of a clean extension run, the reading of an approval,
  and \<open>decideVerdict\<close>, with the status vocabulary of \<open>verify/verify-vocabulary.mjs\<close>. Area detection,
  collation and hashing are arguments. The lemmas show what a
  pass requires, that nothing pages a person while evidence is missing, what an approval waives, and
  that codes and records survive their descriptions.
\<close>

section \<open>Vocabulary\<close>

definition HUMAN_REASONS :: "string list" where
  "HUMAN_REASONS = [''no-receipt'', ''repair-exhausted'', ''always-human-path'', ''partial-build'', ''extension-failed'',
     ''cannot-assess'', ''no-session'', ''worktree-diverged'', ''worktree-unsynced'', ''human-merge'',
     ''verify-post-failed'', ''human-review:database'', ''human-review:security'', ''human-review:ui''] @
     COMPUTED_HUMAN_REVIEW_CODES @ [''human-review:unproven'']"

definition expandParkCode :: "string \<Rightarrow> string" where
  "expandParkCode code = (case code of CHR ''+'' # rest \<Rightarrow> ''human-review:'' @ rest | _ \<Rightarrow> code)"

text \<open>\<open>replaceAll('human-review:', '+')\<close>.\<close>

fun compactParkCodeText :: "string \<Rightarrow> string" where
  "compactParkCodeText [] = []"
| "compactParkCodeText (c # s) =
     (if starts_with (c # s) ''human-review:'' then CHR ''+'' # compactParkCodeText (drop 12 s)
      else c # compactParkCodeText s)"

definition known_codes :: "string list \<Rightarrow> string list option" where
  "known_codes parts =
     (let codes = map (\<lambda>p. expandParkCode (trim p)) parts in
      if \<not> list_all (\<lambda>c. c \<in> set HUMAN_REASONS) codes \<or> codes = [] then None
      else Some (filter (\<lambda>c. c \<in> set codes) HUMAN_REASONS))"

definition parseHumanReasonList :: "string \<Rightarrow> string list option" where
  "parseHumanReasonList value = known_codes (split_on (CHR '','') value)"

definition EVIDENCE_UNKNOWN_REASONS :: "string list" where
  "EVIDENCE_UNKNOWN_REASONS = [''pr-unreadable'', ''base-ci-unknown'', ''receipt-unknown'', ''changed-paths-unknown'',
     ''config-unreadable'', ''trusted-tree-unavailable'', ''approval-unreadable'']"

definition ellipsis :: string where "ellipsis = [CHR 0xE2, CHR 0x80, CHR 0xA6]"

definition vd_verifying :: string where "vd_verifying = ''verifying'' @ ellipsis"
definition vd_waiting :: string where "vd_waiting = ''waiting:''"
definition vd_cannotAssess :: string where "vd_cannotAssess = ''cannot assess:''"
definition vd_needsHuman :: string where "vd_needsHuman = ''needs human:''"
definition vd_defect :: string where "vd_defect = ''defect:''"
definition vd_blocked :: string where "vd_blocked = ''blocked:''"
definition vd_defectParkedSuffix :: string where "vd_defectParkedSuffix = '', needs human''"

definition isSendBack :: "string \<Rightarrow> bool" where
  "isSendBack description \<longleftrightarrow> starts_with description vd_defect \<or> starts_with description vd_blocked"

section \<open>The claim on a head\<close>

text \<open>The latest status on a head: its state, description and time (\<open>None\<close>: unreadable).\<close>

record head_status =
  hs_state :: string
  hs_description :: string
  hs_updatedAt :: "int option"

datatype claim_kind = No_status | Mine | Foreign | Stale | Waiting | Terminal

definition CLAIM_STALE_AFTER_MS :: int where "CLAIM_STALE_AFTER_MS = 30 * 60 * 1000"

definition isCannotAssess :: "head_status \<Rightarrow> bool" where
  "isCannotAssess status \<longleftrightarrow> starts_with (hs_description status) vd_cannotAssess"

definition claimState :: "head_status option \<Rightarrow> string \<Rightarrow> int \<Rightarrow> claim_kind \<times> string" where
  "claimState latest token now =
     (case latest of
        None \<Rightarrow> (No_status, [])
      | Some status \<Rightarrow>
          if hs_state status = ''pending'' \<and> starts_with (hs_description status) vd_verifying
          then (let claimed = trim (drop (length vd_verifying) (hs_description status)) in
            if trim token \<noteq> [] \<and> claimed = token then (Mine, claimed)
            else (case hs_updatedAt status of
                    None \<Rightarrow> (Stale, claimed)
                  | Some t \<Rightarrow> (if CLAIM_STALE_AFTER_MS < now - t then Stale else Foreign, claimed)))
          else if isCannotAssess status then (Waiting, [])
          else if hs_state status = ''pending'' \<and> starts_with (hs_description status) vd_waiting then (Waiting, [])
          else (Terminal, []))"

definition claimDescription :: "string \<Rightarrow> string" where
  "claimDescription token = vd_verifying @ '' '' @ token"

definition waitingDescription :: "string \<Rightarrow> string" where
  "waitingDescription reason = vd_waiting @ '' '' @ reason"

definition claimLost :: "head_status option \<Rightarrow> string \<Rightarrow> int \<Rightarrow> bool" where
  "claimLost latest token now \<longleftrightarrow> fst (claimState latest token now) \<in> {Foreign, Stale}"

section \<open>The description of a park\<close>

definition DESCRIPTION_LIMIT :: nat where "DESCRIPTION_LIMIT = 140"

definition PARK_LABEL_SEPARATOR :: string where
  "PARK_LABEL_SEPARATOR = '' '' @ [CHR 0xC2, CHR 0xB7] @ '' ''"

text \<open>\<open>replace(/\s+/g, ' ')\<close>, over the ASCII white space.\<close>

fun squeeze_ws :: "bool \<Rightarrow> string \<Rightarrow> string" where
  "squeeze_ws after [] = []"
| "squeeze_ws after (c # s) =
     (if is_ws c then (if after then squeeze_ws True s else CHR '' '' # squeeze_ws True s)
      else c # squeeze_ws False s)"

definition parkLabelText :: "string \<Rightarrow> string" where
  "parkLabelText label = trim (squeeze_ws False label)"

text \<open>\<open>Array.from(s).slice(0, n).join('')\<close>: the first code points, in bytes of UTF-8.\<close>

fun take_points :: "nat \<Rightarrow> string \<Rightarrow> string" where
  "take_points n [] = []"
| "take_points n (c # s) =
     (if continuation c then c # take_points n s
      else case n of 0 \<Rightarrow> [] | Suc m \<Rightarrow> c # take_points m s)"

definition needsHumanDescription :: "string \<Rightarrow> string \<Rightarrow> string" where
  "needsHumanDescription code label =
     (let raw = vd_needsHuman @ '' '' @ code;
          base = (if DESCRIPTION_LIMIT < code_points raw then compactParkCodeText raw else raw);
          caption = parkLabelText label;
          room = int DESCRIPTION_LIMIT - int (code_points base) - 3 in
      if caption = [] then base
      else if int (code_points caption) \<le> room then base @ PARK_LABEL_SEPARATOR @ caption
      else if room < 2 then base
      else base @ PARK_LABEL_SEPARATOR @ trim_end (take_points (nat room - 1) caption) @ ellipsis)"

text \<open>\<open>indexOf\<close>.\<close>

fun find_sep :: "string \<Rightarrow> string \<Rightarrow> nat option" where
  "find_sep needle [] = (if needle = [] then Some 0 else None)"
| "find_sep needle (c # s) =
     (if starts_with (c # s) needle then Some 0 else map_option Suc (find_sep needle s))"

record park =
  pk_codes :: "string list option"
  pk_codesText :: string
  pk_label :: string

definition parseParkDescription :: "string \<Rightarrow> park option" where
  "parseParkDescription description =
     (if \<not> starts_with description vd_needsHuman then None
      else
        (let rest = drop (length vd_needsHuman) description;
             at = find_sep PARK_LABEL_SEPARATOR rest;
             codesText = trim (case at of None \<Rightarrow> rest | Some i \<Rightarrow> take i rest);
             label = (case at of None \<Rightarrow> [] | Some i \<Rightarrow> trim (drop (i + length PARK_LABEL_SEPARATOR) rest)) in
         Some \<lparr>pk_codes = parseHumanReasonList codesText, pk_codesText = codesText, pk_label = label\<rparr>))"

definition parkOfStatus :: "head_status option \<Rightarrow> park option" where
  "parkOfStatus status = Option.bind status (\<lambda>s. parseParkDescription (hs_description s))"

section \<open>Extension results\<close>

definition aggregateExtensions :: "jsval \<Rightarrow> jsval list \<Rightarrow> aggregate" where
  "aggregateExtensions results installed =
     aggregateBlockerExtensions (classifyVerifyOutcome HUMAN_REASONS) HUMAN_REASONS results installed"

section \<open>The record of a clean extension run\<close>

text \<open>\<open>/^[A-Za-z0-9._-]+$/\<close>.\<close>

definition record_char :: "char \<Rightarrow> bool" where
  "record_char c \<longleftrightarrow> is_digit c \<or> c \<in> set ''._-'' \<or>
     (let n = (of_char (lower_char c) :: nat) in 97 \<le> n \<and> n \<le> 122)"

definition RECORD_NAME :: "string \<Rightarrow> bool" where
  "RECORD_NAME s \<longleftrightarrow> s \<noteq> [] \<and> list_all record_char s"

text \<open>\<open>{extension, outcome}\<close>.\<close>

type_synonym record_entry = "string \<times> string"

definition outcome_entry :: "jsval \<Rightarrow> record_entry option" where
  "outcome_entry out =
     (case prop_of out ''extension'' of
        JStr ext \<Rightarrow>
          if \<not> RECORD_NAME ext then None
          else if prop_of out ''outcome'' = JStr ''abstain'' \<and> prop_of out ''reason'' = JStr ''abstain''
          then Some (ext, ''abstain'')
          else if prop_of out ''outcome'' = JStr ''ok'' \<and> prop_of out ''verdict'' = JStr ''pass''
          then Some (ext, ''pass'')
          else (case (prop_of out ''outcome'' = JStr ''ok'' \<and> prop_of out ''verdict'' = JStr ''human'',
                      prop_of out ''humanReason'') of
                  (True, JStr r) \<Rightarrow> if r \<in> set HUMAN_REASONS then Some (ext, r) else None
                | _ \<Rightarrow> None)
      | _ \<Rightarrow> None)"

definition entry_text :: "record_entry \<Rightarrow> string" where
  "entry_text e = fst e @ '':'' @ snd e"

definition all_some :: "'a option list \<Rightarrow> 'a list option" where
  "all_some xs = (if None \<in> set xs then None else Some (List.map_filter id xs))"

definition record_entries :: "aggregate \<Rightarrow> record_entry list option" where
  "record_entries agg =
     (if ag_failed agg \<noteq> [] \<or> ag_findings agg \<noteq> [] \<or> truthy (ag_waitReason agg) then None
      else all_some (map outcome_entry (ag_outcomes agg)))"

definition extensionRecord :: "aggregate \<Rightarrow> string option" where
  "extensionRecord agg =
     (case record_entries agg of
        Some (e # es) \<Rightarrow> Some (join '','' (map entry_text (e # es)))
      | _ \<Rightarrow> None)"

definition parse_entry :: "string \<Rightarrow> record_entry option" where
  "parse_entry entry =
     (let ext = takeWhile (\<lambda>c. c \<noteq> CHR '':'') entry; out = drop (length ext + 1) entry in
      if length ext = length entry \<or> \<not> RECORD_NAME ext then None
      else if out \<noteq> ''pass'' \<and> out \<noteq> ''abstain'' \<and> out \<notin> set HUMAN_REASONS then None
      else Some (ext, out))"

fun parse_entries :: "record_entry list \<Rightarrow> string list \<Rightarrow> record_entry list option" where
  "parse_entries judged [] = Some judged"
| "parse_entries judged (s # ss) =
     (case parse_entry s of
        None \<Rightarrow> None
      | Some (ext, out) \<Rightarrow>
          if ext \<in> fst ` set judged then None else parse_entries (judged @ [(ext, out)]) ss)"

definition parseExtensionRecord :: "string \<Rightarrow> record_entry list option" where
  "parseExtensionRecord value =
     (if value = [] then None else parse_entries [] (split_on (CHR '','') value))"

definition reused_outcome :: "record_entry \<Rightarrow> jsval" where
  "reused_outcome e =
     (case e of (ext, out) \<Rightarrow>
        if out = ''abstain''
        then JObj [(''extension'', JStr ext), (''outcome'', JStr ''abstain''), (''reason'', JStr ''abstain''), (''verdict'', JNull)]
        else if out = ''pass''
        then JObj [(''extension'', JStr ext), (''outcome'', JStr ''ok''), (''reason'', JStr ''pass''), (''verdict'', JStr ''pass'')]
        else JObj [(''extension'', JStr ext), (''outcome'', JStr ''ok''), (''reason'', JStr ''human''), (''verdict'', JStr ''human''),
                   (''humanReason'', JStr out)])"

text \<open>The outcomes and the human reasons a recorded run stands for.\<close>

definition reuseExtensionRecord ::
  "record_entry list option \<Rightarrow> jsval list \<Rightarrow> string list \<Rightarrow> (jsval list \<times> string list) option" where
  "reuseExtensionRecord judged applicable notApplicable =
     (case judged of None \<Rightarrow> None
      | Some es \<Rightarrow>
          if \<not> list_all (\<lambda>ext. prop_of ext ''name'' \<in> (JStr \<circ> fst) ` set es) applicable then None
          else (let kept = filter (\<lambda>e. fst e \<notin> set notApplicable) es in
            Some (map reused_outcome kept, filter (\<lambda>code. code \<in> snd ` set kept) HUMAN_REASONS)))"

section \<open>Approval\<close>

datatype approval =
    Merged_by_human
  | Not_approved
  | Sent_back
  | Policy_park_approved string string
  | Reverify string

datatype operator_decision = Approved_op string | Sent_back_op

record approval_facts =
  af_prState :: string
  af_reviewDecision :: string
  af_status :: "head_status option"
  af_labels :: "string list option"
  af_needsHumanLabel :: string
  af_operator :: "operator_decision option"
  af_accepted :: "int option"

definition ends_in :: "string \<Rightarrow> string \<Rightarrow> bool" where
  "ends_in s tail \<longleftrightarrow> starts_with (rev s) (rev tail)"

definition classifyApproval :: "approval_facts \<Rightarrow> approval" where
  "classifyApproval f =
     (if af_prState f = ''MERGED'' then Merged_by_human
      else if af_operator f = Some Sent_back_op then Sent_back
      else
        (let labelRemoved = (case af_labels f of Some ls \<Rightarrow> af_needsHumanLabel f \<notin> set ls | None \<Rightarrow> False);
             approved = (af_reviewDecision f = ''APPROVED'') in
         case parkOfStatus (af_status f) of
           Some park \<Rightarrow>
             (case pk_codes park of
                None \<Rightarrow> Not_approved
              | Some codes \<Rightarrow>
                  (let waive = join '','' codes in
                   if af_operator f = Some (Approved_op waive) then Policy_park_approved waive ''operator-approved''
                   else if approved then Policy_park_approved waive ''review-approved''
                   else Not_approved))
         | None \<Rightarrow>
             (case af_status f of
                None \<Rightarrow> Not_approved
              | Some status \<Rightarrow>
                  if hs_state status = ''failure'' \<and> starts_with (hs_description status) vd_blocked \<and>
                     (case (af_accepted f, hs_updatedAt status) of (Some a, Some t) \<Rightarrow> t < a | _ \<Rightarrow> False)
                  then Reverify ''blocker-accepted''
                  else if hs_state status = ''failure'' \<and> isSendBack (hs_description status)
                  then (if labelRemoved \<and> ends_in (hs_description status) vd_defectParkedSuffix
                        then Reverify ''label-removed''
                        else if approved then Reverify ''review-approved'' else Not_approved)
                  else Not_approved)))"

section \<open>The decision\<close>

datatype verdict_kind = Wait | Extensions_required | Judge_required | Review_required | Pass | Defect | Blocked_verdict | Human

record ci_facts =
  ci_settled :: bool
  ci_green :: bool
  ci_state :: string
  ci_reason :: string

record tier =
  ti_class :: string
  ti_review :: string
  ti_merge :: string

record facts = gate_facts +
  f_headSha :: string
  f_baseSha :: string
  f_ticket :: jsval
  f_prUnreadable :: bool
  f_prState :: string
  f_isDraft :: "bool option"
  f_eligibilityReasons :: "string list"
  f_ci :: "ci_facts option"
  f_failedChecks :: "jsval list"
  f_baseTipUnreadable :: bool
  f_requireGreenBase :: bool
  f_baseState :: string
  f_receipt :: string
  f_repairInFlight :: bool
  f_configUnreadable :: bool
  f_trustedTreeUnavailable :: bool
  f_approvalUnreadable :: bool
  f_reviewFindings :: "jsval list"
  f_accepted :: "(string \<times> string) list"
  f_tier :: "tier option"
  f_prClass :: "string option"
  f_waive :: string
  f_review :: always_review
  f_judgeHealth :: "string list"
  f_judgeRecord :: "string option"
  f_extensions :: "jsval list option"
  f_extensionsNotApplicable :: "string list"
  f_extensionResults :: jsval
  f_extensionRecord :: "record_entry list option"
  f_cleanReview :: bool

record gate_verdict =
  v_verdict :: verdict_kind
  v_reason :: string
  v_reasons :: "string list"
  v_labels :: "string list"
  v_label :: string
  v_confidence :: "confidence_result option"
  v_findingNotes :: "jsval list"
  v_accepted :: "(string \<times> string) list"
  v_blockers :: "jsval list"
  v_findings :: "jsval list"
  v_outcomes :: "(jsval list \<times> bool) option"
  v_judgeRecord :: "string option"
  v_extensionRecord :: "string option"
  v_notes :: "(string \<times> string) list"
  v_base :: "string \<times> string \<times> jsval"

text \<open>What the decision takes from the rest of the toolbox.\<close>

record judge_env =
  je_detect :: detector
  je_collate :: collation
  je_hash :: "string \<Rightarrow> string"

definition base_verdict :: "facts \<Rightarrow> verdict_kind \<Rightarrow> string \<Rightarrow> gate_verdict" where
  "base_verdict f v reason =
     \<lparr>v_verdict = v, v_reason = reason, v_reasons = [], v_labels = [], v_label = [], v_confidence = None,
      v_findingNotes = [], v_accepted = [], v_blockers = [], v_findings = [], v_outcomes = None,
      v_judgeRecord = None, v_extensionRecord = None, v_notes = [],
      v_base = (f_headSha f, f_baseSha f, f_ticket f)\<rparr>"

definition wait_notes :: "string \<Rightarrow> (string \<times> string) list" where
  "wait_notes reason =
     (if reason \<in> set EVIDENCE_UNKNOWN_REASONS
      then [(''evidence-unknown'', ''verify could not read evidence: '' @ reason)] else [])"

definition wait :: "facts \<Rightarrow> string \<Rightarrow> gate_verdict" where
  "wait f reason = (base_verdict f Wait reason)\<lparr>v_notes := wait_notes reason\<rparr>"

definition has_conflict :: "facts \<Rightarrow> bool" where
  "has_conflict f \<longleftrightarrow> ''merge-state-dirty'' \<in> set (f_eligibilityReasons f)"

definition ci_field :: "facts \<Rightarrow> (ci_facts \<Rightarrow> 'a) \<Rightarrow> 'a \<Rightarrow> 'a" where
  "ci_field f field d = (case f_ci f of Some ci \<Rightarrow> field ci | None \<Rightarrow> d)"

definition partial_build :: "facts \<Rightarrow> bool" where
  "partial_build f = snd (splitEligibility (f_eligibilityReasons f))"

text \<open>The first reason to wait, in the order the decision asks.\<close>

definition wait_reasons :: "facts \<Rightarrow> (bool \<times> string) list" where
  "wait_reasons f =
     [(f_prUnreadable f, ''pr-unreadable''),
      (f_prState f \<noteq> ''OPEN'', ''pr-not-open''),
      (f_isDraft f \<noteq> Some False, ''pr-draft'')] @
     (if has_conflict f then [] else
       [(ci_field f ci_reason [] = ''not-requested'', ''ci-not-requested''),
        (ci_field f ci_reason [] = ''absent-gate'', ''ci-absent-gate''),
        (\<not> ci_field f ci_settled False, ''ci-not-settled''),
        (\<not> ci_field f ci_green False \<and> ci_field f ci_state [] \<noteq> ''failing'', ''ci-not-green-on-head'')]) @
     map (\<lambda>r. (True, r)) (fst (splitEligibility (f_eligibilityReasons f))) @
     [(f_baseTipUnreadable f, ''base-ci-unknown''),
      (f_requireGreenBase f \<and> f_baseState f = ''red'', ''base-ci-red''),
      (f_requireGreenBase f \<and> f_baseState f = ''unknown'', ''base-ci-unknown''),
      (f_receipt f = ''unknown'', ''receipt-unknown''),
      (f_receipt f = ''pending'', ''receipt-pending''),
      (f_receipt f = ''absent'' \<and> f_repairInFlight f, ''receipt-repair-pending''),
      (f_configUnreadable f, ''config-unreadable''),
      (f_trustedTreeUnavailable f, ''trusted-tree-unavailable''),
      (f_approvalUnreadable f, ''approval-unreadable'')]"

definition first_wait :: "facts \<Rightarrow> string option" where
  "first_wait f = map_option snd (find fst (wait_reasons f))"

text \<open>\<open>splitAccepted\<close> of \<open>verify/verify-accept.mjs\<close>: accepted review findings leave the blockers.\<close>

definition acceptance_of :: "(string \<times> string) list \<Rightarrow> jsval \<Rightarrow> string option" where
  "acceptance_of accepted b =
     (case (prop_of b ''kind'' = JStr ''review-finding'', prop_of b ''id'') of
        (True, JStr i) \<Rightarrow> map_of accepted i | _ \<Rightarrow> None)"

definition splitAccepted :: "(string \<times> string) list \<Rightarrow> jsval list \<Rightarrow> jsval list \<times> (string \<times> string) list" where
  "splitAccepted accepted blockers =
     (filter (\<lambda>b. acceptance_of accepted b = None) blockers,
      List.map_filter (\<lambda>b. map_option (\<lambda>t. (string_or_empty (prop_of b ''id''), t)) (acceptance_of accepted b)) blockers)"

definition split_blockers :: "judge_env \<Rightarrow> facts \<Rightarrow> jsval list \<times> (string \<times> string) list" where
  "split_blockers e f =
     splitAccepted (f_accepted f)
       (buildBlockers (je_hash e) (f_reviewFindings f)
          (if ci_field f ci_settled False \<and> ci_field f ci_state [] = ''failing'' then f_failedChecks f else [])
          (has_conflict f) (partial_build f))"

definition gate_blockers :: "jsval list \<Rightarrow> (string \<times> string) list" where
  "gate_blockers bs = map (\<lambda>b. (js_string (prop_of b ''kind''), js_string (prop_of b ''summary''))) bs"

text \<open>The level, with the health of the judge.\<close>

definition level_of :: "judge_env \<Rightarrow> facts \<Rightarrow> string list \<Rightarrow> confidence_result" where
  "level_of e f extensionReasons =
     (let r = levelConfidence (je_detect e) (je_collate e) f extensionReasons in
      r\<lparr>cr_health := cr_health r @ f_judgeHealth f\<rparr>)"

definition level_codes :: "judge_env \<Rightarrow> facts \<Rightarrow> string list \<Rightarrow> string list" where
  "level_codes e f extensionReasons =
     legacyCodes (f_review f) (cr_level (level_of e f extensionReasons)) (cr_asks (level_of e f extensionReasons)) @
     filter (\<lambda>code. \<not> levelSignOff code) extensionReasons"

definition verifyReviews :: "facts \<Rightarrow> bool" where
  "verifyReviews f \<longleftrightarrow>
     (case f_tier f of Some t \<Rightarrow> ti_review t = ''verify'' | None \<Rightarrow> False) \<or>
     (case f_prClass f of Some c \<Rightarrow> c = ''boss''
      | None \<Rightarrow> (case f_tier f of Some t \<Rightarrow> ti_class t = ''boss'' | None \<Rightarrow> False))"

text \<open>The codes the approval waives.\<close>

definition waived :: "facts \<Rightarrow> string list" where
  "waived f =
     (let codes = expandLegacyWaiver
        (if f_waive f = [] then [] else (case parseHumanReasonList (f_waive f) of Some cs \<Rightarrow> cs | None \<Rightarrow> [])) in
      codes @ (if verifyReviews f \<and> ''extension-failed'' \<in> set codes then [''no-receipt''] else []))"

definition unwaived :: "facts \<Rightarrow> string list \<Rightarrow> string list" where
  "unwaived f codes = filter (\<lambda>code. code \<in> set codes \<and> code \<notin> set (waived f)) HUMAN_REASONS"

definition mergeCodes :: "facts \<Rightarrow> string list" where
  "mergeCodes f = (case f_tier f of Some t \<Rightarrow> if ti_merge t = ''human'' then [''human-merge''] else [] | None \<Rightarrow> [])"

definition stateCodes :: "facts \<Rightarrow> string list" where
  "stateCodes f =
     (if f_receipt f \<noteq> ''success'' then [''no-receipt''] else []) @ (if partial_build f then [''partial-build''] else [])"

text \<open>\<open>base\<close> after the wait stage: with the findings of note, the acceptances and a level.\<close>

definition judged_verdict ::
  "judge_env \<Rightarrow> facts \<Rightarrow> confidence_result \<Rightarrow> verdict_kind \<Rightarrow> string \<Rightarrow> gate_verdict" where
  "judged_verdict e f conf v reason =
     (base_verdict f v reason)\<lparr>v_confidence := Some conf, v_findingNotes := filter isNoteFinding (f_reviewFindings f),
        v_accepted := snd (split_blockers e f)\<rparr>"

definition park_labels :: "facts \<Rightarrow> confidence_result \<Rightarrow> string list \<Rightarrow> string list" where
  "park_labels f conf reasons =
     uniq (map as_label (filter (\<lambda>a. list_ex (\<lambda>code. code \<in> set reasons)
        (legacyCodes (f_review f) (cr_level conf) [a])) (cr_asks conf)))"

definition park_on :: "judge_env \<Rightarrow> facts \<Rightarrow> confidence_result \<Rightarrow> string list \<Rightarrow> gate_verdict" where
  "park_on e f conf codes =
     (let reasons = unwaived f codes in
      (judged_verdict e f conf Human (join '','' reasons))
        \<lparr>v_reasons := reasons, v_labels := park_labels f conf reasons, v_label := levelLabel conf,
         v_judgeRecord := f_judgeRecord f\<rparr>)"

definition settle_level :: "judge_env \<Rightarrow> facts \<Rightarrow> string list \<Rightarrow> gate_verdict" where
  "settle_level e f extensionReasons =
     (let codes = level_codes e f extensionReasons @ mergeCodes f; conf = level_of e f extensionReasons in
      if waived f = [] \<and> gf_judgeAreas f = None \<and> \<not> gf_judgeFailed f
      then judged_verdict e f conf Judge_required ''judge-missing''
      else if unwaived f codes \<noteq> [] then park_on e f conf codes
      else judged_verdict e f conf Pass (if waived f \<noteq> [] then ''approved'' else ''verified''))"

definition judged_results :: "facts \<Rightarrow> jsval" where
  "judged_results f =
     (case f_extensionResults f of
        JArr rs \<Rightarrow> JArr (filter (\<lambda>r. prop_of r ''extension'' \<notin> JStr ` set (f_extensionsNotApplicable f)) rs)
      | v \<Rightarrow> v)"

definition first_conf :: "judge_env \<Rightarrow> facts \<Rightarrow> confidence_result" where
  "first_conf e f =
     levelConfidence (je_detect e) (je_collate e) (f\<lparr>gf_blockers := gate_blockers (fst (split_blockers e f))\<rparr>) []"

definition judge_results :: "judge_env \<Rightarrow> facts \<Rightarrow> jsval list \<Rightarrow> gate_verdict" where
  "judge_results e f exts =
     (let agg = aggregateExtensions (judged_results f) exts;
          noted = (\<lambda>v. v\<lparr>v_outcomes := Some (ag_outcomes agg, False), v_findingNotes := v_findingNotes v @ ag_findingNotes agg\<rparr>) in
      if ag_failed agg \<noteq> [] \<and> ''extension-failed'' \<notin> set (waived f)
      then (noted (park_on e f (level_of e f (ag_humanReasons agg))
              (''extension-failed'' # level_codes e f (ag_humanReasons agg))))
           \<lparr>v_notes := [(''extension-failed'', ''verify extension(s) malfunctioned: '' @ join '', '' (ag_failed agg))]\<rparr>
      else if ag_findings agg \<noteq> []
      then (noted (judged_verdict e f (first_conf e f) Defect ''findings''))
           \<lparr>v_findings := ag_findings agg,
            v_notes := (if f_cleanReview f
              then [(''verify-failed-after-clean-review'', ''verify found '' @ show_nat (length (ag_findings agg)) @
                     '' finding(s) on a head boss-review called clean'')] else [])\<rparr>
      else if truthy (ag_waitReason agg)
      then (noted (judged_verdict e f (first_conf e f) Wait (js_string (ag_waitReason agg))))
           \<lparr>v_notes := wait_notes (js_string (ag_waitReason agg))\<rparr>
      else
        (let settled = noted (settle_level e f (ag_humanReasons agg)) in
         if v_verdict settled = Human then settled\<lparr>v_extensionRecord := extensionRecord agg\<rparr> else settled))"

definition judge_extensions :: "judge_env \<Rightarrow> facts \<Rightarrow> gate_verdict" where
  "judge_extensions e f =
     (case f_extensions f of
        Some (x # xs) \<Rightarrow>
          if f_extensionResults f = JUndef
          then (case (if waived f \<noteq> [] then reuseExtensionRecord (f_extensionRecord f) (x # xs) (f_extensionsNotApplicable f)
                      else None) of
                  None \<Rightarrow> judged_verdict e f (first_conf e f) Extensions_required ''extensions-installed''
                | Some (outcomes, humanReasons) \<Rightarrow>
                    (settle_level e f humanReasons)\<lparr>v_outcomes := Some (outcomes, True)\<rparr>)
          else judge_results e f (x # xs)
      | _ \<Rightarrow> settle_level e f [])"

text \<open>A fork's tier consults no extension and leaves its merge to a person.\<close>

definition effective :: "facts \<Rightarrow> facts" where
  "effective f =
     (if (case f_tier f of Some t \<Rightarrow> ti_class t = ''fork'' | None \<Rightarrow> False) then f\<lparr>f_extensions := Some []\<rparr> else f)"

definition decideVerdict :: "judge_env \<Rightarrow> facts \<Rightarrow> gate_verdict" where
  "decideVerdict e facts =
     (let f = effective facts; blockers = fst (split_blockers e f) in
      case first_wait f of
        Some reason \<Rightarrow> wait f reason
      | None \<Rightarrow>
          if blockers \<noteq> []
          then (judged_verdict e f (first_conf e f) Blocked_verdict ''blockers'')\<lparr>v_blockers := blockers\<rparr>
          else if f_receipt f \<noteq> ''success'' \<and> verifyReviews f \<and> ''no-receipt'' \<notin> set (waived f)
          then judged_verdict e f (first_conf e f) Review_required ''receipt-absent''
          else if unwaived f (stateCodes f) \<noteq> []
          then park_on e f (level_of e f []) (stateCodes f @ level_codes e f [] @ mergeCodes f)
          else if cr_level (first_conf e f) = Cannot_assess \<and> unwaived f [''cannot-assess''] \<noteq> []
          then park_on e f (level_of e f []) (level_codes e f [])
          else judge_extensions e f)"

definition extensionsConsulted :: "judge_env \<Rightarrow> facts \<Rightarrow> bool" where
  "extensionsConsulted e facts \<longleftrightarrow>
     v_verdict (decideVerdict e (facts\<lparr>f_extensionResults := JUndef, f_extensionRecord := None\<rparr>)) = Extensions_required"

section \<open>Does a park still stand?\<close>

definition NON_POLICY_CODES :: "string list" where
  "NON_POLICY_CODES = [''repair-exhausted'', ''no-session'', ''worktree-diverged'', ''worktree-unsynced'']"

definition parkStillRaised ::
  "string list \<Rightarrow> string list \<Rightarrow> bool \<Rightarrow> string list \<Rightarrow> record_entry list option \<Rightarrow> bool" where
  "parkStillRaised codes fresh extensionsRan applicable rec =
     (let judged = (if ''extension-failed'' \<in> set codes then None else rec);
          byExtension = (\<lambda>code. extensionsRan \<and> code \<noteq> ''cannot-assess'' \<and>
            (case judged of Some es \<Rightarrow> list_ex (\<lambda>e. snd e = code \<and> fst e \<in> set applicable) es
             | None \<Rightarrow> applicable \<noteq> [])) in
      list_all (\<lambda>code. code \<in> set NON_POLICY_CODES \<or> code \<in> set fresh \<or> byExtension code) codes)"

section \<open>The stages of a decision\<close>

lemma set_extensions [simp]:
  "has_conflict (f\<lparr>f_extensions := x\<rparr>) = has_conflict f"
  "partial_build (f\<lparr>f_extensions := x\<rparr>) = partial_build f"
  "verifyReviews (f\<lparr>f_extensions := x\<rparr>) = verifyReviews f"
  "mergeCodes (f\<lparr>f_extensions := x\<rparr>) = mergeCodes f"
  "ci_field (f\<lparr>f_extensions := x\<rparr>) = ci_field f"
  by (simp_all add: has_conflict_def partial_build_def verifyReviews_def mergeCodes_def ci_field_def fun_eq_iff split: option.split)

lemma set_extensions_more [simp]:
  "stateCodes (f\<lparr>f_extensions := x\<rparr>) = stateCodes f"
  "waived (f\<lparr>f_extensions := x\<rparr>) = waived f"
  "wait_reasons (f\<lparr>f_extensions := x\<rparr>) = wait_reasons f"
  "split_blockers e (f\<lparr>f_extensions := x\<rparr>) = split_blockers e f"
  by (simp_all add: stateCodes_def waived_def wait_reasons_def split_blockers_def)

lemma effective_cases: "effective f = f \<or> effective f = f\<lparr>f_extensions := Some []\<rparr>"
  by (simp add: effective_def)

lemma effective_fields [simp]:
  "first_wait (effective f) = first_wait f" "split_blockers e (effective f) = split_blockers e f"
  "verifyReviews (effective f) = verifyReviews f" "waived (effective f) = waived f"
  "unwaived (effective f) = unwaived f"
  "stateCodes (effective f) = stateCodes f" "mergeCodes (effective f) = mergeCodes f"
  "f_receipt (effective f) = f_receipt f"
  "gf_judgeAreas (effective f) = gf_judgeAreas f" "gf_judgeFailed (effective f) = gf_judgeFailed f"
  using effective_cases[of f] by (auto simp: first_wait_def unwaived_def fun_eq_iff)

lemma base_verdict_name [simp]: "v_verdict (base_verdict f v r) = v" "v_reasons (base_verdict f v r) = []"
  "v_reason (base_verdict f v r) = r"
  by (simp_all add: base_verdict_def)

lemma wait_name [simp]: "v_verdict (wait f r) = Wait" "v_reason (wait f r) = r"
  by (simp_all add: wait_def)

lemma judged_verdict_name [simp]: "v_verdict (judged_verdict e f c v r) = v" "v_reasons (judged_verdict e f c v r) = []"
  by (simp_all add: judged_verdict_def)

lemma park_on_name [simp]: "v_verdict (park_on e f c codes) = Human" "v_reasons (park_on e f c codes) = unwaived f codes"
  "v_reason (park_on e f c codes) = join '','' (unwaived f codes)"
  by (simp_all add: park_on_def Let_def judged_verdict_def base_verdict_def)

text \<open>\<open>settle_level\<close> passes or parks exactly by its codes.\<close>

definition judge_answered :: "facts \<Rightarrow> bool" where
  "judge_answered f \<longleftrightarrow> waived f \<noteq> [] \<or> gf_judgeAreas f \<noteq> None \<or> gf_judgeFailed f"

definition settled_codes :: "judge_env \<Rightarrow> facts \<Rightarrow> string list \<Rightarrow> string list" where
  "settled_codes e f rs = unwaived f (level_codes e f rs @ mergeCodes f)"

lemma settle_level_verdict:
  "v_verdict (settle_level e f rs) =
     (if \<not> judge_answered f then Judge_required else if settled_codes e f rs \<noteq> [] then Human else Pass)"
  by (simp add: settle_level_def Let_def judge_answered_def settled_codes_def)

lemma settle_level_park:
  "v_verdict (settle_level e f rs) = Human \<Longrightarrow>
     v_reasons (settle_level e f rs) = settled_codes e f rs \<and> v_reason (settle_level e f rs) = join '','' (settled_codes e f rs)"
  by (simp add: settle_level_def Let_def judge_answered_def settled_codes_def split: if_splits)

text \<open>The extension results say what the level is judged with.\<close>

definition run_of :: "facts \<Rightarrow> jsval list \<Rightarrow> aggregate" where
  "run_of f exts = aggregateExtensions (judged_results f) exts"

definition clean_run :: "facts \<Rightarrow> aggregate \<Rightarrow> bool" where
  "clean_run f agg \<longleftrightarrow>
     (ag_failed agg = [] \<or> ''extension-failed'' \<in> set (waived f)) \<and> ag_findings agg = [] \<and> \<not> truthy (ag_waitReason agg)"

lemma judge_results_verdict:
  "v_verdict (judge_results e f exts) =
     (if ag_failed (run_of f exts) \<noteq> [] \<and> ''extension-failed'' \<notin> set (waived f) then Human
      else if ag_findings (run_of f exts) \<noteq> [] then Defect
      else if truthy (ag_waitReason (run_of f exts)) then Wait
      else v_verdict (settle_level e f (ag_humanReasons (run_of f exts))))"
  by (simp add: judge_results_def Let_def run_of_def)

text \<open>What the applicable extensions contributed when the decision came to their stage and settled.\<close>

inductive judged_extensions :: "judge_env \<Rightarrow> facts \<Rightarrow> string list \<Rightarrow> bool" for e f where
  none: "f_extensions f \<in> {None, Some []} \<Longrightarrow> judged_extensions e f []"
| reused: "f_extensions f = Some (x # xs) \<Longrightarrow> f_extensionResults f = JUndef \<Longrightarrow> waived f \<noteq> [] \<Longrightarrow>
     reuseExtensionRecord (f_extensionRecord f) (x # xs) (f_extensionsNotApplicable f) = Some (outs, rs) \<Longrightarrow>
     judged_extensions e f rs"
| ran: "f_extensions f = Some (x # xs) \<Longrightarrow> f_extensionResults f \<noteq> JUndef \<Longrightarrow> clean_run f (run_of f (x # xs)) \<Longrightarrow>
     judged_extensions e f (ag_humanReasons (run_of f (x # xs)))"

lemma judge_extensions_pass:
  assumes "v_verdict (judge_extensions e f) = Pass"
  shows "\<exists>rs. judged_extensions e f rs \<and> v_verdict (settle_level e f rs) = Pass"
proof (cases "f_extensions f")
  case None
  then show ?thesis using assms judged_extensions.none[of f e] by (auto simp: judge_extensions_def)
next
  case (Some exts)
  show ?thesis
  proof (cases exts)
    case Nil
    then show ?thesis using assms Some judged_extensions.none[of f e] by (auto simp: judge_extensions_def)
  next
    case (Cons x xs)
    note ext = Some[unfolded Cons]
    show ?thesis
    proof (cases "f_extensionResults f = JUndef")
      case True
      then obtain outs rs where w: "waived f \<noteq> []"
          and r: "reuseExtensionRecord (f_extensionRecord f) (x # xs) (f_extensionsNotApplicable f) = Some (outs, rs)"
          and p: "v_verdict (settle_level e f rs) = Pass"
        using assms ext by (auto simp: judge_extensions_def split: option.splits if_splits)
      show ?thesis using judged_extensions.reused[OF ext True w r] p by blast
    next
      case False
      then have "v_verdict (judge_results e f (x # xs)) = Pass" using assms ext by (simp add: judge_extensions_def)
      then have "clean_run f (run_of f (x # xs))" "v_verdict (settle_level e f (ag_humanReasons (run_of f (x # xs)))) = Pass"
        by (auto simp: judge_results_verdict clean_run_def split: if_splits)
      then show ?thesis using judged_extensions.ran[OF ext False] by blast
    qed
  qed
qed

lemma decide_stages:
  "decideVerdict e facts =
     (case first_wait facts of
        Some reason \<Rightarrow> wait (effective facts) reason
      | None \<Rightarrow>
          if fst (split_blockers e facts) \<noteq> []
          then (judged_verdict e (effective facts) (first_conf e (effective facts)) Blocked_verdict ''blockers'')
            \<lparr>v_blockers := fst (split_blockers e facts)\<rparr>
          else if f_receipt facts \<noteq> ''success'' \<and> verifyReviews facts \<and> ''no-receipt'' \<notin> set (waived facts)
          then judged_verdict e (effective facts) (first_conf e (effective facts)) Review_required ''receipt-absent''
          else if unwaived facts (stateCodes facts) \<noteq> []
          then park_on e (effective facts) (level_of e (effective facts) [])
            (stateCodes facts @ level_codes e (effective facts) [] @ mergeCodes facts)
          else if cr_level (first_conf e (effective facts)) = Cannot_assess \<and> unwaived facts [''cannot-assess''] \<noteq> []
          then park_on e (effective facts) (level_of e (effective facts) []) (level_codes e (effective facts) [])
          else judge_extensions e (effective facts))"
  unfolding decideVerdict_def Let_def effective_fields ..

lemma first_wait_None: "first_wait f = None \<longleftrightarrow> (\<forall>w\<in>set (wait_reasons f). \<not> fst w)"
  by (auto simp: first_wait_def find_None_iff)

lemma no_wait:
  assumes "first_wait f = None"
  shows "\<not> f_prUnreadable f" "f_prState f = ''OPEN''" "f_isDraft f = Some False"
    "fst (splitEligibility (f_eligibilityReasons f)) = []"
    "\<not> has_conflict f \<Longrightarrow> ci_field f ci_settled False \<and> (ci_field f ci_green False \<or> ci_field f ci_state [] = ''failing'')"
    "\<not> f_baseTipUnreadable f" "f_requireGreenBase f \<Longrightarrow> f_baseState f \<notin> {''red'', ''unknown''}"
    "f_receipt f \<notin> {''unknown'', ''pending''}"
    "\<not> f_configUnreadable f" "\<not> f_trustedTreeUnavailable f" "\<not> f_approvalUnreadable f"
proof -
  note w = assms[unfolded first_wait_None]
  from w show "\<not> f_prUnreadable f" "f_prState f = ''OPEN''" "f_isDraft f = Some False"
    "\<not> f_baseTipUnreadable f" "f_requireGreenBase f \<Longrightarrow> f_baseState f \<notin> {''red'', ''unknown''}"
    "f_receipt f \<notin> {''unknown'', ''pending''}"
    "\<not> f_configUnreadable f" "\<not> f_trustedTreeUnavailable f" "\<not> f_approvalUnreadable f"
    unfolding wait_reasons_def by simp_all
  show "fst (splitEligibility (f_eligibilityReasons f)) = []"
  proof (rule ccontr)
    assume "fst (splitEligibility (f_eligibilityReasons f)) \<noteq> []"
    then obtain r where "r \<in> set (fst (splitEligibility (f_eligibilityReasons f)))" by (meson last_in_set)
    then have "(True, r) \<in> set (wait_reasons f)" unfolding wait_reasons_def by auto
    with w show False by fastforce
  qed
  show "ci_field f ci_settled False \<and> (ci_field f ci_green False \<or> ci_field f ci_state [] = ''failing'')"
    if "\<not> has_conflict f" using w that unfolding wait_reasons_def by simp
qed

lemma first_ids_complete:
  "b \<in> set bs \<Longrightarrow> prop_of b ''id'' \<notin> set seen \<Longrightarrow> \<exists>b'\<in>set (first_ids seen bs). prop_of b' ''id'' = prop_of b ''id''"
proof (induction seen bs rule: first_ids.induct)
  case (2 seen c bs)
  show ?case
  proof (cases "prop_of c ''id'' = prop_of b ''id''")
    case True then show ?thesis using 2(4) by simp
  next
    case False
    then have "b \<in> set bs" using 2(3) by auto
    then show ?thesis using 2 False by (cases "prop_of c ''id'' \<in> set seen") auto
  qed
qed simp

lemma kind_of_collected [simp]:
  "prop_of (finding_blocker h r) ''kind'' = JStr ''review-finding''" "prop_of (check_blocker c) ''kind'' = JStr ''check''"
  "prop_of conflict_blocker ''kind'' = JStr ''conflict''"
  "prop_of (finding_blocker h r) ''id'' = JStr (reviewId h r)"
  "prop_of (check_blocker c) ''id'' = JStr (''check:'' @ check_name c)" "prop_of conflict_blocker ''id'' = JStr ''conflict''"
  by (simp_all add: finding_blocker_def check_blocker_def conflict_blocker_def blocker_obj_def Let_def)

lemma accepted_blocker:
  assumes "fst (split_blockers e f) = []"
    and b: "b \<in> set (collected (je_hash e) (f_reviewFindings f)
      (if ci_field f ci_settled False \<and> ci_field f ci_state [] = ''failing'' then f_failedChecks f else [])
      (has_conflict f) (partial_build f))" (is "b \<in> set ?all")
  shows "\<exists>r. prop_of b ''id'' = JStr (reviewId (je_hash e) r) \<and> reviewId (je_hash e) r \<in> fst ` set (f_accepted f)"
proof -
  obtain b' where b': "b' \<in> set (first_ids [] (sort_by sort_order ?all))" "prop_of b' ''id'' = prop_of b ''id''"
    using first_ids_complete[of b "sort_by sort_order ?all" "[]"] b by auto
  then have in_all: "b' \<in> set ?all" using first_ids_member by fastforce
  have "acceptance_of (f_accepted f) b' \<noteq> None"
    using assms(1) b'(1) by (auto simp: split_blockers_def splitAccepted_def buildBlockers_def filter_empty_conv)
  then obtain i t where k: "prop_of b' ''kind'' = JStr ''review-finding''" "prop_of b' ''id'' = JStr i"
      "map_of (f_accepted f) i = Some t"
    by (auto simp: acceptance_of_def split: bool.splits jsval.splits)
  from in_all k(1) obtain r where "b' = finding_blocker (je_hash e) r"
    unfolding collected_def by (auto split: if_splits)
  then have i: "i = reviewId (je_hash e) r" using k(2) by simp
  have "i \<in> fst ` set (f_accepted f)" using k(3) by (auto dest!: map_of_SomeD intro: rev_image_eqI)
  then show ?thesis using k(2) b'(2) i by auto
qed

lemma reviewId_other: "''conflict'' \<noteq> reviewId h r" "''check:'' @ c \<noteq> reviewId h r"
  by (simp_all add: reviewId_def)

lemma no_blockers:
  assumes "fst (split_blockers e f) = []"
  shows "\<not> has_conflict f"
    "ci_field f ci_settled False \<Longrightarrow> ci_field f ci_state [] = ''failing'' \<Longrightarrow> \<forall>c\<in>set (f_failedChecks f). \<not> blocking_check c"
    "\<not> partial_build f \<Longrightarrow> \<forall>r\<in>set (f_reviewFindings f). blocking_finding r \<longrightarrow>
       reviewId (je_hash e) r \<in> fst ` set (f_accepted f)"
proof -
  note acc = accepted_blocker[OF assms]
  show "\<not> has_conflict f"
  proof
    assume "has_conflict f"
    then obtain r where "''conflict'' = reviewId (je_hash e) r" using acc[of conflict_blocker] by (auto simp: collected_def)
    with reviewId_other(1) show False by blast
  qed
  show "\<forall>c\<in>set (f_failedChecks f). \<not> blocking_check c"
    if "ci_field f ci_settled False" "ci_field f ci_state [] = ''failing''"
  proof (intro ballI notI)
    fix c assume "c \<in> set (f_failedChecks f)" "blocking_check c"
    then have "check_blocker c \<in> set (collected (je_hash e) (f_reviewFindings f)
        (if ci_field f ci_settled False \<and> ci_field f ci_state [] = ''failing'' then f_failedChecks f else [])
        (has_conflict f) (partial_build f))"
      using that by (simp add: collected_def)
    from acc[OF this] obtain r where "''check:'' @ check_name c = reviewId (je_hash e) r" by auto
    with reviewId_other(2) show False by blast
  qed
  show "\<forall>r\<in>set (f_reviewFindings f). blocking_finding r \<longrightarrow> reviewId (je_hash e) r \<in> fst ` set (f_accepted f)"
    if "\<not> partial_build f"
  proof (intro ballI impI)
    fix r assume "r \<in> set (f_reviewFindings f)" "blocking_finding r"
    then have "finding_blocker (je_hash e) r \<in> set (collected (je_hash e) (f_reviewFindings f)
        (if ci_field f ci_settled False \<and> ci_field f ci_state [] = ''failing'' then f_failedChecks f else [])
        (has_conflict f) (partial_build f))"
      using that by (simp add: collected_def)
    from acc[OF this, unfolded kind_of_collected jsval.inject]
    show "reviewId (je_hash e) r \<in> fst ` set (f_accepted f)" by metis
  qed
qed

text \<open>C2:
  What a pass proves. The pull request is open, out of draft and without conflict; its CI is settled,
  and green unless the verdict failing comes without any named failing check; no evidence was missing
  and nothing else says to wait; the base was green if the policy asks for it; every blocking review
  finding was accepted by a person on this head; the build's receipt is a success and the build is
  complete, or an approval waives exactly that; the judge ran, or the run carries an approval; and
  every code of the level, of the extensions and of the merge policy is waived, where the applicable
  extensions ran clean (or there is none, or the record of a clean run stands in under an approval).\<close>

theorem decideVerdict_pass:
  assumes "v_verdict (decideVerdict e f) = Pass"
  shows "f_prState f = ''OPEN'' \<and> f_isDraft f = Some False \<and> \<not> has_conflict f \<and>
     fst (splitEligibility (f_eligibilityReasons f)) = [] \<and>
     ci_field f ci_settled False \<and>
     (ci_field f ci_green False \<or> ci_field f ci_state [] = ''failing'' \<and> (\<forall>c\<in>set (f_failedChecks f). \<not> blocking_check c)) \<and>
     (f_requireGreenBase f \<longrightarrow> f_baseState f \<notin> {''red'', ''unknown''}) \<and>
     \<not> f_prUnreadable f \<and> \<not> f_baseTipUnreadable f \<and> \<not> f_configUnreadable f \<and> \<not> f_trustedTreeUnavailable f \<and>
     \<not> f_approvalUnreadable f \<and>
     (\<not> partial_build f \<longrightarrow> (\<forall>r\<in>set (f_reviewFindings f). blocking_finding r \<longrightarrow>
        reviewId (je_hash e) r \<in> fst ` set (f_accepted f))) \<and>
     unwaived f (stateCodes f) = [] \<and> judge_answered f \<and>
     (\<exists>reasons. judged_extensions e (effective f) reasons \<and> settled_codes e (effective f) reasons = [])"
proof -
  have w: "first_wait f = None" using assms by (auto simp: decide_stages split: option.splits)
  have b: "fst (split_blockers e f) = []" using assms w by (auto simp: decide_stages split: if_splits)
  have st: "unwaived f (stateCodes f) = []" and je: "v_verdict (judge_extensions e (effective f)) = Pass"
    using assms w b by (auto simp: decide_stages split: if_splits)
  obtain rs where rs: "judged_extensions e (effective f) rs" "v_verdict (settle_level e (effective f) rs) = Pass"
    using judge_extensions_pass[OF je] by blast
  then have codes: "judge_answered f" "settled_codes e (effective f) rs = []"
    by (auto simp: settle_level_verdict judge_answered_def split: if_splits)
  note nw = no_wait[OF w] and nb = no_blockers[OF b]
  have ci: "ci_field f ci_settled False"
    "ci_field f ci_green False \<or> ci_field f ci_state [] = ''failing'' \<and> (\<forall>c\<in>set (f_failedChecks f). \<not> blocking_check c)"
    using nw(5)[OF nb(1)] nb(2) by blast+
  show ?thesis using nw(1-4,6-11) nb(1,3) ci st codes rs(1) by blast
qed

section \<open>What parks\<close>

lemma unwaived_facts:
  "set (unwaived f codes) \<subseteq> set HUMAN_REASONS - set (waived f)"
  "unwaived f codes = filter (\<lambda>c. c \<in> set (unwaived f codes)) HUMAN_REASONS"
  by (auto simp: unwaived_def intro: filter_cong)

lemma unwaived_mono: "set codes \<subseteq> set codes' \<Longrightarrow> unwaived f codes \<noteq> [] \<Longrightarrow> unwaived f codes' \<noteq> []"
  by (auto simp: unwaived_def filter_empty_conv)

lemma unwaived_mem: "code \<in> set codes \<Longrightarrow> code \<in> set HUMAN_REASONS \<Longrightarrow> code \<notin> set (waived f) \<Longrightarrow> unwaived f codes \<noteq> []"
  by (auto simp: unwaived_def filter_empty_conv)

lemma fields_of_park [simp]:
  "v_verdict (v\<lparr>v_outcomes := a\<rparr>) = v_verdict v" "v_reasons (v\<lparr>v_outcomes := a\<rparr>) = v_reasons v"
  "v_reason (v\<lparr>v_outcomes := a\<rparr>) = v_reason v" "v_label (v\<lparr>v_outcomes := a\<rparr>) = v_label v"
  by simp_all

lemma unwaived_append: "unwaived f cs = [] \<Longrightarrow> unwaived f (cs @ ds) = unwaived f ds"
  by (auto simp: unwaived_def filter_empty_conv intro: filter_cong)

text \<open>
  The codes a park asks, in report order and without the ones an approval waives. A park asks for
  everything raised at once: of the state, of the level with what the extensions said, and of the merge
  policy (the extensions are not heard before a park on the state). Two parks come before the merge policy
  is read and leave its code out: evidence for the level is missing, or an extension malfunctioned.\<close>

inductive asks :: "judge_env \<Rightarrow> facts \<Rightarrow> string list \<Rightarrow> bool" for e f where
  state: "unwaived f (stateCodes f) \<noteq> [] \<Longrightarrow> asks e f (unwaived f (stateCodes f @ level_codes e f [] @ mergeCodes f))"
| missing: "unwaived f (stateCodes f) = [] \<Longrightarrow> cr_level (first_conf e f) = Cannot_assess \<Longrightarrow>
     ''cannot-assess'' \<notin> set (waived f) \<Longrightarrow> asks e f (unwaived f (level_codes e f []))"
| malfunction: "unwaived f (stateCodes f) = [] \<Longrightarrow> f_extensions f = Some (x # xs) \<Longrightarrow> ag_failed (run_of f (x # xs)) \<noteq> [] \<Longrightarrow>
     ''extension-failed'' \<notin> set (waived f) \<Longrightarrow>
     asks e f (unwaived f (''extension-failed'' # level_codes e f (ag_humanReasons (run_of f (x # xs)))))"
| settled: "unwaived f (stateCodes f) = [] \<Longrightarrow> judged_extensions e f rs \<Longrightarrow>
     asks e f (unwaived f (stateCodes f @ level_codes e f rs @ mergeCodes f))"

definition proper_park :: "judge_env \<Rightarrow> facts \<Rightarrow> gate_verdict \<Rightarrow> bool" where
  "proper_park e f v \<longleftrightarrow> v_reasons v \<noteq> [] \<and> v_reason v = join '','' (v_reasons v) \<and> asks e f (v_reasons v)"

lemma proper_park_on:
  "unwaived f codes \<noteq> [] \<Longrightarrow> asks e f (unwaived f codes) \<Longrightarrow> proper_park e f (park_on e f c codes)"
  by (simp add: proper_park_def)

lemma settle_park:
  assumes "v_verdict (settle_level e f rs) = Human" "unwaived f (stateCodes f) = []" "judged_extensions e f rs"
  shows "proper_park e f (settle_level e f rs)"
  using assms asks.settled[OF assms(2,3)]
  by (auto simp: proper_park_def settle_level_park settled_codes_def settle_level_verdict unwaived_append split: if_splits)

lemma judge_results_park:
  assumes "v_verdict (judge_results e f (x # xs)) = Human" "unwaived f (stateCodes f) = []"
    and ext: "f_extensions f = Some (x # xs)" "f_extensionResults f \<noteq> JUndef"
  shows "proper_park e f (judge_results e f (x # xs))"
proof (cases "ag_failed (run_of f (x # xs)) \<noteq> [] \<and> ''extension-failed'' \<notin> set (waived f)")
  case True
  then have "unwaived f (''extension-failed'' # level_codes e f (ag_humanReasons (run_of f (x # xs)))) \<noteq> []"
    by (intro unwaived_mem[of "''extension-failed''"]) (simp_all add: HUMAN_REASONS_def)
  with True asks.malfunction[OF assms(2) ext(1), of e] show ?thesis
    by (auto simp: judge_results_def Let_def run_of_def proper_park_def)
next
  case False
  then have s: "v_verdict (settle_level e f (ag_humanReasons (run_of f (x # xs)))) = Human"
      "ag_findings (run_of f (x # xs)) = []" "\<not> truthy (ag_waitReason (run_of f (x # xs)))"
    using assms by (auto simp: judge_results_verdict split: if_splits)
  have "proper_park e f (judge_results e f (x # xs)) \<longleftrightarrow>
      proper_park e f (settle_level e f (ag_humanReasons (run_of f (x # xs))))"
    unfolding judge_results_def Let_def run_of_def[symmetric] if_not_P[OF False]
    using s by (simp add: proper_park_def)
  moreover have "judged_extensions e f (ag_humanReasons (run_of f (x # xs)))"
    by (rule judged_extensions.ran[OF ext]) (use False s in \<open>auto simp: clean_run_def\<close>)
  ultimately show ?thesis using settle_park[OF s(1) assms(2)] by simp
qed

lemma judge_extensions_park:
  assumes "v_verdict (judge_extensions e f) = Human" and state: "unwaived f (stateCodes f) = []"
  shows "proper_park e f (judge_extensions e f)"
proof -
  consider "f_extensions f \<in> {None, Some []}" | x xs where "f_extensions f = Some (x # xs)"
    by (metis insert_iff list.exhaust option.exhaust)
  then show ?thesis
  proof cases
    case 1
    then have "judge_extensions e f = settle_level e f []" by (auto simp: judge_extensions_def)
    then show ?thesis using assms settle_park judged_extensions.none[OF 1] by metis
  next
    case (2 x xs)
    show ?thesis
    proof (cases "f_extensionResults f = JUndef")
      case True
      then obtain outs rs where r: "waived f \<noteq> []"
          "reuseExtensionRecord (f_extensionRecord f) (x # xs) (f_extensionsNotApplicable f) = Some (outs, rs)"
          and j: "judge_extensions e f = (settle_level e f rs)\<lparr>v_outcomes := Some (outs, True)\<rparr>"
        using assms 2 by (auto simp: judge_extensions_def split: option.splits if_splits)
      then have "proper_park e f (settle_level e f rs)"
        using assms settle_park judged_extensions.reused[OF 2 True r] by simp
      then show ?thesis unfolding j by (simp add: proper_park_def)
    next
      case False
      then have "judge_extensions e f = judge_results e f (x # xs)" using 2 by (simp add: judge_extensions_def)
      then show ?thesis using assms judge_results_park[OF _ state 2 False] by metis
    qed
  qed
qed

lemma gf_blockers_effective [simp]: "gf_blockers (effective f) = gf_blockers f"
  using effective_cases[of f] by auto

lemma first_level:
  assumes "gf_blockers f = []" "fst (split_blockers e f) = []"
  shows "cr_level (first_conf e f) = cr_level (level_of e f [])"
proof -
  have "f\<lparr>gf_blockers := []\<rparr> = f" using assms(1) by (cases f) simp
  then show ?thesis
    unfolding first_conf_def level_of_def assms(2) gate_blockers_def list.map Let_def by simp
qed

lemma park_shape:
  assumes "v_verdict (decideVerdict e f) = Human" "gf_blockers f = []"
  shows "first_wait f = None \<and> fst (split_blockers e f) = [] \<and> proper_park e (effective f) (decideVerdict e f)"
proof -
  have w: "first_wait f = None" using assms by (auto simp: decide_stages split: option.splits)
  have b: "fst (split_blockers e f) = []" using assms w by (auto simp: decide_stages split: if_splits)
  have r: "\<not> (f_receipt f \<noteq> ''success'' \<and> verifyReviews f \<and> ''no-receipt'' \<notin> set (waived f))"
    by (rule notI) (use assms w b in \<open>simp add: decide_stages\<close>)
  let ?g = "effective f"
  have d: "decideVerdict e f =
      (if unwaived f (stateCodes f) \<noteq> []
       then park_on e ?g (level_of e ?g []) (stateCodes f @ level_codes e ?g [] @ mergeCodes f)
       else if cr_level (first_conf e ?g) = Cannot_assess \<and> unwaived f [''cannot-assess''] \<noteq> []
       then park_on e ?g (level_of e ?g []) (level_codes e ?g [])
       else judge_extensions e ?g)"
    unfolding decide_stages w option.case if_not_P[OF r] using b by simp
  have "proper_park e ?g (decideVerdict e f)"
  proof (cases "unwaived f (stateCodes f) = []")
    case False
    then have "unwaived ?g (stateCodes f @ level_codes e ?g [] @ mergeCodes f) \<noteq> []"
      using unwaived_mono[of "stateCodes f" "stateCodes f @ level_codes e ?g [] @ mergeCodes f" f] by simp
    from proper_park_on[OF this] asks.state[of ?g e] False show ?thesis by (simp add: d)
  next
    case state: True
    show ?thesis
    proof (cases "cr_level (first_conf e ?g) = Cannot_assess \<and> unwaived f [''cannot-assess''] \<noteq> []")
      case True
      then have "cr_level (level_of e ?g []) = Cannot_assess" using first_level[of ?g e] assms(2) b by simp
      then have some: "unwaived ?g (level_codes e ?g []) \<noteq> []"
        using True by (auto simp: level_codes_def legacyCodes_def)
      have "''cannot-assess'' \<notin> set (waived f)" using True by (auto simp: unwaived_def filter_empty_conv)
      then have "asks e ?g (unwaived ?g (level_codes e ?g []))" using asks.missing[of ?g e] state True by simp
      from proper_park_on[OF some this] show ?thesis using state True by (simp add: d)
    next
      case False
      then have "decideVerdict e f = judge_extensions e ?g" unfolding d if_not_P[OF False] using state by simp
      then show ?thesis using judge_extensions_park[of e ?g] assms(1) state by simp
    qed
  qed
  with w b show ?thesis by blast
qed

lemma asks_unwaived: "asks e f cs \<Longrightarrow> \<exists>codes. cs = unwaived f codes"
  by (auto elim: asks.cases)

lemma park_codes:
  assumes "v_verdict (decideVerdict e f) = Human" "gf_blockers f = []"
  obtains codes where "v_reasons (decideVerdict e f) \<noteq> []" "v_reasons (decideVerdict e f) = unwaived f codes"
    "v_reason (decideVerdict e f) = join '','' (v_reasons (decideVerdict e f))"
proof -
  note park = park_shape[OF assms, unfolded proper_park_def]
  then obtain codes where "v_reasons (decideVerdict e f) = unwaived (effective f) codes"
    using asks_unwaived by blast
  then have "v_reasons (decideVerdict e f) = unwaived f codes" by simp
  from that[OF _ this] show thesis using park by blast
qed

text \<open>C19:
  A park pages a person only with complete evidence and asks for exactly what is left. Nothing says to
  wait, no blocker remains, and the reason the park is posted with names exactly its codes. These are
  exactly the codes \<open>asks\<close> derives: every code the state of the build, the level with the answers of
  the extensions, and the merge policy raise, less the ones the approval the run carries waives, in
  report order and at least one. The two exceptions are the parks of an unassessable level and of a
  malfunctioning extension, which name that and every code of the level, but not yet the merge policy's.\<close>

theorem decideVerdict_park:
  assumes "v_verdict (decideVerdict e f) = Human" "gf_blockers f = []"
  shows "first_wait f = None \<and> fst (split_blockers e f) = [] \<and>
     v_reasons (decideVerdict e f) \<noteq> [] \<and> v_reason (decideVerdict e f) = join '','' (v_reasons (decideVerdict e f)) \<and>
     set (v_reasons (decideVerdict e f)) \<subseteq> set HUMAN_REASONS - set (waived f) \<and>
     v_reasons (decideVerdict e f) = filter (\<lambda>c. c \<in> set (v_reasons (decideVerdict e f))) HUMAN_REASONS \<and>
     asks e (effective f) (v_reasons (decideVerdict e f))"
proof -
  obtain codes where codes: "v_reasons (decideVerdict e f) = unwaived f codes" using park_codes[OF assms] .
  show ?thesis using park_shape[OF assms, unfolded proper_park_def] unwaived_facts[of f codes]
    unfolding codes[symmetric] by blast
qed

section \<open>Park descriptions\<close>

lemma starts_with_self [simp]: "starts_with (needle @ s) needle"
  by (simp add: starts_with_def)

text \<open>A pattern without a separator never matches across it.\<close>

lemma starts_with_sep:
  assumes "c \<notin> set needle"
  shows "starts_with (a @ c # b) needle = starts_with a needle"
proof (cases "length needle \<le> length a")
  case True then show ?thesis by (simp add: starts_with_def)
next
  case False
  then have "take (length needle) (a @ c # b) = a @ c # take (length needle - Suc (length a)) b"
    by (simp add: take_Cons')
  moreover have "take (length needle) a = a" using False by simp
  ultimately show ?thesis using assms False unfolding starts_with_def
    by (metis in_set_conv_decomp length_append less_irrefl not_le order_refl)
qed

lemma drop_review:
  "starts_with (c # s) ''human-review:'' \<Longrightarrow> 12 \<le> length s"
  by (auto simp: starts_with_def dest: arg_cong[of _ _ length])

lemma compact_sep:
  assumes "d \<notin> set ''human-review:''"
  shows "compactParkCodeText (a @ d # b) = compactParkCodeText a @ d # compactParkCodeText b"
proof (induction a rule: compactParkCodeText.induct)
  case 1
  have "\<not> starts_with (d # b) ''human-review:''" using assms by (auto simp: starts_with_def)
  then show ?case by simp
next
  case (2 c s)
  have sep: "starts_with (c # s @ d # b) ''human-review:'' = starts_with (c # s) ''human-review:''"
    using starts_with_sep[OF assms, of "c # s" b] by simp
  show ?case
  proof (cases "starts_with (c # s) ''human-review:''")
    case True
    then have "12 \<le> length s" by (rule drop_review)
    then show ?thesis using True 2(1) sep by simp
  next
    case False then show ?thesis using 2(2) sep by simp
  qed
qed

lemma compact_join:
  "compactParkCodeText (join '','' codes) = join '','' (map compactParkCodeText codes)"
proof (induction codes)
  case (Cons c cs)
  then show ?case by (cases cs) (auto simp: compact_sep)
qed simp

text \<open>What a park code looks like in a description.\<close>

definition code_char :: "char \<Rightarrow> bool" where
  "code_char c \<longleftrightarrow> \<not> is_ws c \<and> c \<noteq> CHR '','' \<and> c \<noteq> CHR 0xC2"

lemma codes_plain:
  "list_all (\<lambda>c. c \<noteq> [] \<and> list_all code_char c \<and> expandParkCode c = c \<and>
     compactParkCodeText c \<noteq> [] \<and> list_all code_char (compactParkCodeText c) \<and>
     expandParkCode (compactParkCodeText c) = c) HUMAN_REASONS"
  by code_simp

lemma HUMAN_REASONS_distinct: "distinct HUMAN_REASONS"
  by code_simp

lemma needsHuman_compact: "compactParkCodeText vd_needsHuman = vd_needsHuman"
  by code_simp

lemma trim_id: "\<forall>c\<in>set s. \<not> is_ws c \<Longrightarrow> trim s = s"
proof -
  have keep: "\<forall>c\<in>set t. \<not> is_ws c \<Longrightarrow> dropWhile is_ws t = t" for t by (cases t) auto
  assume "\<forall>c\<in>set s. \<not> is_ws c"
  then show ?thesis using keep[of s] keep[of "rev s"] by (simp add: trim_def)
qed

lemma trim_space: "trim (CHR '' '' # s) = trim s"
  by (simp add: trim_def is_ws_def)

lemma find_sep_none: "CHR 0xC2 \<notin> set xs \<Longrightarrow> find_sep PARK_LABEL_SEPARATOR xs = None"
proof (induction xs)
  case (Cons x xs)
  then have "\<not> starts_with (x # xs) PARK_LABEL_SEPARATOR"
    by (cases xs) (auto simp: starts_with_def PARK_LABEL_SEPARATOR_def)
  with Cons show ?case by simp
qed (simp add: PARK_LABEL_SEPARATOR_def)

lemma find_sep_at:
  "CHR 0xC2 \<notin> set xs \<Longrightarrow> find_sep PARK_LABEL_SEPARATOR (xs @ PARK_LABEL_SEPARATOR @ ys) = Some (length xs)"
proof (induction xs)
  case Nil
  then show ?case by (simp add: PARK_LABEL_SEPARATOR_def starts_with_def)
next
  case (Cons x xs)
  then have "\<not> starts_with (x # xs @ PARK_LABEL_SEPARATOR @ ys) PARK_LABEL_SEPARATOR"
    by (cases xs) (auto simp: starts_with_def PARK_LABEL_SEPARATOR_def)
  with Cons show ?case by simp
qed

definition text_char :: "char \<Rightarrow> bool" where
  "text_char c \<longleftrightarrow> \<not> is_ws c \<and> c \<noteq> CHR 0xC2"

lemma text_chars: "text_char (CHR '','')" "code_char c \<Longrightarrow> text_char c"
  by (simp_all add: code_char_def text_char_def is_ws_def)

lemma join_text_chars: "\<forall>c\<in>set cs. list_all code_char c \<Longrightarrow> \<forall>x\<in>set (join '','' cs). text_char x"
proof (induction cs)
  case (Cons c cs)
  then have "\<forall>x\<in>set c. text_char x" using text_chars(2) by (auto simp: list_all_iff)
  then show ?case using Cons text_chars(1) by (cases cs) auto
qed simp

lemma parse_described:
  assumes "\<forall>x\<in>set s. text_char x" "tail = [] \<or> (\<exists>caption. tail = PARK_LABEL_SEPARATOR @ caption)"
  shows "map_option pk_codes (parseParkDescription (vd_needsHuman @ '' '' @ s @ tail)) = Some (parseHumanReasonList s)"
proof -
  have ws: "CHR 0xC2 \<notin> set ('' '' @ s)" "trim ('' '' @ s) = s"
    using assms(1) by (auto simp: text_char_def trim_space intro: trim_id)
  have drop: "drop (length vd_needsHuman) (vd_needsHuman @ '' '' @ s @ tail) = ('' '' @ s) @ tail" by simp
  from assms(2) show ?thesis
  proof
    assume "tail = []"
    then show ?thesis using ws find_sep_none[OF ws(1)]
      unfolding parseParkDescription_def drop by (simp add: Let_def)
  next
    assume "\<exists>caption. tail = PARK_LABEL_SEPARATOR @ caption"
    then obtain caption where tail: "tail = PARK_LABEL_SEPARATOR @ caption" by blast
    show ?thesis using ws(2) find_sep_at[OF ws(1), of caption]
      unfolding parseParkDescription_def drop tail by (simp add: Let_def)
  qed
qed

lemma split_join:
  assumes "cs \<noteq> []" "\<forall>c\<in>set cs. CHR '','' \<notin> set c"
  shows "split_on (CHR '','') (join '','' cs) = cs"
  using split_on_join assms by auto

lemma parse_codes:
  assumes "codes \<noteq> []" "set codes \<subseteq> set HUMAN_REASONS" "\<forall>c\<in>set codes. f c \<noteq> [] \<and> list_all code_char (f c) \<and> expandParkCode (f c) = c"
  shows "parseHumanReasonList (join '','' (map f codes)) = Some (filter (\<lambda>c. c \<in> set codes) HUMAN_REASONS)"
proof -
  have plain: "\<forall>c\<in>set (map f codes). CHR '','' \<notin> set c" using assms(3) by (auto simp: code_char_def list_all_iff)
  have "expandParkCode (trim (f c)) = c" if "c \<in> set codes" for c
    using assms(3) that trim_id[of "f c"] by (simp add: code_char_def list_all_iff)
  then have m: "map (\<lambda>p. expandParkCode (trim p)) (map f codes) = codes" by (simp add: map_idI)
  have "map f codes \<noteq> []" using assms(1) by simp
  note sj = split_join[OF this plain]
  have "list_all (\<lambda>c. c \<in> set HUMAN_REASONS) codes" using assms(2) by (auto simp: list_all_iff)
  then show ?thesis
    unfolding parseHumanReasonList_def sj known_codes_def m Let_def using assms(1) by simp
qed

lemma description_shape:
  "\<exists>tail. needsHumanDescription code label =
     (if DESCRIPTION_LIMIT < code_points (vd_needsHuman @ '' '' @ code)
      then compactParkCodeText (vd_needsHuman @ '' '' @ code) else vd_needsHuman @ '' '' @ code) @ tail \<and>
     (tail = [] \<or> (\<exists>caption. tail = PARK_LABEL_SEPARATOR @ caption))"
  unfolding needsHumanDescription_def Let_def by (auto simp: append_eq_append_conv2)

lemma described_codes:
  assumes "reasons \<noteq> []" "reasons = filter (\<lambda>c. c \<in> set reasons) HUMAN_REASONS"
  shows "map_option pk_codes (parseParkDescription (needsHumanDescription (join '','' reasons) label)) = Some (Some reasons)"
proof -
  have sub: "set reasons \<subseteq> set HUMAN_REASONS" using assms(2) by (metis filter_is_subset)
  have ok: "\<forall>c\<in>set reasons. c \<noteq> [] \<and> list_all code_char c \<and> expandParkCode c = c \<and>
      compactParkCodeText c \<noteq> [] \<and> list_all code_char (compactParkCodeText c) \<and> expandParkCode (compactParkCodeText c) = c"
    using codes_plain sub unfolding list_all_iff by blast
  obtain tail where d: "needsHumanDescription (join '','' reasons) label =
      (if DESCRIPTION_LIMIT < code_points (vd_needsHuman @ '' '' @ join '','' reasons)
       then compactParkCodeText (vd_needsHuman @ '' '' @ join '','' reasons) else vd_needsHuman @ '' '' @ join '','' reasons) @ tail"
    and tail: "tail = [] \<or> (\<exists>caption. tail = PARK_LABEL_SEPARATOR @ caption)"
    using description_shape by blast
  have compact: "compactParkCodeText (vd_needsHuman @ '' '' @ join '','' reasons) =
      vd_needsHuman @ '' '' @ join '','' (map compactParkCodeText reasons)"
    using compact_sep[of "CHR '' ''" vd_needsHuman "join '','' reasons"] by (simp add: needsHuman_compact compact_join)
  have "\<exists>f. needsHumanDescription (join '','' reasons) label = vd_needsHuman @ '' '' @ join '','' (map f reasons) @ tail \<and>
      (\<forall>c\<in>set reasons. f c \<noteq> [] \<and> list_all code_char (f c) \<and> expandParkCode (f c) = c)"
  proof (cases "DESCRIPTION_LIMIT < code_points (vd_needsHuman @ '' '' @ join '','' reasons)")
    case True
    then show ?thesis using ok d compact by (intro exI[of _ compactParkCodeText]) simp
  next
    case False
    then show ?thesis using ok d by (intro exI[of _ "\<lambda>c. c"]) simp
  qed
  then obtain f where f: "needsHumanDescription (join '','' reasons) label = vd_needsHuman @ '' '' @ join '','' (map f reasons) @ tail"
    "\<forall>c\<in>set reasons. f c \<noteq> [] \<and> list_all code_char (f c) \<and> expandParkCode (f c) = c" by blast
  have "\<forall>x\<in>set (join '','' (map f reasons)). text_char x" using f(2) by (intro join_text_chars) auto
  from parse_described[OF this tail] show ?thesis
    unfolding f(1) using parse_codes[OF assms(1) sub f(2)] assms(2) by simp
qed

text \<open>C33:
  A park's codes survive its description. Whatever set of codes a park names (in report order), with
  whatever label, and whether or not the codes were abbreviated to fit, the description reads back as a
  park on exactly those codes.\<close>

theorem park_description_roundtrip:
  "\<forall>reasons label. reasons \<noteq> [] \<and> reasons = filter (\<lambda>c. c \<in> set reasons) HUMAN_REASONS \<longrightarrow>
     map_option pk_codes (parseParkDescription (needsHumanDescription (join '','' reasons) label)) = Some (Some reasons)"
  using described_codes by blast

theorem park_description_roundtrip_witness:
  "map_option pk_codes (parseParkDescription (needsHumanDescription ''no-receipt,human-merge'' ''x'')) =
     Some (Some [''no-receipt'', ''human-merge''])"
proof -
  have r: "[''no-receipt'', ''human-merge''] = filter (\<lambda>c. c \<in> set [''no-receipt'', ''human-merge'']) HUMAN_REASONS"
    by code_simp
  have "join '','' [''no-receipt'', ''human-merge''] = ''no-receipt,human-merge''" by simp
  with park_description_roundtrip[rule_format, of "[''no-receipt'', ''human-merge'']" "''x''"] r
  show ?thesis by (metis list.distinct(1))
qed

lemma code_points_append [simp]: "code_points (a @ b) = code_points a + code_points b"
  by (simp add: code_points_def)

lemma take_points_le: "code_points (take_points n s) \<le> n"
  by (induction n s rule: take_points.induct) (auto simp: code_points_def split: nat.split)

lemma set_dropWhile_le: "length (filter P (dropWhile Q s)) \<le> length (filter P s)"
  by (induction s) auto

lemma trim_end_points: "code_points (trim_end s) \<le> code_points s"
  using set_dropWhile_le[of "\<lambda>c. \<not> continuation c" is_ws "rev s"]
  by (simp add: code_points_def trim_end_def rev_filter[symmetric])

lemma separator_points [simp]: "code_points PARK_LABEL_SEPARATOR = 3" "code_points ellipsis = 1"
  by code_simp+

text \<open>A park's description fits the limit of a commit status: whatever the label, the description has at
  most 140 characters as soon as its abbreviated codes have; only the label is ever truncated.\<close>

theorem description_bounded:
  assumes "code_points (compactParkCodeText (vd_needsHuman @ '' '' @ code)) \<le> DESCRIPTION_LIMIT"
  shows "code_points (needsHumanDescription code label) \<le> DESCRIPTION_LIMIT"
proof -
  let ?raw = "vd_needsHuman @ '' '' @ code"
  define base where "base = (if DESCRIPTION_LIMIT < code_points ?raw then compactParkCodeText ?raw else ?raw)"
  define room where "room = int DESCRIPTION_LIMIT - int (code_points base) - 3"
  have b: "code_points base \<le> DESCRIPTION_LIMIT" using assms by (simp add: base_def)
  have d: "needsHumanDescription code label =
      (if parkLabelText label = [] then base
       else if int (code_points (parkLabelText label)) \<le> room then base @ PARK_LABEL_SEPARATOR @ parkLabelText label
       else if room < 2 then base
       else base @ PARK_LABEL_SEPARATOR @ trim_end (take_points (nat room - 1) (parkLabelText label)) @ ellipsis)"
    unfolding needsHumanDescription_def Let_def room_def base_def ..
  have "code_points (trim_end (take_points (nat room - 1) (parkLabelText label))) \<le> nat room - 1"
    using trim_end_points take_points_le order_trans by blast
  then show ?thesis using b unfolding d room_def by auto
qed

theorem description_bounded_witness:
  "code_points (needsHumanDescription ''human-merge'' (replicate 300 (CHR ''x''))) \<le> DESCRIPTION_LIMIT"
  by (rule description_bounded) code_simp

section \<open>What an approval covers\<close>

lemma classifyApproval_park:
  assumes "classifyApproval a = Policy_park_approved w via"
  shows "\<exists>p codes. parkOfStatus (af_status a) = Some p \<and> pk_codes p = Some codes \<and> w = join '','' codes \<and>
     (af_operator a = Some (Approved_op w) \<or> af_operator a \<noteq> Some Sent_back_op \<and> af_reviewDecision a = ''APPROVED'') \<and>
     af_prState a \<noteq> ''MERGED''"
  using assms by (auto simp: classifyApproval_def Let_def split: if_splits option.splits)

lemma sub_codes: "codes = filter (\<lambda>c. c \<in> set codes) HUMAN_REASONS \<Longrightarrow> set codes \<subseteq> set HUMAN_REASONS"
  by (metis filter_is_subset)

lemma parse_reasons:
  assumes "codes \<noteq> []" "codes = filter (\<lambda>c. c \<in> set codes) HUMAN_REASONS"
  shows "parseHumanReasonList (join '','' codes) = Some codes"
proof -
  have "\<forall>c\<in>set codes. c \<noteq> [] \<and> list_all code_char c \<and> expandParkCode c = c"
    using codes_plain sub_codes[OF assms(2)] unfolding list_all_iff by blast
  from parse_codes[OF assms(1) sub_codes[OF assms(2)], of "\<lambda>c. c"] this assms(2) show ?thesis by simp
qed

lemma waived_codes:
  assumes "codes \<noteq> []" "codes = filter (\<lambda>c. c \<in> set codes) HUMAN_REASONS" "f_waive f = join '','' codes"
  shows "set codes \<subseteq> set (waived f)"
proof -
  have "parseHumanReasonList (f_waive f) = Some codes" using parse_reasons[OF assms(1,2)] assms(3) by simp
  moreover have "f_waive f \<noteq> []"
  proof
    assume "f_waive f = []"
    with calculation show False by (simp add: parseHumanReasonList_def known_codes_def Let_def expandParkCode_def HUMAN_REASONS_def COMPUTED_HUMAN_REVIEW_CODES_def)
  qed
  ultimately show ?thesis by (auto simp: waived_def expandLegacyWaiver_def Let_def set_uniq)
qed

text \<open>C9:
  One approval settles the park it answers. When a decision parked and its status carries the park's
  description, whatever label follows the codes and however they were abbreviated, an approval of that
  status names exactly the park's reasons, was given for them by an operator with that very set or by
  an approving review on a head nobody sent back, and no later decision that carries it asks for any
  of those reasons again.\<close>

theorem approval_covers_park:
  assumes "v_verdict (decideVerdict e f) = Human" "gf_blockers f = []"
    and "hs_description status = needsHumanDescription (v_reason (decideVerdict e f)) label"
    and "af_status a = Some status" "classifyApproval a = Policy_park_approved w via"
    and "f_waive g = w" "gf_blockers g = []"
  shows "w = v_reason (decideVerdict e f) \<and>
     (af_operator a = Some (Approved_op w) \<or> af_operator a \<noteq> Some Sent_back_op \<and> af_reviewDecision a = ''APPROVED'') \<and>
     (v_verdict (decideVerdict e' g) = Human \<longrightarrow>
        set (v_reasons (decideVerdict e' g)) \<inter> set (v_reasons (decideVerdict e f)) = {})"
proof -
  let ?rs = "v_reasons (decideVerdict e f)"
  have park: "?rs \<noteq> []" "v_reason (decideVerdict e f) = join '','' ?rs" "?rs = filter (\<lambda>c. c \<in> set ?rs) HUMAN_REASONS"
    using park_codes[OF assms(1,2)] unwaived_facts(2)[of f] by metis+
  obtain p codes where p: "parkOfStatus (Some status) = Some p" "pk_codes p = Some codes" "w = join '','' codes"
      "af_operator a = Some (Approved_op w) \<or> af_operator a \<noteq> Some Sent_back_op \<and> af_reviewDecision a = ''APPROVED''"
    using classifyApproval_park[OF assms(5)] assms(4) by auto
  have "map_option pk_codes (parseParkDescription (hs_description status)) = Some (Some ?rs)"
    unfolding assms(3) park(2) using described_codes[OF park(1,3)] .
  then have codes: "codes = ?rs" using p(1,2) by (auto simp: parkOfStatus_def)
  have "f_waive g = join '','' ?rs" using assms(6) p(3) codes by simp
  note w = waived_codes[OF park(1,3) this]
  have "set (v_reasons (decideVerdict e' g)) \<inter> set ?rs = {}" if human: "v_verdict (decideVerdict e' g) = Human"
  proof -
    obtain codes where "v_reasons (decideVerdict e' g) = unwaived g codes" using park_codes[OF human assms(7)] .
    then show ?thesis using unwaived_facts(1)[of g codes] w by auto
  qed
  then show ?thesis using p(3,4) codes park(2) by simp
qed

section \<open>A recorded run stands for the run\<close>

lemma RECORD_NAME_chars: "RECORD_NAME s \<Longrightarrow> CHR '':'' \<notin> set s \<and> CHR '','' \<notin> set s"
proof -
  have "\<not> record_char (CHR '':'')" "\<not> record_char (CHR '','')" by code_simp+
  then show "RECORD_NAME s \<Longrightarrow> CHR '':'' \<notin> set s \<and> CHR '','' \<notin> set s" by (auto simp: RECORD_NAME_def list_all_iff)
qed

definition record_outcome :: "string \<Rightarrow> bool" where
  "record_outcome out \<longleftrightarrow> out = ''pass'' \<or> out = ''abstain'' \<or> out \<in> set HUMAN_REASONS"

lemma record_outcome_chars: "record_outcome out \<Longrightarrow> CHR '','' \<notin> set out"
proof -
  have "list_all (\<lambda>c. CHR '','' \<notin> set c) HUMAN_REASONS" by code_simp
  then show "record_outcome out \<Longrightarrow> CHR '','' \<notin> set out" by (auto simp: record_outcome_def list_all_iff)
qed

lemma HUMAN_REASONS_no_outcome: "''pass'' \<notin> set HUMAN_REASONS" "''abstain'' \<notin> set HUMAN_REASONS"
  by code_simp+

lemma outcome_entry_Some:
  assumes "outcome_entry out = Some (ext, r)"
  shows "prop_of out ''extension'' = JStr ext" "RECORD_NAME ext" "record_outcome r"
    "r \<in> set HUMAN_REASONS \<longleftrightarrow> ok_verdict out ''human'' \<and> prop_of out ''humanReason'' = JStr r"
proof -
  from assms obtain e where e: "prop_of out ''extension'' = JStr e" by (auto simp: outcome_entry_def split: jsval.splits)
  note a = assms[unfolded outcome_entry_def e jsval.case]
  show "prop_of out ''extension'' = JStr ext" "RECORD_NAME ext" "record_outcome r"
    using a e by (auto simp: record_outcome_def split: if_splits bool.splits jsval.splits)
  show "r \<in> set HUMAN_REASONS \<longleftrightarrow> ok_verdict out ''human'' \<and> prop_of out ''humanReason'' = JStr r"
    using a HUMAN_REASONS_no_outcome
    by (auto simp: ok_verdict_def outcome_is_def split: if_splits bool.splits jsval.splits)
qed

lemma parse_entry_text:
  assumes "RECORD_NAME ext" "record_outcome r"
  shows "parse_entry (entry_text (ext, r)) = Some (ext, r)"
proof -
  have "takeWhile (\<lambda>c. c \<noteq> CHR '':'') (ext @ '':'' @ r) = ext"
    using RECORD_NAME_chars[OF assms(1)] by (subst takeWhile_append2) auto
  then show ?thesis using assms by (auto simp: parse_entry_def entry_text_def Let_def record_outcome_def)
qed

lemma parse_entries_texts:
  assumes "\<forall>e\<in>set es. RECORD_NAME (fst e) \<and> record_outcome (snd e)" "distinct (map fst (judged @ es))"
  shows "parse_entries judged (map entry_text es) = Some (judged @ es)"
  using assms
proof (induction es arbitrary: judged)
  case (Cons e es)
  obtain ext r where e: "e = (ext, r)" by fastforce
  then have "parse_entry (entry_text e) = Some (ext, r)" "ext \<notin> fst ` set judged"
    using Cons.prems parse_entry_text by auto
  then show ?case using Cons.IH[of "judged @ [e]"] Cons.prems by (simp add: e)
qed simp

lemma entry_text_plain: "RECORD_NAME (fst e) \<Longrightarrow> record_outcome (snd e) \<Longrightarrow> CHR '','' \<notin> set (entry_text e)"
  using RECORD_NAME_chars record_outcome_chars by (auto simp: entry_text_def)

lemma all_some_Some: "all_some xs = Some ys \<Longrightarrow> xs = map Some ys"
proof (induction xs arbitrary: ys)
  case (Cons x xs)
  then obtain y where y: "x = Some y" by (cases x) (auto simp: all_some_def split: if_splits)
  with Cons.prems have "all_some xs = Some (tl ys)" "ys = y # tl ys"
    by (auto simp: all_some_def List.map_filter_def split: if_splits)
  with Cons.IH[of "tl ys"] y show ?case by (metis list.simps(9))
qed (simp add: all_some_def List.map_filter_def)

lemma recorded_entries:
  assumes "extensionRecord agg = Some r"
  obtains es where "es \<noteq> []" "map outcome_entry (ag_outcomes agg) = map Some es" "r = join '','' (map entry_text es)"
    "ag_failed agg = []" "ag_findings agg = []" "\<not> truthy (ag_waitReason agg)"
    "\<forall>e\<in>set es. RECORD_NAME (fst e) \<and> record_outcome (snd e)"
proof -
  from assms obtain es where es: "record_entries agg = Some es" "es \<noteq> []" "r = join '','' (map entry_text es)"
    by (auto simp: extensionRecord_def split: option.splits list.splits)
  then have all: "all_some (map outcome_entry (ag_outcomes agg)) = Some es"
    and clean: "ag_failed agg = []" "ag_findings agg = []" "\<not> truthy (ag_waitReason agg)"
    by (auto simp: record_entries_def split: if_splits)
  note m = all_some_Some[OF all]
  have "\<forall>e\<in>set es. RECORD_NAME (fst e) \<and> record_outcome (snd e)"
  proof
    fix e assume "e \<in> set es"
    then have "Some e \<in> set (map outcome_entry (ag_outcomes agg))" unfolding m by simp
    then obtain out where "outcome_entry out = Some (fst e, snd e)" by auto
    from outcome_entry_Some(2,3)[OF this] show "RECORD_NAME (fst e) \<and> record_outcome (snd e)" by blast
  qed
  with that es m clean show ?thesis by blast
qed

lemma outcome_extension:
  assumes "map outcome_entry outs = map Some es"
  shows "map (\<lambda>x. prop_of x ''extension'') outs = map (JStr \<circ> fst) es"
  using assms
proof (induction outs arbitrary: es)
  case (Cons out outs)
  then obtain e es' where es: "es = e # es'" "outcome_entry out = Some e" "map outcome_entry outs = map Some es'" by auto
  then show ?case using Cons.IH outcome_entry_Some(1)[of out "fst e" "snd e"] by simp
qed simp

lemma record_parsed:
  assumes "extensionRecord agg = Some r" "distinct (map (\<lambda>out. prop_of out ''extension'') (ag_outcomes agg))"
  shows "parseExtensionRecord r = record_entries agg \<and> parseExtensionRecord r \<noteq> None"
proof -
  obtain es where es: "es \<noteq> []" "map outcome_entry (ag_outcomes agg) = map Some es" "r = join '','' (map entry_text es)"
    "ag_failed agg = []" "ag_findings agg = []" "\<not> truthy (ag_waitReason agg)"
    "\<forall>e\<in>set es. RECORD_NAME (fst e) \<and> record_outcome (snd e)"
    using recorded_entries[OF assms(1)] by metis
  have d: "distinct (map fst es)" using assms(2) unfolding outcome_extension[OF es(2)] by (simp add: distinct_map inj_on_def)
  have "\<forall>t\<in>set (map entry_text es). CHR '','' \<notin> set t" using es(7) entry_text_plain by auto
  from split_join[OF _ this] es(1) have sp: "split_on (CHR '','') r = map entry_text es" by (simp add: es(3))
  have ne: "r \<noteq> []"
  proof
    assume "r = []"
    with sp have "map entry_text es = [[]]" by simp
    then show False by (auto simp: entry_text_def map_eq_Cons_conv)
  qed
  have "record_entries agg = Some es"
  proof -
    have "None \<notin> set (map Some es)" "List.map_filter id (map Some es) = es" by (auto simp: List.map_filter_def comp_def)
    then show ?thesis unfolding record_entries_def es(2) all_some_def using es(4-6) by simp
  qed
  then show ?thesis using parse_entries_texts[OF es(7), of "[]"] d ne unfolding parseExtensionRecord_def sp by simp
qed

text \<open>The outcome of one extension keeps its fields beside its name.\<close>

lemma map_of_foldl_update:
  "map_of (foldl (\<lambda>al (k, x). AList.update k x al) al xs) = map_of al ++ map_of (rev xs)"
  by (induction xs arbitrary: al) (auto simp: update_conv' map_add_upd_left fun_eq_iff map_add_def split: option.split)

lemma classify_entries: "distinct (map fst (entries_of (classifyVerifyOutcome codes r t c opt)))"
  "\<exists>kvs. classifyVerifyOutcome codes r t c opt = JObj kvs"
  "''extension'' \<notin> fst ` set (entries_of (classifyVerifyOutcome codes r t c opt))"
  by (auto simp: classifyVerifyOutcome_def malfunction_def outcome_obj_def entries_of_def)

lemma map_of_rev_distinct:
  assumes "distinct (map fst xs)"
  shows "map_of (rev xs) = map_of xs"
proof
  fix k
  have d: "distinct (map fst (rev xs))" using assms by (simp add: rev_map[symmetric])
  show "map_of (rev xs) k = map_of xs k"
  proof (cases "map_of xs k")
    case None
    then have "k \<notin> fst ` set (rev xs)" by (simp add: map_of_eq_None_iff)
    then show ?thesis using None map_of_eq_None_iff[of "rev xs" k] by simp
  next
    case (Some v)
    then show ?thesis using d assms by (simp add: map_of_eq_Some_iff)
  qed
qed

lemma named_outcome:
  "prop_of (spread [(''extension'', n)] (classifyVerifyOutcome codes r t c opt)) k =
     (if k = ''extension'' then n else prop_of (classifyVerifyOutcome codes r t c opt) k)"
proof -
  obtain kvs where kvs: "classifyVerifyOutcome codes r t c opt = JObj kvs" using classify_entries(2) by blast
  have "distinct (map fst kvs)" "''extension'' \<notin> fst ` set kvs"
    using classify_entries(1,3)[of codes r t c opt] by (simp_all add: kvs entries_of_def)
  then have "map_of kvs ''extension'' = None" "map_of (rev kvs) = map_of kvs"
    by (simp_all add: map_of_eq_None_iff map_of_rev_distinct)
  then show ?thesis
    by (simp add: spread_def kvs entries_of_def prop_of_def map_of_foldl_update map_add_def split: option.split)
qed

lemma ok_named [simp]:
  "ok_verdict (spread [(''extension'', n)] (classifyVerifyOutcome codes r t c opt)) v =
     ok_verdict (classifyVerifyOutcome codes r t c opt) v"
  by (simp add: ok_verdict_def outcome_is_def named_outcome)

text \<open>A run over results that could be read.\<close>

definition classified_entry :: "jsval \<Rightarrow> jsval" where
  "classified_entry e = classifyVerifyOutcome HUMAN_REASONS (prop_of e ''result'') (prop_of e ''timedOut'' = JBool True)
     (prop_of e ''crashed'' = JBool True) (prop_of e ''optional'' = JBool True)"

lemma ag_outcomes_run:
  "ag_outcomes (aggregateExtensions (JArr rs) exts) =
     map (\<lambda>e. spread [(''extension'', JStr (extension_name e))] (classified_entry e)) (judged_entries rs exts)"
  by (simp add: aggregateExtensions_def aggregateBlockerExtensions_def Let_def is_array_def array_or_empty_def classified_entry_def)

lemma ag_failed_run:
  "ag_failed (aggregateExtensions (JArr rs) exts) = [] \<longleftrightarrow>
     (\<forall>e\<in>set (judged_entries rs exts). \<not> outcome_is (classified_entry e) ''failed'')"
  by (auto simp: aggregateExtensions_def aggregateBlockerExtensions_def Let_def is_array_def array_or_empty_def
      classified_entry_def filter_empty_conv)

lemma ag_humanReasons_run:
  assumes "ag_failed (aggregateExtensions (JArr rs) exts) = []"
  shows "ag_humanReasons (aggregateExtensions (JArr rs) exts) =
     filter (\<lambda>code. \<exists>e\<in>set (judged_entries rs exts). ok_verdict (classified_entry e) ''human'' \<and>
        prop_of (classified_entry e) ''humanReason'' = JStr code) HUMAN_REASONS"
proof -
  note none = assms[unfolded ag_failed_run]
  have none_failed: "filter (\<lambda>(_, x). outcome_is x ''failed'')
      (map (\<lambda>e. (extension_name e, classified_entry e)) (judged_entries rs exts)) = []"
    using none by (auto simp: filter_empty_conv)
  have arr: "is_array (JArr rs)" "array_or_empty (JArr rs) = rs" by (simp_all add: is_array_def array_or_empty_def)
  show ?thesis
    unfolding aggregateExtensions_def aggregateBlockerExtensions_def Let_def arr classified_entry_def[symmetric] none_failed
    by (simp add: list_ex_iff arr)
qed

lemma recorded_reasons:
  assumes "map outcome_entry outs = map Some es"
  shows "filter (\<lambda>code. code \<in> snd ` set es) HUMAN_REASONS =
     filter (\<lambda>code. \<exists>out\<in>set outs. ok_verdict out ''human'' \<and> prop_of out ''humanReason'' = JStr code) HUMAN_REASONS"
proof (rule filter_cong[OF refl])
  fix code assume c: "code \<in> set HUMAN_REASONS"
  have out: "\<exists>e\<in>set es. outcome_entry out = Some e" if "out \<in> set outs" for out
  proof -
    have "outcome_entry out \<in> set (map Some es)" using that unfolding assms[symmetric] by simp
    then show ?thesis by auto
  qed
  have ent: "\<exists>out\<in>set outs. outcome_entry out = Some e" if "e \<in> set es" for e
  proof -
    have "Some e \<in> set (map outcome_entry outs)" using that unfolding assms by simp
    then show ?thesis by auto
  qed
  show "code \<in> snd ` set es \<longleftrightarrow> (\<exists>out\<in>set outs. ok_verdict out ''human'' \<and> prop_of out ''humanReason'' = JStr code)"
  proof
    assume "code \<in> snd ` set es"
    then obtain ext where "(ext, code) \<in> set es" by auto
    with ent obtain out' where "out' \<in> set outs" "outcome_entry out' = Some (ext, code)" by blast
    then show "\<exists>out\<in>set outs. ok_verdict out ''human'' \<and> prop_of out ''humanReason'' = JStr code"
      using outcome_entry_Some(4)[of out' ext code] c by blast
  next
    assume "\<exists>out\<in>set outs. ok_verdict out ''human'' \<and> prop_of out ''humanReason'' = JStr code"
    then obtain out' where o: "out' \<in> set outs" "ok_verdict out' ''human''" "prop_of out' ''humanReason'' = JStr code" by blast
    with out obtain ext r where e: "(ext, r) \<in> set es" "outcome_entry out' = Some (ext, r)" by fast
    have "r = code" using e(2) o(2,3) by (auto simp: outcome_entry_def ok_verdict_def outcome_is_def split: if_splits bool.splits jsval.splits)
    with e(1) show "code \<in> snd ` set es" by force
  qed
qed

lemma judged_entries_named:
  assumes "e \<in> set (judged_entries rs exts)" "RECORD_NAME (extension_name e)"
  shows "prop_of e ''extension'' = JStr (extension_name e) \<and>
    (e \<in> set rs \<or> (\<exists>x\<in>set exts. prop_of x ''name'' = JStr (extension_name e)))"
proof -
  have "\<not> RECORD_NAME ''(unnamed)''" by code_simp
  then have str: "is_nonempty_string (prop_of e ''extension'')" using assms(2) by (auto simp: extension_name_def split: if_splits)
  then have "prop_of e ''extension'' = JStr (extension_name e)"
    by (cases "prop_of e ''extension''") (auto simp: extension_name_def string_or_empty_def is_nonempty_string_def)
  with assms(1) show ?thesis by (auto simp: judged_entries_def Let_def)
qed

lemma judged_entries_cover:
  assumes "x \<in> set exts" "prop_of x ''name'' = JStr n" "trim n \<noteq> []"
  shows "\<exists>e\<in>set (judged_entries rs exts). extension_name e = n"
proof (cases "\<exists>e\<in>set (filter is_object rs). prop_of e ''extension'' = JStr n")
  case True
  then obtain e where "e \<in> set (filter is_object rs)" "prop_of e ''extension'' = JStr n" by blast
  then show ?thesis using assms(3) by (intro bexI[of _ e]) (auto simp: judged_entries_def Let_def extension_name_def string_or_empty_def is_nonempty_string_def)
next
  case False
  let ?e = "JObj [(''extension'', prop_of x ''name''), (''optional'', JBool (prop_of x ''optional'' = JBool True)), (''crashed'', JBool True)]"
  have "?e \<in> set (judged_entries rs exts)"
    using assms False unfolding judged_entries_def Let_def by (auto simp: is_nonempty_string_def intro!: rev_image_eqI[of x])
  then show ?thesis using assms(2,3) by (intro bexI[of _ ?e]) (simp_all add: extension_name_def string_or_empty_def is_nonempty_string_def)
qed

lemma record_reuse:
  assumes "extensionRecord (aggregateExtensions (JArr rs) exts) = Some r"
    and "distinct (map (\<lambda>x. prop_of x ''extension'') (ag_outcomes (aggregateExtensions (JArr rs) exts)))"
    and names: "\<forall>x\<in>set exts. \<exists>n. prop_of x ''name'' = JStr n \<and> trim n \<noteq> [] \<and> n \<notin> set notApplicable"
    and judged: "\<forall>e\<in>set rs. prop_of e ''extension'' \<notin> JStr ` set notApplicable"
  shows "\<exists>outs. reuseExtensionRecord (parseExtensionRecord r) exts notApplicable =
     Some (outs, ag_humanReasons (aggregateExtensions (JArr rs) exts))"
proof -
  let ?agg = "aggregateExtensions (JArr rs) exts"
  let ?entries = "judged_entries rs exts"
  obtain es where es: "map outcome_entry (ag_outcomes ?agg) = map Some es"
    "ag_failed ?agg = []" "ag_findings ?agg = []" "\<not> truthy (ag_waitReason ?agg)" "es \<noteq> []"
    "\<forall>e\<in>set es. RECORD_NAME (fst e) \<and> record_outcome (snd e)"
    using recorded_entries[OF assms(1)] by metis
  have recd: "record_entries ?agg = Some es"
  proof -
    have "None \<notin> set (map Some es)" "List.map_filter id (map Some es) = es" by (auto simp: List.map_filter_def comp_def)
    then show ?thesis unfolding record_entries_def es(1) all_some_def using es(2-4) by simp
  qed
  have parse: "parseExtensionRecord r = Some es" using record_parsed[OF assms(1,2)] recd by simp
  have names_es: "map fst es = map extension_name ?entries"
  proof -
    have "map (JStr \<circ> fst) es = map (\<lambda>x. prop_of x ''extension'') (ag_outcomes ?agg)" using outcome_extension[OF es(1)] by simp
    also have "\<dots> = map (JStr \<circ> extension_name) ?entries" by (simp add: ag_outcomes_run classified_entry_def named_outcome)
    finally have "map JStr (map fst es) = map JStr (map extension_name ?entries)" by simp
    then show ?thesis by (simp add: inj_map_eq_map inj_on_def del: map_map)
  qed
  have in_entries: "\<exists>e\<in>set ?entries. extension_name e = fst x" if "x \<in> set es" for x
  proof -
    have "fst x \<in> set (map fst es)" using that by simp
    then show ?thesis unfolding names_es by auto
  qed
  have kept: "filter (\<lambda>e. fst e \<notin> set notApplicable) es = es"
  proof (rule filter_True, intro ballI)
    fix x assume x: "x \<in> set es"
    with in_entries obtain e where e: "e \<in> set ?entries" "extension_name e = fst x" by blast
    have "RECORD_NAME (extension_name e)" using es(6) x e(2) by simp
    from judged_entries_named[OF e(1) this] show "fst x \<notin> set notApplicable"
      using names judged e(2) by fastforce
  qed
  have cover: "list_all (\<lambda>ext. prop_of ext ''name'' \<in> (JStr \<circ> fst) ` set es) exts"
    unfolding list_all_iff
  proof
    fix x assume x: "x \<in> set exts"
    with names obtain n where n: "prop_of x ''name'' = JStr n" "trim n \<noteq> []" by blast
    from judged_entries_cover[OF x n] obtain e where "e \<in> set ?entries" "extension_name e = n" by blast
    then have "n \<in> set (map fst es)" unfolding names_es by auto
    then show "prop_of x ''name'' \<in> (JStr \<circ> fst) ` set es" using n(1) by auto
  qed
  have "filter (\<lambda>code. code \<in> snd ` set es) HUMAN_REASONS = ag_humanReasons ?agg"
    unfolding recorded_reasons[OF es(1)] ag_humanReasons_run[OF es(2)] ag_outcomes_run
    by (simp add: classified_entry_def ok_named named_outcome)
  then show ?thesis unfolding parse reuseExtensionRecord_def option.case Let_def kept using cover by simp
qed

text \<open>The decision reads the results and the record only at the extension stage.\<close>

definition on_record :: "facts \<Rightarrow> record_entry list option \<Rightarrow> facts" where
  "on_record f rec = f\<lparr>f_extensionResults := JUndef, f_extensionRecord := rec\<rparr>"

lemma on_record_fields [simp]:
  "f_extensions (on_record f rec) = f_extensions f" "f_extensionsNotApplicable (on_record f rec) = f_extensionsNotApplicable f"
  "f_extensionResults (on_record f rec) = JUndef" "f_extensionRecord (on_record f rec) = rec"
  "f_judgeHealth (on_record f rec) = f_judgeHealth f" "f_review (on_record f rec) = f_review f"
  "gf_judgeAreas (on_record f rec) = gf_judgeAreas f" "gf_judgeFailed (on_record f rec) = gf_judgeFailed f"
  by (simp_all add: on_record_def)

lemma on_record_waived [simp]: "waived (on_record f rec) = waived f" "mergeCodes (on_record f rec) = mergeCodes f"
proof -
  have v: "verifyReviews (on_record f rec) = verifyReviews f" by (simp add: verifyReviews_def on_record_def split: option.split)
  show "waived (on_record f rec) = waived f" unfolding waived_def v by (simp add: on_record_def)
  show "mergeCodes (on_record f rec) = mergeCodes f" by (simp add: mergeCodes_def on_record_def)
qed

lemma on_record_level [simp]: "level_of e (on_record f rec) rs = level_of e f rs"
proof -
  have "level_areas d c (on_record f rec) rs = level_areas d c f rs" for d c
    by (simp add: level_areas_def on_record_def caps_of_def)
  then have "levelFacts d c (on_record f rec) rs = levelFacts d c f rs" for d c
    by (simp add: levelFacts_def on_record_def)
  then have "levelConfidence d c (on_record f rec) rs = levelConfidence d c f rs" for d c
    by (simp add: levelConfidence_def Let_def on_record_def)
  then show ?thesis by (simp add: level_of_def)
qed

lemma on_record_settle:
  "v_verdict (settle_level e (on_record f rec) rs) = v_verdict (settle_level e f rs)"
  "settled_codes e (on_record f rec) rs = settled_codes e f rs"
proof -
  show c: "settled_codes e (on_record f rec) rs = settled_codes e f rs"
    by (simp add: settled_codes_def unwaived_def level_codes_def)
  show "v_verdict (settle_level e (on_record f rec) rs) = v_verdict (settle_level e f rs)"
    unfolding settle_level_verdict c judge_answered_def by simp
qed

text \<open>C25:
  On the approval path the record of the clean run stands for running the extensions again. For the
  applicable extensions of a head whose results allowed a record, each judged once, a decision with an
  approval comes to the same verdict and, if it parks, the same reasons whether it is given the results
  or only the record the park carried.\<close>

theorem record_equals_rerun:
  assumes "f_extensions f = Some (x # xs)" "f_extensionResults f = JArr rs" "waived f \<noteq> []"
    and "extensionRecord (run_of f (x # xs)) = Some r"
    and "distinct (map (\<lambda>out. prop_of out ''extension'') (ag_outcomes (run_of f (x # xs))))"
    and "\<forall>y\<in>set (x # xs). \<exists>n. prop_of y ''name'' = JStr n \<and> trim n \<noteq> [] \<and> n \<notin> set (f_extensionsNotApplicable f)"
  shows "v_verdict (judge_extensions e (on_record f (parseExtensionRecord r))) = v_verdict (judge_extensions e f) \<and>
     (v_verdict (judge_extensions e f) = Human \<longrightarrow>
      v_reasons (judge_extensions e (on_record f (parseExtensionRecord r))) = v_reasons (judge_extensions e f))"
proof -
  define rs' where "rs' = filter (\<lambda>r. prop_of r ''extension'' \<notin> JStr ` set (f_extensionsNotApplicable f)) rs"
  have run: "run_of f (x # xs) = aggregateExtensions (JArr rs') (x # xs)"
    by (simp add: run_of_def judged_results_def assms(2) rs'_def)
  have judged: "\<forall>e\<in>set rs'. prop_of e ''extension'' \<notin> JStr ` set (f_extensionsNotApplicable f)" by (simp add: rs'_def)
  let ?H = "ag_humanReasons (run_of f (x # xs))"
  obtain outs where reuse: "reuseExtensionRecord (parseExtensionRecord r) (x # xs) (f_extensionsNotApplicable f) = Some (outs, ?H)"
    using record_reuse[OF assms(4,5)[unfolded run] assms(6) judged] unfolding run by blast
  have clean: "ag_failed (run_of f (x # xs)) = []" "ag_findings (run_of f (x # xs)) = []" "\<not> truthy (ag_waitReason (run_of f (x # xs)))"
    using recorded_entries[OF assms(4)] by blast+
  let ?g = "on_record f (parseExtensionRecord r)"
  have g: "judge_extensions e ?g = (settle_level e ?g ?H)\<lparr>v_outcomes := Some (outs, True)\<rparr>"
    using assms(1,3) reuse by (simp add: judge_extensions_def)
  have f: "judge_extensions e f = judge_results e f (x # xs)" using assms(1,2) by (simp add: judge_extensions_def)
  have fv: "v_verdict (judge_results e f (x # xs)) = v_verdict (settle_level e f ?H)"
    using clean by (simp add: judge_results_verdict)
  have fr: "v_reasons (judge_results e f (x # xs)) = v_reasons (settle_level e f ?H)"
    using clean by (simp add: judge_results_def Let_def run_of_def)
  have "v_verdict (settle_level e f ?H) = Human \<Longrightarrow> v_reasons (settle_level e ?g ?H) = v_reasons (settle_level e f ?H)"
    using settle_level_park[of e f ?H] settle_level_park[of e ?g ?H] on_record_settle[of e f "parseExtensionRecord r" ?H] by simp
  then show ?thesis unfolding g f fr fv using on_record_settle(1) fv by simp
qed

text \<open>The record of a run survives its text: written by a park and read back by the approval, it gives the
  same entries, provided every extension is named once.\<close>

theorem extension_record_roundtrip:
  assumes "extensionRecord agg = Some r" "distinct (map (\<lambda>out. prop_of out ''extension'') (ag_outcomes agg))"
  shows "parseExtensionRecord r = record_entries agg \<and> parseExtensionRecord r \<noteq> None"
  using record_parsed assms by blast

section \<open>Decisions on concrete heads\<close>

definition demo_env :: judge_env where
  "demo_env = \<lparr>je_detect = (\<lambda>_. []), je_collate = (\<lambda>_ _. 0), je_hash = (\<lambda>_. ''0123456789ab'')\<rparr>"

definition green_facts :: facts where
  "green_facts = \<lparr>gf_areaCaps = None, gf_changedPaths = Some [''a.ts''], gf_areas = [], gf_changedLines = Some 12,
     gf_judgeAreas = Some [], gf_judgeFailed = False, gf_sizeBaseline = Some (Baseline None False), gf_delta = False,
     gf_policySurfaceHit = False, gf_blockers = [],
     f_headSha = ''0123456789abcdef0123456789abcdef01234567'', f_baseSha = [], f_ticket = JNull,
     f_prUnreadable = False, f_prState = ''OPEN'', f_isDraft = Some False, f_eligibilityReasons = [],
     f_ci = Some \<lparr>ci_settled = True, ci_green = True, ci_state = ''green'', ci_reason = []\<rparr>, f_failedChecks = [],
     f_baseTipUnreadable = False, f_requireGreenBase = False, f_baseState = ''green'', f_receipt = ''success'',
     f_repairInFlight = False, f_configUnreadable = False, f_trustedTreeUnavailable = False, f_approvalUnreadable = False,
     f_reviewFindings = [], f_accepted = [], f_tier = None, f_prClass = None, f_waive = [], f_review = [],
     f_judgeHealth = [], f_judgeRecord = None, f_extensions = Some [JObj [(''name'', JStr ''x'')]],
     f_extensionsNotApplicable = [], f_extensionResults = JArr [JObj [(''extension'', JStr ''x''), (''result'', demo_result)]],
     f_extensionRecord = None, f_cleanReview = True\<rparr>"

text \<open>The merge is left to a person, and the one extension crashed.\<close>

definition crashed_facts :: facts where
  "crashed_facts = green_facts\<lparr>f_tier := Some \<lparr>ti_class = ''human'', ti_review = [], ti_merge = ''human''\<rparr>,
     f_extensionResults := JArr [JObj [(''extension'', JStr ''x''), (''crashed'', JBool True)]]\<rparr>"

lemma own_effective: "f_tier f = None \<or> (\<exists>t. f_tier f = Some t \<and> ti_class t \<noteq> ''fork'') \<Longrightarrow> effective f = f"
  by (auto simp: effective_def)

text \<open>The stages up to the extensions, for facts that no stage stops.\<close>

lemma reaches_extensions:
  assumes "effective f = f" "first_wait f = None" "fst (split_blockers e f) = []" "f_receipt f = ''success''"
    "unwaived f (stateCodes f) = []" "cr_level (first_conf e f) \<noteq> Cannot_assess"
  shows "decideVerdict e f = judge_extensions e f"
  using assms by (simp add: decide_stages)

lemma green_stages:
  "effective green_facts = green_facts" "first_wait green_facts = None"
  "fst (split_blockers demo_env green_facts) = []" "f_receipt green_facts = ''success''"
  "unwaived green_facts (stateCodes green_facts) = []" "cr_level (first_conf demo_env green_facts) \<noteq> Cannot_assess"
  "gf_blockers green_facts = []"
  by (rule own_effective, simp add: green_facts_def) (code_simp+)

lemma green_passes: "v_verdict (decideVerdict demo_env green_facts) = Pass"
  unfolding reaches_extensions[OF green_stages(1-6)] by code_simp

lemma crashed_stages:
  "effective crashed_facts = crashed_facts" "first_wait crashed_facts = None"
  "fst (split_blockers demo_env crashed_facts) = []" "f_receipt crashed_facts = ''success''"
  "unwaived crashed_facts (stateCodes crashed_facts) = []" "cr_level (first_conf demo_env crashed_facts) \<noteq> Cannot_assess"
  "gf_blockers crashed_facts = []"
  by (rule own_effective, simp add: crashed_facts_def) (code_simp+)

lemma failed_run_parks:
  assumes "f_extensions f = Some (x # xs)" "f_extensionResults f \<noteq> JUndef"
    and "ag_failed (run_of f (x # xs)) \<noteq> []" "''extension-failed'' \<notin> set (waived f)"
  shows "v_verdict (judge_extensions e f) = Human \<and>
    v_reasons (judge_extensions e f) =
      unwaived f (''extension-failed'' # level_codes e f (ag_humanReasons (run_of f (x # xs)))) \<and>
    v_reason (judge_extensions e f) = join '','' (v_reasons (judge_extensions e f))"
  using assms by (simp add: judge_extensions_def judge_results_def Let_def run_of_def)

lemma crashed_run:
  "ag_failed (run_of crashed_facts [JObj [(''name'', JStr ''x'')]]) \<noteq> []"
  "ag_humanReasons (run_of crashed_facts [JObj [(''name'', JStr ''x'')]]) = []"
  "unwaived crashed_facts (''extension-failed'' # level_codes demo_env crashed_facts []) = [''extension-failed'']"
  "''extension-failed'' \<notin> set (waived crashed_facts)"
  by code_simp+

lemma crashed_parks:
  "v_verdict (decideVerdict demo_env crashed_facts) = Human"
  "v_reasons (decideVerdict demo_env crashed_facts) = [''extension-failed'']"
  "v_reason (decideVerdict demo_env crashed_facts) = ''extension-failed''"
proof -
  have "f_extensions crashed_facts = Some [JObj [(''name'', JStr ''x'')]]" "f_extensionResults crashed_facts \<noteq> JUndef"
    by (simp_all add: crashed_facts_def green_facts_def)
  from failed_run_parks[OF this crashed_run(1,4), of demo_env]
  show "v_verdict (decideVerdict demo_env crashed_facts) = Human"
    "v_reasons (decideVerdict demo_env crashed_facts) = [''extension-failed'']"
    "v_reason (decideVerdict demo_env crashed_facts) = ''extension-failed''"
    by (simp_all add: reaches_extensions[OF crashed_stages(1-6)] crashed_run(2,3))
qed

definition approved_facts :: facts where
  "approved_facts = crashed_facts\<lparr>f_waive := ''extension-failed''\<rparr>"

lemma approved_stages:
  "effective approved_facts = approved_facts" "first_wait approved_facts = None"
  "fst (split_blockers demo_env approved_facts) = []" "f_receipt approved_facts = ''success''"
  "unwaived approved_facts (stateCodes approved_facts) = []" "cr_level (first_conf demo_env approved_facts) \<noteq> Cannot_assess"
  "gf_blockers approved_facts = []"
  by (rule own_effective, simp add: approved_facts_def crashed_facts_def) (code_simp+)

text \<open>A counterexample to one approval settling everything: the park of a malfunctioning extension leaves
  out the merge code of the tier. On a head whose merge is left to a person and whose one extension
  crashed, the first decision parks on \<open>extension-failed\<close> alone, and once that is approved the same
  facts park again, on \<open>human-merge\<close>.\<close>

theorem malfunction_park_incomplete:
  "v_verdict (decideVerdict demo_env crashed_facts) = Human \<and>
   v_reasons (decideVerdict demo_env crashed_facts) = [''extension-failed''] \<and>
   f_waive approved_facts = v_reason (decideVerdict demo_env crashed_facts) \<and>
   v_verdict (decideVerdict demo_env approved_facts) = Human \<and>
   v_reasons (decideVerdict demo_env approved_facts) = [''human-merge'']"
proof -
  have "v_verdict (decideVerdict demo_env approved_facts) = Human"
    "v_reasons (decideVerdict demo_env approved_facts) = [''human-merge'']"
    unfolding reaches_extensions[OF approved_stages(1-6)] by code_simp+
  moreover have "f_waive approved_facts = ''extension-failed''" by (simp add: approved_facts_def)
  ultimately show ?thesis using crashed_parks by simp
qed

theorem decideVerdict_pass_witness:
  "\<exists>reasons. judged_extensions demo_env (effective green_facts) reasons \<and> settled_codes demo_env (effective green_facts) reasons = []"
  using decideVerdict_pass[OF green_passes] by (elim conjE)

theorem decideVerdict_park_witness:
  "v_reasons (decideVerdict demo_env crashed_facts) \<noteq> [] \<and> ''extension-failed'' \<notin> set (waived crashed_facts)"
  using decideVerdict_park[OF crashed_parks(1) crashed_stages(7)] crashed_parks(2) by auto

definition demo_approval :: approval_facts where
  "demo_approval = \<lparr>af_prState = ''OPEN'', af_reviewDecision = [],
     af_status = Some \<lparr>hs_state = ''success'', hs_description = needsHumanDescription ''extension-failed'' ''x'', hs_updatedAt = None\<rparr>,
     af_labels = None, af_needsHumanLabel = [], af_operator = Some (Approved_op ''extension-failed''), af_accepted = None\<rparr>"

lemma demo_approved:
  "classifyApproval demo_approval = Policy_park_approved ''extension-failed'' ''operator-approved''"
  by code_simp

theorem approval_covers_park_witness:
  "set (v_reasons (decideVerdict demo_env approved_facts)) \<inter> set (v_reasons (decideVerdict demo_env crashed_facts)) = {}"
proof -
  have st: "af_status demo_approval = Some (the (af_status demo_approval))"
    "hs_description (the (af_status demo_approval)) = needsHumanDescription (v_reason (decideVerdict demo_env crashed_facts)) ''x''"
    by (simp_all add: demo_approval_def crashed_parks(3))
  have w: "f_waive approved_facts = ''extension-failed''" by (simp add: approved_facts_def)
  have "v_verdict (decideVerdict demo_env approved_facts) = Human"
    unfolding reaches_extensions[OF approved_stages(1-6)] by code_simp
  with approval_covers_park[OF crashed_parks(1) crashed_stages(7) st(2,1) demo_approved w approved_stages(7), of demo_env]
  show ?thesis by blast
qed

definition human_result :: jsval where
  "human_result = JObj [(''ok'', JBool True), (''extension'', JStr ''x''), (''role'', JStr ''verify''), (''verdict'', JStr ''human''),
     (''reason'', JStr ''human-review:ui''), (''evidence'', JArr [JObj [(''kind'', JStr ''test''), (''ref'', JStr ''a'')]]), (''findings'', JArr [])]"

definition asked_facts :: facts where
  "asked_facts = green_facts\<lparr>f_waive := ''human-merge'',
     f_extensionResults := JArr [JObj [(''extension'', JStr ''x''), (''result'', human_result)]]\<rparr>"

lemma asked_run:
  "extensionRecord (run_of asked_facts [JObj [(''name'', JStr ''x'')]]) = Some ''x:human-review:ui''"
  "distinct (map (\<lambda>out. prop_of out ''extension'') (ag_outcomes (run_of asked_facts [JObj [(''name'', JStr ''x'')]])))"
  "waived asked_facts \<noteq> []"
  by code_simp+

theorem record_equals_rerun_witness:
  "v_verdict (judge_extensions demo_env (on_record asked_facts (parseExtensionRecord ''x:human-review:ui''))) =
   v_verdict (judge_extensions demo_env asked_facts)"
proof -
  have e: "f_extensions asked_facts = Some [JObj [(''name'', JStr ''x'')]]"
    "f_extensionResults asked_facts = JArr [JObj [(''extension'', JStr ''x''), (''result'', human_result)]]"
    by (simp_all add: asked_facts_def green_facts_def)
  have n: "\<forall>y\<in>set [JObj [(''name'', JStr ''x'')]]. \<exists>n. prop_of y ''name'' = JStr n \<and> trim n \<noteq> [] \<and>
      n \<notin> set (f_extensionsNotApplicable asked_facts)"
    by (simp add: asked_facts_def green_facts_def trim_def is_ws_def)
  show ?thesis using record_equals_rerun[OF e asked_run(3,1,2) n, of demo_env] by (elim conjE)
qed

theorem extension_record_roundtrip_witness:
  "parseExtensionRecord ''x:human-review:ui'' = record_entries (run_of asked_facts [JObj [(''name'', JStr ''x'')]])"
  using extension_record_roundtrip[OF asked_run(1,2)] by (elim conjE)

end
