(* ===== verification/VerifyRecords.thy ===== *)
theory VerifyRecords
  imports VerifyVerdict "HOL-Library.Monad_Syntax"
begin

text \<open>
  The head-bound records a pull request carries in its comments, as \<open>verify/verify-gate.mjs\<close> reads them
  back with the readers of \<open>verify-accept.mjs\<close>, \<open>verify-notes.mjs\<close>, \<open>verify-judge.mjs\<close>,
  \<open>verify-blockers.mjs\<close> and \<open>review-verdict.mjs\<close>: one-line markers, trailers, the newest record of a head,
  and what carries an approval to another head. Base64, JSON and the digest are arguments, and so is
  what git answers. The lemmas show that the comment an approval posts reads back as that approval.
\<close>

section \<open>Reading a line\<close>

text \<open>
  The pieces of the anchored patterns. Each takes the front of a line and leaves the rest: a literal,
  a literal in either case, a run of exactly \<open>n\<close> characters, the longest run.
\<close>

definition eat :: "string \<Rightarrow> string \<Rightarrow> string option" where
  "eat lit s = (if starts_with s lit then Some (drop (length lit) s) else None)"

definition eat_ci :: "string \<Rightarrow> string \<Rightarrow> string option" where
  "eat_ci lit s = (if to_lower (take (length lit) s) = lit then Some (drop (length lit) s) else None)"

definition eat_exact :: "nat \<Rightarrow> (char \<Rightarrow> bool) \<Rightarrow> string \<Rightarrow> (string \<times> string) option" where
  "eat_exact n p s =
     (if length (take n s) = n \<and> list_all p (take n s) then Some (take n s, drop n s) else None)"

definition eat_span :: "(char \<Rightarrow> bool) \<Rightarrow> string \<Rightarrow> (string \<times> string) option" where
  "eat_span p s =
     (let front = takeWhile p s in if front = [] then None else Some (front, drop (length front) s))"

definition line_end :: "string \<Rightarrow> unit option" where
  "line_end s = (if s = '' -->'' then Some () else None)"

definition lower_hex :: "char \<Rightarrow> bool" where
  "lower_hex c \<longleftrightarrow> is_digit c \<or> c \<in> set ''abcdef''"

definition record_word :: "char \<Rightarrow> bool" where
  "record_word c \<longleftrightarrow> is_digit c \<or> lower_letter (lower_char c)"

section \<open>Records\<close>

text \<open>What a marker carries beside its stamp.\<close>

datatype marker_data =
    Accepts string string
  | Digest string
  | Nothing
  | Findings "jsval list"
  | Blocker_file jsval
  | Outcomes string "jsval list"
  | Notes string jsval
  | Carried string string
  | Policy_of string
  | Judge_areas string
  | Judged "record_entry list"
  | Waives string

text \<open>A time or an id is \<open>None\<close> where the code has \<open>-Infinity\<close>.\<close>

record marker =
  mk_kind :: string
  mk_head :: string
  mk_at :: "int option"
  mk_id :: "int option"
  mk_login :: string
  mk_url :: string
  mk_data :: marker_data

text \<open>
  The decoders the readers share: the JSON of a base64url payload in canonical form, of one in any form,
  and the digest of a list of notes with its tickets.
\<close>

record codec =
  cd_canonical :: "string \<Rightarrow> jsval option"
  cd_any :: "string \<Rightarrow> jsval option"
  cd_digest :: "jsval \<Rightarrow> jsval \<Rightarrow> string"

subsection \<open>One-line records\<close>

text \<open>\<open>parseAcceptLine\<close>.\<close>

definition accept_line :: "string \<Rightarrow> (string \<times> string \<times> string) option" where
  "accept_line l = do {
     r \<leftarrow> eat_ci ''<!-- boss-accept head='' l;
     (head, r) \<leftarrow> eat_exact 40 is_hex r;
     r \<leftarrow> eat_ci '' blocker='' r;
     (word, r) \<leftarrow> eat_exact 7 (\<lambda>_. True) r;
     (hash, r) \<leftarrow> eat_exact 12 is_hex r;
     r \<leftarrow> eat_ci '' ticket='' r;
     (letter, r) \<leftarrow> eat_exact 1 (\<lambda>c. lower_letter (lower_char c)) r;
     let team = takeWhile record_word r;
     r \<leftarrow> eat ''-'' (drop (length team) r);
     (digits, r) \<leftarrow> eat_span is_digit r;
     line_end r;
     if to_lower word = ''review:'' \<and> hd digits \<noteq> CHR ''0''
     then Some (to_lower head, word @ hash, letter @ team @ ''-'' @ digits) else None }"

definition accepted_note_line :: "string \<Rightarrow> (string \<times> string) option" where
  "accepted_note_line l = do {
     r \<leftarrow> eat_ci ''<!-- boss-accepted-note head='' l;
     (head, r) \<leftarrow> eat_exact 40 is_hex r;
     r \<leftarrow> eat_ci '' digest='' r;
     (digest, r) \<leftarrow> eat_exact 16 is_hex r;
     line_end r;
     Some (to_lower head, to_lower digest) }"

definition parseAcceptLine :: "string \<Rightarrow> (string \<times> string \<times> marker_data) option" where
  "parseAcceptLine l =
     (case accept_line l of
        Some (head, blocker, ticket) \<Rightarrow> Some (''accept'', head, Accepts blocker ticket)
      | None \<Rightarrow> map_option (\<lambda>(head, digest). (''accepted-note'', head, Digest digest)) (accepted_note_line l))"

definition remote_session_line :: "string \<Rightarrow> string option" where
  "remote_session_line l = do {
     r \<leftarrow> eat ''<!-- boss-remote-session head='' l;
     (head, r) \<leftarrow> eat_exact 40 is_hex r;
     line_end r;
     Some head }"

text \<open>\<open>/^<!-- NAME head=(SHA) digest=([0-9a-f]{16}) -->$/\<close>, the form of four notes.\<close>

definition digest_line :: "string \<Rightarrow> string \<Rightarrow> (string \<times> string) option" where
  "digest_line name l = do {
     r \<leftarrow> eat (''<!-- '' @ name @ '' head='') l;
     (head, r) \<leftarrow> eat_exact 40 is_hex r;
     r \<leftarrow> eat '' digest='' r;
     (digest, r) \<leftarrow> eat_exact 16 lower_hex r;
     line_end r;
     Some (head, digest) }"

text \<open>A park note may name a ledger after its digest.\<close>

definition park_note_line :: "string \<Rightarrow> (string \<times> string) option" where
  "park_note_line l = do {
     r \<leftarrow> eat ''<!-- boss-park-note head='' l;
     (head, r) \<leftarrow> eat_exact 40 is_hex r;
     r \<leftarrow> eat '' digest='' r;
     (digest, r) \<leftarrow> eat_exact 16 lower_hex r;
     r' \<leftarrow> (case eat '' ledger='' r of None \<Rightarrow> Some r | Some q \<Rightarrow> map_option snd (eat_exact 16 lower_hex q));
     line_end r';
     Some (head, digest) }"

definition carry_line :: "string \<Rightarrow> (string \<times> string \<times> string) option" where
  "carry_line l = do {
     r \<leftarrow> eat ''<!-- boss-approval-carry head='' l;
     (head, r) \<leftarrow> eat_exact 40 is_hex r;
     r \<leftarrow> eat '' from='' r;
     (from, r) \<leftarrow> eat_exact 40 is_hex r;
     r \<leftarrow> eat '' patch='' r;
     (patch, r) \<leftarrow> eat_exact 40 lower_hex r;
     line_end r;
     Some (head, from, patch) }"

definition policy_line :: "string \<Rightarrow> (string \<times> string) option" where
  "policy_line l = do {
     r \<leftarrow> eat ''<!-- boss-policy-record head='' l;
     (head, r) \<leftarrow> eat_exact 40 is_hex r;
     r \<leftarrow> eat '' policy='' r;
     (fingerprint, r) \<leftarrow> eat_exact 16 lower_hex r;
     line_end r;
     Some (head, fingerprint) }"

text \<open>\<open>/^<!-- NAME head=(SHA) KEY=(\S+) -->$/\<close>.\<close>

definition word_line :: "string \<Rightarrow> string \<Rightarrow> string \<Rightarrow> (string \<times> string) option" where
  "word_line name key l = do {
     r \<leftarrow> eat (''<!-- '' @ name @ '' head='') l;
     (head, r) \<leftarrow> eat_exact 40 is_hex r;
     r \<leftarrow> eat ('' '' @ key @ ''='') r;
     (word, r) \<leftarrow> eat_span (\<lambda>c. \<not> is_ws c) r;
     line_end r;
     Some (head, word) }"

text \<open>\<open>OPERATOR_MARKER\<close>: the kind, the head and what it waives, if it says.\<close>

definition operator_rest :: "string \<Rightarrow> string \<Rightarrow> (string \<times> string \<times> string option) option" where
  "operator_rest kind r = do {
     r \<leftarrow> eat '' head='' r;
     (head, r) \<leftarrow> eat_exact 40 is_hex r;
     (case eat '' waives='' r of
        None \<Rightarrow> do { line_end r; Some (kind, head, None) }
      | Some q \<Rightarrow> do { (codes, q) \<leftarrow> eat_span (\<lambda>c. \<not> is_ws c) q; line_end q; Some (kind, head, Some codes) }) }"

definition operator_line :: "string \<Rightarrow> (string \<times> string \<times> string option) option" where
  "operator_line l =
     (case eat ''<!-- boss-approve'' l of
        Some r \<Rightarrow> operator_rest ''approve'' r
      | None \<Rightarrow> do { r \<leftarrow> eat ''<!-- boss-send-back'' l; operator_rest ''send-back'' r })"

subsection \<open>Trailers\<close>

text \<open>
  \<open>/<!-- bs-review-findings v1 base=(SHA) head=(SHA) (B64+) -->\s*$/\<close>: the pattern may start anywhere,
  and the leftmost match is the only one, as no part of it can hold its own opening.
\<close>

definition report_line :: "string \<Rightarrow> (string \<times> string \<times> string) option" where
  "report_line l = do {
     r \<leftarrow> eat ''<!-- bs-review-findings v1 base='' l;
     (base, r) \<leftarrow> eat_exact 40 lower_hex r;
     r \<leftarrow> eat '' head='' r;
     (head, r) \<leftarrow> eat_exact 40 lower_hex r;
     r \<leftarrow> eat '' '' r;
     (payload, r) \<leftarrow> eat_span b64_char r;
     line_end r;
     Some (base, head, payload) }"

fun first_found :: "('a \<Rightarrow> 'b option) \<Rightarrow> 'a list \<Rightarrow> 'b option" where
  "first_found f [] = None"
| "first_found f (x # xs) = (case f x of None \<Rightarrow> first_found f xs | Some y \<Rightarrow> Some y)"

definition report_finding :: "jsval \<Rightarrow> bool" where
  "report_finding f \<longleftrightarrow>
     truthy f \<and>
     list_all (\<lambda>k. is_string (prop_of f k)) [''id'', ''severity'', ''file'', ''title'', ''evidence''] \<and>
     (case prop_of f ''line'' of JNum (Fin n) \<Rightarrow> 1 \<le> n | _ \<Rightarrow> False) \<and>
     (case prop_of f ''introduced'' of JBool _ \<Rightarrow> True | _ \<Rightarrow> False) \<and>
     (prop_of f ''assertionHead'' = JUndef \<or> SHA (js_string (prop_of f ''assertionHead'')))"

definition parseReportFindings :: "codec \<Rightarrow> string \<Rightarrow> (string \<times> string \<times> jsval list) option" where
  "parseReportFindings cd body = do {
     (base, head, payload) \<leftarrow> first_found report_line (suffixes_of (trim_end body));
     (case cd_any cd payload of
        Some (JArr findings) \<Rightarrow> if list_all report_finding findings then Some (base, head, findings) else None
      | _ \<Rightarrow> None) }"

definition last_line_of :: "string \<Rightarrow> string" where
  "last_line_of body = last (split_on (CHR 0x0A) (trim_end body))"

definition outcomes_line :: "string \<Rightarrow> (string \<times> string \<times> string) option" where
  "outcomes_line l = do {
     r \<leftarrow> eat_ci ''<!-- boss-repair-outcomes blockers-head='' l;
     (blockers, r) \<leftarrow> eat_exact 40 is_hex r;
     r \<leftarrow> eat_ci '' head='' r;
     (pushed, r) \<leftarrow> eat_exact 40 is_hex r;
     r \<leftarrow> eat_ci '' v1 '' r;
     (payload, r) \<leftarrow> eat_span b64_char r;
     line_end r;
     Some (blockers, pushed, payload) }"

definition parseOutcomesTrailer :: "codec \<Rightarrow> string \<Rightarrow> jsval option" where
  "parseOutcomesTrailer cd body = do {
     (blockers, pushed, payload) \<leftarrow> outcomes_line (last_line_of body);
     file \<leftarrow> cd_canonical cd payload;
     if fst (validateOutcomeFile file) \<and> prop_of file ''blockersHead'' = JStr blockers \<and>
        prop_of file ''pushedHead'' = JStr pushed
     then Some file else None }"

definition encodeOutcomesTrailer :: "(jsval \<Rightarrow> string) \<Rightarrow> jsval \<Rightarrow> string list + string" where
  "encodeOutcomesTrailer encode file =
     (case validateOutcomeFile file of
        (ok, errors) \<Rightarrow>
          if \<not> ok then Inl errors
          else Inr (''<!-- boss-repair-outcomes blockers-head='' @ string_or_empty (prop_of file ''blockersHead'') @
                 '' head='' @ string_or_empty (prop_of file ''pushedHead'') @ '' v1 '' @ encode file @ '' -->''))"

subsection \<open>Notes\<close>

definition noteOrder :: "jsval \<Rightarrow> jsval \<Rightarrow> int" where
  "noteOrder a b =
     (if js_compare (prop_of a ''source'') (prop_of b ''source'') \<noteq> 0
      then js_compare (prop_of a ''source'') (prop_of b ''source'')
      else if js_compare (field_or_empty a ''file'') (field_or_empty b ''file'') \<noteq> 0
      then js_compare (field_or_empty a ''file'') (field_or_empty b ''file'')
      else if line_number a - line_number b \<noteq> 0 then line_number a - line_number b
      else if js_compare (prop_of a ''summary'') (prop_of b ''summary'') \<noteq> 0
      then js_compare (prop_of a ''summary'') (prop_of b ''summary'')
      else js_compare (prop_of a ''id'') (prop_of b ''id''))"

definition noteId :: "jsval \<Rightarrow> bool" where
  "noteId v = (case v of JStr s \<Rightarrow> starts_with s ''note:'' \<and> length s = 17 \<and> list_all lower_hex (drop 5 s) | _ \<Rightarrow> False)"

text \<open>\<open>/^extension:[^\r\n]+$/\<close>; \<open>.test\<close> reads a value that is no string as one.\<close>

definition note_source :: "jsval \<Rightarrow> bool" where
  "note_source v \<longleftrightarrow> v = JStr ''review'' \<or>
     (let s = js_string v in
      starts_with s ''extension:'' \<and> drop 10 s \<noteq> [] \<and> \<not> list_ex newline_char (drop 10 s))"

definition valid_note :: "jsval \<Rightarrow> bool" where
  "valid_note n \<longleftrightarrow>
     exactKeys n [''id'', ''source'', ''severity'', ''file'', ''line'', ''summary'', ''text''] \<and>
     noteId (prop_of n ''id'') \<and> note_source (prop_of n ''source'') \<and>
     prop_of n ''severity'' \<in> {JStr ''P3'', JStr ''style''} \<and>
     (prop_of n ''file'' = JNull \<or> is_line (prop_of n ''file'')) \<and>
     (prop_of n ''line'' = JNull \<or> prop_of n ''file'' \<noteq> JNull \<and> safe_positive (prop_of n ''line'')) \<and>
     is_line (prop_of n ''summary'') \<and>
     (case prop_of n ''text'' of JStr s \<Rightarrow> \<not> list_ex newline_char s | _ \<Rightarrow> False)"

text \<open>Every note in turn, over the ids seen and the note before it.\<close>

fun valid_notes_from :: "jsval list \<Rightarrow> jsval option \<Rightarrow> jsval list \<Rightarrow> bool" where
  "valid_notes_from ids previous [] = True"
| "valid_notes_from ids previous (n # ns) \<longleftrightarrow>
     valid_note n \<and> prop_of n ''id'' \<notin> set ids \<and>
     (case previous of None \<Rightarrow> True | Some p \<Rightarrow> noteOrder p n \<le> 0) \<and>
     valid_notes_from (prop_of n ''id'' # ids) (Some n) ns"

definition validNotes :: "jsval \<Rightarrow> bool" where
  "validNotes v = (case v of JArr ns \<Rightarrow> valid_notes_from [] None ns | _ \<Rightarrow> False)"

text \<open>\<open>/^https?:\/\/[^\s]+$/\<close>.\<close>

definition http_url :: "string \<Rightarrow> bool" where
  "http_url s \<longleftrightarrow>
     (\<exists>r \<in> set (List.map_filter (\<lambda>p. eat p s) [''http://'', ''https://'']). r \<noteq> [] \<and> \<not> list_ex is_ws r)"

definition validTickets :: "jsval \<Rightarrow> jsval list \<Rightarrow> bool" where
  "validTickets tickets notes \<longleftrightarrow>
     is_plain_object tickets \<and>
     list_all (\<lambda>(k, ticket).
       JStr k \<in> set (map (\<lambda>n. prop_of n ''id'') notes) \<and> exactKeys ticket [''identifier'', ''url''] \<and>
       is_line (prop_of ticket ''identifier'') \<and> is_line (prop_of ticket ''url'') \<and>
       http_url (string_or_empty (prop_of ticket ''url''))) (entries_of tickets)"

definition notes_line :: "string \<Rightarrow> (string \<times> string \<times> string) option" where
  "notes_line l = do {
     r \<leftarrow> eat_ci ''<!-- boss-verify-notes head='' l;
     (head, r) \<leftarrow> eat_exact 40 is_hex r;
     r \<leftarrow> eat_ci '' digest='' r;
     (digest, r) \<leftarrow> eat_exact 16 is_hex r;
     r \<leftarrow> eat '' '' r;
     (payload, r) \<leftarrow> eat_span b64_char r;
     line_end r;
     Some (head, digest, payload) }"

text \<open>The head, the digest and the tickets of a notes trailer; its notes stay with the digest.\<close>

definition parseNotesTrailer :: "codec \<Rightarrow> string \<Rightarrow> (string \<times> string \<times> jsval \<times> jsval) option" where
  "parseNotesTrailer cd body = do {
     (head, digest, payload) \<leftarrow> notes_line (last_line_of body);
     p \<leftarrow> cd_canonical cd payload;
     let notes = prop_of p ''notes''; let tickets = prop_of p ''tickets'';
     if exactKeys p [''version'', ''notes'', ''tickets''] \<and> prop_of p ''version'' = JNum (Fin 1) \<and> validNotes notes \<and>
        validTickets tickets (array_or_empty notes) \<and> cd_digest cd notes tickets = digest
     then Some (head, digest, notes, tickets) else None }"

subsection \<open>Judge records\<close>

definition MAX_JUDGE_AREAS :: nat where "MAX_JUDGE_AREAS = 8"
definition MAX_LABEL_LENGTH :: nat where "MAX_LABEL_LENGTH = 60"
definition MAX_REASON_LENGTH :: nat where "MAX_REASON_LENGTH = 200"

text \<open>\<open>s.length\<close> counts UTF-16 units: one for each code point, and one more for each of four bytes.\<close>

definition utf16_length :: "string \<Rightarrow> nat" where
  "utf16_length s = code_points s + length (filter (\<lambda>c. 240 \<le> (of_char c :: nat)) s)"

text \<open>\<open>/[\r\n\u2028\u2029]/\<close>; the last two are \<open>E2 80 A8\<close> and \<open>E2 80 A9\<close>.\<close>

definition breaks_line :: "string \<Rightarrow> bool" where
  "breaks_line s \<longleftrightarrow> list_ex newline_char s \<or>
     str_contains s [CHR 0xE2, CHR 0x80, CHR 0xA8] \<or> str_contains s [CHR 0xE2, CHR 0x80, CHR 0xA9]"

definition limited_line :: "nat \<Rightarrow> jsval \<Rightarrow> bool" where
  "limited_line limit v =
     (case v of JStr s \<Rightarrow> trim s \<noteq> [] \<and> utf16_length s \<le> limit \<and> \<not> breaks_line s | _ \<Rightarrow> False)"

definition judge_entry :: "jsval \<Rightarrow> bool" where
  "judge_entry v \<longleftrightarrow>
     is_plain_object v \<and> limited_line MAX_LABEL_LENGTH (prop_of v ''label'') \<and>
     (case prop_of v ''path'' of JStr s \<Rightarrow> s \<noteq> [] | _ \<Rightarrow> False) \<and>
     limited_line MAX_REASON_LENGTH (prop_of v ''reason'')"

definition parseJudgeRecord :: "codec \<Rightarrow> string \<Rightarrow> jsval list option" where
  "parseJudgeRecord cd value =
     (if value = [] \<or> \<not> list_all b64_char value then None
      else (case cd_canonical cd value of
              Some (JArr entries) \<Rightarrow>
                if length entries \<le> MAX_JUDGE_AREAS \<and>
                   list_all (\<lambda>e. judge_entry e \<and> fst ` set (entries_of e) \<subseteq> set [''label'', ''path'', ''reason'']) entries
                then Some entries else None
            | _ \<Rightarrow> None))"

section \<open>The records of a comment\<close>

definition ANCHOR_REVIEW_ASSOCIATIONS :: "string list" where
  "ANCHOR_REVIEW_ASSOCIATIONS = [''OWNER'', ''MEMBER'', ''COLLABORATOR'']"

text \<open>\<open>Number.isFinite(Number(run?.id)) ? Number(run.id) : -Infinity\<close>.\<close>

definition idOf :: "jsval \<Rightarrow> int option" where
  "idOf run = (case js_number (prop_of run ''id'') of Fin i \<Rightarrow> Some i | _ \<Rightarrow> None)"

definition stamp :: "jsval \<Rightarrow> string \<Rightarrow> string \<Rightarrow> marker_data \<Rightarrow> marker" where
  "stamp comment kind head data =
     \<lparr>mk_kind = kind, mk_head = to_lower head, mk_at = epochMs (prop_of comment ''created_at''),
      mk_id = idOf comment, mk_login = string_or_empty (prop_of (prop_of comment ''user'') ''login''),
      mk_url = (if is_nonempty_string (prop_of comment ''html_url'')
                then string_or_empty (prop_of comment ''html_url'') else []),
      mk_data = data\<rparr>"

definition stamp_updated :: "jsval \<Rightarrow> string \<Rightarrow> string \<Rightarrow> marker_data \<Rightarrow> marker" where
  "stamp_updated comment kind head data =
     (stamp comment kind head data)
       \<lparr>mk_at := epochMs (coalesce (prop_of comment ''updated_at'') (prop_of comment ''created_at''))\<rparr>"

text \<open>\<open>lines.map(trim).filter(Boolean).at(-1) ?? ''\<close>.\<close>

definition last_text_line :: "string \<Rightarrow> string" where
  "last_text_line body =
     (let ls = filter (\<lambda>l. l \<noteq> []) (map trim (split_on (CHR 0x0A) body)) in if ls = [] then [] else last ls)"

definition REPORT_MARKER :: string where "REPORT_MARKER = ''<!-- bs-review -->''"

text \<open>
  The readers of the body in their order; each gives the record of the comment, or leaves it to the
  next. The last one reads the operator's decisions.
\<close>

definition report_record :: "codec \<Rightarrow> jsval \<Rightarrow> string \<Rightarrow> marker option" where
  "report_record cd comment body = do {
     (base, head, findings) \<leftarrow> parseReportFindings cd body;
     if str_contains body REPORT_MARKER then Some (stamp_updated comment ''review-findings'' head (Findings findings))
     else None }"

definition blocker_record :: "codec \<Rightarrow> jsval \<Rightarrow> string \<Rightarrow> marker option" where
  "blocker_record cd comment body = do {
     file \<leftarrow> parseBlockerTrailer (cd_canonical cd) (JStr body);
     Some (stamp_updated comment ''blockers'' (string_or_empty (prop_of file ''head'')) (Blocker_file file)) }"

definition outcomes_record :: "codec \<Rightarrow> jsval \<Rightarrow> string \<Rightarrow> marker option" where
  "outcomes_record cd comment body = do {
     file \<leftarrow> parseOutcomesTrailer cd body;
     Some (stamp_updated comment ''repair-outcomes'' (string_or_empty (prop_of file ''pushedHead''))
       (Outcomes (string_or_empty (prop_of file ''blockersHead'')) (array_or_empty (prop_of file ''outcomes'')))) }"

definition digest_record :: "jsval \<Rightarrow> string \<Rightarrow> (string \<times> string) option \<Rightarrow> marker option" where
  "digest_record comment kind found = map_option (\<lambda>(head, digest). stamp comment kind head (Digest digest)) found"

definition notes_record :: "codec \<Rightarrow> jsval \<Rightarrow> string \<Rightarrow> marker option" where
  "notes_record cd comment body = do {
     (head, digest, notes, tickets) \<leftarrow> parseNotesTrailer cd body;
     Some (stamp_updated comment ''verify-notes'' head (Notes digest tickets)) }"

definition judge_record :: "codec \<Rightarrow> jsval \<Rightarrow> string \<Rightarrow> marker option" where
  "judge_record cd comment l = do {
     (head, areas) \<leftarrow> word_line ''boss-judge-record'' ''areas'' l;
     if parseJudgeRecord cd areas \<noteq> None then Some (stamp comment ''judge'' head (Judge_areas areas)) else None }"

definition operator_record :: "jsval \<Rightarrow> string \<Rightarrow> marker option" where
  "operator_record comment l = do {
     (kind, head, waives) \<leftarrow> operator_line l;
     if kind = ''approve''
     then do {
       codes \<leftarrow> (case waives of None \<Rightarrow> Some [] | Some w \<Rightarrow> parseHumanReasonList w);
       Some (stamp comment kind head (Waives (join '','' codes))) }
     else if waives \<noteq> None then None else Some (stamp comment kind head Nothing) }"

text \<open>An extension line ends the reading whether or not its record parses.\<close>

definition extensions_or_operator :: "jsval \<Rightarrow> string \<Rightarrow> marker option" where
  "extensions_or_operator comment l =
     (case word_line ''boss-extension-record'' ''judged'' l of
        Some (head, word) \<Rightarrow>
          map_option (\<lambda>judged. stamp comment ''extensions'' head (Judged judged)) (parseExtensionRecord word)
      | None \<Rightarrow> operator_record comment l)"

definition trusted_record :: "codec \<Rightarrow> jsval \<Rightarrow> string \<Rightarrow> string \<Rightarrow> marker option" where
  "trusted_record cd comment body l =
     first_found id
       [report_record cd comment body, blocker_record cd comment body, outcomes_record cd comment body,
        digest_record comment ''cannot-assess'' (digest_line ''boss-cannot-assess'' l),
        digest_record comment ''park-note'' (park_note_line l),
        digest_record comment ''after-merge'' (digest_line ''boss-after-merge'' l),
        digest_record comment ''not-applicable'' (digest_line ''boss-verify-not-applicable'' l),
        notes_record cd comment body,
        map_option (\<lambda>(head, from, patch). stamp comment ''carry'' head (Carried (to_lower from) patch)) (carry_line l),
        map_option (\<lambda>(head, p). stamp comment ''policy'' head (Policy_of p)) (policy_line l),
        judge_record cd comment l,
        extensions_or_operator comment l]"

definition comment_marker :: "codec \<Rightarrow> jsval \<Rightarrow> marker option" where
  "comment_marker cd comment =
     (if \<not> is_plain_object comment \<or> \<not> is_nonempty_string (prop_of (prop_of comment ''user'') ''login'') then None
      else
        (let body = string_or_empty (prop_of comment ''body''); l = last_text_line body;
             trusted = (prop_of comment ''author_association'' \<in> JStr ` set ANCHOR_REVIEW_ASSOCIATIONS) in
         case (if trusted then parseAcceptLine l else None) of
           Some (kind, head, data) \<Rightarrow> Some (stamp comment kind head data)
         | None \<Rightarrow>
             (case remote_session_line l of
                Some head \<Rightarrow> Some (stamp comment ''remote-session'' head Nothing)
              | None \<Rightarrow> if trusted then trusted_record cd comment body l else None)))"

definition operatorMarkers :: "codec \<Rightarrow> jsval list \<Rightarrow> marker list" where
  "operatorMarkers cd comments = List.map_filter (comment_marker cd) comments"

section \<open>The newest record\<close>

text \<open>\<open>a > b\<close> where \<open>None\<close> is \<open>-Infinity\<close>.\<close>

definition above :: "int option \<Rightarrow> int option \<Rightarrow> bool" where
  "above a b = (case (a, b) of (Some x, Some y) \<Rightarrow> y < x | (Some _, None) \<Rightarrow> True | _ \<Rightarrow> False)"

definition later :: "marker \<Rightarrow> marker \<Rightarrow> bool" where
  "later a b \<longleftrightarrow> above (mk_at a) (mk_at b) \<or> mk_at a = mk_at b \<and> above (mk_id a) (mk_id b)"

fun newest_by :: "('a \<Rightarrow> 'a \<Rightarrow> bool) \<Rightarrow> 'a option \<Rightarrow> 'a list \<Rightarrow> 'a option" where
  "newest_by beats best [] = best"
| "newest_by beats best (x # xs) =
     newest_by beats (case best of None \<Rightarrow> Some x | Some y \<Rightarrow> if beats x y then Some x else Some y) xs"

definition newestFor :: "marker list \<Rightarrow> string \<Rightarrow> (string \<Rightarrow> bool) \<Rightarrow> marker option" where
  "newestFor markers headSha wanted =
     (let head = to_lower headSha in
      newest_by later None (filter (\<lambda>m. SHA head \<and> mk_head m = head \<and> wanted (mk_kind m)) markers))"

definition is_decision :: "marker \<Rightarrow> bool" where
  "is_decision m \<longleftrightarrow> mk_kind m = ''approve'' \<or> mk_kind m = ''send-back''"

definition waives_of :: "marker \<Rightarrow> string" where
  "waives_of m = (case mk_data m of Waives w \<Rightarrow> w | _ \<Rightarrow> [])"

text \<open>The decision on a head and the comment that carries it.\<close>

definition operatorDecision :: "marker list \<Rightarrow> string \<Rightarrow> (operator_decision \<times> string) option" where
  "operatorDecision markers headSha =
     (case newestFor markers headSha (\<lambda>k. k = ''approve'' \<or> k = ''send-back'') of
        None \<Rightarrow> None
      | Some m \<Rightarrow>
          if mk_kind m = ''approve'' then Some (Approved_op (waives_of m), mk_url m)
          else Some (Sent_back_op, mk_url m))"

definition recordedPolicy :: "marker list \<Rightarrow> string \<Rightarrow> string option" where
  "recordedPolicy markers headSha =
     Option.bind (newestFor markers headSha (\<lambda>k. k = ''policy''))
       (\<lambda>m. case mk_data m of Policy_of p \<Rightarrow> Some p | _ \<Rightarrow> None)"

definition recordedExtensions :: "marker list \<Rightarrow> string \<Rightarrow> record_entry list option" where
  "recordedExtensions markers headSha =
     Option.bind (newestFor markers headSha (\<lambda>k. k = ''extensions''))
       (\<lambda>m. case mk_data m of Judged es \<Rightarrow> Some es | _ \<Rightarrow> None)"

definition remoteSessionNoted :: "marker list \<Rightarrow> string \<Rightarrow> bool" where
  "remoteSessionNoted markers headSha =
     list_ex (\<lambda>m. mk_kind m = ''remote-session'' \<and> mk_head m = headSha) markers"

text \<open>The acceptances of a head by blocker, in the order a blocker was first accepted.\<close>

definition accept_step :: "string \<Rightarrow> marker \<Rightarrow> (string \<times> marker) list \<Rightarrow> (string \<times> marker) list" where
  "accept_step head m accepted =
     (case mk_data m of
        Accepts blocker ticket \<Rightarrow>
          if mk_kind m = ''accept'' \<and> mk_head m = head \<and>
             (case map_of accepted blocker of None \<Rightarrow> True | Some p \<Rightarrow> later m p)
          then AList.update blocker m accepted else accepted
      | _ \<Rightarrow> accepted)"

definition acceptedOn :: "marker list \<Rightarrow> string \<Rightarrow> (string \<times> marker) list" where
  "acceptedOn markers head = fold (accept_step head) markers []"

definition newestAcceptance :: "marker list \<Rightarrow> string \<Rightarrow> int option" where
  "newestAcceptance markers head =
     (let times = List.map_filter (\<lambda>(_, m). mk_at m) (acceptedOn markers head) in
      if times = [] then None else Some (Max (set times)))"

section \<open>Carrying an approval to another head\<close>

record carry_from =
  cf_from :: string
  cf_waives :: string
  cf_url :: string

definition carryCandidate :: "marker list \<Rightarrow> string \<Rightarrow> string + carry_from" where
  "carryCandidate markers headSha =
     (let head = to_lower headSha in
      if \<not> SHA head then Inl ''no-head''
      else if operatorDecision markers head \<noteq> None then Inl ''head-decided''
      else
        (case newest_by later None (filter (\<lambda>m. mk_kind m = ''approve'' \<and> mk_head m \<noteq> head) markers) of
           None \<Rightarrow> Inl ''no-earlier-approval''
         | Some newest \<Rightarrow>
             if waives_of newest = [] then Inl ''nothing-to-carry''
             else if list_ex (\<lambda>m. mk_kind m = ''send-back'' \<and> later m newest) markers then Inl ''sent-back-after-approval''
             else Inr \<lparr>cf_from = mk_head newest, cf_waives = waives_of newest, cf_url = mk_url newest\<rparr>))"

text \<open>\<open>globToRegExp\<close>: the parts of the anchored pattern.\<close>

definition not_slash :: rx where "not_slash = RSet (\<lambda>c. c \<noteq> CHR ''/'')"

fun glob_parts :: "string \<Rightarrow> rx list" where
  "glob_parts [] = []"
| "glob_parts (c # s) =
     (if c = CHR ''*'' then
        (case s of
           d # s' \<Rightarrow>
             if d = CHR ''*'' then
               (case s' of
                  e # s'' \<Rightarrow>
                    if e = CHR ''/'' then ROpt (RSeqs [RStar RDot, RLit ''/'']) # glob_parts s''
                    else RStar RDot # glob_parts s'
                | [] \<Rightarrow> [RStar RDot])
             else RStar not_slash # glob_parts s
         | [] \<Rightarrow> [RStar not_slash])
      else if c = CHR ''?'' then not_slash # glob_parts s
      else RLit [c] # glob_parts s)"

definition glob_match :: "string \<Rightarrow> string \<Rightarrow> bool" where
  "glob_match glob path \<longleftrightarrow> rx_match (RSeqs (glob_parts glob @ [REnd])) path \<noteq> []"

definition generationChecksPassed :: "jsval \<Rightarrow> string list \<Rightarrow> bool" where
  "generationChecksPassed rollup names =
     (let entries = normalizeRollup rollup in
      list_all (\<lambda>name.
        let runs = filter (\<lambda>e. ename e = name) entries in
        runs \<noteq> [] \<and> list_all (\<lambda>e. to_upper (js_string (econclusion e)) = ''SUCCESS'') runs) names)"

text \<open>What git answers: a commit is at hand, a merge base, the changed names, the diff of some paths, a patch id.\<close>

record change_git =
  cg_commit :: "string \<Rightarrow> bool"
  cg_merge_base :: "string \<Rightarrow> string \<Rightarrow> string option"
  cg_names :: "string \<Rightarrow> string \<Rightarrow> string option"
  cg_diff :: "string \<Rightarrow> string \<Rightarrow> string list \<Rightarrow> string option"
  cg_patch_id :: "string \<Rightarrow> string option"

definition hand_written :: "string list \<Rightarrow> string \<Rightarrow> string list" where
  "hand_written generatedPaths names =
     filter (\<lambda>path. path \<noteq> [] \<and> \<not> list_ex (\<lambda>g. glob_match g path) generatedPaths) (split_on (CHR 0x00) names)"

definition readChangePatchId :: "change_git \<Rightarrow> string \<Rightarrow> string \<Rightarrow> string list \<Rightarrow> string + string" where
  "readChangePatchId git baseSha headSha generatedPaths =
     (if \<not> SHA baseSha \<or> \<not> SHA headSha then Inl ''no-sha''
      else if \<not> cg_commit git baseSha \<or> \<not> cg_commit git headSha then Inl ''commit-unavailable''
      else
        (case cg_merge_base git baseSha headSha of
           None \<Rightarrow> Inl ''merge-base-unreadable''
         | Some mb \<Rightarrow>
             if \<not> SHA mb then Inl ''merge-base-unreadable''
             else
               (case cg_names git mb headSha of
                  None \<Rightarrow> Inl ''diff-unreadable''
                | Some names \<Rightarrow>
                    (let kept = hand_written generatedPaths names in
                     if kept = [] then Inl ''no-hand-written-change''
                     else
                       (case cg_diff git mb headSha kept of
                          None \<Rightarrow> Inl ''diff-unreadable''
                        | Some diff \<Rightarrow>
                            (let out = (case cg_patch_id git diff of None \<Rightarrow> [] | Some t \<Rightarrow> t);
                                 patchId = to_lower (takeWhile (\<lambda>c. \<not> is_ws c) out) in
                             if SHA patchId then Inr patchId else Inl ''patch-id-unreadable''))))))"

definition judgeCarry ::
  "change_git \<Rightarrow> marker list \<Rightarrow> string \<Rightarrow> string \<Rightarrow> jsval \<Rightarrow> string list \<Rightarrow> string list \<Rightarrow> string + carry_from \<times> string" where
  "judgeCarry git markers headSha baseSha rollup generatedPaths generatedChecks =
     (case carryCandidate markers headSha of
        Inl why \<Rightarrow> Inl why
      | Inr candidate \<Rightarrow>
          if generatedPaths \<noteq> [] \<and> generatedChecks = [] then Inl ''generated-paths-unproven''
          else if \<not> generationChecksPassed rollup generatedChecks then Inl ''generation-checks-not-passed''
          else
            (case readChangePatchId git baseSha (cf_from candidate) generatedPaths of
               Inl why \<Rightarrow> Inl (''approved-head-'' @ why)
             | Inr approved \<Rightarrow>
                 (case readChangePatchId git baseSha headSha generatedPaths of
                    Inl why \<Rightarrow> Inl (''head-'' @ why)
                  | Inr current \<Rightarrow> if approved \<noteq> current then Inl ''change-differs'' else Inr (candidate, current))))"

section \<open>The comment of an approval\<close>

definition approveMarker :: "string \<Rightarrow> string list \<Rightarrow> string" where
  "approveMarker headSha codes =
     ''<!-- boss-approve head='' @ headSha @ (if codes \<noteq> [] then '' waives='' @ join '','' codes else []) @ '' -->''"

definition sendBackMarker :: "string \<Rightarrow> string" where
  "sendBackMarker headSha = ''<!-- boss-send-back head='' @ headSha @ '' -->''"

text \<open>\<open>approveComment\<close> over the words for a set of codes.\<close>

definition approveComment :: "(string \<Rightarrow> string) \<Rightarrow> string \<Rightarrow> string list \<Rightarrow> bool \<Rightarrow> string" where
  "approveComment categoryWords headSha codes merge =
     (let q = ''`'' @ headSha @ ''`'';
          scope =
            (if codes \<noteq> []
             then ''This approval waives '' @ categoryWords (join '','' codes) @ '' on '' @ q @ '' only; a new commit is judged afresh.''
             else if merge then ''Signed off for a merge of '' @ q @ ''; nothing was waiting, so it waives nothing.''
             else ''This lifts the earlier send-back of '' @ q @ ''; it waives nothing.'') in
      join [CHR 0x0A, CHR 0x0A] [''**Approved by the operator**'', scope, approveMarker headSha codes])"

section \<open>Lines read back\<close>

lemma eat_append: "eat lit (lit @ r) = Some r"
  by (simp add: eat_def starts_with_def)

lemma eat_exact_append: "length h = n \<Longrightarrow> list_all p h \<Longrightarrow> eat_exact n p (h @ r) = Some (h, r)"
  by (simp add: eat_exact_def)

lemma eat_span_append:
  assumes "w \<noteq> []" "list_all p w" "r = [] \<or> \<not> p (hd r)"
  shows "eat_span p (w @ r) = Some (w, r)"
proof -
  have "takeWhile p (w @ r) = w" using assms(2,3)
    by (induction w) (auto simp: list_all_iff takeWhile_eq_Nil_iff)
  then show ?thesis using assms(1) by (simp add: eat_span_def Let_def)
qed

text \<open>What a piece took stood at the front.\<close>

lemma eat_result: "eat lit s = Some r \<Longrightarrow> s = lit @ r"
  by (auto simp: eat_def starts_with_def split: if_splits) (metis append_take_drop_id)

lemma eat_exact_result: "eat_exact n p s = Some (h, r) \<Longrightarrow> s = h @ r \<and> list_all p h \<and> length h = n"
  by (auto simp: eat_exact_def split: if_splits)

lemma eat_span_result: "eat_span p s = Some (w, r) \<Longrightarrow> s = w @ r \<and> list_all p w \<and> w \<noteq> []"
  by (auto simp: eat_span_def Let_def list_all_iff dest: set_takeWhileD split: if_splits)
    (metis append_take_drop_id takeWhile_eq_take)

lemma line_end_result: "line_end s = Some u \<Longrightarrow> s = '' -->''"
  by (simp add: line_end_def split: if_splits)

lemma eat_miss: "take (length lit) s \<noteq> lit \<Longrightarrow> eat lit s = None"
  by (simp add: eat_def starts_with_def)

lemma eat_ci_miss: "to_lower (take (length lit) s) \<noteq> lit \<Longrightarrow> eat_ci lit s = None"
  by (simp add: eat_ci_def)

lemmas eat_results = eat_result eat_exact_result eat_span_result line_end_result

text \<open>A line of the operator starts like no other record.\<close>

definition marker_char :: "char \<Rightarrow> bool" where
  "marker_char c \<longleftrightarrow> c \<noteq> CHR 0x0A \<and> c \<noteq> CHR ''<''"

lemma lower_marker_char: "lower_char (CHR 0x0A) = CHR 0x0A" "lower_char (CHR ''<'') = CHR ''<''"
  by code_simp+

lemma marker_chars:
  "is_hex c \<Longrightarrow> marker_char c" "lower_hex c \<Longrightarrow> marker_char c" "b64_char c \<Longrightarrow> marker_char c"
  by (auto simp: marker_char_def is_hex_def lower_hex_def b64_char_def is_digit_def Let_def lower_marker_char)

lemma report_line_shape:
  assumes "report_line l = Some x"
  shows "\<exists>t. l = ''<!-- bs-review-findings v1 base='' @ t \<and> list_all marker_char t"
proof -
  obtain r1 base r2 r3 head r4 r5 payload r6 u where p:
    "eat ''<!-- bs-review-findings v1 base='' l = Some r1" "eat_exact 40 lower_hex r1 = Some (base, r2)"
    "eat '' head='' r2 = Some r3" "eat_exact 40 lower_hex r3 = Some (head, r4)" "eat '' '' r4 = Some r5"
    "eat_span b64_char r5 = Some (payload, r6)" "line_end r6 = Some u"
    using assms unfolding report_line_def by (auto simp: bind_eq_Some_conv split: prod.splits)
  have parts: "list_all marker_char base" "list_all marker_char head" "list_all marker_char payload"
    using eat_span_result[OF p(6)] eat_exact_result[OF p(2)] eat_exact_result[OF p(4)]
    by (auto simp: list_all_iff intro: marker_chars)
  have lits: "list_all marker_char '' head=''" "list_all marker_char '' ''" "list_all marker_char '' -->''" by code_simp+
  have "l = ''<!-- bs-review-findings v1 base='' @ (base @ '' head='' @ head @ '' '' @ payload @ '' -->'')"
    using eat_result[OF p(1)] eat_exact_result[OF p(2)] eat_result[OF p(3)] eat_exact_result[OF p(4)]
      eat_result[OF p(5)] eat_span_result[OF p(6)] line_end_result[OF p(7)] by simp
  moreover have "list_all marker_char (base @ '' head='' @ head @ '' '' @ payload @ '' -->'')"
    using parts lits by simp
  ultimately show ?thesis by blast
qed


lemma set_suffixes_of: "l \<in> set (suffixes_of s) \<longleftrightarrow> suffix l s"
  by (induction s) (auto simp: suffix_Cons)

lemma first_found_None: "(\<And>x. x \<in> set xs \<Longrightarrow> f x = None) \<Longrightarrow> first_found f xs = None"
  by (induction xs) (auto split: option.splits)

lemma suffix_after: "suffix l (pre @ c # m) \<Longrightarrow> c \<notin> set l \<Longrightarrow> suffix l m"
proof (induction pre)
  case Nil
  then show ?case by (auto simp: suffix_Cons)
next
  case (Cons p pre)
  then show ?case by (auto simp: suffix_Cons)
qed

text \<open>A body whose last line opens like no report holds none.\<close>

lemma no_report:
  assumes "m = CHR ''<'' # t" "list_all marker_char t" "take 20 m \<noteq> take 20 ''<!-- bs-review-findings v1 base=''"
    and "body = pre @ CHR 0x0A # m" "trim_end body = body"
  shows "parseReportFindings cd body = None"
proof -
  have "report_line l = None" if l: "suffix l body" for l
  proof (rule ccontr)
    assume "report_line l \<noteq> None"
    then obtain x where "report_line l = Some x" by blast
    from report_line_shape[OF this] obtain u where u: "l = ''<!-- bs-review-findings v1 base='' @ u" "list_all marker_char u" by blast
    have lits: "list_all marker_char ''!-- bs-review-findings v1 base=''" by code_simp
    then have tl: "list_all marker_char (tl l)" "l = CHR ''<'' # tl l" using u by simp_all
    then have "CHR 0x0A \<notin> set l" by (cases l) (auto simp: list_all_iff marker_char_def)
    with l have "suffix l m" unfolding assms(4) by (rule suffix_after)
    moreover have "CHR ''<'' \<notin> set t" using assms(2) by (auto simp: list_all_iff marker_char_def)
    then have "\<not> suffix l t" using tl(2) by (metis list.set_intros(1) set_mono_suffix subsetD)
    ultimately have "l = m" unfolding assms(1) by (simp add: suffix_Cons)
    moreover have "take 20 l = take 20 ''<!-- bs-review-findings v1 base=''" by (simp add: u(1))
    ultimately show False using assms(3) by blast
  qed
  then have "first_found report_line (suffixes_of (trim_end body)) = None"
    unfolding assms(5) by (intro first_found_None) (simp add: set_suffixes_of)
  then show ?thesis by (simp add: parseReportFindings_def)
qed

lemma trim_edges:
  assumes "s \<noteq> []" "\<not> is_ws (hd s)" "\<not> is_ws (last s)"
  shows "trim s = s"
proof -
  have "dropWhile is_ws s = s" using assms(1,2) by (cases s) auto
  moreover have "dropWhile is_ws (rev s) = rev s" using assms(1,3) by (cases "rev s") (auto simp: last_rev hd_rev dest: sym)
  ultimately show ?thesis by (simp add: trim_def)
qed

lemma last_text_line_of:
  assumes "m \<noteq> []" "\<not> is_ws (hd m)" "\<not> is_ws (last m)" "CHR 0x0A \<notin> set m"
  shows "last_text_line (pre @ CHR 0x0A # m) = m"
  using assms trim_edges[of m] by (simp add: last_text_line_def split_on_concat split_on_whole)

text \<open>A line that opens otherwise is no record of a kind.\<close>

lemma eat_front:
  assumes "take (length f) lit \<noteq> f" "length f \<le> length lit"
  shows "eat lit (f @ t) = None"
proof (rule eat_miss, rule notI)
  assume "take (length lit) (f @ t) = lit"
  from arg_cong[OF this, of "take (length f)"] assms show False by simp
qed

lemma eat_ci_front:
  assumes "take (length f) lit \<noteq> to_lower f" "length f \<le> length lit"
  shows "eat_ci lit (f @ t) = None"
proof (rule eat_ci_miss, rule notI)
  assume "to_lower (take (length lit) (f @ t)) = lit"
  from arg_cong[OF this, of "take (length f)"] assms show False
    by (simp add: to_lower_def take_map)
qed

section \<open>An approval record reads back\<close>

definition approve_front :: string where "approve_front = ''<!-- boss-approve''"

lemma other_lines:
  "accept_line (approve_front @ t) = None" "accepted_note_line (approve_front @ t) = None"
  "remote_session_line (approve_front @ t) = None" "park_note_line (approve_front @ t) = None"
  "digest_line ''boss-cannot-assess'' (approve_front @ t) = None"
  "digest_line ''boss-after-merge'' (approve_front @ t) = None"
  "digest_line ''boss-verify-not-applicable'' (approve_front @ t) = None"
  "carry_line (approve_front @ t) = None" "policy_line (approve_front @ t) = None"
  "word_line ''boss-judge-record'' ''areas'' (approve_front @ t) = None"
  "word_line ''boss-extension-record'' ''judged'' (approve_front @ t) = None"
  "outcomes_line (approve_front @ t) = None" "notes_line (approve_front @ t) = None"
  unfolding accept_line_def accepted_note_line_def remote_session_line_def park_note_line_def digest_line_def
    carry_line_def policy_line_def word_line_def outcomes_line_def notes_line_def
  by (subst eat_front eat_ci_front; simp add: approve_front_def to_lower_def lower_char_def)+

lemma no_blocker_line: "trailer_match (approve_front @ t) = None"
proof -
  have "to_lower (take (length trailer_open) (approve_front @ t)) \<noteq> trailer_open"
  proof
    assume "to_lower (take (length trailer_open) (approve_front @ t)) = trailer_open"
    from arg_cong[OF this, of "take (length approve_front)"] show False
      by (simp add: to_lower_def take_map approve_front_def trailer_open_def lower_char_def)
  qed
  then show ?thesis by (simp add: trailer_match_def Let_def)
qed

lemma operator_line_approve:
  assumes "SHA head" "codes = [] \<or> list_all (\<lambda>c. \<not> is_ws c) (join '','' codes) \<and> join '','' codes \<noteq> []"
  shows "operator_line (approveMarker head codes) =
    Some (''approve'', head, if codes = [] then None else Some (join '','' codes))"
proof -
  have head: "eat_exact 40 is_hex (head @ r) = Some (head, r)" for r
    using assms(1) by (intro eat_exact_append) (simp_all add: SHA_def)
  have front: "eat ''<!-- boss-approve'' (''<!-- boss-approve head='' @ r) = Some ('' head='' @ r)" for r
    using eat_append[of "''<!-- boss-approve''" "'' head='' @ r"] by simp
  show ?thesis
  proof (cases "codes = []")
    case True
    have "eat '' waives='' '' -->'' = None" by code_simp
    then show ?thesis using True
      by (simp add: approveMarker_def operator_line_def front[simplified] operator_rest_def
          eat_append[of "'' head=''", simplified] head line_end_def)
  next
    case False
    then have span: "eat_span (\<lambda>c. \<not> is_ws c) (join '','' codes @ '' -->'') = Some (join '','' codes, '' -->'')"
      using assms(2) by (intro eat_span_append) (simp_all add: is_ws_def)
    show ?thesis using False
      by (simp add: approveMarker_def operator_line_def front[simplified] operator_rest_def
          eat_append[of "'' head=''", simplified] head line_end_def eat_append[of "'' waives=''", simplified] span[simplified])
  qed
qed

text \<open>The codes of a park, in the order of the report, or none.\<close>

definition report_codes :: "string list \<Rightarrow> bool" where
  "report_codes codes \<longleftrightarrow> codes = filter (\<lambda>c. c \<in> set codes) HUMAN_REASONS"

lemma code_marker_chars: "list_all (list_all marker_char) HUMAN_REASONS"
  by code_simp

lemma join_all: "list_all p (join sep xs)" if "list_all (list_all p) xs" "list_all p sep"
  using that by (induction sep xs rule: join.induct) auto

lemma report_codes_chars:
  assumes "report_codes codes"
  shows "list_all marker_char (join '','' codes)" "list_all (\<lambda>c. \<not> is_ws c) (join '','' codes)"
    "codes \<noteq> [] \<Longrightarrow> join '','' codes \<noteq> []"
proof -
  have sub: "set codes \<subseteq> set HUMAN_REASONS" using assms unfolding report_codes_def by (rule sub_codes)
  have sep: "list_all marker_char '',''" "list_all (\<lambda>c. \<not> is_ws c) '',''" by code_simp+
  have "list_all (list_all marker_char) codes" using sub code_marker_chars by (auto simp: list_all_iff)
  then show "list_all marker_char (join '','' codes)" using sep(1) by (rule join_all)
  have plain: "\<forall>c\<in>set codes. c \<noteq> [] \<and> list_all (\<lambda>c. \<not> is_ws c) c"
    using sub codes_plain unfolding list_all_iff code_char_def by blast
  then have "list_all (list_all (\<lambda>c. \<not> is_ws c)) codes" by (simp add: list_all_iff)
  then show "list_all (\<lambda>c. \<not> is_ws c) (join '','' codes)" using sep(2) by (rule join_all)
  show "codes \<noteq> [] \<Longrightarrow> join '','' codes \<noteq> []"
    using plain by (cases codes; cases "tl codes") auto
qed

lemma approveMarker_shape:
  assumes "SHA head" "report_codes codes"
  shows "\<exists>t. approveMarker head codes = CHR ''<'' # t \<and> list_all marker_char t"
    and "\<exists>t. approveMarker head codes = approve_front @ t" "last (approveMarker head codes) = CHR ''>''"
proof -
  have h: "list_all marker_char head" using assms(1) marker_chars(1) by (auto simp: SHA_def list_all_iff)
  have "marker_char CHR ''!''" "marker_char CHR ''-''" "marker_char CHR '' ''" "marker_char CHR ''=''" "marker_char CHR ''>''"
    "list_all marker_char ''boss-approve head='' " "list_all marker_char '' waives=''" by code_simp+
  then show "\<exists>t. approveMarker head codes = CHR ''<'' # t \<and> list_all marker_char t"
    using h report_codes_chars(1)[OF assms(2)] by (simp add: approveMarker_def)
  show "\<exists>t. approveMarker head codes = approve_front @ t" by (simp add: approveMarker_def approve_front_def)
  show "last (approveMarker head codes) = CHR ''>''" by (simp add: approveMarker_def)
qed

lemma approveComment_shape:
  "\<exists>pre. approveComment words head codes merge = pre @ CHR 0x0A # approveMarker head codes"
proof -
  have "join [CHR 0x0A, CHR 0x0A] [a, b, m] = (a @ [CHR 0x0A, CHR 0x0A] @ b @ [CHR 0x0A]) @ CHR 0x0A # m" for a b m
    by simp
  then show ?thesis unfolding approveComment_def Let_def by blast
qed

lemma approval_comment_read:
  assumes "SHA head" "report_codes codes" "is_plain_object comment"
    "is_nonempty_string (prop_of (prop_of comment ''user'') ''login'')"
    "prop_of comment ''author_association'' \<in> JStr ` set ANCHOR_REVIEW_ASSOCIATIONS"
    "prop_of comment ''body'' = JStr (approveComment words head codes merge)"
  shows "comment_marker cd comment = Some (stamp comment ''approve'' head (Waives (join '','' codes)))"
proof -
  let ?m = "approveMarker head codes"
  obtain pre where body: "approveComment words head codes merge = pre @ CHR 0x0A # ?m" using approveComment_shape by blast
  obtain t where t: "?m = CHR ''<'' # t" "list_all marker_char t" using approveMarker_shape(1)[OF assms(1,2)] by blast
  obtain u where u: "?m = approve_front @ u" using approveMarker_shape(2)[OF assms(1,2)] by blast
  have ends: "?m \<noteq> []" "\<not> is_ws (hd ?m)" "\<not> is_ws (last ?m)" "CHR 0x0A \<notin> set ?m"
    using t approveMarker_shape(3)[OF assms(1,2)] by (auto simp: is_ws_def list_all_iff marker_char_def)
  have l: "last_text_line (pre @ CHR 0x0A # ?m) = ?m" by (rule last_text_line_of[OF ends])
  have te: "trim_end (pre @ CHR 0x0A # ?m) = pre @ CHR 0x0A # ?m" using ends by (intro trim_end_id) simp_all
  have ll: "last (split_on (CHR 0x0A) (pre @ CHR 0x0A # ?m)) = ?m" by (rule last_split_on[OF ends(4)])
  have diff: "take 20 ?m \<noteq> take 20 ''<!-- bs-review-findings v1 base=''" by (simp add: u approve_front_def)
  have none: "report_record cd comment (pre @ CHR 0x0A # ?m) = None" "blocker_record cd comment (pre @ CHR 0x0A # ?m) = None"
    "outcomes_record cd comment (pre @ CHR 0x0A # ?m) = None" "notes_record cd comment (pre @ CHR 0x0A # ?m) = None"
    "judge_record cd comment ?m = None"
    using no_report[OF t diff refl te] no_blocker_line[of u] other_lines
    by (simp_all add: report_record_def blocker_record_def parseBlockerTrailer_def te[unfolded u] ll[unfolded u] outcomes_record_def
        parseOutcomesTrailer_def last_line_of_def notes_record_def parseNotesTrailer_def judge_record_def u)
  have codes: "parseHumanReasonList (join '','' codes) = Some codes" if "codes \<noteq> []"
    using parse_reasons[OF that] assms(2) by (simp add: report_codes_def)
  have op: "operator_line ?m = Some (''approve'', head, if codes = [] then None else Some (join '','' codes))"
    using report_codes_chars[OF assms(2)] by (intro operator_line_approve[OF assms(1)]) auto
  have "operator_record comment ?m = Some (stamp comment ''approve'' head (Waives (join '','' codes)))"
    using codes by (simp add: operator_record_def op)
  moreover have "extensions_or_operator comment ?m = operator_record comment ?m"
    using other_lines(11)[of u] by (simp add: extensions_or_operator_def u)
  ultimately have "trusted_record cd comment (pre @ CHR 0x0A # ?m) ?m = Some (stamp comment ''approve'' head (Waives (join '','' codes)))"
    using other_lines[of u] none by (simp add: trusted_record_def digest_record_def u)
  then show ?thesis
    using assms(3-6) other_lines[of u] by (simp add: comment_marker_def Let_def string_or_empty_def body l[unfolded u] parseAcceptLine_def u)
qed

end
