(* ===== verification/VerifyApproval.thy ===== *)
theory VerifyApproval
  imports VerifyRecords
begin

text \<open>
  Reading and making an approval in \<open>verify/verify-gate.mjs\<close>: the status history of a head, the reads
  through \<open>gh\<close>, the filter that keeps the records of writers, \<open>approval\<close>, and \<open>approve\<close> with the
  settling of its record. What each read answers is an argument, one for each moment it is made. The
  lemmas show on whose word a park is handed back, and that an approval that reports success is
  honoured.
\<close>

section \<open>The status history of a head\<close>

text \<open>\<open>statusNodes\<close>: the slurped pages, one page, or a combined status; \<open>None\<close> is a wrong shape.\<close>

definition status_node :: "jsval \<Rightarrow> bool" where
  "status_node n \<longleftrightarrow> is_plain_object n \<and> is_string (prop_of n ''context'') \<and> is_string (prop_of n ''state'')"

definition statusNodes :: "jsval \<Rightarrow> jsval list option" where
  "statusNodes payload =
     (let nodes = (case payload of
            JArr pages \<Rightarrow> Some (if list_all is_array pages then concat (map array_or_empty pages) else pages)
          | JObj _ \<Rightarrow> (case prop_of payload ''statuses'' of JArr ns \<Rightarrow> Some ns | _ \<Rightarrow> None)
          | _ \<Rightarrow> None) in
      case nodes of None \<Rightarrow> None | Some ns \<Rightarrow> if list_all status_node ns then Some ns else None)"

definition VERIFY_CONTEXT :: string where "VERIFY_CONTEXT = ''boss/verify''"

definition vd_verified :: string where "vd_verified = ''verified''"
definition vd_verifiedApproved :: string where "vd_verifiedApproved = ''verified (approved)''"

text \<open>The entry \<open>classifyRead\<close> keeps of a node.\<close>

definition node_entry :: "jsval \<Rightarrow> head_status" where
  "node_entry n =
     \<lparr>hs_state = string_or_empty (prop_of n ''state''), hs_description = string_or_empty (prop_of n ''description''),
      hs_updatedAt = date_parse (string_or_empty (prop_of n ''updated_at''))\<rparr>"

text \<open>Of one context: the first status, unless a later one is strictly newer.\<close>

definition displaces :: "head_status \<Rightarrow> head_status \<Rightarrow> bool" where
  "displaces entry prior =
     (case (hs_updatedAt prior, hs_updatedAt entry) of (Some a, Some b) \<Rightarrow> a < b | _ \<Rightarrow> False)"

definition latest_of :: "string \<Rightarrow> jsval list \<Rightarrow> head_status option" where
  "latest_of context nodes =
     newest_by displaces None (map node_entry (filter (\<lambda>n. prop_of n ''context'' = JStr context) nodes))"

text \<open>A status as the gate's own readers see it, a state and a description.\<close>

definition bare_status :: "jsval \<Rightarrow> head_status" where
  "bare_status n =
     \<lparr>hs_state = string_or_empty (prop_of n ''state''), hs_description = string_or_empty (prop_of n ''description''),
      hs_updatedAt = None\<rparr>"

definition node_time :: "jsval \<Rightarrow> int option" where
  "node_time n = date_parse (js_string (coalesce (coalesce (prop_of n ''updated_at'') (prop_of n ''created_at'')) (JStr [])))"

text \<open>Newest first; the order of the API breaks ties and stands where a time cannot be read.\<close>

definition newest_first :: "nat \<times> jsval \<Rightarrow> nat \<times> jsval \<Rightarrow> int" where
  "newest_first a b =
     (let d = (case (node_time (snd a), node_time (snd b)) of (Some x, Some y) \<Rightarrow> y - x | _ \<Rightarrow> 0) in
      if d \<noteq> 0 then d else int (fst a) - int (fst b))"

definition newestVerifyFirst :: "jsval list \<Rightarrow> jsval list" where
  "newestVerifyFirst nodes =
     map snd (sort_by newest_first (List.enumerate 0 (filter (\<lambda>n. prop_of n ''context'' = JStr VERIFY_CONTEXT) nodes)))"

definition isClaim :: "jsval \<Rightarrow> bool" where
  "isClaim n \<longleftrightarrow> prop_of n ''state'' = JStr ''pending'' \<and>
     starts_with (js_string (coalesce (prop_of n ''description'') (JStr []))) vd_verifying"

definition replacesPark :: "head_status option \<Rightarrow> bool" where
  "replacesPark status =
     (case status of None \<Rightarrow> False
      | Some s \<Rightarrow> isCannotAssess s \<or>
          hs_state s = ''pending'' \<and>
          (starts_with (hs_description s) vd_waiting \<or> starts_with (hs_description s) vd_verifying))"

definition is_park :: "head_status option \<Rightarrow> bool" where
  "is_park status \<longleftrightarrow> parkOfStatus status \<noteq> None"

fun first_park :: "jsval list \<Rightarrow> head_status option" where
  "first_park [] = None"
| "first_park (n # ns) =
     (if is_park (Some (bare_status n)) then Some (bare_status n)
      else if \<not> replacesPark (Some (bare_status n)) then None
      else first_park ns)"

definition standingPark :: "jsval list \<Rightarrow> head_status option" where
  "standingPark nodes = first_park (newestVerifyFirst nodes)"

text \<open>\<open>None\<close> is an unreadable list.\<close>

definition extensionRunBeforePark :: "jsval list option \<Rightarrow> bool" where
  "extensionRunBeforePark nodes =
     (case nodes of None \<Rightarrow> True
      | Some ns \<Rightarrow>
          (case dropWhile (\<lambda>n. \<not> is_park (Some (bare_status n))) (newestVerifyFirst ns) of
             [] \<Rightarrow> True
           | _ # older \<Rightarrow> list_ex isClaim older))"

definition isVerified :: "head_status option \<Rightarrow> bool" where
  "isVerified status =
     (case status of None \<Rightarrow> False
      | Some s \<Rightarrow> hs_state s = ''success'' \<and> hs_description s \<in> {vd_verified, vd_verifiedApproved})"

definition isPlainVerified :: "head_status option \<Rightarrow> bool" where
  "isPlainVerified status =
     (case status of None \<Rightarrow> False | Some s \<Rightarrow> hs_state s = ''success'' \<and> hs_description s = vd_verified)"

definition unparkedVerdict :: "head_status \<Rightarrow> bool" where
  "unparkedVerdict s \<longleftrightarrow> isVerified (Some s) \<or>
     hs_state s = ''failure'' \<and> isSendBack (hs_description s) \<and> \<not> ends_in (hs_description s) vd_defectParkedSuffix"

definition headStandsUnparked :: "jsval list \<Rightarrow> bool" where
  "headStandsUnparked nodes =
     (case dropWhile (\<lambda>n. replacesPark (Some (bare_status n))) (newestVerifyFirst nodes) of
        [] \<Rightarrow> True
      | decided # _ \<Rightarrow> unparkedVerdict (bare_status decided))"

text \<open>\<open>unreadableRunCount\<close>: the unreadable outcomes at the front of a newest-first history.\<close>

definition CANNOT_ASSESS_AFTER_RUNS :: nat where "CANNOT_ASSESS_AFTER_RUNS = 3"

fun unreadableRunCount :: "string list \<Rightarrow> jsval list \<Rightarrow> nat" where
  "unreadableRunCount reasons [] = 0"
| "unreadableRunCount reasons (n # ns) =
     (let s = bare_status n in
      if prop_of n ''context'' \<noteq> JStr VERIFY_CONTEXT then unreadableRunCount reasons ns
      else if hs_state s = ''pending'' \<and> starts_with (hs_description s) vd_verifying then unreadableRunCount reasons ns
      else if isCannotAssess s \<or>
         (case eat (vd_waiting @ '' '') (hs_description s) of None \<Rightarrow> False | Some reason \<Rightarrow> reason \<in> set reasons)
      then Suc (unreadableRunCount reasons ns)
      else 0)"

section \<open>Reads\<close>

text \<open>
  What a read through \<open>gh\<close> answers: a payload, or a failure with the payload it printed. A verb makes
  each of these reads at most once between two of its writes, and no two are taken at one moment.
\<close>

datatype answer = Answered jsval | Failed jsval

record pr_answers =
  an_pr :: answer
  an_latest :: answer
  an_nodes :: answer
  an_comments :: answer
  an_permission :: "string \<Rightarrow> answer"

definition isGhNotFound :: "answer \<Rightarrow> bool" where
  "isGhNotFound r =
     (case r of Answered _ \<Rightarrow> False
      | Failed p \<Rightarrow> prop_of p ''status'' = JStr ''404'' \<or> prop_of p ''message'' = JStr ''Not Found'')"

definition OPERATOR_PERMISSIONS :: "string list" where "OPERATOR_PERMISSIONS = [''admin'', ''write'']"

definition canWrite :: "answer \<Rightarrow> bool option" where
  "canWrite r =
     (case r of
        Answered p \<Rightarrow> (case prop_of p ''permission'' of JStr s \<Rightarrow> Some (s \<in> set OPERATOR_PERMISSIONS) | _ \<Rightarrow> None)
      | Failed _ \<Rightarrow> if isGhNotFound r then Some False else None)"

definition ANY_AUTHOR_MARKERS :: "string list" where
  "ANY_AUTHOR_MARKERS = [''remote-session'', ''verify-notes'', ''not-applicable'']"

definition anyAuthor :: "marker \<Rightarrow> bool" where
  "anyAuthor m \<longleftrightarrow> mk_kind m \<in> set ANY_AUTHOR_MARKERS"

definition comment_list :: "answer \<Rightarrow> jsval list option" where
  "comment_list r =
     (case r of
        Answered (JArr pages) \<Rightarrow>
          if \<not> list_all is_array pages then None
          else (let comments = concat (map array_or_empty pages) in
            if list_ex (\<lambda>c. \<not> is_plain_object c \<or> epochMs (prop_of c ''created_at'') = None) comments then None
            else Some comments)
      | _ \<Rightarrow> None)"

text \<open>\<open>None\<close> is \<open>{readable: false}\<close>.\<close>

definition readOperatorMarkers :: "codec \<Rightarrow> pr_answers \<Rightarrow> marker list option" where
  "readOperatorMarkers cd a =
     (case comment_list (an_comments a) of
        None \<Rightarrow> None
      | Some comments \<Rightarrow>
          (let candidates = operatorMarkers cd comments;
               logins = map mk_login (filter (\<lambda>m. \<not> anyAuthor m) candidates) in
           if list_ex (\<lambda>login. canWrite (an_permission a login) = None) logins then None
           else Some (filter (\<lambda>m. anyAuthor m \<or> canWrite (an_permission a (mk_login m)) = Some True) candidates)))"

definition readOperatorDecision :: "codec \<Rightarrow> pr_answers \<Rightarrow> string \<Rightarrow> (operator_decision \<times> string) option option" where
  "readOperatorDecision cd a headSha =
     map_option (\<lambda>markers. operatorDecision markers headSha) (readOperatorMarkers cd a)"

definition status_answer :: "answer \<Rightarrow> jsval list option" where
  "status_answer r = (case r of Answered p \<Rightarrow> statusNodes p | Failed _ \<Rightarrow> None)"

text \<open>The status a decision is made against; \<open>None\<close> is unreadable.\<close>

definition readStandingStatus :: "pr_answers \<Rightarrow> head_status option option" where
  "readStandingStatus a =
     (case status_answer (an_latest a) of
        None \<Rightarrow> None
      | Some nodes \<Rightarrow>
          (let status = latest_of VERIFY_CONTEXT nodes in
           if \<not> replacesPark status then Some status
           else
             (case status_answer (an_nodes a) of
                None \<Rightarrow> None
              | Some all \<Rightarrow> Some (case standingPark all of None \<Rightarrow> status | Some park \<Rightarrow> Some park))))"

section \<open>Approval\<close>

datatype approval_answer =
    Unread string
  | Read_as approval string "string option"

definition matters_to_operator :: "head_status option \<Rightarrow> bool" where
  "matters_to_operator status \<longleftrightarrow>
     is_park status \<or> (case status of None \<Rightarrow> False | Some s \<Rightarrow> hs_state s \<in> {''pending'', ''failure''})"

definition park_codes_text :: "head_status option \<Rightarrow> string option" where
  "park_codes_text status =
     Option.bind (parkOfStatus status) (\<lambda>park. map_option (join '','') (pk_codes park))"

definition sent_back_status :: "head_status option \<Rightarrow> bool" where
  "sent_back_status status =
     (case status of None \<Rightarrow> False | Some s \<Rightarrow> hs_state s = ''failure'' \<and> isSendBack (hs_description s))"

definition usable_status :: "head_status option \<Rightarrow> bool" where
  "usable_status supplied \<longleftrightarrow>
     \<not> replacesPark supplied \<and>
     (is_park supplied \<or> sent_back_status supplied)"

definition blocked_status :: "head_status option \<Rightarrow> bool" where
  "blocked_status status =
     (case status of None \<Rightarrow> False | Some s \<Rightarrow> hs_state s = ''failure'' \<and> starts_with (hs_description s) vd_blocked)"

text \<open>The records matter only where an approval could waive or judge again.\<close>

definition facts_of_approval ::
  "jsval \<Rightarrow> string \<Rightarrow> head_status option \<Rightarrow> marker list option \<Rightarrow> string list option \<Rightarrow> string \<Rightarrow> approval_facts" where
  "facts_of_approval p headSha status markers labels needsHuman =
     \<lparr>af_prState = string_or_empty (prop_of p ''state''),
      af_reviewDecision = string_or_empty (prop_of p ''reviewDecision''),
      af_status = status, af_labels = (if sent_back_status status then labels else None),
      af_needsHumanLabel = needsHuman,
      af_operator = (if matters_to_operator status
        then map_option fst (Option.bind markers (\<lambda>ms. operatorDecision ms headSha)) else None),
      af_accepted = (if blocked_status status then Option.bind markers (\<lambda>ms. newestAcceptance ms headSha) else None)\<rparr>"

definition head_of_pr :: "jsval \<Rightarrow> string" where
  "head_of_pr p = (if sha (prop_of p ''headRefOid'') then string_or_empty (prop_of p ''headRefOid'') else [])"

text \<open>
  \<open>approval\<close>: \<open>supplied\<close> is a status the caller already read, \<open>labels\<close> the tracker's labels of the ticket
  when it could be asked.
\<close>

definition approval_reading ::
  "codec \<Rightarrow> pr_answers \<Rightarrow> head_status option \<Rightarrow> string list option \<Rightarrow> string \<Rightarrow> approval_answer" where
  "approval_reading cd a supplied labels needsHuman =
     (case an_pr a of
        Failed _ \<Rightarrow> Unread ''pr-unreadable''
      | Answered p \<Rightarrow>
          if prop_of p ''state'' = JStr ''MERGED'' then Read_as Merged_by_human [] None
          else
            (case (if usable_status supplied then Some supplied
                   else if head_of_pr p \<noteq> [] then readStandingStatus a else None) of
               None \<Rightarrow> Unread ''status-unreadable''
             | Some status \<Rightarrow>
                 if matters_to_operator status \<and> readOperatorMarkers cd a = None then Unread ''comments-unreadable''
                 else
                   Read_as
                     (classifyApproval (facts_of_approval p (head_of_pr p) status (readOperatorMarkers cd a) labels needsHuman))
                     (head_of_pr p) (park_codes_text status)))"

section \<open>Operator verbs\<close>

text \<open>The open PR and its head, or the refusal.\<close>

definition operatorPr :: "answer \<Rightarrow> string + string" where
  "operatorPr r =
     (case r of
        Failed _ \<Rightarrow> Inl ''pr-unreadable''
      | Answered p \<Rightarrow>
          if prop_of p ''state'' \<noteq> JStr ''OPEN'' then Inl ''pr-not-open''
          else if sha (prop_of p ''headRefOid'') then Inr (to_lower (string_or_empty (prop_of p ''headRefOid'')))
          else Inl ''head-unreadable'')"

definition stillStands :: "pr_answers \<Rightarrow> string \<Rightarrow> (head_status option \<Rightarrow> bool) \<Rightarrow> string" where
  "stillStands a headSha holds =
     (case operatorPr (an_pr a) of
        Inl reason \<Rightarrow> reason
      | Inr again \<Rightarrow>
          if again \<noteq> headSha then ''head-moved''
          else
            (case readStandingStatus a of
               None \<Rightarrow> ''status-unreadable''
             | Some status \<Rightarrow> if holds status then ''stands'' else ''head-moved''))"

definition GONE :: "string list" where "GONE = [''head-moved'', ''pr-not-open'']"

datatype settled =
    Effective string
  | Gone string
  | Unknown_effect string
  | Superseded
  | Absent

definition settleApproval ::
  "codec \<Rightarrow> pr_answers \<Rightarrow> string \<Rightarrow> string \<Rightarrow> (head_status option \<Rightarrow> bool) \<Rightarrow> settled" where
  "settleApproval cd a headSha waives holds =
     (let stands = stillStands a headSha holds in
      if stands \<noteq> ''stands'' then (if stands \<in> set GONE then Gone stands else Unknown_effect stands)
      else
        (case readOperatorDecision cd a headSha of
           None \<Rightarrow> Unknown_effect ''comments-unreadable''
         | Some None \<Rightarrow> Absent
         | Some (Some (decision, url)) \<Rightarrow> if decision = Approved_op waives then Effective url else Superseded))"

text \<open>
  Whether the post was made, the URL of the record and why the approval did not take effect. The first
  answers are read before the post, \<open>posted\<close> is the URL the post reports, the last are read after it.
\<close>

record post_result =
  po_attempted :: bool
  po_url :: string
  po_reason :: "string option"

definition postApproval ::
  "codec \<Rightarrow> pr_answers \<Rightarrow> string \<Rightarrow> pr_answers \<Rightarrow> string \<Rightarrow> string \<Rightarrow> (head_status option \<Rightarrow> bool) \<Rightarrow> post_result" where
  "postApproval cd before posted after headSha waives holds =
     (let stands = stillStands before headSha holds in
      if stands \<noteq> ''stands'' then \<lparr>po_attempted = False, po_url = [], po_reason = Some stands\<rparr>
      else
        (case settleApproval cd after headSha waives holds of
           Effective url \<Rightarrow> \<lparr>po_attempted = True, po_url = (if url \<noteq> [] then url else posted), po_reason = None\<rparr>
         | Gone reason \<Rightarrow> \<lparr>po_attempted = True, po_url = posted, po_reason = Some reason\<rparr>
         | Superseded \<Rightarrow> \<lparr>po_attempted = True, po_url = posted, po_reason = Some ''approval-superseded''\<rparr>
         | Absent \<Rightarrow> \<lparr>po_attempted = True, po_url = posted,
             po_reason = Some (if posted = [] then ''approval-record-failed'' else ''approval-unconfirmed'')\<rparr>
         | Unknown_effect _ \<Rightarrow> \<lparr>po_attempted = True, po_url = posted, po_reason = Some ''approval-unconfirmed''\<rparr>))"

record approve_options =
  ao_head :: "string option"
  ao_waives :: "string option"
  ao_forMerge :: bool
  ao_dryRun :: bool

text \<open>The pins, or the usage error.\<close>

definition approvePins :: "approve_options \<Rightarrow> string + string option \<times> string option" where
  "approvePins opts =
     (let head = map_option to_lower (ao_head opts); waives = map_option trim (ao_waives opts) in
      if (case head of Some h \<Rightarrow> \<not> SHA h | None \<Rightarrow> False) then Inl ''approve --head needs a 40-hex sha''
      else if ao_forMerge opts \<and> (head = None \<or> waives = None)
      then Inl ''approve --for-merge needs --head <sha> and --waives <codes>''
      else Inr (head, waives))"

text \<open>
  What an approval would waive and the status it must find standing: the codes of a known park, nothing
  for a merge of an unparked head, nothing to lift a send-back of a head verify passed.
\<close>

definition approve_scope ::
  "codec \<Rightarrow> pr_answers \<Rightarrow> bool \<Rightarrow> string \<Rightarrow> head_status option \<Rightarrow> string + string list \<times> (head_status option \<Rightarrow> bool)" where
  "approve_scope cd a forMerge headSha status =
     (case parkOfStatus status of
        Some park \<Rightarrow>
          (case pk_codes park of
             None \<Rightarrow> Inl ''park-codes-unknown''
           | Some codes \<Rightarrow> Inr (codes, \<lambda>s. park_codes_text s = Some (join '','' codes)))
      | None \<Rightarrow>
          if forMerge then Inr ([], \<lambda>s. \<not> is_park s)
          else if \<not> isVerified status then Inl ''no-standing-park''
          else
            (case readOperatorDecision cd a headSha of
               None \<Rightarrow> Inl ''comments-unreadable''
             | Some decision \<Rightarrow>
                 if map_option fst decision \<noteq> Some Sent_back_op then Inl ''no-standing-park''
                 else if \<not> isPlainVerified status then Inl ''sent-back-approved-head''
                 else Inr ([], isPlainVerified)))"

definition standing_waives :: "head_status option \<Rightarrow> string option" where
  "standing_waives status = (if is_park status then park_codes_text status else Some [])"

definition approverRefusal :: "codec \<Rightarrow> bool option \<Rightarrow> string option" where
  "approverRefusal cd writer =
     (case writer of
        Some True \<Rightarrow> None
      | Some False \<Rightarrow> Some ''approver-not-writer''
      | None \<Rightarrow> Some ''approver-unreadable'')"

datatype approve_result =
    Usage string
  | Refused string
  | Planned string string
  | Not_effective string string post_result
  | Approved_head string string post_result

text \<open>
  \<open>approve\<close> up to the tracker housekeeping: refused before any write, planned by a dry run, or posted. The
  last two carry the head, what was waived and how the post settled. \<open>first\<close> is what the verb reads
  first, \<open>writer\<close> whether its account can write.
\<close>

definition approve_verb ::
  "codec \<Rightarrow> approve_options \<Rightarrow> pr_answers \<Rightarrow> bool option \<Rightarrow> pr_answers \<Rightarrow> string \<Rightarrow> pr_answers \<Rightarrow> approve_result" where
  "approve_verb cd opts first writer before posted after =
     (case approvePins opts of
        Inl msg \<Rightarrow> Usage msg
      | Inr (pin_head, pin_waives) \<Rightarrow>
          (case operatorPr (an_pr first) of
             Inl reason \<Rightarrow> Refused reason
           | Inr headSha \<Rightarrow>
               if pin_head \<noteq> None \<and> pin_head \<noteq> Some headSha then Refused ''head-moved''
               else
                 (case readStandingStatus first of
                    None \<Rightarrow> Refused ''status-unreadable''
                  | Some status \<Rightarrow>
                      if pin_waives \<noteq> None \<and> standing_waives status \<noteq> pin_waives then Refused ''park-changed''
                      else
                        (case approve_scope cd first (ao_forMerge opts) headSha status of
                           Inl reason \<Rightarrow> Refused reason
                         | Inr (codes, holds) \<Rightarrow>
                             (case approverRefusal cd writer of
                                Some reason \<Rightarrow> Refused reason
                              | None \<Rightarrow>
                                  if ao_dryRun opts then Planned headSha (join '','' codes)
                                  else
                                    (let r = postApproval cd before posted after headSha (join '','' codes) holds in
                                     if po_reason r \<noteq> None then Not_effective headSha (join '','' codes) r
                                     else Approved_head headSha (join '','' codes) r))))))"

section \<open>The newest of a list\<close>

locale newest_choice =
  fixes beats :: "'a \<Rightarrow> 'a \<Rightarrow> bool"
  assumes asym: "beats x y \<Longrightarrow> \<not> beats y x"
    and weak: "\<not> beats x y \<Longrightarrow> \<not> beats y z \<Longrightarrow> \<not> beats x z"
begin

lemma newest_from:
  "\<exists>m. newest_by beats (Some b) xs = Some m \<and> m \<in> insert b (set xs) \<and> (\<forall>x\<in>insert b (set xs). \<not> beats x m)"
proof (induction xs arbitrary: b)
  case Nil
  then show ?case using asym by auto
next
  case (Cons x xs)
  show ?case
  proof (cases "beats x b")
    case True
    obtain m where m: "newest_by beats (Some x) xs = Some m" "m \<in> insert x (set xs)"
      "\<forall>y\<in>insert x (set xs). \<not> beats y m" using Cons by blast
    then have "\<not> beats b m" using asym[OF True] weak by blast
    then show ?thesis using m True by auto
  next
    case False
    obtain m where m: "newest_by beats (Some b) xs = Some m" "m \<in> insert b (set xs)"
      "\<forall>y\<in>insert b (set xs). \<not> beats y m" using Cons by blast
    then have "\<not> beats x m" using False weak by blast
    then show ?thesis using m False by auto
  qed
qed

lemma newest_Some:
  assumes "newest_by beats None xs = Some m"
  shows "m \<in> set xs" "x \<in> set xs \<Longrightarrow> \<not> beats x m"
  using assms newest_from[of "hd xs" "tl xs"] by (cases xs; auto)+

lemma newest_None: "newest_by beats None xs = None \<longleftrightarrow> xs = []"
  using newest_from[of "hd xs" "tl xs"] by (cases xs) auto

end

lemma above_order:
  "above a b \<Longrightarrow> \<not> above b a" "\<not> above a b \<Longrightarrow> \<not> above b c \<Longrightarrow> \<not> above a c"
  "\<not> above a b \<Longrightarrow> \<not> above b a \<Longrightarrow> a = b"
  by (auto simp: above_def split: option.splits)

interpretation newest_record: newest_choice later
  by unfold_locales (unfold later_def, (metis above_order)+)

lemma later_irrefl [simp]: "\<not> later m m"
  using newest_record.asym by blast

section \<open>Whose comments count\<close>

definition author_of :: "jsval \<Rightarrow> string" where
  "author_of c = string_or_empty (prop_of (prop_of c ''user'') ''login'')"

definition anchored :: "jsval \<Rightarrow> bool" where
  "anchored c \<longleftrightarrow> prop_of c ''author_association'' \<in> JStr ` set ANCHOR_REVIEW_ASSOCIATIONS"

lemma stamp_login [simp]: "mk_login (stamp c k h d) = author_of c" "mk_login (stamp_updated c k h d) = author_of c"
  by (simp_all add: stamp_def stamp_updated_def author_of_def)

lemma stamp_kind [simp]: "mk_kind (stamp c k h d) = k" "mk_kind (stamp_updated c k h d) = k"
  by (simp_all add: stamp_def stamp_updated_def)

lemma first_found_Some: "first_found f xs = Some y \<Longrightarrow> \<exists>x\<in>set xs. f x = Some y"
  by (induction xs) (auto split: option.splits)

lemma operator_record_login: "operator_record c l = Some m \<Longrightarrow> mk_login m = author_of c"
  by (auto simp: operator_record_def bind_eq_Some_conv split: if_splits)

lemma trusted_record_login:
  assumes "trusted_record cd c body l = Some m"
  shows "mk_login m = author_of c"
  using assms unfolding trusted_record_def
  by (auto dest!: first_found_Some simp: report_record_def blocker_record_def outcomes_record_def digest_record_def
      notes_record_def judge_record_def extensions_or_operator_def bind_eq_Some_conv operator_record_login
      split: if_splits option.splits)

lemma comment_marker_author:
  assumes "comment_marker cd c = Some m"
  shows "mk_login m = author_of c" "mk_kind m \<noteq> ''remote-session'' \<Longrightarrow> anchored c"
  using assms trusted_record_login by (auto simp: comment_marker_def Let_def anchored_def split: if_splits option.splits)

definition by_writer :: "pr_answers \<Rightarrow> jsval \<Rightarrow> bool" where
  "by_writer a c \<longleftrightarrow> canWrite (an_permission a (author_of c)) = Some True"

lemma map_filter_filter:
  assumes "\<And>x y. x \<in> set xs \<Longrightarrow> f x = Some y \<Longrightarrow> P y \<longleftrightarrow> Q x \<and> R y"
  shows "filter P (List.map_filter f xs) = filter R (List.map_filter f (filter Q xs))"
  using assms by (induction xs) (auto simp: List.map_filter_simps split: option.splits)

text \<open>Past the kinds that count whoever wrote them, the records read are those of the writers.\<close>

lemma decisive_records:
  assumes "readOperatorMarkers cd a = Some ms" "comment_list (an_comments a) = Some cs"
  shows "filter (\<lambda>m. \<not> anyAuthor m) ms =
    filter (\<lambda>m. \<not> anyAuthor m) (operatorMarkers cd (filter (by_writer a) cs))"
proof -
  have ms: "ms = filter (\<lambda>m. anyAuthor m \<or> canWrite (an_permission a (mk_login m)) = Some True) (operatorMarkers cd cs)"
    using assms by (simp add: readOperatorMarkers_def Let_def split: if_splits)
  have "filter (\<lambda>m. \<not> anyAuthor m) ms =
      filter (\<lambda>m. \<not> anyAuthor m \<and> canWrite (an_permission a (mk_login m)) = Some True) (operatorMarkers cd cs)"
    unfolding ms filter_filter by (rule filter_cong) auto
  also have "\<dots> = filter (\<lambda>m. \<not> anyAuthor m) (operatorMarkers cd (filter (by_writer a) cs))"
    unfolding operatorMarkers_def by (rule map_filter_filter) (auto simp: by_writer_def comment_marker_author(1))
  finally show ?thesis .
qed

lemma decisive_kinds:
  "k \<in> {''approve'', ''send-back'', ''policy'', ''extensions'', ''accept''} \<Longrightarrow> k \<notin> set ANY_AUTHOR_MARKERS"
  by (auto simp: ANY_AUTHOR_MARKERS_def)

lemma newestFor_decisive:
  assumes "\<And>k. wanted k \<Longrightarrow> k \<notin> set ANY_AUTHOR_MARKERS"
  shows "newestFor ms h wanted = newestFor (filter (\<lambda>m. \<not> anyAuthor m) ms) h wanted"
proof -
  have "filter (\<lambda>m. SHA (to_lower h) \<and> mk_head m = to_lower h \<and> wanted (mk_kind m)) ms =
      filter (\<lambda>m. SHA (to_lower h) \<and> mk_head m = to_lower h \<and> wanted (mk_kind m)) (filter (\<lambda>m. \<not> anyAuthor m) ms)"
    unfolding filter_filter using assms by (intro filter_cong) (auto simp: anyAuthor_def)
  then show ?thesis by (simp add: newestFor_def Let_def)
qed

lemma operatorDecision_decisive:
  "operatorDecision ms h = operatorDecision (filter (\<lambda>m. \<not> anyAuthor m) ms) h"
proof -
  have "newestFor ms h (\<lambda>k. k = ''approve'' \<or> k = ''send-back'') =
      newestFor (filter (\<lambda>m. \<not> anyAuthor m) ms) h (\<lambda>k. k = ''approve'' \<or> k = ''send-back'')"
    using decisive_kinds by (intro newestFor_decisive) auto
  then show ?thesis by (simp add: operatorDecision_def)
qed

lemma recorded_decisive:
  "recordedPolicy ms h = recordedPolicy (filter (\<lambda>m. \<not> anyAuthor m) ms) h"
  "recordedExtensions ms h = recordedExtensions (filter (\<lambda>m. \<not> anyAuthor m) ms) h"
proof -
  have "newestFor ms h (\<lambda>k. k = x) = newestFor (filter (\<lambda>m. \<not> anyAuthor m) ms) h (\<lambda>k. k = x)"
    if "x \<in> {''policy'', ''extensions''}" for x
    using decisive_kinds that by (intro newestFor_decisive) auto
  then show "recordedPolicy ms h = recordedPolicy (filter (\<lambda>m. \<not> anyAuthor m) ms) h"
    "recordedExtensions ms h = recordedExtensions (filter (\<lambda>m. \<not> anyAuthor m) ms) h"
    unfolding recordedPolicy_def recordedExtensions_def by simp_all
qed

lemma carry_decisive: "carryCandidate ms h = carryCandidate (filter (\<lambda>m. \<not> anyAuthor m) ms) h"
proof -
  have d: "mk_kind m = ''approve'' \<Longrightarrow> \<not> anyAuthor m" "mk_kind m = ''send-back'' \<Longrightarrow> \<not> anyAuthor m" for m
    using decisive_kinds by (auto simp: anyAuthor_def)
  have "filter (\<lambda>m. mk_kind m = ''approve'' \<and> mk_head m \<noteq> x) ms =
      filter (\<lambda>m. mk_kind m = ''approve'' \<and> mk_head m \<noteq> x) (filter (\<lambda>m. \<not> anyAuthor m) ms)" for x
    unfolding filter_filter using d by (intro filter_cong) auto
  moreover have "list_ex (\<lambda>m. mk_kind m = ''send-back'' \<and> later m n) ms =
      list_ex (\<lambda>m. mk_kind m = ''send-back'' \<and> later m n) (filter (\<lambda>m. \<not> anyAuthor m) ms)" for n
    using d by (auto simp: list_ex_iff)
  ultimately show ?thesis
    unfolding carryCandidate_def Let_def operatorDecision_decisive[of ms] by (simp split: option.split)
qed

lemma acceptance_decisive: "acceptedOn ms h = acceptedOn (filter (\<lambda>m. \<not> anyAuthor m) ms) h"
proof -
  have "anyAuthor m \<Longrightarrow> accept_step h m s = s" for m s
    using decisive_kinds by (auto simp: accept_step_def anyAuthor_def split: marker_data.splits)
  then have "fold (accept_step h) ms s = fold (accept_step h) (filter (\<lambda>m. \<not> anyAuthor m) ms) s" for s
    by (induction ms arbitrary: s) auto
  then show ?thesis by (simp add: acceptedOn_def)
qed

section \<open>What an approval rests on\<close>

text \<open>
  A writer's comment approves \<open>waives\<close> on a head: its record names the head and the codes, and no
  writer's decision on that head is newer.
\<close>

definition writer_approves :: "codec \<Rightarrow> pr_answers \<Rightarrow> string \<Rightarrow> string \<Rightarrow> bool" where
  "writer_approves cd a headSha waives \<longleftrightarrow>
     (\<exists>cs c m. comment_list (an_comments a) = Some cs \<and> c \<in> set cs \<and> comment_marker cd c = Some m \<and>
        anchored c \<and> by_writer a c \<and> mk_kind m = ''approve'' \<and> mk_head m = to_lower headSha \<and> SHA (to_lower headSha) \<and>
        waives_of m = waives \<and>
        (\<forall>c'\<in>set cs. \<forall>m'. comment_marker cd c' = Some m' \<and> by_writer a c' \<and> is_decision m' \<and>
           mk_head m' = to_lower headSha \<longrightarrow> \<not> later m' m))"

lemma set_operatorMarkers: "m \<in> set (operatorMarkers cd cs) \<longleftrightarrow> (\<exists>c\<in>set cs. comment_marker cd c = Some m)"
  by (auto simp: operatorMarkers_def List.map_filter_def) force

lemma decision_read:
  assumes "readOperatorDecision cd a headSha = Some (Some (Approved_op waives, url))"
  shows "writer_approves cd a headSha waives"
proof -
  obtain ms where ms: "readOperatorMarkers cd a = Some ms" "operatorDecision ms headSha = Some (Approved_op waives, url)"
    using assms by (auto simp: readOperatorDecision_def)
  obtain cs where cs: "comment_list (an_comments a) = Some cs"
    using ms(1) by (auto simp: readOperatorMarkers_def split: option.splits)
  let ?fs = "filter (\<lambda>m. \<not> anyAuthor m) (operatorMarkers cd (filter (by_writer a) cs))"
  let ?h = "to_lower headSha"
  have "operatorDecision ?fs headSha = Some (Approved_op waives, url)"
    using ms(2) operatorDecision_decisive[of ms headSha] decisive_records[OF ms(1) cs] by simp
  then obtain m where m: "newest_by later None (filter (\<lambda>m. SHA ?h \<and> mk_head m = ?h \<and> is_decision m) ?fs) = Some m"
      "mk_kind m = ''approve''" "waives_of m = waives"
    by (auto simp: operatorDecision_def newestFor_def Let_def is_decision_def split: option.splits if_splits)
  note best = newest_record.newest_Some[OF m(1)]
  have not_any: "is_decision m' \<Longrightarrow> \<not> anyAuthor m'" for m'
    using decisive_kinds by (auto simp: is_decision_def anyAuthor_def)
  obtain c where c: "c \<in> set cs" "by_writer a c" "comment_marker cd c = Some m" "SHA ?h" "mk_head m = ?h"
    using best(1) by (auto simp: set_operatorMarkers)
  have "anchored c" using comment_marker_author(2)[OF c(3)] m(2) by simp
  moreover have "\<not> later m' m" if "c' \<in> set cs" "comment_marker cd c' = Some m'" "by_writer a c'" "is_decision m'" "mk_head m' = ?h"
    for c' m'
    using that not_any c(4) by (intro best(2)) (auto simp: set_operatorMarkers)
  ultimately show ?thesis unfolding writer_approves_def using cs c m(2,3) by blast
qed

lemma approval_cases:
  assumes "approval_reading cd a supplied labels needsHuman = Read_as (Policy_park_approved w via) headSha codes"
  obtains p status where "an_pr a = Answered p" "prop_of p ''state'' \<noteq> JStr ''MERGED''"
    "status = supplied \<or> readStandingStatus a = Some status"
    "\<not> (matters_to_operator status \<and> readOperatorMarkers cd a = None)" "codes = park_codes_text status"
    "classifyApproval (facts_of_approval p headSha status (readOperatorMarkers cd a) labels needsHuman) =
       Policy_park_approved w via"
proof -
  obtain p where p: "an_pr a = Answered p" "prop_of p ''state'' \<noteq> JStr ''MERGED''"
    using assms by (cases "an_pr a") (auto simp: approval_reading_def split: if_splits)
  obtain status where status:
      "(if usable_status supplied then Some supplied else if head_of_pr p \<noteq> [] then readStandingStatus a else None) = Some status"
    using assms p by (auto simp: approval_reading_def split: option.splits)
  have "status = supplied \<or> readStandingStatus a = Some status" using status by (auto split: if_splits)
  moreover have "\<not> (matters_to_operator status \<and> readOperatorMarkers cd a = None)"
    using assms unfolding approval_reading_def p(1) answer.case if_not_P[OF p(2)] status option.case by (auto split: if_splits)
  moreover from this have "codes = park_codes_text status"
    "classifyApproval (facts_of_approval p headSha status (readOperatorMarkers cd a) labels needsHuman) = Policy_park_approved w via"
    using assms unfolding approval_reading_def p(1) answer.case if_not_P[OF p(2)] status option.case
    by (auto split: if_splits)
  ultimately show thesis using p that by blast
qed

lemma park_classified:
  assumes "classifyApproval f = Policy_park_approved w via"
  shows "park_codes_text (af_status f) = Some w"
    and "via = ''operator-approved'' \<and> af_operator f = Some (Approved_op w) \<or>
         via = ''review-approved'' \<and> af_reviewDecision f = ''APPROVED'' \<and> af_operator f \<noteq> Some Sent_back_op"
  using assms by (auto simp: classifyApproval_def park_codes_text_def Let_def split: if_splits option.splits)

lemma park_matters: "park_codes_text status = Some w \<Longrightarrow> matters_to_operator status"
  by (auto simp: park_codes_text_def matters_to_operator_def is_park_def bind_eq_Some_conv)

text \<open>C3:
  What hands a park back. When the gate reads a head as approved, the pull request is not merged, a park
  on exactly the waived codes stands on the head (or is the status the caller brought), and the approval is
  either a comment on the pull request, by an owner, member or collaborator whom the forge says can write,
  that names this head and these codes and is older than no other writer's decision on the head; or an
  approving review, when the newest decision of a writer on the head sends nothing back. No comment of
  anybody else can hand a park back.\<close>

theorem approval_rests_on_writer:
  assumes "approval_reading cd a supplied labels needsHuman = Read_as (Policy_park_approved w via) headSha codes"
  shows "codes = Some w \<and>
     (\<exists>p. an_pr a = Answered p \<and> prop_of p ''state'' \<noteq> JStr ''MERGED'' \<and>
        (park_codes_text supplied = Some w \<or> (\<exists>status. readStandingStatus a = Some status \<and> park_codes_text status = Some w)) \<and>
        (via = ''operator-approved'' \<and> writer_approves cd a headSha w \<or>
         via = ''review-approved'' \<and> prop_of p ''reviewDecision'' = JStr ''APPROVED'' \<and>
         (\<exists>d. readOperatorDecision cd a headSha = Some d \<and> map_option fst d \<noteq> Some Sent_back_op)))"
proof -
  obtain p status where p: "an_pr a = Answered p" "prop_of p ''state'' \<noteq> JStr ''MERGED''"
      and st: "status = supplied \<or> readStandingStatus a = Some status"
      and readable: "\<not> (matters_to_operator status \<and> readOperatorMarkers cd a = None)"
      and codes: "codes = park_codes_text status"
      and c: "classifyApproval (facts_of_approval p headSha status (readOperatorMarkers cd a) labels needsHuman) =
        Policy_park_approved w via"
    using approval_cases[OF assms] by blast
  have w: "park_codes_text status = Some w" using park_classified(1)[OF c] by (simp add: facts_of_approval_def)
  then obtain ms where ms: "readOperatorMarkers cd a = Some ms" using readable park_matters[of status] by auto
  let ?d = "operatorDecision ms headSha"
  have d: "readOperatorDecision cd a headSha = Some ?d" by (simp add: readOperatorDecision_def ms)
  have "via = ''operator-approved'' \<and> map_option fst ?d = Some (Approved_op w) \<or>
      via = ''review-approved'' \<and> string_or_empty (prop_of p ''reviewDecision'') = ''APPROVED'' \<and> map_option fst ?d \<noteq> Some Sent_back_op"
    using park_classified(2)[OF c] park_matters[OF w] by (simp add: facts_of_approval_def ms)
  moreover have "string_or_empty v = ''APPROVED'' \<longleftrightarrow> v = JStr ''APPROVED''" for v
    by (cases v) (simp_all add: string_or_empty_def)
  ultimately have "via = ''operator-approved'' \<and> writer_approves cd a headSha w \<or>
      via = ''review-approved'' \<and> prop_of p ''reviewDecision'' = JStr ''APPROVED'' \<and> map_option fst ?d \<noteq> Some Sent_back_op"
    using decision_read d by auto
  then show ?thesis using p st codes w d by blast
qed

section \<open>An approval that took effect\<close>

lemma operatorPr_open:
  assumes "operatorPr r = Inr h"
  obtains p where "r = Answered p" "prop_of p ''state'' = JStr ''OPEN''" "SHA (head_of_pr p)" "h = to_lower (head_of_pr p)"
  using assms
  by (auto simp: operatorPr_def head_of_pr_def sha_def string_or_empty_def split: answer.splits if_splits jsval.splits)

lemma stillStands_stands:
  assumes "stillStands a h holds = ''stands''"
  obtains status where "operatorPr (an_pr a) = Inr h" "readStandingStatus a = Some status" "holds status"
  using assms by (auto simp: stillStands_def operatorPr_def split: sum.splits if_splits option.splits answer.splits)

lemma settle_effective:
  assumes "settleApproval cd a h w holds = Effective url"
  shows "stillStands a h holds = ''stands''" "readOperatorDecision cd a h = Some (Some (Approved_op w, url))"
  using assms by (auto simp: settleApproval_def Let_def split: if_splits option.splits)

lemma lower_again [simp]: "to_lower (to_lower s) = to_lower s"
proof -
  have "lower_char (lower_char c) = lower_char c" for c
    by (auto simp: lower_char_def Let_def)
  then show ?thesis by (simp add: to_lower_def)
qed

lemma decision_lower: "operatorDecision ms (to_lower h) = operatorDecision ms h"
  by (simp add: operatorDecision_def newestFor_def)

text \<open>The status an approval must find standing is the park it answers, or no park at all.\<close>

lemma scope_holds:
  assumes "approve_scope cd a forMerge h status = Inr (codes, holds)" "holds s"
  shows "park_codes_text s = Some (join '','' codes) \<or> codes = [] \<and> \<not> is_park s"
proof -
  have "\<not> is_park t" if "isPlainVerified t" for t
    using that by (auto simp: isPlainVerified_def is_park_def parkOfStatus_def parseParkDescription_def
        vd_verified_def vd_needsHuman_def starts_with_def split: option.splits)
  then show ?thesis using assms
    by (auto simp: approve_scope_def split: option.splits if_splits)
qed

lemma scope_pinned:
  assumes "approve_scope cd a forMerge h status = Inr (codes, holds)" "standing_waives status = Some w"
  shows "w = join '','' codes"
  using assms by (auto simp: approve_scope_def standing_waives_def is_park_def park_codes_text_def split: option.splits if_splits)

lemma approved_reads:
  assumes "operatorPr (an_pr a) = Inr h" "readStandingStatus a = Some s" "park_codes_text s = Some w"
    and "readOperatorDecision cd a h = Some (Some (Approved_op w, url))"
  shows "\<exists>head. approval_reading cd a None labels needsHuman = Read_as (Policy_park_approved w ''operator-approved'') head (Some w) \<and>
    to_lower head = h"
proof -
  obtain p where p: "an_pr a = Answered p" "prop_of p ''state'' = JStr ''OPEN''" "SHA (head_of_pr p)" "h = to_lower (head_of_pr p)"
    using operatorPr_open[OF assms(1)] by blast
  obtain ms where ms: "readOperatorMarkers cd a = Some ms" "operatorDecision ms (head_of_pr p) = Some (Approved_op w, url)"
    using assms(4) by (auto simp: readOperatorDecision_def p(4) decision_lower)
  have "head_of_pr p \<noteq> []" using p(3) by (auto simp: SHA_def)
  moreover have "\<not> usable_status None" by (simp add: usable_status_def is_park_def parkOfStatus_def sent_back_status_def)
  moreover obtain pk codes where "parkOfStatus s = Some pk" "pk_codes pk = Some codes" "w = join '','' codes"
    using assms(3) by (auto simp: park_codes_text_def bind_eq_Some_conv)
  then have "classifyApproval (facts_of_approval p (head_of_pr p) s (Some ms) labels needsHuman) =
      Policy_park_approved w ''operator-approved''"
    using park_matters[OF assms(3)] ms(2) p(2) by (simp add: classifyApproval_def facts_of_approval_def string_or_empty_def)
  ultimately show ?thesis
    using p assms(2,3) ms(1) by (simp add: approval_reading_def)
qed

text \<open>C16:
  An approval that reports success is honoured. When \<open>approve\<close> says it approved a head, the account can
  write, the head and the codes are those the operator pinned, the pull request is still open on that head
  after the post, and a writer's comment that approves exactly these codes is the newest decision on it.
  Then either no park stands and nothing was waived, or the gate's own reading of the same answers hands
  exactly this park back.\<close>

theorem approve_is_honoured:
  assumes "approve_verb cd opts first writer before posted after = Approved_head h w r"
  shows "writer = Some True \<and> (\<forall>x. ao_head opts = Some x \<longrightarrow> to_lower x = h) \<and>
    (\<forall>x. ao_waives opts = Some x \<longrightarrow> trim x = w) \<and> \<not> ao_dryRun opts \<and> po_attempted r \<and>
    operatorPr (an_pr after) = Inr h \<and> writer_approves cd after h w \<and>
    (w = [] \<and> (\<exists>s. readStandingStatus after = Some s \<and> \<not> is_park s) \<or>
     (\<exists>head. approval_reading cd after None labels needsHuman =
        Read_as (Policy_park_approved w ''operator-approved'') head (Some w) \<and> to_lower head = h))"
proof -
  obtain pin_head pin_waives status codes holds where pins: "approvePins opts = Inr (pin_head, pin_waives)"
      and head: "operatorPr (an_pr first) = Inr h" "pin_head = None \<or> pin_head = Some h"
      and st: "readStandingStatus first = Some status" "pin_waives = None \<or> standing_waives status = pin_waives"
      and scope: "approve_scope cd first (ao_forMerge opts) h status = Inr (codes, holds)"
      and writer: "approverRefusal cd writer = None" and dry: "\<not> ao_dryRun opts"
      and post: "r = postApproval cd before posted after h (join '','' codes) holds" "po_reason r = None" "w = join '','' codes"
    using assms unfolding approve_verb_def
    by (auto simp: Let_def split: sum.splits prod.splits option.splits if_splits)
  have eff: "\<exists>url. settleApproval cd after h w holds = Effective url" "po_attempted r"
    using post by (auto simp: postApproval_def Let_def split: settled.splits if_splits)
  then obtain url where url: "settleApproval cd after h w holds = Effective url" by blast
  obtain s where s: "operatorPr (an_pr after) = Inr h" "readStandingStatus after = Some s" "holds s"
    using stillStands_stands[OF settle_effective(1)[OF url]] by blast
  note decision = settle_effective(2)[OF url]
  have "w = [] \<and> (\<exists>s. readStandingStatus after = Some s \<and> \<not> is_park s) \<or>
     (\<exists>head. approval_reading cd after None labels needsHuman =
        Read_as (Policy_park_approved w ''operator-approved'') head (Some w) \<and> to_lower head = h)"
    using scope_holds[OF scope s(3)] approved_reads[OF s(1,2) _ decision, of labels needsHuman] s(2) post(3) by auto
  moreover have "trim x = w" if "ao_waives opts = Some x" for x
    using that pins st(2) scope_pinned[OF scope] post(3) by (auto simp: approvePins_def Let_def split: if_splits)
  moreover have "to_lower x = h" if "ao_head opts = Some x" for x
    using that pins head(2) by (auto simp: approvePins_def Let_def split: if_splits)
  moreover have "writer = Some True" using writer by (auto simp: approverRefusal_def split: option.splits bool.splits)
  ultimately show ?thesis using decision_read[OF decision] dry eff(2) s(1) by blast
qed

text \<open>C24:
  Only writers decide. Two readings of a pull request whose comments differ in nothing but what accounts
  without write access said (added, edited or deleted) lead to the same operator decision on every head,
  the same acceptances, the same recorded policy and extension run, and the same approval to carry over.\<close>

theorem decisions_are_writers:
  assumes "readOperatorMarkers cd a = Some ms" "readOperatorMarkers cd a' = Some ms'"
    and "comment_list (an_comments a) = Some cs" "comment_list (an_comments a') = Some cs'"
    and "an_permission a' = an_permission a" "filter (by_writer a) cs' = filter (by_writer a) cs"
  shows "operatorDecision ms' h = operatorDecision ms h \<and> acceptedOn ms' h = acceptedOn ms h \<and>
    recordedPolicy ms' h = recordedPolicy ms h \<and> recordedExtensions ms' h = recordedExtensions ms h \<and>
    carryCandidate ms' h = carryCandidate ms h"
proof -
  have "by_writer a' = by_writer a" using assms(5) by (simp add: by_writer_def fun_eq_iff)
  then have same: "filter (\<lambda>m. \<not> anyAuthor m) ms' = filter (\<lambda>m. \<not> anyAuthor m) ms"
    using decisive_records[OF assms(1,3)] decisive_records[OF assms(2,4)] assms(6) by simp
  show ?thesis
    unfolding operatorDecision_decisive[of ms'] operatorDecision_decisive[of ms] acceptance_decisive[of ms'] acceptance_decisive[of ms]
      recorded_decisive[of ms'] recorded_decisive[of ms] carry_decisive[of ms'] carry_decisive[of ms] same by simp
qed

section \<open>Carrying an approval\<close>

lemma carryCandidate_sound:
  assumes "carryCandidate ms h = Inr c"
  shows "SHA (to_lower h) \<and> operatorDecision ms h = None \<and>
    (\<exists>m\<in>set ms. mk_kind m = ''approve'' \<and> mk_head m = cf_from c \<and> cf_from c \<noteq> to_lower h \<and> waives_of m = cf_waives c \<and>
       cf_waives c \<noteq> [] \<and>
       (\<forall>n\<in>set ms. mk_kind n = ''approve'' \<and> mk_head n \<noteq> to_lower h \<or> mk_kind n = ''send-back'' \<longrightarrow> \<not> later n m))"
proof -
  obtain m where m: "SHA (to_lower h)" "operatorDecision ms (to_lower h) = None"
      "newest_by later None (filter (\<lambda>m. mk_kind m = ''approve'' \<and> mk_head m \<noteq> to_lower h) ms) = Some m"
      "waives_of m \<noteq> []" "\<not> list_ex (\<lambda>n. mk_kind n = ''send-back'' \<and> later n m) ms"
      "c = \<lparr>cf_from = mk_head m, cf_waives = waives_of m, cf_url = mk_url m\<rparr>"
    using assms by (cases "operatorDecision ms (to_lower h)") (auto simp: carryCandidate_def Let_def split: if_splits option.splits)
  note best = newest_record.newest_Some[OF m(3)]
  show ?thesis using m best by (auto simp: list_ex_iff decision_lower)
qed

text \<open>C11:
  What may be carried over a rebase. An approval reaches another head only if no decision was made on that
  head, the newest approval of an earlier head waives something, nobody sent the pull request back since,
  the two heads make the same change by their patch ids, and, when generated files are left out of that
  comparison, the checks that regenerate them are named and passed. It waives what the approval waived.\<close>

theorem carry_is_the_same_change:
  assumes "judgeCarry git ms h base rollup paths checks = Inr (c, pid)"
  shows "operatorDecision ms h = None \<and> generationChecksPassed rollup checks \<and> (paths \<noteq> [] \<longrightarrow> checks \<noteq> []) \<and>
    readChangePatchId git base (cf_from c) paths = Inr pid \<and> readChangePatchId git base h paths = Inr pid \<and>
    (\<exists>m\<in>set ms. mk_kind m = ''approve'' \<and> mk_head m = cf_from c \<and> cf_from c \<noteq> to_lower h \<and> waives_of m = cf_waives c \<and>
       cf_waives c \<noteq> [] \<and>
       (\<forall>n\<in>set ms. mk_kind n = ''approve'' \<and> mk_head n \<noteq> to_lower h \<or> mk_kind n = ''send-back'' \<longrightarrow> \<not> later n m))"
proof -
  have "carryCandidate ms h = Inr c" "generationChecksPassed rollup checks" "paths \<noteq> [] \<longrightarrow> checks \<noteq> []"
    "readChangePatchId git base (cf_from c) paths = Inr pid" "readChangePatchId git base h paths = Inr pid"
    using assms by (auto simp: judgeCarry_def split: sum.splits if_splits)
  then show ?thesis using carryCandidate_sound by blast
qed

section \<open>An approval on record\<close>

definition demo_codec :: codec where
  "demo_codec = \<lparr>cd_canonical = \<lambda>_. None, cd_any = \<lambda>_. None, cd_digest = \<lambda>_ _. []\<rparr>"

definition approved_oid :: string where "approved_oid = replicate 40 (CHR ''a'')"

definition demo_remark :: "string \<Rightarrow> string \<Rightarrow> string \<Rightarrow> jsval" where
  "demo_remark login time body =
     JObj [(''user'', JObj [(''login'', JStr login)]), (''created_at'', JStr time), (''author_association'', JStr ''MEMBER''),
           (''id'', JNum (Fin 7)), (''html_url'', JStr ''https://forge/7''), (''body'', JStr body)]"

definition demo_gh :: "jsval list \<Rightarrow> pr_answers" where
  "demo_gh comments =
     \<lparr>an_pr = Answered (JObj [(''state'', JStr ''OPEN''), (''headRefOid'', JStr approved_oid)]),
      an_latest = Answered (JArr [JArr [JObj [(''context'', JStr VERIFY_CONTEXT), (''state'', JStr ''pending''),
        (''description'', JStr ''needs human: no-receipt'')]]]),
      an_nodes = Failed JNull,
      an_comments = Answered (JArr [JArr comments]),
      an_permission = \<lambda>login. Answered (JObj [(''permission'', JStr (if login = ''ann'' then ''write'' else ''read''))])\<rparr>"

definition ann_approves :: jsval where
  "ann_approves = demo_remark ''ann'' ''2026-01-02T00:00:00Z'' (approveComment (\<lambda>codes. codes) approved_oid [''no-receipt''] False)"

definition eve_approves :: jsval where
  "eve_approves = demo_remark ''eve'' ''2026-01-03T00:00:00Z'' (sendBackMarker approved_oid)"


definition demo_approve_opts :: approve_options where
  "demo_approve_opts = \<lparr>ao_head = Some approved_oid, ao_waives = Some ''no-receipt'', ao_forMerge = False, ao_dryRun = False\<rparr>"

definition demo_status :: head_status where
  "demo_status = the (the (readStandingStatus (demo_gh [])))"

lemma demo_head_sha: "SHA approved_oid" "to_lower approved_oid = approved_oid" "report_codes [''no-receipt'']"
  by code_simp+

lemma ann_named: "trim ''ann'' \<noteq> []" by code_simp

lemma ann_read:
  "comment_marker demo_codec ann_approves = Some (stamp ann_approves ''approve'' approved_oid (Waives ''no-receipt''))"
proof -
  have login: "is_nonempty_string (prop_of (prop_of ann_approves ''user'') ''login'')"
    using ann_named by (simp add: ann_approves_def demo_remark_def is_nonempty_string_def)
  have "comment_marker demo_codec ann_approves = Some (stamp ann_approves ''approve'' approved_oid (Waives (join '','' [''no-receipt''])))"
    by (rule approval_comment_read[OF demo_head_sha(1,3) _ login])
      (simp_all add: ann_approves_def demo_remark_def is_plain_object_def ANCHOR_REVIEW_ASSOCIATIONS_def)
  then show ?thesis by simp
qed

lemma demo_pr: "operatorPr (an_pr (demo_gh cs)) = Inr approved_oid"
proof -
  have "operatorPr (an_pr (demo_gh [])) = Inr approved_oid" by code_simp
  then show ?thesis by (simp add: demo_gh_def)
qed

lemma demo_standing: "readStandingStatus (demo_gh cs) = Some (Some demo_status)"
proof -
  have "readStandingStatus (demo_gh []) = Some (Some demo_status)" by code_simp
  moreover have latest: "an_latest (demo_gh cs) = an_latest (demo_gh [])"
    and nodes: "an_nodes (demo_gh cs) = an_nodes (demo_gh [])"
    by (simp_all add: demo_gh_def)
  ultimately show ?thesis unfolding readStandingStatus_def latest nodes by simp
qed

lemma demo_park: "map_option pk_codes (parkOfStatus (Some demo_status)) = Some (Some [''no-receipt''])"
  by code_simp

lemma demo_codes: "park_codes_text (Some demo_status) = Some ''no-receipt''" "is_park (Some demo_status)"
  using demo_park by (auto simp: park_codes_text_def is_park_def)

lemma demo_times:
  "is_plain_object ann_approves \<and> (\<exists>t. epochMs (prop_of ann_approves ''created_at'') = Some t)"
  "is_plain_object eve_approves \<and> (\<exists>t. epochMs (prop_of eve_approves ''created_at'') = Some t)"
proof -
  have "map_option (\<lambda>_. ()) (epochMs (JStr ''2026-01-02T00:00:00Z'')) = Some ()"
    "map_option (\<lambda>_. ()) (epochMs (JStr ''2026-01-03T00:00:00Z'')) = Some ()" by code_simp+
  then show "is_plain_object ann_approves \<and> (\<exists>t. epochMs (prop_of ann_approves ''created_at'') = Some t)"
    "is_plain_object eve_approves \<and> (\<exists>t. epochMs (prop_of eve_approves ''created_at'') = Some t)"
    by (auto simp: ann_approves_def eve_approves_def demo_remark_def is_plain_object_def)
qed

lemma ann_authors: "author_of ann_approves = ''ann''" "author_of eve_approves = ''eve''"
  by (simp_all add: author_of_def ann_approves_def eve_approves_def demo_remark_def string_or_empty_def)

lemma demo_permission: "canWrite (an_permission (demo_gh cs) login) = Some (login = ''ann'')"
  by (simp add: demo_gh_def canWrite_def OPERATOR_PERMISSIONS_def)

lemma demo_comments:
  "comment_list (an_comments (demo_gh [ann_approves])) = Some [ann_approves]"
  "comment_list (an_comments (demo_gh [eve_approves, ann_approves])) = Some [eve_approves, ann_approves]"
  using demo_times by (auto simp: demo_gh_def comment_list_def Let_def is_array_def array_or_empty_def)

lemma demo_markers:
  "readOperatorMarkers demo_codec (demo_gh [ann_approves]) =
     Some [stamp ann_approves ''approve'' approved_oid (Waives ''no-receipt'')]"
  by (simp add: readOperatorMarkers_def demo_comments operatorMarkers_def List.map_filter_simps ann_read ann_authors
      demo_permission anyAuthor_def)

lemma demo_decision:
  "readOperatorDecision demo_codec (demo_gh [ann_approves]) approved_oid =
     Some (Some (Approved_op ''no-receipt'', ''https://forge/7''))"
proof -
  have "trim ''https://forge/7'' \<noteq> []" by code_simp
  then have "mk_url (stamp ann_approves k h d) = ''https://forge/7''" for k h d
    by (simp add: stamp_def ann_approves_def demo_remark_def string_or_empty_def is_nonempty_string_def)
  moreover have "waives_of (stamp c k h (Waives w)) = w" "mk_head (stamp c k h d) = to_lower h" for c k h w d
    by (simp_all add: stamp_def waives_of_def)
  ultimately show ?thesis
    by (simp add: readOperatorDecision_def demo_markers operatorDecision_def newestFor_def Let_def demo_head_sha)
qed

theorem approval_rests_on_writer_witness:
  "writer_approves demo_codec (demo_gh [ann_approves]) approved_oid ''no-receipt''"
proof -
  obtain head where r: "approval_reading demo_codec (demo_gh [ann_approves]) None None ''needs-human'' =
      Read_as (Policy_park_approved ''no-receipt'' ''operator-approved'') head (Some ''no-receipt'')" "to_lower head = approved_oid"
    using approved_reads[OF demo_pr demo_standing demo_codes(1) demo_decision] by blast
  have "writer_approves demo_codec (demo_gh [ann_approves]) head ''no-receipt''"
    using approval_rests_on_writer[OF r(1)] by auto
  then show ?thesis by (simp add: writer_approves_def demo_head_sha r(2))
qed

lemma demo_stands: "stillStands (demo_gh cs) approved_oid (\<lambda>s. park_codes_text s = Some ''no-receipt'') = ''stands''"
  by (simp add: stillStands_def demo_pr demo_standing demo_codes)

lemma demo_scope:
  "approve_scope cd (demo_gh []) False approved_oid (Some demo_status) =
     Inr ([''no-receipt''], \<lambda>s. park_codes_text s = Some ''no-receipt'')"
  using demo_park by (auto simp: approve_scope_def)

lemma demo_approve:
  "\<exists>r. approve_verb demo_codec demo_approve_opts (demo_gh []) (Some True) (demo_gh []) ''https://forge/7''
     (demo_gh [ann_approves]) = Approved_head approved_oid ''no-receipt'' r"
proof -
  have "trim ''no-receipt'' = ''no-receipt''" by code_simp
  then have "approvePins demo_approve_opts = Inr (Some approved_oid, Some ''no-receipt'')"
    by (simp add: approvePins_def demo_approve_opts_def demo_head_sha)
  then show ?thesis
    by (simp add: approve_verb_def demo_pr demo_standing standing_waives_def demo_codes demo_scope approverRefusal_def
        postApproval_def settleApproval_def demo_stands demo_decision demo_approve_opts_def)
qed

theorem approve_is_honoured_witness:
  "\<exists>head. approval_reading demo_codec (demo_gh [ann_approves]) None None ''needs-human'' =
     Read_as (Policy_park_approved ''no-receipt'' ''operator-approved'') head (Some ''no-receipt'') \<and> to_lower head = approved_oid"
proof -
  obtain r where "approve_verb demo_codec demo_approve_opts (demo_gh []) (Some True) (demo_gh []) ''https://forge/7''
      (demo_gh [ann_approves]) = Approved_head approved_oid ''no-receipt'' r" using demo_approve by blast
  from approve_is_honoured[OF this, of None "''needs-human''"] show ?thesis by simp
qed


lemma eve_read: "map_option mk_kind (comment_marker demo_codec eve_approves) = Some ''send-back''"
  by code_simp

lemma demo_writers: "by_writer (demo_gh cs) c \<longleftrightarrow> author_of c = ''ann''"
  by (simp add: by_writer_def demo_permission)

theorem decisions_are_writers_witness:
  "\<exists>ms'. readOperatorMarkers demo_codec (demo_gh [eve_approves, ann_approves]) = Some ms' \<and>
     operatorDecision ms' approved_oid = Some (Approved_op ''no-receipt'', ''https://forge/7'')"
proof -
  obtain ms' where ms': "readOperatorMarkers demo_codec (demo_gh [eve_approves, ann_approves]) = Some ms'"
    by (simp add: readOperatorMarkers_def demo_comments demo_permission list_ex_iff)
  have "an_permission (demo_gh [eve_approves, ann_approves]) = an_permission (demo_gh [ann_approves])"
    "filter (by_writer (demo_gh [ann_approves])) [eve_approves, ann_approves] =
     filter (by_writer (demo_gh [ann_approves])) [ann_approves]"
    by (simp_all add: demo_writers ann_authors) (simp add: demo_gh_def)
  note decisions_are_writers[OF demo_markers ms' demo_comments this, of approved_oid]
  moreover have "operatorDecision [stamp ann_approves ''approve'' approved_oid (Waives ''no-receipt'')] approved_oid =
      Some (Approved_op ''no-receipt'', ''https://forge/7'')"
    using demo_decision by (simp add: readOperatorDecision_def demo_markers)
  ultimately show ?thesis using ms' by simp
qed

definition demo_change :: change_git where
  "demo_change =
     \<lparr>cg_commit = \<lambda>_. True, cg_merge_base = \<lambda>_ _. Some approved_oid, cg_names = \<lambda>_ _. Some ''a.ts'',
      cg_diff = \<lambda>_ _ _. Some ''+x'', cg_patch_id = \<lambda>_. Some approved_oid\<rparr>"

definition carried_marker :: marker where
  "carried_marker = \<lparr>mk_kind = ''approve'', mk_head = approved_oid, mk_at = Some 1, mk_id = Some 1, mk_login = ''ann'',
     mk_url = [], mk_data = Waives ''no-receipt''\<rparr>"

theorem carry_is_the_same_change_witness:
  "readChangePatchId demo_change approved_oid approved_oid [] = Inr approved_oid \<and>
   readChangePatchId demo_change approved_oid (replicate 40 (CHR ''b'')) [] = Inr approved_oid"
proof -
  have "judgeCarry demo_change [carried_marker] (replicate 40 (CHR ''b'')) approved_oid (JArr []) [] [] =
      Inr (\<lparr>cf_from = approved_oid, cf_waives = ''no-receipt'', cf_url = []\<rparr>, approved_oid)" by code_simp
  from carry_is_the_same_change[OF this] show ?thesis by simp
qed

section \<open>An approval reads back\<close>

lemma SHA_lower: "SHA h \<Longrightarrow> SHA (to_lower h)"
  by (auto simp: SHA_def list_all_iff to_lower_def is_hex_def is_digit_def lower_char_def Let_def)

text \<open>C28:
  An approval on record reads back. Posted by an owner, member or collaborator, the comment \<open>approve\<close>
  writes for a head and the codes of a park is, whatever words introduce it, one record of an approval of
  that head, and the newest decision on the head, had nothing else been said, approves exactly those codes.\<close>

theorem approval_record_roundtrip:
  assumes "SHA head" "report_codes codes" "is_plain_object comment"
    "is_nonempty_string (prop_of (prop_of comment ''user'') ''login'')" "anchored comment"
    "prop_of comment ''body'' = JStr (approveComment words head codes merge)"
  shows "\<exists>url. operatorMarkers cd [comment] = [stamp comment ''approve'' head (Waives (join '','' codes))] \<and>
    operatorDecision (operatorMarkers cd [comment]) head = Some (Approved_op (join '','' codes), url)"
proof -
  have "comment_marker cd comment = Some (stamp comment ''approve'' head (Waives (join '','' codes)))"
    using assms by (intro approval_comment_read) (simp_all add: anchored_def)
  then have ms: "operatorMarkers cd [comment] = [stamp comment ''approve'' head (Waives (join '','' codes))]"
    by (simp add: operatorMarkers_def List.map_filter_simps)
  have "SHA (to_lower head)" using SHA_lower[OF assms(1)] .
  then show ?thesis
    unfolding ms by (auto simp: operatorDecision_def newestFor_def Let_def stamp_def waives_of_def)
qed

theorem approval_record_roundtrip_witness:
  "\<exists>url. operatorDecision (operatorMarkers demo_codec [ann_approves]) approved_oid = Some (Approved_op ''no-receipt'', url)"
proof -
  have "is_nonempty_string (prop_of (prop_of ann_approves ''user'') ''login'')"
    using ann_named by (simp add: ann_approves_def demo_remark_def is_nonempty_string_def)
  moreover have "is_plain_object ann_approves" "anchored ann_approves"
    "prop_of ann_approves ''body'' = JStr (approveComment (\<lambda>codes. codes) approved_oid [''no-receipt''] False)"
    by (simp_all add: ann_approves_def demo_remark_def is_plain_object_def anchored_def ANCHOR_REVIEW_ASSOCIATIONS_def)
  ultimately show ?thesis using approval_record_roundtrip[OF demo_head_sha(1,3), of ann_approves] by fastforce
qed

section \<open>Where the newest is not the first\<close>

text \<open>
  One unreadable time makes the comparison of \<open>newestVerifyFirst\<close> cyclic: each status beats the next, and
  the last beats the first. The order a sort then leaves is up to the engine.\<close>

definition timed_node :: "string \<Rightarrow> jsval" where
  "timed_node time = JObj [(''context'', JStr VERIFY_CONTEXT), (''created_at'', JStr time)]"

theorem newest_first_cycle:
  "newest_first (0, timed_node ''2026-01-01T00:00:00Z'') (1, timed_node ''?'') < 0 \<and>
   newest_first (1, timed_node ''?'') (2, timed_node ''2026-01-02T00:00:00Z'') < 0 \<and>
   newest_first (2, timed_node ''2026-01-02T00:00:00Z'') (0, timed_node ''2026-01-01T00:00:00Z'') < 0"
  by code_simp

text \<open>A park stands when nothing newer than it but claims, waits and unread runs is on record.\<close>

lemma first_park_Some:
  "first_park ns = Some s \<longleftrightarrow>
     (\<exists>later n earlier. ns = later @ n # earlier \<and> s = bare_status n \<and> is_park (Some s) \<and>
        (\<forall>m\<in>set later. replacesPark (Some (bare_status m)) \<and> \<not> is_park (Some (bare_status m))))"
proof (induction ns)
  case (Cons n ns)
  have "(\<exists>later m earlier. n # ns = later @ m # earlier \<and> P later m) \<longleftrightarrow>
      P [] n \<or> (\<exists>later m earlier. ns = later @ m # earlier \<and> P (n # later) m)" for P
  proof
    assume "\<exists>later m earlier. n # ns = later @ m # earlier \<and> P later m"
    then obtain later m earlier where "n # ns = later @ m # earlier" "P later m" by blast
    then show "P [] n \<or> (\<exists>later m earlier. ns = later @ m # earlier \<and> P (n # later) m)" by (cases later) auto
  next
    assume "P [] n \<or> (\<exists>later m earlier. ns = later @ m # earlier \<and> P (n # later) m)"
    then show "\<exists>later m earlier. n # ns = later @ m # earlier \<and> P later m" by (metis append_Cons append_Nil)
  qed
  note split = this[of "\<lambda>later m. s = bare_status m \<and> is_park (Some s) \<and>
      (\<forall>k\<in>set later. replacesPark (Some (bare_status k)) \<and> \<not> is_park (Some (bare_status k)))"]
  show ?case
  proof (cases "is_park (Some (bare_status n)) \<or> \<not> replacesPark (Some (bare_status n))")
    case True
    then show ?thesis unfolding split by auto
  next
    case False
    then have below: "first_park (n # ns) = first_park ns" by simp
    show ?thesis unfolding split below Cons.IH using False by auto
  qed
qed simp

end
