(* ===== verification/RepairRounds.thy ===== *)
theory RepairRounds
  imports VerifyApproval
begin

text \<open>
  \<open>verify/verify-repair-rounds.mjs\<close>: the rounds of automatic repair counted from the records of a pull
  request, and the verdict they turn a blocked head into. The lemmas show what a round is and that
  repair is bounded.
\<close>

section \<open>Repair rounds\<close>

definition REPAIR_ROUND_CAP :: nat where "REPAIR_ROUND_CAP = 2"
definition REPAIR_EXHAUSTED_AFTER :: nat where "REPAIR_EXHAUSTED_AFTER = 5"

text \<open>The sign of \<open>a - b\<close>, where \<open>None\<close> is \<open>-Infinity\<close> and \<open>NaN\<close> counts as 0.\<close>

definition ext_order :: "int option \<Rightarrow> int option \<Rightarrow> int" where
  "ext_order a b =
     (case (a, b) of
        (Some x, Some y) \<Rightarrow> x - y
      | (Some _, None) \<Rightarrow> 1
      | (None, Some _) \<Rightarrow> - 1
      | (None, None) \<Rightarrow> 0)"

definition marker_order :: "marker \<Rightarrow> marker \<Rightarrow> int" where
  "marker_order a b =
     (if ext_order (mk_at a) (mk_at b) \<noteq> 0 then ext_order (mk_at a) (mk_at b) else ext_order (mk_id a) (mk_id b))"

definition find_last :: "('a \<Rightarrow> bool) \<Rightarrow> 'a list \<Rightarrow> 'a option" where
  "find_last p xs = find p (rev xs)"

definition after_reset :: "marker option \<Rightarrow> marker \<Rightarrow> bool" where
  "after_reset reset m = (case reset of None \<Rightarrow> True | Some r \<Rightarrow> 0 < marker_order m r)"

definition last_decision :: "marker list \<Rightarrow> marker option" where
  "last_decision sorted_markers = find_last is_decision sorted_markers"

definition blockers_head_of :: "marker \<Rightarrow> string" where
  "blockers_head_of m = (case mk_data m of Outcomes h _ \<Rightarrow> h | _ \<Rightarrow> [])"

definition outcomes_of :: "marker \<Rightarrow> jsval list" where
  "outcomes_of m = (case mk_data m of Outcomes _ os \<Rightarrow> os | _ \<Rightarrow> [])"

definition counted_outcomes :: "marker list \<Rightarrow> marker list" where
  "counted_outcomes sorted_markers =
     filter (\<lambda>m. mk_kind m = ''repair-outcomes'' \<and> after_reset (last_decision sorted_markers) m) sorted_markers"

text \<open>\<open>m.at <= marker.at\<close>.\<close>

definition not_later :: "int option \<Rightarrow> int option \<Rightarrow> bool" where
  "not_later a b \<longleftrightarrow> \<not> above a b"

definition report_for :: "marker list \<Rightarrow> marker \<Rightarrow> marker option" where
  "report_for sorted_markers marker =
     find_last (\<lambda>m. mk_kind m = ''blockers'' \<and> mk_head m = blockers_head_of marker \<and>
       not_later (mk_at m) (mk_at marker) \<and> after_reset (last_decision sorted_markers) m) sorted_markers"

definition blocker_of_report :: "marker option \<Rightarrow> jsval \<Rightarrow> jsval" where
  "blocker_of_report report ident =
     (case report of
        Some r \<Rightarrow>
          (case mk_data r of
             Blocker_file file \<Rightarrow>
               (case find (\<lambda>b. prop_of b ''id'' = ident) (array_or_empty (prop_of file ''blockers'')) of
                  Some b \<Rightarrow> b | None \<Rightarrow> JUndef)
           | _ \<Rightarrow> JUndef)
      | None \<Rightarrow> JUndef)"

text \<open>\<open>{...outcome, summary, severity, file, line, round}\<close>.\<close>

definition put_all :: "jsval dict \<Rightarrow> jsval \<Rightarrow> jsval" where
  "put_all news v = JObj (foldl (\<lambda>al (k, x). AList.update k x al) (entries_of v) news)"

definition outcome_details :: "jsval \<Rightarrow> jsval \<Rightarrow> nat \<Rightarrow> jsval" where
  "outcome_details outcome blocker round =
     put_all
       [(''summary'', coalesce (prop_of blocker ''summary'') (prop_of outcome ''id'')),
        (''severity'', coalesce (prop_of blocker ''severity'') JNull),
        (''file'', coalesce (prop_of blocker ''file'') JNull),
        (''line'', coalesce (prop_of blocker ''line'') JNull),
        (''round'', JNum (Fin (int round)))] outcome"

record repair_state =
  rs_rounds :: "(string \<times> nat) list"
  rs_latest :: "(jsval \<times> jsval) list"
  rs_sends :: "(jsval \<times> (int option \<times> jsval) list) list"

definition outcome_step :: "marker option \<Rightarrow> nat \<Rightarrow> jsval \<Rightarrow> repair_state \<Rightarrow> repair_state" where
  "outcome_step report round outcome st =
     (let ident = prop_of outcome ''id'';
          details = outcome_details outcome (blocker_of_report report ident) round;
          st' = st\<lparr>rs_latest := AList.update ident details (rs_latest st)\<rparr> in
      case report of
        Some r \<Rightarrow>
          if prop_of outcome ''outcome'' = JStr ''not-fixable''
          then (let sends = (case map_of (rs_sends st) ident of None \<Rightarrow> [] | Some al \<Rightarrow> al) in
            st'\<lparr>rs_sends := AList.update ident (AList.delete (mk_id r) sends @ [(mk_id r, details)]) (rs_sends st)\<rparr>)
          else st'
      | None \<Rightarrow> st')"

definition round_of :: "(string \<times> nat) list \<Rightarrow> string \<Rightarrow> (string \<times> nat) list \<times> nat" where
  "round_of rounds head =
     (case map_of rounds head of
        Some n \<Rightarrow> (rounds, n)
      | None \<Rightarrow> (AList.update head (length rounds + 1) rounds, length rounds + 1))"

definition marker_step :: "marker list \<Rightarrow> marker \<Rightarrow> repair_state \<Rightarrow> repair_state" where
  "marker_step sorted_markers marker st =
     (case round_of (rs_rounds st) (blockers_head_of marker) of
        (rounds, round) \<Rightarrow>
          fold (outcome_step (report_for sorted_markers marker) round) (outcomes_of marker) (st\<lparr>rs_rounds := rounds\<rparr>))"

definition repair_run :: "marker list \<Rightarrow> repair_state" where
  "repair_run sorted_markers =
     fold (marker_step sorted_markers) (counted_outcomes sorted_markers) \<lparr>rs_rounds = [], rs_latest = [], rs_sends = []\<rparr>"

record repair_history =
  rh_rounds :: nat
  rh_repeatNotFixable :: "jsval list"
  rh_notFixable :: "jsval list"

text \<open>\<open>const { outcome, ...details } = last; { ...details, count }\<close> and the picked fields of an outcome.\<close>

definition repeated_entry :: "(int option \<times> jsval) list \<Rightarrow> jsval" where
  "repeated_entry sends =
     put_all [(''count'', JNum (Fin (int (length sends))))]
       (JObj (filter (\<lambda>(k, _). k \<noteq> ''outcome'') (entries_of (snd (last sends)))))"

definition picked_entry :: "jsval \<Rightarrow> jsval" where
  "picked_entry d =
     JObj (map (\<lambda>k. (k, prop_of d k)) [''id'', ''summary'', ''severity'', ''file'', ''line'', ''reason'', ''round''])"

definition repairRounds :: "marker list \<Rightarrow> repair_history" where
  "repairRounds markers =
     (let st = repair_run (sort_by marker_order markers) in
      \<lparr>rh_rounds = length (rs_rounds st),
       rh_repeatNotFixable = map (repeated_entry \<circ> snd) (filter (\<lambda>(_, sends). 2 \<le> length sends) (rs_sends st)),
       rh_notFixable = map (picked_entry \<circ> snd)
         (filter (\<lambda>(_, d). prop_of d ''outcome'' = JStr ''not-fixable'') (rs_latest st))\<rparr>)"

text \<open>
  \<open>resolveEffectiveVerdict\<close>; \<open>None\<close> is a count that could not be read. The second part is the reason.
\<close>

definition resolveEffectiveVerdict ::
  "string \<Rightarrow> string list option \<Rightarrow> string \<Rightarrow> nat option \<Rightarrow> nat option \<Rightarrow> jsval list option \<Rightarrow> jsval list \<Rightarrow> nat \<Rightarrow>
   string \<times> string" where
  "resolveEffectiveVerdict verdict humanCodes reason attempts rounds repeats blockers exhaustedAfter =
     (if verdict = ''blocked'' \<and>
         ((case rounds of Some n \<Rightarrow> REPAIR_ROUND_CAP \<le> n | None \<Rightarrow> False) \<or>
          list_ex (\<lambda>b. case repeats of Some ids \<Rightarrow> prop_of b ''id'' \<in> set ids | None \<Rightarrow> False) blockers)
      then (''human'', ''repair-exhausted'')
      else if verdict \<in> {''defect'', ''blocked''} \<and> (case attempts of Some n \<Rightarrow> exhaustedAfter \<le> n | None \<Rightarrow> False)
      then (''human'', ''repair-exhausted'')
      else (verdict, case humanCodes of Some codes \<Rightarrow> join '','' codes | None \<Rightarrow> reason))"

section \<open>Rounds are counted since the last decision\<close>

lemma ext_order_sign: "sgn (ext_order b a) = - sgn (ext_order a b)"
  by (auto simp: ext_order_def sgn_if split: option.splits)

lemma ext_order_trans: "ext_order a b \<le> 0 \<Longrightarrow> ext_order b c \<le> 0 \<Longrightarrow> ext_order a c \<le> 0"
  by (auto simp: ext_order_def split: option.splits)

lemma ext_comparator: "sign_comparator (\<lambda>x y. ext_order (f x) (f y)) D"
  by unfold_locales (use ext_order_sign ext_order_trans sgn_flip_total in blast)+

interpretation markers: sign_comparator marker_order UNIV
  using sign_comparator.chain[OF ext_comparator[of mk_at UNIV] ext_comparator[of mk_id UNIV]]
  by (simp add: marker_order_def[abs_def])

lemma find_last_Some:
  "find_last p xs = Some x \<Longrightarrow> \<exists>ys zs. xs = ys @ x # zs \<and> p x \<and> (\<forall>z\<in>set zs. \<not> p z)"
proof -
  assume "find_last p xs = Some x"
  then obtain i where i: "i < length (rev xs)" "p (rev xs ! i)" "x = rev xs ! i" "\<forall>j<i. \<not> p (rev xs ! j)"
    unfolding find_last_def find_Some_iff by blast
  have "rev xs = take i (rev xs) @ x # drop (Suc i) (rev xs)" using i(1,3) by (metis id_take_nth_drop)
  then have "xs = rev (drop (Suc i) (rev xs)) @ x # rev (take i (rev xs))"
    by (metis append.assoc append_Cons append_Nil rev.simps(2) rev_append rev_rev_ident)
  moreover have "\<forall>z\<in>set (rev (take i (rev xs))). \<not> p z" using i(4) by (auto simp: in_set_conv_nth)
  ultimately show ?thesis using i(2,3) by blast
qed

lemma find_last_None: "find_last p xs = None \<longleftrightarrow> (\<forall>x\<in>set xs. \<not> p x)"
  by (auto simp: find_last_def find_None_iff)

text \<open>What comes after the last decision comes after every decision.\<close>

lemma after_last_decision:
  "after_reset (last_decision (sort_by marker_order ms)) m \<longleftrightarrow> (\<forall>d\<in>set ms. is_decision d \<longrightarrow> 0 < marker_order m d)"
proof (cases "last_decision (sort_by marker_order ms)")
  case None
  moreover from this have "\<forall>x\<in>set ms. \<not> is_decision x" by (simp add: last_decision_def find_last_None)
  ultimately show ?thesis by (simp add: after_reset_def)
next
  case (Some r)
  obtain ys zs where split: "sort_by marker_order ms = ys @ r # zs" "is_decision r" "\<forall>z\<in>set zs. \<not> is_decision z"
    using find_last_Some[OF Some[unfolded last_decision_def]] by blast
  have "sorted_wrt (\<lambda>a b. marker_order a b \<le> 0) (sort_by marker_order ms)" by (rule markers.sorted_sort_by) simp
  then have le: "\<forall>y\<in>set ys. marker_order y r \<le> 0" unfolding split(1) by (auto simp: sorted_wrt_append)
  have mem: "set ms = insert r (set ys \<union> set zs)" using split(1) by (metis Un_insert_right list.simps(15) set_append set_sort_by)
  have "0 < marker_order m d" if "0 < marker_order m r" "d \<in> set ms" "is_decision d" for d
  proof (rule ccontr)
    assume "\<not> 0 < marker_order m d"
    moreover have "d = r \<or> d \<in> set ys" using that(2,3) split(3) mem by auto
    ultimately have "marker_order m r \<le> 0" using le that(1) markers.trans[of m d r] by fastforce
    then show False using that(1) by simp
  qed
  then show ?thesis using Some split(2) mem by (auto simp: after_reset_def)
qed

lemma round_of_keys:
  "fst ` set (fst (round_of rounds h)) = insert h (fst ` set rounds)"
  "distinct (map fst rounds) \<Longrightarrow> distinct (map fst (fst (round_of rounds h)))"
proof -
  have "map_of rounds h = Some n \<Longrightarrow> h \<in> fst ` set rounds" for n by (force dest: map_of_SomeD)
  then show "fst ` set (fst (round_of rounds h)) = insert h (fst ` set rounds)"
    by (auto simp: round_of_def dom_update split: option.splits) 
  show "distinct (map fst rounds) \<Longrightarrow> distinct (map fst (fst (round_of rounds h)))"
    by (simp add: round_of_def distinct_update split: option.split)
qed

lemma outcome_steps_rounds: "rs_rounds (fold (outcome_step rep round) os st) = rs_rounds st"
proof (induction os arbitrary: st)
  case (Cons x os)
  have "rs_rounds (outcome_step rep round x st) = rs_rounds st"
    by (simp add: outcome_step_def Let_def split: option.split)
  with Cons show ?case by simp
qed simp

lemma marker_steps_rounds:
  "fst ` set (rs_rounds (fold (marker_step sms) xs st)) = blockers_head_of ` set xs \<union> fst ` set (rs_rounds st) \<and>
   (distinct (map fst (rs_rounds st)) \<longrightarrow> distinct (map fst (rs_rounds (fold (marker_step sms) xs st))))"
proof (induction xs arbitrary: st)
  case (Cons x xs)
  have "rs_rounds (marker_step sms x st) = fst (round_of (rs_rounds st) (blockers_head_of x))"
    by (simp add: marker_step_def outcome_steps_rounds split: prod.split)
  then show ?case using Cons[of "marker_step sms x st"] round_of_keys by auto
qed simp

lemma repairRounds_count:
  "rh_rounds (repairRounds ms) =
     card (blockers_head_of ` {m \<in> set ms. mk_kind m = ''repair-outcomes'' \<and>
       (\<forall>d\<in>set ms. is_decision d \<longrightarrow> 0 < marker_order m d)})"
proof -
  let ?s = "sort_by marker_order ms"
  have keys: "fst ` set (rs_rounds (repair_run ?s)) = blockers_head_of ` set (counted_outcomes ?s)"
    "distinct (map fst (rs_rounds (repair_run ?s)))"
    using marker_steps_rounds[of ?s "counted_outcomes ?s" "\<lparr>rs_rounds = [], rs_latest = [], rs_sends = []\<rparr>"]
    by (simp_all add: repair_run_def)
  have "set (counted_outcomes ?s) = {m \<in> set ms. mk_kind m = ''repair-outcomes'' \<and>
       (\<forall>d\<in>set ms. is_decision d \<longrightarrow> 0 < marker_order m d)}"
    by (auto simp: counted_outcomes_def after_last_decision)
  moreover have "length (rs_rounds (repair_run ?s)) = card (fst ` set (rs_rounds (repair_run ?s)))"
    using distinct_card[OF keys(2)] by simp
  ultimately show ?thesis using keys(1) by (simp add: repairRounds_def Let_def)
qed

text \<open>C20:
  Repair is bounded. On a blocked head whose rounds can be read, the verdict goes to a person as
  \<open>repair-exhausted\<close> exactly when repair answered two different blocked heads since the newest decision of
  an operator, however often it republished an answer, or one of the blockers was twice reported as not
  fixable, or the attempts on the head reached the limit. A decision made after every answer starts the
  count again.\<close>

theorem repair_is_bounded:
  "(resolveEffectiveVerdict ''blocked'' codes reason attempts (Some (rh_rounds (repairRounds ms))) repeats blockers lim =
      (''human'', ''repair-exhausted'') \<longleftrightarrow>
    2 \<le> card (blockers_head_of ` {m \<in> set ms. mk_kind m = ''repair-outcomes'' \<and>
       (\<forall>d\<in>set ms. is_decision d \<longrightarrow> 0 < marker_order m d)}) \<or>
    (\<exists>b\<in>set blockers. \<exists>ids. repeats = Some ids \<and> prop_of b ''id'' \<in> set ids) \<or> (\<exists>n. attempts = Some n \<and> lim \<le> n)) \<and>
   ((\<exists>d\<in>set ms. is_decision d \<and> (\<forall>m\<in>set ms. mk_kind m = ''repair-outcomes'' \<longrightarrow> marker_order m d \<le> 0)) \<longrightarrow>
      rh_rounds (repairRounds ms) = 0)"
proof -
  have "rh_rounds (repairRounds ms) = 0"
    if "d \<in> set ms" "is_decision d" "\<forall>m\<in>set ms. mk_kind m = ''repair-outcomes'' \<longrightarrow> marker_order m d \<le> 0" for d
  proof -
    have "{m \<in> set ms. mk_kind m = ''repair-outcomes'' \<and> (\<forall>d\<in>set ms. is_decision d \<longrightarrow> 0 < marker_order m d)} = {}"
      using that by force
    then show ?thesis unfolding repairRounds_count by simp
  qed
  then show ?thesis
    by (auto simp: resolveEffectiveVerdict_def REPAIR_ROUND_CAP_def repairRounds_count list_ex_iff split: option.splits)
qed

section \<open>Instances\<close>

definition demo_marker :: "string \<Rightarrow> int \<Rightarrow> marker_data \<Rightarrow> marker" where
  "demo_marker kind time data =
     \<lparr>mk_kind = kind, mk_head = [], mk_at = Some time, mk_id = Some time, mk_login = ''ann'', mk_url = [], mk_data = data\<rparr>"

definition two_rounds :: "marker list" where
  "two_rounds = [demo_marker ''repair-outcomes'' 3 (Outcomes ''b'' []), demo_marker ''repair-outcomes'' 1 (Outcomes ''a'' []),
     demo_marker ''repair-outcomes'' 2 (Outcomes ''a'' [])]"

theorem repair_is_bounded_witness:
  "resolveEffectiveVerdict ''blocked'' None ''x'' None (Some (rh_rounds (repairRounds two_rounds))) None [] 5 =
     (''human'', ''repair-exhausted'') \<and>
   rh_rounds (repairRounds (two_rounds @ [demo_marker ''approve'' 4 (Waives [])])) = 0"
proof -
  have "{m \<in> set two_rounds. mk_kind m = ''repair-outcomes'' \<and> (\<forall>d\<in>set two_rounds. is_decision d \<longrightarrow> 0 < marker_order m d)} = set two_rounds"
    by (auto simp: two_rounds_def demo_marker_def is_decision_def)
  moreover have "card (blockers_head_of ` set two_rounds) = 2" by (simp add: two_rounds_def demo_marker_def blockers_head_of_def)
  ultimately have "resolveEffectiveVerdict ''blocked'' None ''x'' None (Some (rh_rounds (repairRounds two_rounds))) None [] 5 =
      (''human'', ''repair-exhausted'')"
    using repair_is_bounded[of None "''x''" None two_rounds None "[]" 5] by simp
  moreover let ?ms = "two_rounds @ [demo_marker ''approve'' 4 (Waives [])]"
  have "demo_marker ''approve'' 4 (Waives []) \<in> set ?ms \<and> is_decision (demo_marker ''approve'' 4 (Waives [])) \<and>
      (\<forall>m\<in>set ?ms. mk_kind m = ''repair-outcomes'' \<longrightarrow> marker_order m (demo_marker ''approve'' 4 (Waives [])) \<le> 0)"
    by (simp add: two_rounds_def demo_marker_def is_decision_def marker_order_def ext_order_def)
  then have "rh_rounds (repairRounds ?ms) = 0"
    using repair_is_bounded[of None "''x''" None ?ms None "[]" 5] by blast
  ultimately show ?thesis by blast
qed

end
