(* ===== verification/CommitStatus.thy ===== *)
theory CommitStatus
  imports VerifyApproval ReadyGate
begin

text \<open>
  \<open>commit-status.mjs\<close>: the checks on a status post, the command line, the ready gate in front of a
  \<open>boss/build\<close> success, and what a read of a commit's statuses says. What \<open>gh\<close> answers is an argument. The
  lemmas show that a failed read is never absence, and who gets a receipt.
\<close>

section \<open>Posting and reading a commit status\<close>

definition RECEIPT_CONTEXT :: string where "RECEIPT_CONTEXT = ''boss/build''"

definition STATUS_STATES :: "string list" where
  "STATUS_STATES = [''success'', ''failure'', ''pending'', ''error'']"

definition READY_GATE_FLAGS :: "string list" where
  "READY_GATE_FLAGS = [''review-verdict-file'', ''reviewed-head-file'', ''base'']"

text \<open>An error is the usage message less its \<open>commit-status:\<close> prefix and the quoted input.\<close>

definition status_sha :: "jsval \<Rightarrow> string + string" where
  "status_sha v =
     (let s = to_lower (trim (string_or_empty v)) in
      if SHA s then Inr s else Inl ''--sha must be a 40-character hex SHA'')"

text \<open>\<open>[\s\p{Cc}]\<close>: white space, and the control characters below 160.\<close>

fun has_space_or_control :: "string \<Rightarrow> bool" where
  "has_space_or_control [] = False"
| "has_space_or_control (c # cs) =
     (let n = (of_char c :: nat) in
      is_ws c \<or> n < 32 \<or> n = 127 \<or>
      (n = 194 \<and> cs \<noteq> [] \<and> 128 \<le> (of_char (hd cs) :: nat) \<and> (of_char (hd cs) :: nat) \<le> 160) \<or>
      has_space_or_control cs)"

definition validateContext :: "jsval \<Rightarrow> string + string" where
  "validateContext context =
     (case context of
        JStr s \<Rightarrow>
          if trim s = [] then Inl ''--context must be a non-empty name''
          else if has_space_or_control s then Inl ''--context must not contain whitespace or control characters''
          else Inr s
      | _ \<Rightarrow> Inl ''--context must be a non-empty name'')"

definition status_repo_char :: "char \<Rightarrow> bool" where
  "status_repo_char c \<longleftrightarrow> record_word c \<or> c \<in> set ''_.-''"

definition validateRepo :: "jsval \<Rightarrow> string + string" where
  "validateRepo repo =
     (if nullish repo \<or> repo = JStr [] then Inr []
      else
        (case repo of
           JStr s \<Rightarrow>
             (let owner = takeWhile status_repo_char s; rest = drop (length owner) s in
              if owner \<noteq> [] \<and> starts_with rest ''/'' \<and> drop 1 rest \<noteq> [] \<and> list_all status_repo_char (drop 1 rest)
              then Inr s else Inl ''--repo must be owner/name'')
         | _ \<Rightarrow> Inl ''--repo must be owner/name''))"

definition capDescription :: "jsval \<Rightarrow> string" where
  "capDescription v =
     (let s = string_or_empty v in
      if code_points s \<le> DESCRIPTION_LIMIT then s else take_points (DESCRIPTION_LIMIT - 1) s @ ellipsis)"

record status_post =
  sp_context :: string
  sp_state :: string
  sp_sha :: string
  sp_description :: string
  sp_targetUrl :: string
  sp_repo :: string

definition target_url :: "jsval \<Rightarrow> string + string" where
  "target_url v =
     (if nullish v \<or> v = JStr [] then Inr []
      else
        (case v of JStr s \<Rightarrow> if http_url s then Inr s else Inl ''--target-url must be an http(s):// URL''
         | _ \<Rightarrow> Inl ''--target-url must be an http(s):// URL''))"

definition validatePostInput :: "jsval \<Rightarrow> string + status_post" where
  "validatePostInput input =
     (case validateContext (prop_of input ''context'') of Inl e \<Rightarrow> Inl e | Inr context \<Rightarrow>
      case status_sha (prop_of input ''sha'') of Inl e \<Rightarrow> Inl e | Inr h \<Rightarrow>
      case validateRepo (prop_of input ''repo'') of Inl e \<Rightarrow> Inl e | Inr repo \<Rightarrow>
      if prop_of input ''state'' \<notin> JStr ` set STATUS_STATES then Inl ''--state must be one of the four states''
      else
        (let d = prop_of input ''description'' in
         if \<not> nullish d \<and> \<not> is_string d then Inl ''--description must be text''
         else
           (case target_url (prop_of input ''targetUrl'') of Inl e \<Rightarrow> Inl e | Inr url \<Rightarrow>
              Inr \<lparr>sp_context = context, sp_state = string_or_empty (prop_of input ''state''), sp_sha = h,
                   sp_description = capDescription d, sp_targetUrl = url, sp_repo = repo\<rparr>)))"

definition status_repoPath :: "string \<Rightarrow> string" where
  "status_repoPath repo = (if repo = [] then ''repos/{owner}/{repo}'' else ''repos/'' @ repo)"

definition status_postArgs :: "status_post \<Rightarrow> string list" where
  "status_postArgs v =
     [''api'', ''--method'', ''POST'', status_repoPath (sp_repo v) @ ''/statuses/'' @ sp_sha v,
      ''-f'', ''state='' @ sp_state v, ''-f'', ''context='' @ sp_context v] @
     (if sp_description v \<noteq> [] then [''-f'', ''description='' @ sp_description v] else []) @
     (if sp_targetUrl v \<noteq> [] then [''-f'', ''target_url='' @ sp_targetUrl v] else [])"

definition status_readArgs :: "string \<Rightarrow> string \<Rightarrow> string list" where
  "status_readArgs h repo =
     [''api'', status_repoPath repo @ ''/commits/'' @ h @ ''/statuses?per_page=100'', ''--paginate'', ''--slurp'']"

definition isGatedPost :: "status_post \<Rightarrow> bool" where
  "isGatedPost v \<longleftrightarrow> sp_context v = RECEIPT_CONTEXT \<and> sp_state v = ''success''"

subsection \<open>What a read says\<close>

datatype read_verdict =
    Present "(string \<times> head_status) list"
  | Absent_status "(string \<times> head_status) list"
  | Unknown_status string

definition keep_latest :: "jsval \<Rightarrow> (string \<times> head_status) list \<Rightarrow> (string \<times> head_status) list" where
  "keep_latest n contexts =
     (let k = string_or_empty (prop_of n ''context''); e = node_entry n in
      case map_of contexts k of
        None \<Rightarrow> AList.update k e contexts
      | Some prior \<Rightarrow> if displaces e prior then AList.update k e contexts else contexts)"

text \<open>
  The answer of \<open>gh\<close>: it could not run, it exited with a code, or it printed this. \<open>None\<close> is output that
  is no JSON.
\<close>

datatype gh_answer = Not_run string | Exited string string | Printed "jsval option"

definition classifyRead :: "gh_answer \<Rightarrow> string option \<Rightarrow> read_verdict" where
  "classifyRead r context =
     (case r of
        Not_run why \<Rightarrow> Unknown_status (''gh could not be run: '' @ why)
      | Exited code _ \<Rightarrow> Unknown_status (''gh exited '' @ code)
      | Printed None \<Rightarrow> Unknown_status ''unparseable gh output''
      | Printed (Some payload) \<Rightarrow>
          (case statusNodes payload of
             None \<Rightarrow> Unknown_status ''unexpected payload shape''
           | Some nodes \<Rightarrow>
               (let contexts = fold keep_latest nodes [] in
                case context of
                  None \<Rightarrow> if contexts \<noteq> [] then Present contexts else Absent_status contexts
                | Some c \<Rightarrow> if map_of contexts c = None then Absent_status contexts else Present contexts)))"

subsection \<open>The command\<close>

datatype status_result =
    Usage_error string
  | Refused_post "string list"
  | Failed_post string
  | Posted_status status_post
  | Read_status read_verdict

fun flag_pairs :: "string list \<Rightarrow> (string \<times> string) list \<Rightarrow> string list \<Rightarrow> string + (string \<times> string) list" where
  "flag_pairs accepted flags [] = Inr flags"
| "flag_pairs accepted flags (key # rest) =
     (if \<not> starts_with key ''--'' then Inl ''unexpected argument''
      else if drop 2 key \<notin> set accepted then Inl ''unrecognised flag''
      else
        (case rest of
           v # rest' \<Rightarrow>
             if starts_with v ''--'' then Inl ''a flag needs a value''
             else flag_pairs accepted (AList.update (drop 2 key) v flags) rest'
         | [] \<Rightarrow> Inl ''a flag needs a value''))"

definition POST_FLAGS :: "string list" where
  "POST_FLAGS = [''context'', ''state'', ''sha'', ''description'', ''target-url'', ''repo''] @ READY_GATE_FLAGS"

definition READ_FLAGS :: "string list" where "READ_FLAGS = [''sha'', ''context'', ''repo'']"

definition flag :: "(string \<times> string) list \<Rightarrow> string \<Rightarrow> jsval" where
  "flag flags k = (case map_of flags k of Some v \<Rightarrow> JStr v | None \<Rightarrow> JUndef)"

definition post_input :: "(string \<times> string) list \<Rightarrow> jsval" where
  "post_input flags =
     JObj [(''context'', flag flags ''context''), (''state'', flag flags ''state''), (''sha'', flag flags ''sha''),
           (''description'', flag flags ''description''), (''targetUrl'', flag flags ''target-url''), (''repo'', flag flags ''repo'')]"

text \<open>What the ready gate answers; \<open>None\<close> is a gate that throws. Anything but ready refuses.\<close>

definition gate_reasons :: "ready option \<Rightarrow> string list option" where
  "gate_reasons answer =
     (case answer of
        None \<Rightarrow> Some [''ready-gate-error'']
      | Some r \<Rightarrow>
          if rg_ready r then None
          else Some (if rg_reasons r \<noteq> [] then rg_reasons r else [''ready-gate-error'']))"

definition stderr_line :: "string \<Rightarrow> string" where
  "stderr_line s = hd (split_on (CHR 0x0A) (trim s))"

definition run_post :: "status_post \<Rightarrow> (string list \<Rightarrow> gh_answer) \<Rightarrow> status_result" where
  "run_post v gh =
     (case gh (status_postArgs v) of
        Not_run why \<Rightarrow> Failed_post (''gh could not be run: '' @ why)
      | Exited code err \<Rightarrow>
          Failed_post (''gh exited '' @ code @
            (if stderr_line err \<noteq> [] then '': '' @ stderr_line err else []))
      | Printed _ \<Rightarrow> Posted_status v)"

text \<open>
  One invocation, and the argument lists it runs \<open>gh\<close> with. \<open>report\<close> is the ready gate over the head and
  the three flags.
\<close>

definition status_main ::
  "(string \<Rightarrow> jsval \<Rightarrow> jsval \<Rightarrow> jsval \<Rightarrow> ready option) \<Rightarrow> (string list \<Rightarrow> gh_answer) \<Rightarrow> string list \<Rightarrow>
   status_result \<times> string list list" where
  "status_main report gh argv =
     (case argv of
        [] \<Rightarrow> (Usage_error ''unknown command'', [])
      | cmd # rest \<Rightarrow>
          if cmd = ''post'' then
            (case flag_pairs POST_FLAGS [] rest of
               Inl e \<Rightarrow> (Usage_error e, [])
             | Inr flags \<Rightarrow>
                 (case validatePostInput (post_input flags) of
                    Inl e \<Rightarrow> (Usage_error e, [])
                  | Inr v \<Rightarrow>
                      if \<not> isGatedPost v \<and> list_ex (\<lambda>k. map_of flags k \<noteq> None) READY_GATE_FLAGS
                      then (Usage_error ''the flag applies only to a boss/build success post'', [])
                      else if \<not> isGatedPost v then (run_post v gh, [status_postArgs v])
                      else
                        (case gate_reasons (report (sp_sha v) (flag flags ''base'') (flag flags ''review-verdict-file'')
                                 (flag flags ''reviewed-head-file'')) of
                           Some reasons \<Rightarrow> (Refused_post reasons, [])
                         | None \<Rightarrow> (run_post v gh, [status_postArgs v]))))
          else if cmd = ''read'' then
            (case flag_pairs READ_FLAGS [] rest of
               Inl e \<Rightarrow> (Usage_error e, [])
             | Inr flags \<Rightarrow>
                 if map_of flags ''sha'' = None then (Usage_error ''read needs --sha <40-hex>'', [])
                 else
                   (case (if map_of flags ''context'' = None then Inr None
                          else map_sum id Some (validateContext (flag flags ''context''))) of
                      Inl e \<Rightarrow> (Usage_error e, [])
                    | Inr context \<Rightarrow>
                        (case status_sha (flag flags ''sha'') of Inl e \<Rightarrow> (Usage_error e, []) | Inr s \<Rightarrow>
                         case validateRepo (flag flags ''repo'') of Inl e \<Rightarrow> (Usage_error e, []) | Inr repo \<Rightarrow>
                           (Read_status (classifyRead (gh (status_readArgs s repo)) context), [status_readArgs s repo]))))
          else (Usage_error ''unknown command'', []))"

section \<open>What a read proves\<close>

lemma keep_latest_lookup:
  assumes "status_node n"
  shows "map_of (keep_latest n contexts) c =
    (if prop_of n ''context'' = JStr c
     then (case map_of contexts c of None \<Rightarrow> Some (node_entry n)
           | Some y \<Rightarrow> if displaces (node_entry n) y then Some (node_entry n) else Some y)
     else map_of contexts c)"
proof -
  obtain k where k: "prop_of n ''context'' = JStr k"
    using assms by (auto simp: status_node_def is_string_def split: jsval.splits)
  then show ?thesis by (simp add: keep_latest_def string_or_empty_def Let_def update_conv' split: option.split)
qed

lemma contexts_lookup:
  "list_all status_node nodes \<Longrightarrow> map_of (fold keep_latest nodes al) c =
     newest_by displaces (map_of al c) (map node_entry (filter (\<lambda>n. prop_of n ''context'' = JStr c) nodes))"
  by (induction nodes arbitrary: al) (simp_all add: keep_latest_lookup)

lemma newest_keeps: "newest_by beats (Some y) xs \<noteq> None"
  by (induction xs arbitrary: y) (auto split: if_splits)

lemma latest_of_None: "latest_of c nodes = None \<longleftrightarrow> (\<forall>n\<in>set nodes. prop_of n ''context'' \<noteq> JStr c)"
proof (cases "filter (\<lambda>n. prop_of n ''context'' = JStr c) nodes")
  case Nil
  then show ?thesis by (auto simp: latest_of_def filter_empty_conv)
next
  case (Cons n ns)
  then have "n \<in> set (filter (\<lambda>n. prop_of n ''context'' = JStr c) nodes)" by simp
  then have "n \<in> set nodes" "prop_of n ''context'' = JStr c" by simp_all
  moreover have "latest_of c nodes \<noteq> None" using newest_keeps by (simp add: latest_of_def Cons)
  ultimately show ?thesis by blast
qed

lemma statusNodes_nodes: "statusNodes p = Some nodes \<Longrightarrow> list_all status_node nodes"
  by (auto simp: statusNodes_def Let_def split: option.splits if_splits)

lemma classifyRead_Printed:
  assumes "statusNodes p = Some nodes"
  shows "classifyRead (Printed (Some p)) (Some c) =
    (if latest_of c nodes = None then Absent_status (fold keep_latest nodes []) else Present (fold keep_latest nodes []))"
    "map_of (fold keep_latest nodes []) c = latest_of c nodes"
  using contexts_lookup[OF statusNodes_nodes[OF assms], of "[]" c]
  by (simp_all add: classifyRead_def assms latest_of_def Let_def)

lemma classifyRead_unread:
  assumes "\<not> (\<exists>p nodes. r = Printed (Some p) \<and> statusNodes p = Some nodes)"
  shows "\<exists>why. classifyRead r (Some c) = Unknown_status why"
  using assms by (auto simp: classifyRead_def split: gh_answer.splits option.splits)

text \<open>C30:
  A status that could not be read is unknown, never absent. A read of a context answers absent exactly
  when the forge printed a well-formed list with no status of that context, and present exactly when it
  printed one that has some; then the status kept is the one the verify gate's own reading takes as the
  latest. Every failure, unparseable output or wrong shape is unknown.\<close>

theorem status_read_exact:
  "((\<exists>kept. classifyRead r (Some c) = Absent_status kept) \<longleftrightarrow>
      (\<exists>p nodes. r = Printed (Some p) \<and> statusNodes p = Some nodes \<and> latest_of c nodes = None)) \<and>
   ((\<exists>kept. classifyRead r (Some c) = Present kept \<and> map_of kept c = Some status) \<longleftrightarrow>
      (\<exists>p nodes. r = Printed (Some p) \<and> statusNodes p = Some nodes \<and> latest_of c nodes = Some status)) \<and>
   ((\<exists>why. classifyRead r (Some c) = Unknown_status why) \<longleftrightarrow>
      (\<nexists>p nodes. r = Printed (Some p) \<and> statusNodes p = Some nodes))"
proof (cases "\<exists>p nodes. r = Printed (Some p) \<and> statusNodes p = Some nodes")
  case True
  then obtain p nodes where r: "r = Printed (Some p)" "statusNodes p = Some nodes" by blast
  show ?thesis unfolding r(1) using classifyRead_Printed[OF r(2), of c] r(2) by auto
next
  case False
  then show ?thesis using classifyRead_unread[OF False, of c] by auto
qed

section \<open>Who gets a receipt\<close>

text \<open>The ready gate as a post asks it: the head it posts on, and never the partial route.\<close>

definition receipt_gate ::
  "git \<Rightarrow> (jsval \<Rightarrow> string) \<Rightarrow> jsval \<Rightarrow> string \<Rightarrow> jsval \<Rightarrow> jsval \<Rightarrow> jsval \<Rightarrow> ready option" where
  "receipt_gate git read_file prBase h base verdictFile headFile =
     Some (rr_gate (readyGateReport git (read_file verdictFile) (read_file headFile) [] prBase (JStr h) base False False))"

lemma validated_sha: "validatePostInput input = Inr v \<Longrightarrow> SHA (sp_sha v)"
  by (auto simp: validatePostInput_def status_sha_def Let_def split: sum.splits if_splits)

lemma SHA_nonblank:
  assumes "SHA h"
  shows "is_nonempty_string (JStr h)"
proof -
  have "\<forall>c\<in>set h. \<not> is_ws c" using assms by (auto simp: SHA_def list_all_iff is_hex_def is_ws_def is_digit_def lower_char_def Let_def)
  moreover have "h \<noteq> []" using assms by (auto simp: SHA_def)
  ultimately show ?thesis by (simp add: trim_id)
qed

lemma posted_gated:
  assumes "''state=success'' \<in> set (status_postArgs v)" "''context=boss/build'' \<in> set (status_postArgs v)"
  shows "isGatedPost v"
  using assms by (auto simp: status_postArgs_def isGatedPost_def RECEIPT_CONTEXT_def status_repoPath_def split: if_splits)

lemma read_is_no_post: "''state=success'' \<notin> set (status_readArgs h repo)"
  by (simp add: status_readArgs_def status_repoPath_def)

lemma status_main_posts:
  assumes "status_main report gh argv = (res, calls)" "args \<in> set calls" "''state=success'' \<in> set args" "''context=boss/build'' \<in> set args"
  shows "\<exists>v base verdictFile headFile. SHA (sp_sha v) \<and> args = status_postArgs v \<and> calls = [args] \<and>
    gate_reasons (report (sp_sha v) base verdictFile headFile) = None"
  using assms posted_gated read_is_no_post
  by (cases argv) (fastforce simp: status_main_def dest: validated_sha split: if_splits sum.splits option.splits)+

text \<open>C7:
  No receipt without a review. Whatever the command line, an invocation that sends a \<open>boss/build\<close> success
  to the forge sends nothing else, posts it on a full commit id, and does so only when the ready gate was
  asked about that very commit and its review is clean (or switched off) for a head that is this commit, or
  whose tree git names as this commit's, replayed onto its base. A gate that throws posts nothing.\<close>

theorem receipt_needs_review:
  assumes "status_main (receipt_gate git read_file prBase) gh argv = (res, calls)" "args \<in> set calls"
    and "''state=success'' \<in> set args" "''context=boss/build'' \<in> set args"
  shows "calls = [args] \<and>
    (\<exists>h repo base verdictFile headFile. SHA h \<and> args ! 3 = status_repoPath repo @ ''/statuses/'' @ h \<and>
       reviewed_clean (JStr (review_verdict_of (read_file verdictFile))) False \<and>
       (to_lower (trim (read_file headFile)) = to_lower h \<or>
        carries_review git (remote_of (string_or_empty (if is_nonempty_string base then base else prBase)))
          (trim (read_file headFile)) h))"
proof -
  obtain v base vf hf where v: "SHA (sp_sha v)" "args = status_postArgs v" "calls = [args]"
      "gate_reasons (receipt_gate git read_file prBase (sp_sha v) base vf hf) = None"
    using status_main_posts[OF assms] by blast
  let ?r = "readyGateReport git (read_file vf) (read_file hf) [] prBase (JStr (sp_sha v)) base False False"
  have "rg_ready (rr_gate ?r)" using v(4) by (simp add: receipt_gate_def gate_reasons_def split: if_splits)
  note sound = readyGateReport_sound[OF refl this]
  have parts: "rr_reviewVerdict ?r = review_verdict_of (read_file vf)" "rr_reviewedHead ?r = trim (read_file hf)"
    "rr_head ?r = sp_sha v"
    using SHA_nonblank[OF v(1)] by (simp_all add: readyGateReport_def Let_def string_or_empty_def)
  have "args ! 3 = status_repoPath (sp_repo v) @ ''/statuses/'' @ sp_sha v" unfolding v(2) by (simp add: status_postArgs_def)
  moreover have "reviewed_clean (JStr (review_verdict_of (read_file vf))) False \<and>
      (to_lower (trim (read_file hf)) = to_lower (sp_sha v) \<or>
       carries_review git (remote_of (string_or_empty (if is_nonempty_string base then base else prBase)))
         (trim (read_file hf)) (sp_sha v))"
    using sound unfolding parts by simp
  ultimately show ?thesis using v(1,3) by blast
qed

lemma gate_throws: "gate_reasons None \<noteq> None" by (simp add: gate_reasons_def)

section \<open>Instances\<close>

text \<open>A review of the commit \<open>a\<dots>\<close>, which the branch head \<open>d\<dots>\<close> carries by its tree.\<close>

definition demo_files :: "jsval \<Rightarrow> string" where
  "demo_files name = (if name = JStr ''verdict'' then ''REVIEW_VERDICT=clean'' else sha_of CHR ''a'')"

definition demo_post :: "string list" where
  "demo_post = [''post'', ''--context'', RECEIPT_CONTEXT, ''--state'', ''success'', ''--sha'', sha_of CHR ''d'',
     ''--review-verdict-file'', ''verdict'', ''--reviewed-head-file'', ''head'']"

definition demo_status_post :: status_post where
  "demo_status_post = \<lparr>sp_context = RECEIPT_CONTEXT, sp_state = ''success'', sp_sha = sha_of CHR ''d'', sp_description = [],
     sp_targetUrl = [], sp_repo = []\<rparr>"

theorem receipt_needs_review_witness:
  "\<exists>h repo base headFile. SHA h \<and> status_postArgs demo_status_post ! 3 = status_repoPath repo @ ''/statuses/'' @ h \<and>
     (to_lower (trim (demo_files headFile)) = to_lower h \<or>
      carries_review demo_git (remote_of base) (trim (demo_files headFile)) h)"
proof -
  let ?args = "status_postArgs demo_status_post"
  have run: "status_main (receipt_gate demo_git demo_files (JStr ''main'')) (\<lambda>_. Printed None) demo_post =
      (Posted_status demo_status_post, [?args])" by code_simp
  have sent: "?args \<in> set [?args]" "''state=success'' \<in> set ?args" "''context=boss/build'' \<in> set ?args" by code_simp+
  show ?thesis using receipt_needs_review[OF run sent] by blast
qed

end
