(* ===== verification/ReviewVerdict.thy ===== *)
theory ReviewVerdict
  imports VerifyVerdict ReadyGate
begin

text \<open>
  A review verdict (\<open>review-verdict.mjs\<close>): its schema check and normal form, the status computed from its
  findings, the merge of two verdicts, and the pool over the verdict files of several reviewers.\<close>

section \<open>Checking a verdict\<close>

definition REVIEW_STATUSES :: "string list" where "REVIEW_STATUSES = [''pass'', ''blocked'', ''error'']"

definition REVIEW_SEVERITIES :: "string list" where
  "REVIEW_SEVERITIES = [''P0'', ''P1'', ''P2'', ''P3'', ''style'']"

definition SECOND_MODEL_AGENTS :: "string list" where "SECOND_MODEL_AGENTS = [''codex'', ''claude'']"

text \<open>\<open>/^[0-9a-f]{7,40}$/i\<close>.\<close>

definition commit_sha :: "jsval \<Rightarrow> bool" where
  "commit_sha v = (case v of JStr s \<Rightarrow> 7 \<le> length s \<and> length s \<le> 40 \<and> list_all is_hex s | _ \<Rightarrow> False)"

text \<open>\<open>o[k] = v\<close>.\<close>

definition assign_prop :: "string \<Rightarrow> jsval \<Rightarrow> jsval \<Rightarrow> jsval" where
  "assign_prop k v x = (case x of JObj kvs \<Rightarrow> JObj (AList.update k v kvs) | _ \<Rightarrow> x)"

definition is_bool :: "jsval \<Rightarrow> bool" where
  "is_bool v = (case v of JBool _ \<Rightarrow> True | _ \<Rightarrow> False)"

text \<open>
  A check in progress: the errors, the warnings and the value as repaired so far. A message leaves out
  the input it quotes.
\<close>

record check =
  ck_errors :: "string list"
  ck_warnings :: "string list"
  ck_value :: jsval

definition ck_error :: "string \<Rightarrow> check \<Rightarrow> check" where
  "ck_error msg c = c\<lparr>ck_errors := ck_errors c @ [msg]\<rparr>"

definition ck_warn :: "string \<Rightarrow> check \<Rightarrow> check" where
  "ck_warn msg c = c\<lparr>ck_warnings := ck_warnings c @ [msg]\<rparr>"

definition ck_set :: "string \<Rightarrow> jsval \<Rightarrow> check \<Rightarrow> check" where
  "ck_set k v c = c\<lparr>ck_value := assign_prop k v (ck_value c)\<rparr>"

definition ck_get :: "check \<Rightarrow> string \<Rightarrow> jsval" where
  "ck_get c k = prop_of (ck_value c) k"

subsection \<open>One finding\<close>

definition severity_of :: "jsval \<Rightarrow> string option" where
  "severity_of v =
     (case v of
        JStr s \<Rightarrow>
          if to_lower (trim s) = ''style'' then Some ''style''
          else if to_upper (trim s) \<in> set REVIEW_SEVERITIES then Some (to_upper (trim s)) else None
      | _ \<Rightarrow> None)"

definition check_severity :: "string \<Rightarrow> check \<Rightarrow> check" where
  "check_severity loc c =
     (case severity_of (ck_get c ''severity'') of
        None \<Rightarrow> ck_error (loc @ ''.severity must be one of P0|P1|P2|P3|style'') c
      | Some normal \<Rightarrow>
          (let c' = (if normal \<noteq> ''style'' \<and> ck_get c ''severity'' \<noteq> JStr normal
                     then ck_warn (loc @ ''.severity read as '' @ normal) c else c) in
           ck_set ''severity'' (JStr normal) c'))"

definition check_line :: "string \<Rightarrow> check \<Rightarrow> check" where
  "check_line loc c =
     (let c' = (case ck_get c ''line'' of
            JStr s \<Rightarrow>
              (case decimal_val (trim s) of
                 Some n \<Rightarrow> ck_set ''line'' (JNum (Fin n)) (ck_warn (loc @ ''.line read as a number'') c)
               | None \<Rightarrow> c)
          | _ \<Rightarrow> c) in
      case ck_get c' ''line'' of
        JNum (Fin n) \<Rightarrow> if n < 1 then ck_error (loc @ ''.line must be a positive integer'') c' else c'
      | _ \<Rightarrow> ck_error (loc @ ''.line must be a positive integer'') c')"

definition check_text :: "string \<Rightarrow> string \<Rightarrow> check \<Rightarrow> check" where
  "check_text loc k c =
     (if is_nonempty_string (ck_get c k) then c else ck_error (loc @ ''.'' @ k @ '' must be a non-empty string'') c)"

definition check_source :: "string \<Rightarrow> check \<Rightarrow> check" where
  "check_source loc c =
     (if is_nonempty_string (ck_get c ''source'') then c
      else ck_set ''source'' (JStr ''unknown'') (ck_warn (loc @ ''.source missing; read as unknown'') c))"

text \<open>Unknown means the blocking reading: introduced by this change, not yet fixed.\<close>

definition check_flags :: "string \<Rightarrow> check \<Rightarrow> check" where
  "check_flags loc c =
     (let c1 = (if is_bool (ck_get c ''verified'') then c else ck_error (loc @ ''.verified must be a boolean'') c);
          c2 = (if is_bool (ck_get c1 ''introduced'') then c1
                else ck_set ''introduced'' (JBool True) (ck_warn (loc @ ''.introduced missing; read as true'') c1));
          c3 = (if is_bool (ck_get c2 ''fixed'') then c2
                else ck_set ''fixed'' (JBool False)
                  (if ck_get c2 ''fixed'' \<noteq> JUndef then ck_warn (loc @ ''.fixed is not a boolean; read as false'') c2 else c2)) in
      if ck_get c3 ''fixed'' = JBool True \<and> \<not> commit_sha (ck_get c3 ''fixCommit'')
      then ck_warn (loc @ '' is fixed but names no fixCommit'') c3 else c3)"

definition check_id :: "string \<Rightarrow> jsval list \<Rightarrow> check \<Rightarrow> check" where
  "check_id loc ids c =
     (if \<not> is_nonempty_string (ck_get c ''id'') then ck_error (loc @ ''.id must be a non-empty string'') c
      else if ck_get c ''id'' \<in> set ids then ck_error (loc @ ''.id is not unique'') c
      else c)"

definition new_id :: "jsval list \<Rightarrow> jsval \<Rightarrow> jsval list" where
  "new_id ids finding =
     (if is_plain_object finding \<and> is_nonempty_string (prop_of finding ''id'') \<and> prop_of finding ''id'' \<notin> set ids
      then prop_of finding ''id'' # ids else ids)"

definition check_finding :: "string \<Rightarrow> jsval list \<Rightarrow> check \<Rightarrow> check" where
  "check_finding loc ids c =
     (if \<not> is_plain_object (ck_value c) then ck_error (loc @ '' is not an object'') c
      else
        check_flags loc (check_source loc (fold (check_text loc) [''file'', ''title'', ''evidence'']
          (check_line loc (check_severity loc (check_id loc ids c))))))"

definition finding_at :: "nat \<Rightarrow> string" where
  "finding_at i = ''findings['' @ show_nat i @ '']''"

text \<open>Every finding in turn: the errors, the warnings and the findings as repaired.\<close>

fun check_findings :: "nat \<Rightarrow> jsval list \<Rightarrow> jsval list \<Rightarrow> string list \<times> string list \<times> jsval list" where
  "check_findings i ids [] = ([], [], [])"
| "check_findings i ids (f # fs) =
     (let c = check_finding (finding_at i) ids \<lparr>ck_errors = [], ck_warnings = [], ck_value = f\<rparr> in
      case check_findings (i + 1) (new_id ids f) fs of
        (es, ws, gs) \<Rightarrow> (ck_errors c @ es, ck_warnings c @ ws, ck_value c # gs))"

subsection \<open>The whole verdict\<close>

text \<open>\<open>/^\d+\.\d+:.+$/\<close>.\<close>

definition resolve_ref :: "string \<Rightarrow> bool" where
  "resolve_ref s =
     (let pass = takeWhile is_digit s; r = drop (length pass) s;
          member = takeWhile is_digit (drop 1 r); t = drop (1 + length member) r in
      pass \<noteq> [] \<and> starts_with r ''.'' \<and> member \<noteq> [] \<and> starts_with t '':'' \<and> drop 1 t \<noteq> [] \<and> list_all is_dot (drop 1 t))"

definition is_resolve :: "jsval \<Rightarrow> bool" where
  "is_resolve v = (case v of JStr s \<Rightarrow> resolve_ref s | _ \<Rightarrow> False)"

definition check_header :: "check \<Rightarrow> check" where
  "check_header c =
     (let c1 = (if ck_get c ''version'' = JNum (Fin 1) then c else ck_error ''version must be 1'' c);
          c2 = (if ck_get c ''status'' \<in> JStr ` set REVIEW_STATUSES then c1
                else ck_error ''status must be one of pass|blocked|error'' c1) in
      if ck_get c ''status'' = JStr ''error'' then
        (if is_nonempty_string (ck_get c ''error'') then c2 else ck_error ''an error verdict needs a non-empty error'' c2)
      else
        (let c3 = (if commit_sha (ck_get c ''base'') then c2 else ck_error ''base must be a commit sha'' c2) in
         if commit_sha (ck_get c ''head'') then c3 else ck_error ''head must be a commit sha'' c3))"

definition check_all_findings :: "check \<Rightarrow> check" where
  "check_all_findings c =
     (let c1 = (if ck_get c ''findings'' = JUndef \<and> ck_get c ''status'' = JStr ''error'' then ck_set ''findings'' (JArr []) c else c);
          c2 = (if is_array (ck_get c1 ''findings'') then c1
                else ck_set ''findings'' (JArr []) (ck_error ''findings must be an array'' c1)) in
      case check_findings 0 [] (array_or_empty (ck_get c2 ''findings'')) of
        (es, ws, fs) \<Rightarrow>
          ck_set ''findings'' (JArr fs)
            (c2\<lparr>ck_errors := ck_errors c2 @ es, ck_warnings := ck_warnings c2 @ ws\<rparr>))"

definition check_resolves :: "check \<Rightarrow> check" where
  "check_resolves c =
     (let c1 = (if ck_get c ''resolves'' = JUndef then ck_set ''resolves'' (JArr []) c else c);
          c2 = (if is_array (ck_get c1 ''resolves'') then c1
                else ck_set ''resolves'' (JArr []) (ck_warn ''resolves must be an array; read as []'' c1));
          refs = array_or_empty (ck_get c2 ''resolves'');
          c3 = fold (\<lambda>ref. if is_resolve ref then (\<lambda>x. x)
                else ck_warn ''resolves entry is not a pass.member:id reference; dropped'') refs c2 in
      ck_set ''resolves'' (JArr (uniq (filter is_resolve refs))) c3)"

definition check_fixPass :: "check \<Rightarrow> check" where
  "check_fixPass c =
     (let c1 = (if ck_get c ''fixPass'' = JUndef then ck_set ''fixPass'' (JObj [(''ran'', JBool False)]) c else c);
          pass = ck_get c1 ''fixPass'' in
      if \<not> is_plain_object pass \<or> \<not> is_bool (prop_of pass ''ran'') then ck_error ''fixPass.ran must be a boolean'' c1
      else if prop_of pass ''ran'' = JBool True \<and> \<not> commit_sha (prop_of pass ''deltaBase'')
      then ck_warn ''fixPass ran but names no deltaBase'' c1
      else c1)"

definition check_secondModel :: "check \<Rightarrow> check" where
  "check_secondModel c =
     (let c1 = (if ck_get c ''secondModel'' = JUndef
                then ck_set ''secondModel'' (JObj [(''ran'', JBool False), (''reason'', JStr ''not recorded'')])
                  (ck_warn ''secondModel missing; read as not run'' c)
                else c);
          second = ck_get c1 ''secondModel'' in
      if \<not> is_plain_object second \<or> \<not> is_bool (prop_of second ''ran'') then ck_error ''secondModel.ran must be a boolean'' c1
      else if prop_of second ''ran'' = JBool True \<and> prop_of second ''agent'' \<notin> JStr ` set SECOND_MODEL_AGENTS
      then ck_warn ''secondModel.agent should be one of codex|claude'' c1
      else if prop_of second ''ran'' \<noteq> JBool True \<and> \<not> is_nonempty_string (prop_of second ''reason'')
      then ck_warn ''secondModel did not run and names no reason'' c1
      else c1)"

record checked =
  cv_errors :: "string list"
  cv_warnings :: "string list"
  cv_verdict :: "jsval option"

definition validateVerdict :: "jsval \<Rightarrow> checked" where
  "validateVerdict input =
     (if \<not> is_plain_object input
      then \<lparr>cv_errors = [''verdict is not a JSON object''], cv_warnings = [], cv_verdict = None\<rparr>
      else
        (let c = check_secondModel (check_fixPass (check_resolves (check_all_findings
               (check_header \<lparr>ck_errors = [], ck_warnings = [], ck_value = input\<rparr>)))) in
         \<lparr>cv_errors = ck_errors c, cv_warnings = ck_warnings c,
          cv_verdict = (if ck_errors c = [] then Some (ck_value c) else None)\<rparr>))"

section \<open>What a verdict says\<close>

definition serious :: "jsval \<Rightarrow> bool" where
  "serious f \<longleftrightarrow> prop_of f ''severity'' = JStr ''P0'' \<or> prop_of f ''severity'' = JStr ''P1''"

definition isBlocking :: "jsval \<Rightarrow> bool" where
  "isBlocking f \<longleftrightarrow>
     prop_of f ''verified'' = JBool True \<and> prop_of f ''introduced'' = JBool True \<and> serious f \<and>
     prop_of f ''fixed'' \<noteq> JBool True \<and> \<not> isNoteFinding f"

definition isSeriousPreexisting :: "jsval \<Rightarrow> bool" where
  "isSeriousPreexisting f \<longleftrightarrow>
     prop_of f ''verified'' = JBool True \<and> prop_of f ''introduced'' = JBool False \<and> serious f \<and>
     prop_of f ''fixed'' \<noteq> JBool True"

definition isUnapplied :: "jsval \<Rightarrow> bool" where
  "isUnapplied f \<longleftrightarrow>
     prop_of f ''verified'' = JBool True \<and> prop_of f ''fixed'' \<noteq> JBool True \<and> \<not> serious f \<and> \<not> isNoteFinding f"

definition isReviewNote :: "jsval \<Rightarrow> bool" where
  "isReviewNote f \<longleftrightarrow> prop_of f ''verified'' = JBool True \<and> prop_of f ''fixed'' \<noteq> JBool True \<and> isNoteFinding f"

definition findings_of :: "jsval \<Rightarrow> jsval list" where
  "findings_of verdict = array_or_empty (prop_of verdict ''findings'')"

definition status_of_findings :: "jsval list \<Rightarrow> string" where
  "status_of_findings findings = (if list_ex isBlocking findings then ''blocked'' else ''pass'')"

record review_result =
  rr_status :: string
  rr_warnings :: "string list"
  rr_errors :: "string list"
  rr_verdict :: "jsval option"

definition verdictStatus :: "jsval \<Rightarrow> review_result" where
  "verdictStatus input =
     (let c = validateVerdict input in
      case cv_verdict c of
        None \<Rightarrow> \<lparr>rr_status = ''error'', rr_warnings = cv_warnings c, rr_errors = cv_errors c, rr_verdict = None\<rparr>
      | Some verdict \<Rightarrow>
          if prop_of verdict ''status'' = JStr ''error''
          then \<lparr>rr_status = ''error'', rr_warnings = cv_warnings c, rr_errors = [], rr_verdict = Some verdict\<rparr>
          else
            (let status = status_of_findings (findings_of verdict) in
             \<lparr>rr_status = status,
              rr_warnings = cv_warnings c @
                (if prop_of verdict ''status'' \<noteq> JStr status then [''stated status contradicts the findings; using '' @ status] else []),
              rr_errors = [], rr_verdict = Some (assign_prop ''status'' (JStr status) verdict)\<rparr>))"

section \<open>Merging and pooling\<close>

definition why_broken :: "review_result \<Rightarrow> string" where
  "why_broken r =
     (let e = (case rr_verdict r of Some v \<Rightarrow> prop_of v ''error'' | None \<Rightarrow> JUndef) in
      if nullish e then join ''; '' (rr_errors r) else js_string e)"

text \<open>\<open>String(value ?? '').replace(/\s+/g, ' ').trim()\<close> of a string.\<close>

definition single_line :: "string \<Rightarrow> string" where
  "single_line s = trim (squeeze_ws False s)"

definition error_verdict :: "string \<Rightarrow> jsval" where
  "error_verdict why = JObj [(''version'', JNum (Fin 1)), (''status'', JStr ''error''), (''error'', JStr why)]"

definition numbered_id :: "nat \<Rightarrow> jsval \<Rightarrow> jsval" where
  "numbered_id i f = assign_prop ''id'' (JStr (show_nat i @ '':'' @ js_string (prop_of f ''id''))) f"

fun numbered_findings :: "nat \<Rightarrow> jsval list \<Rightarrow> jsval list" where
  "numbered_findings i [] = []"
| "numbered_findings i (v # vs) = map (numbered_id i) (findings_of v) @ numbered_findings (i + 1) vs"

definition pooled_findings :: "jsval list \<Rightarrow> jsval list" where
  "pooled_findings vs = (if 1 < length vs then numbered_findings 1 vs else concat (map findings_of vs))"

definition did_run :: "string \<Rightarrow> jsval \<Rightarrow> bool" where
  "did_run k v = truthy (prop_of (prop_of v k) ''ran'')"

definition merged_verdict :: "jsval list \<Rightarrow> jsval" where
  "merged_verdict vs =
     JObj [(''version'', JNum (Fin 1)), (''status'', JStr (status_of_findings (pooled_findings vs))),
           (''base'', prop_of (hd vs) ''base''), (''head'', prop_of (last vs) ''head''),
           (''findings'', JArr (pooled_findings vs)),
           (''fixPass'', case find (did_run ''fixPass'') vs of Some v \<Rightarrow> prop_of v ''fixPass''
              | None \<Rightarrow> JObj [(''ran'', JBool False)]),
           (''secondModel'', case find (did_run ''secondModel'') vs of Some v \<Rightarrow> prop_of v ''secondModel''
              | None \<Rightarrow> prop_of (hd vs) ''secondModel'')]"

definition is_error :: "review_result \<Rightarrow> bool" where
  "is_error r \<longleftrightarrow> rr_status r = ''error''"

definition mergeVerdicts :: "review_result list \<Rightarrow> jsval" where
  "mergeVerdicts results =
     (if results = [] then error_verdict ''no verdicts to merge''
      else
        (let broken = filter is_error results in
         if broken \<noteq> [] then
           (let why = single_line (join ''; '' (map why_broken broken)) in
            error_verdict (if why = [] then ''unusable verdict'' else why))
         else merged_verdict (List.map_filter rr_verdict results)))"

record pool_entry =
  pe_pass :: string
  pe_member :: string
  pe_result :: review_result

definition stamped :: "pool_entry \<Rightarrow> review_result" where
  "stamped e =
     (pe_result e)\<lparr>rr_verdict := map_option (\<lambda>v. assign_prop ''findings''
       (JArr (map (\<lambda>f. assign_prop ''ref'' (JStr (pe_pass e @ ''.'' @ pe_member e @ '':'' @ js_string (prop_of f ''id''))) f)
         (findings_of v))) v) (rr_verdict (pe_result e))\<rparr>"

text \<open>The finding a reference names: the last of the pool that carries it.\<close>

fun change_first :: "('a \<Rightarrow> bool) \<Rightarrow> ('a \<Rightarrow> 'a) \<Rightarrow> 'a list \<Rightarrow> 'a list" where
  "change_first p g [] = []"
| "change_first p g (x # xs) = (if p x then g x # xs else x # change_first p g xs)"

definition carries_ref :: "string \<Rightarrow> jsval \<Rightarrow> bool" where
  "carries_ref ref f \<longleftrightarrow> prop_of f ''ref'' = JStr ref"

definition big_int :: "string \<Rightarrow> int" where
  "big_int s = (case decimal_val s of Some i \<Rightarrow> i | None \<Rightarrow> 0)"

definition resolved_finding :: "jsval \<Rightarrow> string \<Rightarrow> jsval \<Rightarrow> jsval" where
  "resolved_finding head by f =
     assign_prop ''resolvedBy'' (JStr by) (assign_prop ''fixCommit'' head (assign_prop ''fixed'' (JBool True) f))"

definition resolve_step ::
  "pool_entry \<Rightarrow> jsval \<Rightarrow> jsval list \<times> string list \<Rightarrow> jsval list \<times> string list" where
  "resolve_step e r = (\<lambda>(findings, warnings).
     (let ref = string_or_empty r in
      case find (carries_ref ref) (rev findings) of
        None \<Rightarrow> (findings, warnings @ [ref @ '': unknown resolution reference; ignored''])
      | Some target \<Rightarrow>
          if big_int (pe_pass e) \<le> big_int (takeWhile (\<lambda>c. c \<noteq> CHR ''.'') ref)
          then (findings, warnings @ [ref @ '': resolution must target an earlier pass; ignored''])
          else if isBlocking target
          then (findings, warnings @ [ref @ '': pooling never clears a blocking finding; ignored''])
          else if \<not> truthy (prop_of target ''fixed'')
          then (rev (change_first (carries_ref ref)
                  (resolved_finding (case rr_verdict (pe_result e) of Some v \<Rightarrow> prop_of v ''head'' | None \<Rightarrow> JUndef)
                    (pe_pass e @ ''.'' @ pe_member e)) (rev findings)), warnings)
          else (findings, warnings)))"

definition resolves_of :: "pool_entry \<Rightarrow> jsval list" where
  "resolves_of e = (case rr_verdict (pe_result e) of Some v \<Rightarrow> array_or_empty (prop_of v ''resolves'') | None \<Rightarrow> [])"

definition resolve_entry :: "pool_entry \<Rightarrow> jsval list \<times> string list \<Rightarrow> jsval list \<times> string list" where
  "resolve_entry e = fold (resolve_step e) (resolves_of e)"

definition poolVerdicts :: "pool_entry list \<Rightarrow> jsval \<times> string list" where
  "poolVerdicts entries =
     (let warnings = concat (map (\<lambda>e. rr_warnings (pe_result e)) entries);
          verdict = mergeVerdicts (map stamped entries) in
      if \<not> has_key verdict ''findings'' then (verdict, warnings)
      else
        (case fold resolve_entry entries (findings_of verdict, warnings) of
           (findings, ws) \<Rightarrow>
             (assign_prop ''status'' (JStr (status_of_findings findings)) (assign_prop ''findings'' (JArr findings) verdict), ws)))"

definition noteVerdict :: "jsval \<Rightarrow> string" where
  "noteVerdict status =
     (if status = JStr ''pass'' then ''clean'' else if status = JStr ''blocked'' then ''capped'' else ''none'')"

text \<open>The note the pool command writes; the ready gate reads it back.\<close>

definition pool_note :: "jsval \<Rightarrow> string" where
  "pool_note status = ''REVIEW_VERDICT='' @ noteVerdict status @ [CHR 0x0A]"

text \<open>Numeric order of the passes and members; \<open>collate\<close> is \<open>localeCompare\<close>.\<close>

definition digits_only :: "string \<Rightarrow> bool" where
  "digits_only s \<longleftrightarrow> decimal_val s \<noteq> None"

definition number_order :: "(string \<Rightarrow> string \<Rightarrow> int) \<Rightarrow> string \<Rightarrow> string \<Rightarrow> int" where
  "number_order collate a b =
     (if big_int a < big_int b then - 1 else if big_int b < big_int a then 1 else collate a b)"

definition pool_order :: "(string \<Rightarrow> string \<Rightarrow> int) \<Rightarrow> string \<times> string \<Rightarrow> string \<times> string \<Rightarrow> int" where
  "pool_order collate a b =
     (if number_order collate (fst a) (fst b) \<noteq> 0 then number_order collate (fst a) (fst b)
      else number_order collate (snd a) (snd b))"

definition poolVerdictFiles :: "(string \<Rightarrow> string \<Rightarrow> int) \<Rightarrow> (string \<times> string) list \<Rightarrow> string list" where
  "poolVerdictFiles collate entries =
     map (\<lambda>(pass, member). join ''/'' [pass, member, ''review-verdict.json''])
       (sort_by (pool_order collate) (filter (\<lambda>(pass, member). digits_only pass \<and> digits_only member) entries))"

section \<open>Follow-ups\<close>

definition finding_item :: "jsval \<Rightarrow> string \<Rightarrow> string" where
  "finding_item f k = single_line (let v = prop_of f k in if nullish v then [] else js_string v)"

definition location_of :: "jsval \<Rightarrow> string" where
  "location_of f = js_string (prop_of f ''file'') @ '':'' @ js_string (prop_of f ''line'')"

definition em_dash :: string where "em_dash = '' '' @ [CHR 0xE2, CHR 0x80, CHR 0x94] @ '' ''"

definition serious_followups :: "jsval \<Rightarrow> jsval list" where
  "serious_followups verdict =
     map (\<lambda>f. JObj [(''text'', JStr (js_string (prop_of f ''severity'') @ '' '' @ location_of f @ em_dash @
            finding_item f ''title'' @ '': '' @ finding_item f ''evidence'')),
          (''source'', JStr ''review-finding''), (''where'', JStr (location_of f))])
       (filter isSeriousPreexisting (findings_of verdict))"

definition resolvable :: "jsval \<Rightarrow> jsval list" where
  "resolvable verdict =
     map (\<lambda>f. JObj (map (\<lambda>k. (k, prop_of f k)) [''ref'', ''severity'', ''introduced'', ''file'', ''line'', ''title'']))
       (filter (\<lambda>f. truthy (prop_of f ''verified'') \<and> \<not> truthy (prop_of f ''fixed'') \<and> \<not> isBlocking f \<and>
          is_nonempty_string (prop_of f ''ref'')) (findings_of verdict))"

section \<open>What pooling keeps\<close>

lemma prop_of_assign:
  "prop_of (assign_prop k v x) j = (if j = k \<and> is_plain_object x then v else prop_of x j)"
  by (cases x) (simp_all add: assign_prop_def is_plain_object_def update_conv')

lemma plain_assign [simp]: "is_plain_object (assign_prop k v x) = is_plain_object x"
  by (cases x) (simp_all add: assign_prop_def is_plain_object_def)

lemma prop_of_plain: "\<not> is_plain_object x \<Longrightarrow> prop_of x k = JUndef"
  by (cases x) (simp_all add: is_plain_object_def)

lemma blocking_assign:
  "k \<notin> {''verified'', ''introduced'', ''severity'', ''fixed'', ''category''} \<Longrightarrow> isBlocking (assign_prop k v f) = isBlocking f"
proof -
  assume "k \<notin> {''verified'', ''introduced'', ''severity'', ''fixed'', ''category''}"
  then have "prop_of (assign_prop k v f) j = prop_of f j" if "j \<in> {''verified'', ''introduced'', ''severity'', ''fixed'', ''category''}" for j
    using that by (auto simp: prop_of_assign)
  then show ?thesis by (simp add: isBlocking_def serious_def isNoteFinding_def)
qed

lemma blocking_numbered: "isBlocking (numbered_id i f) = isBlocking f"
  by (simp add: numbered_id_def blocking_assign)

lemma resolved_not_blocking: "\<not> isBlocking f \<Longrightarrow> \<not> isBlocking (resolved_finding head by f)"
  by (simp add: resolved_finding_def blocking_assign) (auto simp: isBlocking_def prop_of_assign prop_of_plain)

lemma ex_numbered: "list_ex isBlocking (numbered_findings i vs) \<longleftrightarrow> (\<exists>v\<in>set vs. list_ex isBlocking (findings_of v))"
  by (induction vs arbitrary: i) (auto simp: list_ex_iff blocking_numbered bex_Un)

lemma ex_pooled: "list_ex isBlocking (pooled_findings vs) \<longleftrightarrow> (\<exists>v\<in>set vs. list_ex isBlocking (findings_of v))"
  using ex_numbered[of 1 vs] by (auto simp: pooled_findings_def list_ex_iff)

lemma ex_change_first:
  "find p xs = Some t \<Longrightarrow> \<not> B t \<Longrightarrow> \<not> B (g t) \<Longrightarrow> list_ex B (change_first p g xs) = list_ex B xs"
  by (induction xs) (auto split: if_splits)

lemma ex_rev: "list_ex B (rev xs) = list_ex B xs"
  by (auto simp: list_ex_iff)

lemma resolve_step_blocking: "list_ex isBlocking (fst (resolve_step e r s)) = list_ex isBlocking (fst s)"
proof -
  obtain findings ws where s: "s = (findings, ws)" by (cases s)
  show ?thesis
  proof (cases "find (carries_ref (string_or_empty r)) (rev findings)")
    case (Some t)
    show ?thesis
    proof (cases "isBlocking t")
      case False
      then have "list_ex isBlocking (change_first (carries_ref (string_or_empty r)) (resolved_finding h b) (rev findings)) =
          list_ex isBlocking findings" for h b
        using ex_change_first[of "carries_ref (string_or_empty r)" "rev findings" t isBlocking "resolved_finding h b"] Some resolved_not_blocking ex_rev[of isBlocking findings] by metis
      then show ?thesis using Some s by (simp add: resolve_step_def Let_def ex_rev)
    qed (simp add: resolve_step_def Let_def Some s)
  qed (simp add: resolve_step_def Let_def s)
qed

lemma resolve_entry_blocking: "list_ex isBlocking (fst (resolve_entry e s)) = list_ex isBlocking (fst s)"
proof -
  have "list_ex isBlocking (fst (fold (resolve_step e) rs s)) = list_ex isBlocking (fst s)" for rs
    by (induction rs arbitrary: s) (simp_all add: resolve_step_blocking)
  then show ?thesis by (simp add: resolve_entry_def)
qed

lemma resolve_entries_blocking: "list_ex isBlocking (fst (fold resolve_entry es s)) = list_ex isBlocking (fst s)"
  by (induction es arbitrary: s) (simp_all add: resolve_entry_blocking)

section \<open>What a load gives\<close>

text \<open>What \<open>load\<close> gives: the status of a verdict that was read, or an error.\<close>

definition loaded :: "review_result \<Rightarrow> bool" where
  "loaded r \<longleftrightarrow> (\<exists>why. r = \<lparr>rr_status = ''error'', rr_warnings = [], rr_errors = [why], rr_verdict = None\<rparr>) \<or> (\<exists>input. r = verdictStatus input)"

lemma ck_value_simps [simp]:
  "ck_value (ck_error m c) = ck_value c" "ck_value (ck_warn m c) = ck_value c"
  "ck_value (ck_set k v c) = assign_prop k v (ck_value c)"
  by (simp_all add: ck_error_def ck_warn_def ck_set_def)

lemma fold_warn_value: "ck_value (fold (\<lambda>x. if p x then (\<lambda>y. y) else ck_warn m) xs c) = ck_value c"
  by (induction xs arbitrary: c) simp_all

lemma plain_checks:
  "is_plain_object (ck_value (check_header c)) = is_plain_object (ck_value c)"
  "is_plain_object (ck_value (check_all_findings c)) = is_plain_object (ck_value c)"
  "is_plain_object (ck_value (check_resolves c)) = is_plain_object (ck_value c)"
  "is_plain_object (ck_value (check_fixPass c)) = is_plain_object (ck_value c)"
  "is_plain_object (ck_value (check_secondModel c)) = is_plain_object (ck_value c)"
  by (simp_all add: check_header_def check_all_findings_def check_resolves_def check_fixPass_def check_secondModel_def
      Let_def fold_warn_value split: prod.split)

lemma validated_plain: "cv_verdict (validateVerdict input) = Some v \<Longrightarrow> is_plain_object v"
  by (auto simp: validateVerdict_def Let_def plain_checks split: if_splits)

lemma loaded_usable:
  assumes "loaded r" "\<not> is_error r"
  obtains v where "rr_verdict r = Some v" "is_plain_object v" "rr_status r = status_of_findings (findings_of v)"
proof -
  obtain input where r: "r = verdictStatus input" using assms by (auto simp: loaded_def is_error_def)
  obtain v where v: "cv_verdict (validateVerdict input) = Some v" "prop_of v ''status'' \<noteq> JStr ''error''"
    using assms(2) by (auto simp: r verdictStatus_def is_error_def Let_def split: option.splits if_splits)
  let ?s = "status_of_findings (findings_of v)"
  have "rr_verdict r = Some (assign_prop ''status'' (JStr ?s) v)" "rr_status r = ?s"
    using v by (simp_all add: r verdictStatus_def Let_def)
  moreover have "findings_of (assign_prop ''status'' (JStr ?s) v) = findings_of v" by (simp add: findings_of_def prop_of_assign)
  ultimately show thesis
    using that[of "assign_prop ''status'' (JStr ?s) v"] validated_plain[OF v(1)] by simp
qed

lemma loaded_status:
  assumes "loaded r"
  shows "rr_status r \<in> {''pass'', ''blocked'', ''error''}"
proof (cases "is_error r")
  case False
  then obtain v where "rr_status r = status_of_findings (findings_of v)" using loaded_usable[OF assms] by blast
  then show ?thesis by (simp add: status_of_findings_def)
qed (simp add: is_error_def)

lemma stamped_error [simp]: "is_error (stamped e) = is_error (pe_result e)"
  by (simp add: stamped_def is_error_def)

lemma stamped_blocking:
  assumes "loaded (pe_result e)" "\<not> is_error (pe_result e)"
  shows "\<exists>v. rr_verdict (stamped e) = Some v \<and> (list_ex isBlocking (findings_of v) \<longleftrightarrow> rr_status (pe_result e) = ''blocked'')"
proof -
  obtain v where v: "rr_verdict (pe_result e) = Some v" "is_plain_object v" "rr_status (pe_result e) = status_of_findings (findings_of v)"
    using loaded_usable[OF assms] .
  have "list_ex isBlocking (map (\<lambda>f. assign_prop ''ref'' x f) fs) = list_ex isBlocking fs" for x fs
    by (induction fs) (simp_all add: blocking_assign)
  moreover have "list_ex isBlocking (map (\<lambda>f. assign_prop ''ref'' (g f) f) fs) = list_ex isBlocking fs" for g fs
    by (induction fs) (simp_all add: blocking_assign)
  ultimately show ?thesis using v
    by (simp add: stamped_def findings_of_def prop_of_assign array_or_empty_def status_of_findings_def)
qed

lemma map_filter_all: "(\<And>x. x \<in> set xs \<Longrightarrow> f x \<noteq> None) \<Longrightarrow> set (List.map_filter f xs) = (\<lambda>x. the (f x)) ` set xs"
  by (induction xs) (force simp: List.map_filter_simps)+

text \<open>C14:
  A pool says what its worst member says. Over verdicts as they are loaded, the pooled status is an error
  when there is none or one is unusable, blocked when any of them is blocked, and pass otherwise, whatever
  the members resolve; and the note it leaves opens the ready gate's review exactly when every member
  passed.\<close>

theorem pool_is_worst_member:
  assumes "\<forall>e\<in>set entries. loaded (pe_result e)"
  shows "prop_of (fst (poolVerdicts entries)) ''status'' = JStr
      (if entries = [] \<or> (\<exists>e\<in>set entries. rr_status (pe_result e) = ''error'') then ''error''
       else if \<exists>e\<in>set entries. rr_status (pe_result e) = ''blocked'' then ''blocked'' else ''pass'') \<and>
    (reviewed_clean (JStr (review_verdict_of (pool_note (prop_of (fst (poolVerdicts entries)) ''status'')))) False \<longleftrightarrow>
      entries \<noteq> [] \<and> (\<forall>e\<in>set entries. rr_status (pe_result e) = ''pass''))"
proof -
  have status: "prop_of (fst (poolVerdicts entries)) ''status'' = JStr
      (if entries = [] \<or> (\<exists>e\<in>set entries. is_error (pe_result e)) then ''error''
       else if \<exists>e\<in>set entries. rr_status (pe_result e) = ''blocked'' then ''blocked'' else ''pass'')"
  proof (cases "entries = [] \<or> (\<exists>e\<in>set entries. is_error (pe_result e))")
    case True
    then have "\<exists>why. mergeVerdicts (map stamped entries) = error_verdict why"
      by (cases "entries = []") (auto simp: mergeVerdicts_def Let_def filter_empty_conv)
    then show ?thesis using True by (auto simp: poolVerdicts_def Let_def error_verdict_def has_key_def)
  next
    case False
    then have ok: "\<forall>e\<in>set entries. loaded (pe_result e) \<and> \<not> is_error (pe_result e)" "entries \<noteq> []" using assms by auto
    let ?vs = "List.map_filter rr_verdict (map stamped entries)"
    have "filter is_error (map stamped entries) = []" using ok by (auto simp: filter_empty_conv)
    then have merged: "mergeVerdicts (map stamped entries) = merged_verdict ?vs" using ok by (simp add: mergeVerdicts_def)
    have each: "rr_verdict (stamped e) \<noteq> None"
      "list_ex isBlocking (findings_of (the (rr_verdict (stamped e)))) \<longleftrightarrow> rr_status (pe_result e) = ''blocked''" if "e \<in> set entries" for e
      using stamped_blocking[of e] ok that by auto
    have "set ?vs = (\<lambda>x. the (rr_verdict x)) ` set (map stamped entries)" using each by (intro map_filter_all) auto
    then have blocked: "list_ex isBlocking (pooled_findings ?vs) \<longleftrightarrow> (\<exists>e\<in>set entries. rr_status (pe_result e) = ''blocked'')"
      using each by (auto simp: ex_pooled)
    have m: "has_key (merged_verdict ?vs) ''findings''" "findings_of (merged_verdict ?vs) = pooled_findings ?vs" "is_plain_object (merged_verdict ?vs)"
      by (simp_all add: merged_verdict_def has_key_def findings_of_def array_or_empty_def is_plain_object_def)
    show ?thesis
      using False resolve_entries_blocking[of entries "(pooled_findings ?vs, concat (map (\<lambda>e. rr_warnings (pe_result e)) entries))"] blocked
      by (cases "fold resolve_entry entries (pooled_findings ?vs, concat (map (\<lambda>e. rr_warnings (pe_result e)) entries))")
        (simp add: poolVerdicts_def Let_def merged m prop_of_assign status_of_findings_def)
  qed
  have opens: "reviewed_clean (JStr (review_verdict_of (pool_note (JStr ''error'')))) False = False"
    "reviewed_clean (JStr (review_verdict_of (pool_note (JStr ''blocked'')))) False = False"
    "reviewed_clean (JStr (review_verdict_of (pool_note (JStr ''pass'')))) False = True"
  proof -
    have "review_verdict_of (pool_note (JStr ''error'')) = ''none''" "review_verdict_of (pool_note (JStr ''blocked'')) = ''capped''"
      "review_verdict_of (pool_note (JStr ''pass'')) = ''clean''" "trim ''none'' = ''none''" "trim ''capped'' = ''capped''" "trim ''clean'' = ''clean''"
      by code_simp+
    then show "reviewed_clean (JStr (review_verdict_of (pool_note (JStr ''error'')))) False = False"
      "reviewed_clean (JStr (review_verdict_of (pool_note (JStr ''blocked'')))) False = False"
      "reviewed_clean (JStr (review_verdict_of (pool_note (JStr ''pass'')))) False = True"
      by (simp_all add: reviewed_clean_def)
  qed
  have "\<forall>e\<in>set entries. rr_status (pe_result e) \<in> {''pass'', ''blocked'', ''error''}" using assms loaded_status by blast
  then show ?thesis unfolding status using opens by (auto simp: is_error_def) force
qed

section \<open>Instances\<close>

definition demo_verdict :: "string \<Rightarrow> jsval" where
  "demo_verdict sev =
     JObj [(''version'', JNum (Fin 1)), (''status'', JStr ''pass''), (''base'', JStr ''aaaaaaa''), (''head'', JStr ''bbbbbbb''),
       (''findings'', JArr [JObj [(''id'', JStr ''f''), (''severity'', JStr sev), (''file'', JStr ''x''), (''line'', JNum (Fin 1)),
          (''title'', JStr ''t''), (''evidence'', JStr ''e''), (''verified'', JBool True)]])]"

definition demo_entry :: "string \<Rightarrow> string \<Rightarrow> pool_entry" where
  "demo_entry member sev = \<lparr>pe_pass = ''1'', pe_member = member, pe_result = verdictStatus (demo_verdict sev)\<rparr>"

theorem pool_is_worst_member_witness:
  "prop_of (fst (poolVerdicts [demo_entry ''1'' ''p2'', demo_entry ''2'' ''P1''])) ''status'' = JStr ''blocked''"
proof -
  let ?es = "[demo_entry ''1'' ''p2'', demo_entry ''2'' ''P1'']"
  have "\<forall>e\<in>set ?es. loaded (pe_result e)" by (auto simp: loaded_def demo_entry_def)
  note worst = pool_is_worst_member[OF this]
  have "rr_status (pe_result (demo_entry ''1'' ''p2'')) = ''pass''" "rr_status (pe_result (demo_entry ''2'' ''P1'')) = ''blocked''"
    by code_simp+
  then show ?thesis using worst by simp
qed

end
