(* ===== verification/BlockerClearance.thy ===== *)
theory BlockerClearance
  imports EpicLib PrCheckState
begin

text \<open>
  Whether a blocking ticket still blocks (\<open>tracker/blocker-clearance.mjs\<close>): the pull requests it links, the
  paths the dependent ticket names, the facts looked up about each pull request
  (\<open>build/blocker-pr-facts.mjs\<close>), and the verdict for a blocker whose work is under review.\<close>

section \<open>The pull requests of a blocker\<close>

text \<open>\<open>/^https?:\/\/github\.com\/[^/\s]+\/[^/\s]+\/pull\/\d+(?=[/?#]|$)/i\<close>: the text it matches.\<close>

definition url_span :: "char \<Rightarrow> bool" where
  "url_span c \<longleftrightarrow> c \<noteq> CHR ''/'' \<and> \<not> is_ws c"

definition eat_lower :: "string \<Rightarrow> string \<Rightarrow> string option" where
  "eat_lower lit s = (if to_lower (take (length lit) s) = lit then Some (drop (length lit) s) else None)"

definition pr_url :: "string \<Rightarrow> string option" where
  "pr_url url =
     (case (case eat_lower ''https://github.com/'' url of Some r \<Rightarrow> Some r | None \<Rightarrow> eat_lower ''http://github.com/'' url) of
        None \<Rightarrow> None
      | Some r \<Rightarrow>
          (let owner = takeWhile url_span r; r1 = drop (length owner) r;
               repo = takeWhile url_span (drop 1 r1); r2 = drop (1 + length repo) r1 in
           if owner = [] \<or> \<not> starts_with r1 ''/'' \<or> repo = [] then None
           else
             (case eat_lower ''/pull/'' r2 of
                None \<Rightarrow> None
              | Some r3 \<Rightarrow>
                  (let number = takeWhile is_digit r3; rest = drop (length number) r3 in
                   if number \<noteq> [] \<and> (rest = [] \<or> hd rest \<in> set ''/?#'')
                   then Some (take (length url - length rest) url) else None))))"

definition prUrlsOf :: "jsval \<Rightarrow> string list" where
  "prUrlsOf blocker =
     uniq (List.map_filter (\<lambda>node. case prop_of node ''url'' of JStr s \<Rightarrow> pr_url s | _ \<Rightarrow> None)
       (array_or_empty (prop_of (prop_of blocker ''attachments'') ''nodes'')))"

section \<open>The paths of a dependent\<close>

text \<open>\<open>path.replace(/^(\.\/)+/, '')\<close>.\<close>

fun strip_dots :: "string \<Rightarrow> string" where
  "strip_dots (a # b # s) = (if a = CHR ''.'' \<and> b = CHR ''/'' then strip_dots s else a # b # s)"
| "strip_dots s = s"

text \<open>\<open>matchAll(/`([^`]+)`/g)\<close>: the spans between backticks, left to right. An empty pair yields nothing, and its
  second backtick may open the next span.\<close>

fun code_spans :: "nat \<Rightarrow> string \<Rightarrow> string list" where
  "code_spans 0 s = []"
| "code_spans (Suc n) s =
     (case dropWhile (\<lambda>c. c \<noteq> CHR ''`'') s of
        [] \<Rightarrow> []
      | _ # r \<Rightarrow>
          (let token = takeWhile (\<lambda>c. c \<noteq> CHR ''`'') r; rest = drop (length token) r in
           if rest = [] then []
           else if token = [] then code_spans n r
           else token # code_spans n (tl rest)))"

definition plain_path :: "string \<Rightarrow> bool" where
  "plain_path path \<longleftrightarrow>
     \<not> list_ex is_ws path \<and> \<not> starts_with path ''/'' \<and> CHR '':'' \<notin> set path \<and>
     ''..'' \<notin> set (split_on (CHR ''/'') path) \<and> \<not> starts_with path ''-''"

definition dependentPathsFrom :: "jsval \<Rightarrow> string list" where
  "dependentPathsFrom part =
     (case part of
        JStr s \<Rightarrow> uniq (filter plain_path (map strip_dots (code_spans (length s) s)))
      | _ \<Rightarrow> [])"

section \<open>Clearing a blocker\<close>

text \<open>\<open>name.toLowerCase().replace(/[\s_-]/g, '')\<close>.\<close>

definition bare_state :: "jsval \<Rightarrow> string" where
  "bare_state v = (case v of JStr s \<Rightarrow> filter (\<lambda>c. \<not> is_ws c \<and> c \<notin> set ''_-'') (to_lower s) | _ \<Rightarrow> [])"

definition sameState :: "jsval \<Rightarrow> jsval \<Rightarrow> bool" where
  "sameState a b \<longleftrightarrow> bare_state a \<noteq> [] \<and> bare_state a = bare_state b"

definition has_ending :: "string \<Rightarrow> string \<Rightarrow> bool" where
  "has_ending s t \<longleftrightarrow> starts_with (rev s) (rev t)"

definition names_directory :: "string \<Rightarrow> bool" where
  "names_directory path \<longleftrightarrow> has_ending path ''/'' \<or> CHR ''.'' \<notin> set (last (split_on (CHR ''/'') path))"

definition path_overlaps :: "string \<Rightarrow> string \<Rightarrow> bool" where
  "path_overlaps path changed \<longleftrightarrow>
     (if names_directory path
      then starts_with changed ((if has_ending path ''/'' then butlast path else path) @ ''/'')
      else changed = path)"

definition overlaps :: "string list \<Rightarrow> string list \<Rightarrow> bool" where
  "overlaps dependentPaths changes \<longleftrightarrow>
     list_ex (\<lambda>raw. list_ex (\<lambda>c. path_overlaps (strip_dots raw) (strip_dots c)) changes) dependentPaths"

text \<open>\<open>prFacts\<close> is \<open>None\<close> when it was not given; a URL it lacks has no fact.\<close>

record clear_options =
  co_prFacts :: "(string \<Rightarrow> jsval option) option"
  co_clearedStateTypes :: "string list"
  co_mode :: string
  co_inReviewState :: jsval
  co_dependentPaths :: "string list"

datatype clearance = Cleared | Uncleared | Needs_pr_facts | Review_clearable

definition merged_fact :: "jsval option \<Rightarrow> bool" where
  "merged_fact found =
     (case found of None \<Rightarrow> False
      | Some f \<Rightarrow> truthy f \<and> \<not> truthy (prop_of f ''error'') \<and>
          (prop_of f ''state'' = JStr ''MERGED'' \<or> truthy (prop_of f ''mergedAt'')))"

definition unknown_fact :: "jsval option \<Rightarrow> bool" where
  "unknown_fact found =
     (case found of None \<Rightarrow> True
      | Some f \<Rightarrow> \<not> truthy f \<or> truthy (prop_of f ''error'') \<or> prop_of f ''state'' \<notin> {JStr ''OPEN'', JStr ''CLOSED''})"

definition disjoint_fact :: "string list \<Rightarrow> jsval \<Rightarrow> bool" where
  "disjoint_fact dependentPaths f =
     (case prop_of f ''files'' of
        JArr files \<Rightarrow>
          list_all (\<lambda>v. case v of JStr s \<Rightarrow> s \<noteq> [] | _ \<Rightarrow> False) files \<and>
          \<not> overlaps dependentPaths (map string_or_empty files)
      | _ \<Rightarrow> False)"

definition review_clears :: "clear_options \<Rightarrow> jsval \<Rightarrow> jsval list \<Rightarrow> bool" where
  "review_clears opts blocker open_facts \<longleftrightarrow>
     co_mode opts \<in> {''selection'', ''gate''} \<and>
     sameState (prop_of (prop_of blocker ''state'') ''name'') (co_inReviewState opts) \<and>
     open_facts \<noteq> [] \<and>
     list_all (\<lambda>f. prop_of f ''isDraft'' = JBool False \<and> prop_of f ''green'' = JBool True) open_facts \<and>
     (co_mode opts = ''gate'' \<or>
      co_dependentPaths opts \<noteq> [] \<and> list_all (disjoint_fact (co_dependentPaths opts)) open_facts)"

definition classifyBlocker :: "clear_options \<Rightarrow> jsval \<Rightarrow> clearance \<times> string" where
  "classifyBlocker opts blocker =
     (if prop_of (prop_of blocker ''state'') ''type'' \<in> JStr ` set (co_clearedStateTypes opts) then (Cleared, ''state'')
      else
        (let urls = prUrlsOf blocker in
         if urls = [] then (Uncleared, ''no-pr'')
         else
           (case co_prFacts opts of
              None \<Rightarrow> (Needs_pr_facts, ''pr-facts-needed'')
            | Some facts_of \<Rightarrow>
                (let facts = map facts_of urls in
                 if list_ex merged_fact facts then (Cleared, ''merged-pr'')
                 else if list_ex unknown_fact facts then (Uncleared, ''pr-unknown'')
                 else if review_clears opts blocker
                   (filter (\<lambda>f. prop_of f ''state'' = JStr ''OPEN'') (List.map_filter id facts))
                 then (Review_clearable, ''green-disjoint-pr'')
                 else (Uncleared, ''unmerged-pr'')))))"

definition blockerVerdict :: "clear_options \<Rightarrow> jsval list \<Rightarrow> string" where
  "blockerVerdict opts blockers =
     (let outcomes = map (\<lambda>b. fst (classifyBlocker opts b)) blockers in
      if Uncleared \<in> set outcomes then ''blocked''
      else if Needs_pr_facts \<in> set outcomes then ''unknown'' else ''unblocked'')"

definition softClearedBlockers :: "clear_options \<Rightarrow> jsval list \<Rightarrow> (jsval \<times> string) list" where
  "softClearedBlockers opts blockers =
     concat (map (\<lambda>b.
       if fst (classifyBlocker opts b) = Review_clearable
       then map (\<lambda>pr. (prop_of b ''id'', pr))
         (filter (\<lambda>url. case co_prFacts opts of None \<Rightarrow> False
            | Some facts_of \<Rightarrow> (case facts_of url of Some f \<Rightarrow> prop_of f ''state'' = JStr ''OPEN'' | None \<Rightarrow> False))
          (prUrlsOf b))
       else []) blockers)"


section \<open>The facts of a pull request\<close>

text \<open>What \<open>gh pr view\<close> comes back with: an error, a non-zero exit, or its output (\<open>None\<close>: no JSON).\<close>

datatype view_answer = View_error string | View_failed | View_output "jsval option"

definition lookup_error :: "string \<Rightarrow> jsval" where
  "lookup_error why = JObj [(''error'', JStr why)]"

definition view_files :: "jsval \<Rightarrow> jsval" where
  "view_files v =
     (case prop_of v ''files'' of
        JArr fs \<Rightarrow>
          if length fs < 100 \<and> list_all (\<lambda>f. is_nonempty_string (prop_of f ''path'')) fs
          then JArr (map (\<lambda>f. prop_of f ''path'') fs) else JNull
      | _ \<Rightarrow> JNull)"

definition valid_rollup :: "jsval \<Rightarrow> bool" where
  "valid_rollup rollup \<longleftrightarrow>
     (case rollup of
        JArr es \<Rightarrow> list_all (\<lambda>e. list_ex (\<lambda>k. is_nonempty_string (prop_of e k)) [''name'', ''context'']) es
      | _ \<Rightarrow> False)"

text \<open>An entry without a name cannot disappear beside a passing check: the whole rollup is unreadable.\<close>

definition lookup_checks :: "jsval \<Rightarrow> jsval" where
  "lookup_checks rollup =
     (if valid_rollup rollup then JObj [(''rollup'', rollup)]
      else JObj [(''rollup'', JNull), (''readError'', JStr ''invalid-rollup'')])"

definition valid_view :: "jsval \<Rightarrow> bool" where
  "valid_view v \<longleftrightarrow> truthy v \<and> prop_of v ''state'' \<in> {JStr ''OPEN'', JStr ''CLOSED'', JStr ''MERGED''} \<and>
     (case prop_of v ''isDraft'' of JBool _ \<Rightarrow> True | _ \<Rightarrow> False) \<and>
     (prop_of v ''mergedAt'' = JNull \<or> is_string (prop_of v ''mergedAt''))"

text \<open>The facts less the full check verdict, of which clearance reads only whether it is green.\<close>

definition pr_lookup :: "view_answer \<Rightarrow> jsval" where
  "pr_lookup r =
     (case r of
        View_error why \<Rightarrow> lookup_error why
      | View_failed \<Rightarrow> lookup_error ''command-failed''
      | View_output None \<Rightarrow> lookup_error ''lookup-failed''
      | View_output (Some v) \<Rightarrow>
          if \<not> valid_view v then lookup_error ''invalid-pr-facts''
          else
            (case classifyChecks (lookup_checks (prop_of v ''statusCheckRollup'')) of
               Inl _ \<Rightarrow> lookup_error ''lookup-failed''
             | Inr checks \<Rightarrow>
                 JObj [(''state'', prop_of v ''state''), (''isDraft'', prop_of v ''isDraft''), (''mergedAt'', prop_of v ''mergedAt''),
                       (''files'', view_files v), (''green'', JBool (v_state checks = GREEN))]))"

section \<open>What clears for review\<close>







section \<open>Instances\<close>

definition demo_blocker :: jsval where
  "demo_blocker =
     JObj [(''id'', JStr ''B-1''), (''state'', JObj [(''name'', JStr ''In Review''), (''type'', JStr ''started'')]),
           (''attachments'', JObj [(''nodes'', JArr [JObj [(''url'', JStr ''https://github.com/o/r/pull/7#top'')]])])]"

definition demo_view :: "string \<Rightarrow> view_answer" where
  "demo_view changed =
     View_output (Some (JObj [(''state'', JStr ''OPEN''), (''isDraft'', JBool False), (''mergedAt'', JNull),
       (''files'', JArr [JObj [(''path'', JStr changed)]]),
       (''statusCheckRollup'', JArr [JObj [(''name'', JStr ''test''), (''status'', JStr ''COMPLETED''), (''conclusion'', JStr ''SUCCESS'')]])]))"

definition demo_clear :: "string \<Rightarrow> string \<Rightarrow> clear_options" where
  "demo_clear path changed =
     \<lparr>co_prFacts = Some (\<lambda>url. Some (pr_lookup (demo_view changed))), co_clearedStateTypes = BLOCKER_CLEARED_STATE_TYPES,
      co_mode = ''selection'', co_inReviewState = JStr ''in_review'', co_dependentPaths = [path]\<rparr>"


text \<open>
  A path without a dot in its last part counts as a directory, which a file of that very name is not
  under: a dependent that changes \<open>Makefile\<close> clears beside an open pull request that changes \<open>Makefile\<close>.\<close>

theorem extensionless_file_clears:
  "classifyBlocker (demo_clear ''Makefile'' ''Makefile'') demo_blocker = (Review_clearable, ''green-disjoint-pr'')"
  by code_simp

end
