(* ===== verification/VerifyMerge.thy ===== *)
theory VerifyMerge
  imports VerifyApproval
begin

text \<open>
  The \<open>merge\<close> verb of \<open>verify/verify-gate.mjs\<close>, with the readers it calls: the status of the head from the
  daemon or from \<open>gh\<close> (\<open>verify/verify-pr-state.mjs\<close>), CI on the head with the contexts of the prior head
  (\<open>verify/verify-range.mjs\<close>), and the session that owns the pull request
  (\<open>verify/verify-admission.mjs\<close>). What each read and the merge command answer is an argument. The lemmas
  show what the command is run on, and when the verb reports a merge.\<close>

section \<open>The status to merge on\<close>

text \<open>\<open>readVerifyPrState\<close> answers the daemon's envelope, hands over to \<open>gh\<close>, or fails.\<close>

datatype state_source = Daemon jsval | Gh_fallback | State_error

text \<open>The one status of a context in the envelope's checks; the outer \<open>None\<close> is \<open>undefined\<close>, unreadable.\<close>

definition contextStatusOf :: "jsval \<Rightarrow> string \<Rightarrow> head_status option option" where
  "contextStatusOf envelope context =
     (case filter (\<lambda>c. prop_of c ''name'' = JStr context) (array_or_empty (prop_of envelope ''checks'')) of
        [] \<Rightarrow> Some None
      | [c] \<Rightarrow>
          if truthy (prop_of c ''is_unclassified'') then None
          else Some (Some
            \<lparr>hs_state = (if prop_of c ''status'' \<noteq> JStr ''completed'' then ''pending''
                         else if prop_of c ''conclusion'' = JStr ''success'' then ''success'' else ''failure''),
             hs_description = string_or_empty (prop_of c ''description''), hs_updatedAt = None\<rparr>)
      | _ \<Rightarrow> None)"

definition latestStatus :: "answer \<Rightarrow> head_status option option" where
  "latestStatus r = map_option (latest_of VERIFY_CONTEXT) (status_answer r)"

datatype merge_status = Head_moved | Status_unreadable | Status_read "head_status option"

definition mergeStatus :: "state_source \<Rightarrow> string \<Rightarrow> answer \<Rightarrow> merge_status" where
  "mergeStatus source headSha fallback =
     (case source of
        Gh_fallback \<Rightarrow> (case latestStatus fallback of None \<Rightarrow> Status_unreadable | Some s \<Rightarrow> Status_read s)
      | State_error \<Rightarrow> Status_unreadable
      | Daemon envelope \<Rightarrow>
          if to_lower (string_or_empty (prop_of envelope ''head_sha'')) \<noteq> headSha then Head_moved
          else (case contextStatusOf envelope VERIFY_CONTEXT of
                  None \<Rightarrow> Status_unreadable | Some s \<Rightarrow> Status_read s))"

section \<open>CI on the head\<close>

text \<open>One context of the prior head: the name that identifies it and the node with its workflow.\<close>

definition prior_name :: "jsval \<Rightarrow> jsval" where
  "prior_name c = coalesce (prop_of c ''name'') (prop_of c ''context'')"

definition prior_context :: "jsval \<Rightarrow> jsval" where
  "prior_context c =
     (let w = prop_of (prop_of (prop_of c ''checkSuite'') ''workflowRun'') ''workflow'';
          named = (if truthy (prop_of w ''name'') then set_prop ''workflowName'' (prop_of w ''name'') c else c) in
      (case prop_of w ''databaseId'' of JNum (Fin n) \<Rightarrow> set_prop ''workflowId'' (JNum (Fin n)) named | _ \<Rightarrow> named))"

text \<open>The contexts of one commit that are not the toolbox's own; \<open>None\<close> where one has no name.\<close>

fun prior_contexts :: "jsval list \<Rightarrow> jsval list option" where
  "prior_contexts [] = Some []"
| "prior_contexts (c # cs) =
     (case prior_name c of
        JStr n \<Rightarrow>
          if trim n = [] then None
          else if starts_with n BOSS_PREFIX then prior_contexts cs
          else map_option ((#) (prior_context c)) (prior_contexts cs)
      | _ \<Rightarrow> None)"

text \<open>
  Over the commits from the newest: \<open>None\<close> is unknown, \<open>Some None\<close> a known absence, \<open>Some (Some cs)\<close> the
  contexts of the newest earlier head that has any.
\<close>

fun prior_from :: "string \<Rightarrow> jsval list \<Rightarrow> jsval list option option" where
  "prior_from headSha [] = Some None"
| "prior_from headSha (node # nodes) =
     (let commit = coalesce (prop_of node ''commit'') (prop_of node ''beforeCommit'');
          rollup = prop_of commit ''statusCheckRollup''; connection = prop_of rollup ''contexts'' in
      if \<not> sha (prop_of commit ''oid'') then None
      else if to_lower (string_or_empty (prop_of commit ''oid'')) = to_lower headSha then prior_from headSha nodes
      else if rollup = JNull then prior_from headSha nodes
      else if \<not> is_plain_object connection \<or> prop_of (prop_of connection ''pageInfo'') ''hasNextPage'' \<noteq> JBool False
      then None
      else
        (case prop_of connection ''nodes'' of
           JArr cs \<Rightarrow>
             (case prior_contexts cs of
                None \<Rightarrow> None
              | Some [] \<Rightarrow> prior_from headSha nodes
              | Some kept \<Rightarrow> Some (Some kept))
         | _ \<Rightarrow> None))"

definition resolvePriorHead :: "jsval \<Rightarrow> string \<Rightarrow> jsval list option option" where
  "resolvePriorHead payload headSha =
     (if \<not> is_plain_object payload \<or> prop_of payload ''errors'' \<noteq> JUndef then None
      else
        (case prop_of (prop_of (prop_of (prop_of (prop_of payload ''data'') ''repository'') ''pullRequest'') ''timelineItems'')
                ''nodes'' of
           JArr nodes \<Rightarrow> prior_from headSha (rev nodes)
         | _ \<Rightarrow> None))"

definition payload_of :: "answer \<Rightarrow> jsval" where
  "payload_of r = (case r of Answered p \<Rightarrow> p | Failed p \<Rightarrow> p)"

definition runs_readable :: "answer \<Rightarrow> bool" where
  "runs_readable r =
     (case r of
        Answered (JArr pages) \<Rightarrow>
          pages \<noteq> [] \<and> list_all (\<lambda>page. is_plain_object page \<and> is_array (prop_of page ''workflow_runs'')) pages
      | _ \<Rightarrow> False)"

definition ci_input :: "answer \<Rightarrow> jsval \<Rightarrow> string \<Rightarrow> jsval \<Rightarrow> jsval list option option \<Rightarrow> (string \<times> jsval) list" where
  "ci_input checked view headSha required prior =
     [(''headSHA'', JStr headSha), (''observedSHA'', coalesce (prop_of view ''headRefOid'') (JStr [])),
      (''rollup'', prop_of view ''statusCheckRollup''),
      (''priorContexts'', case prior of Some (Some cs) \<Rightarrow> JArr cs | _ \<Rightarrow> JNull),
      (''workflowRuns'', payload_of checked),
      (''readError'', if prior = None \<or> \<not> runs_readable checked then JStr ''CI evidence unreadable'' else JNull),
      (''requiredChecks'', required)]"

definition prior_of :: "answer \<Rightarrow> string \<Rightarrow> jsval list option option" where
  "prior_of previous headSha = (case previous of Answered p \<Rightarrow> resolvePriorHead p headSha | Failed _ \<Rightarrow> None)"

definition advisory_names :: "jsval list option option \<Rightarrow> string list \<Rightarrow> jsval list" where
  "advisory_names prior told =
     map prior_name
       (filter (\<lambda>c. \<not> truthy (prop_of c ''workflowName'') \<and> prior_name c \<in> JStr ` set told)
         (case prior of Some (Some cs) \<Rightarrow> cs | _ \<Rightarrow> []))"

definition readCiOnHead :: "answer \<Rightarrow> answer \<Rightarrow> jsval \<Rightarrow> string \<Rightarrow> jsval \<Rightarrow> option_error + judged" where
  "readCiOnHead previous checked view headSha required =
     (let prior = prior_of previous headSha; inp = ci_input checked view headSha required prior in
      case judgeCiOnHead (JObj inp) of
        Inl e \<Rightarrow> Inl e
      | Inr ci \<Rightarrow>
          (let advisory = advisory_names prior (v_reportedOnPrior (j_verdict ci)) in
           if advisory \<noteq> [] then judgeCiOnHead (JObj (inp @ [(''structurallyAbsentContexts'', JArr advisory)])) else Inr ci))"

section \<open>The merge verb\<close>

text \<open>The session of a pull request among the rows of \<open>boss ls\<close>; the outer \<open>None\<close> is an unreadable list.\<close>

definition readSessionRow :: "answer \<Rightarrow> jsval \<Rightarrow> jsval option option" where
  "readSessionRow ls prUrl =
     (case ls of
        Answered p \<Rightarrow>
          (case prop_of p ''sessions'' of
             JArr rows \<Rightarrow> Some (find (\<lambda>row. is_nonempty_string prUrl \<and> prop_of row ''pr_url'' = prUrl) rows)
           | _ \<Rightarrow> None)
      | Failed _ \<Rightarrow> None)"

text \<open>A merged pull request with its merge commit.\<close>

definition merged_commit :: "jsval \<Rightarrow> string option" where
  "merged_commit p =
     (if prop_of p ''state'' = JStr ''MERGED'' \<and> sha (prop_of (prop_of p ''mergeCommit'') ''oid'')
      then Some (string_or_empty (prop_of (prop_of p ''mergeCommit'') ''oid'')) else None)"

definition observeMerge :: "answer \<Rightarrow> string option" where
  "observeMerge r = (case r of Answered p \<Rightarrow> merged_commit p | Failed _ \<Rightarrow> None)"

definition remoteSessionMarker :: "string \<Rightarrow> string" where
  "remoteSessionMarker headSha = ''<!-- boss-remote-session head='' @ headSha @ '' -->''"

definition remoteSessionComment :: "string \<Rightarrow> string" where
  "remoteSessionComment headSha =
     ''Verified at `'' @ take 12 headSha @ ''`, but this PR'' @ [CHR 0x27] @ ''s session isn'' @ [CHR 0x27] @
     ''t on this machine, so this machine can'' @ [CHR 0x27] @ ''t merge it.'' @ [CHR 0x0A, CHR 0x0A] @
     remoteSessionMarker headSha"

record merge_options =
  mo_head :: jsval
  mo_token :: string
  mo_dryRun :: bool
  mo_now :: int

text \<open>
  What the verb reads: the pull request, the daemon's state, \<open>gh\<close> for the rest, the two reads of CI, the
  sessions, and, after the command, what it printed and two more views of the pull request.
\<close>

record merge_world =
  mw_pr :: answer
  mw_source :: state_source
  mw_gh :: pr_answers
  mw_prior :: answer
  mw_runs :: answer
  mw_required :: jsval
  mw_sessions :: answer
  mw_posted :: bool
  mw_boss :: "string list \<Rightarrow> jsval"
  mw_live :: "answer \<times> answer"

datatype merge_outcome =
    Bad_head
  | Option_fault option_error
  | Argv_fault merge_error
  | Waits string "string list"
  | Reverify string
  | Abandoned
  | No_session string
  | Merge_planned
  | Merged string string

datatype merge_write = Notice string | Run_merge "string list"

definition merge_reasons :: "head_status \<Rightarrow> jsval \<Rightarrow> string \<Rightarrow> judged \<Rightarrow> string list" where
  "merge_reasons status p headSha ci =
     (let eligibility = sharedEligibility (JObj
            [(''ciWaitState'', JStr (if j_settled ci then ''settled'' else ''pending'')),
             (''checkVerdict'', verdict_obj (j_verdict ci)), (''headSha'', JStr headSha), (''prView'', p),
             (''heads'', JArr [JStr headSha, prop_of p ''headRefOid''])]);
          kept = filter (\<lambda>r. \<not> (hs_description status = vd_verifiedApproved \<and> r = ''partial-marker''))
            (el_reasons eligibility) in
      kept @ (if j_settled ci \<and> \<not> j_green ci \<and> ''ci-not-green-on-head'' \<notin> set kept
              then [''ci-not-green-on-head''] else []))"

text \<open>The wait the reasons name, in the order of \<open>decideVerdict\<close>.\<close>

definition merge_wait :: "string list \<Rightarrow> judged \<Rightarrow> merge_outcome option" where
  "merge_wait reasons ci =
     (if ''merge-state-dirty'' \<in> set reasons then Some (Waits ''merge-state-dirty'' reasons)
      else if verdict.v_reason (j_verdict ci) = R_NOT_REQUESTED then Some (Waits ''ci-not-requested'' reasons)
      else if verdict.v_reason (j_verdict ci) = R_ABSENT_GATE then Some (Waits ''ci-absent-gate'' reasons)
      else if reasons \<noteq> [] then Some (Waits [] reasons) else None)"

text \<open>What follows the command: one more view when the first still says merged without its commit.\<close>

definition after_merge :: "answer \<times> answer \<Rightarrow> jsval \<Rightarrow> merge_outcome" where
  "after_merge live r =
     (let mergeVerdict = classifyMergeResult r;
          unseen = Waits (if mergeVerdict = ''accepted'' then ''merge-not-observed'' else mergeVerdict) [];
          settle = (\<lambda>view rest. case view of
              Failed _ \<Rightarrow> rest
            | Answered p \<Rightarrow>
                (case merged_commit p of
                   Some oid \<Rightarrow> Merged oid []
                 | None \<Rightarrow> if prop_of p ''state'' \<noteq> JStr ''MERGED'' then unseen else rest)) in
      if mergeVerdict = ''head-mismatch'' then Reverify ''head-mismatch''
      else settle (fst live) (settle (snd live) unseen))"

definition merge_session ::
  "codec \<Rightarrow> merge_options \<Rightarrow> merge_world \<Rightarrow> jsval \<Rightarrow> string \<Rightarrow> merge_outcome \<times> merge_write list" where
  "merge_session cd opts w p headSha =
     (case readSessionRow (mw_sessions w) (prop_of p ''url'') of
        None \<Rightarrow> (Waits ''sessions-unreadable'' [], [])
      | Some row \<Rightarrow>
          (case readOperatorMarkers cd (mw_gh w) of
             None \<Rightarrow> (Waits ''comments-unreadable'' [], [])
           | Some markers \<Rightarrow>
               if map_option fst (operatorDecision markers headSha) = Some Sent_back_op then (Waits ''sent-back'' [], [])
               else
                 (let ident = (case row of Some r \<Rightarrow> prop_of r ''id'' | None \<Rightarrow> JUndef) in
                  if \<not> is_nonempty_string ident then
                    (if remoteSessionNoted markers headSha then (No_session ''standing'', [])
                     else (No_session (if mo_dryRun opts then ''planned'' else if mw_posted w then ''posted'' else ''failed''),
                           [Notice (remoteSessionComment headSha)]))
                  else
                    (case mergeArgv (JObj [(''sessionId'', ident), (''headSha'', JStr headSha)]) of
                       Inl e \<Rightarrow> (Argv_fault e, [])
                     | Inr argv \<Rightarrow>
                         (if mo_dryRun opts then Merge_planned else after_merge (mw_live w) (mw_boss w argv),
                          [Run_merge argv])))))"

definition merge_verified ::
  "codec \<Rightarrow> merge_options \<Rightarrow> merge_world \<Rightarrow> jsval \<Rightarrow> string \<Rightarrow> head_status option \<Rightarrow> merge_outcome \<times> merge_write list" where
  "merge_verified cd opts w p headSha latest =
     (if claimLost latest (mo_token opts) (mo_now opts) then (Abandoned, [])
      else if \<not> isVerified latest then (Waits ''not-verified'' [], [])
      else
        (case readCiOnHead (mw_prior w) (mw_runs w) p headSha (mw_required w) of
           Inl e \<Rightarrow> (Option_fault e, [])
         | Inr ci \<Rightarrow>
             (case merge_wait (merge_reasons (the latest) p headSha ci) ci of
                Some held \<Rightarrow> (held, [])
              | None \<Rightarrow> merge_session cd opts w p headSha)))"

definition merge_verb :: "codec \<Rightarrow> merge_options \<Rightarrow> merge_world \<Rightarrow> merge_outcome \<times> merge_write list" where
  "merge_verb cd opts w =
     (let headSha = to_lower (string_or_empty (mo_head opts)) in
      if \<not> SHA headSha then (Bad_head, [])
      else
        (case mw_pr w of
           Failed _ \<Rightarrow> (Waits ''pr-unreadable'' [], [])
         | Answered p \<Rightarrow>
             (case merged_commit p of
                Some oid \<Rightarrow> (Merged oid ''already-merged'', [])
              | None \<Rightarrow>
                  if to_lower (js_string (coalesce (prop_of p ''headRefOid'') (JStr []))) \<noteq> headSha
                  then (Reverify ''head-moved'', [])
                  else
                    (case mergeStatus (mw_source w) headSha (an_latest (mw_gh w)) of
                       Head_moved \<Rightarrow> (Reverify ''head-moved'', [])
                     | Status_unreadable \<Rightarrow> (Waits ''status-unreadable'' [], [])
                     | Status_read latest \<Rightarrow> merge_verified cd opts w p headSha latest))))"

section \<open>What a merge proves\<close>

lemma after_merge_no_run: "after_merge live r \<noteq> Bad_head"
  by (auto simp: after_merge_def Let_def split: answer.splits option.splits)

lemma merged_commit_Some:
  "merged_commit p = Some oid \<longleftrightarrow>
     prop_of p ''state'' = JStr ''MERGED'' \<and> SHA oid \<and> prop_of (prop_of p ''mergeCommit'') ''oid'' = JStr oid"
  by (cases "prop_of (prop_of p ''mergeCommit'') ''oid''") (auto simp: merged_commit_def sha_def string_or_empty_def)

lemma after_merge_Merged:
  assumes "after_merge live r = Merged oid via"
  shows "via = [] \<and> (\<exists>view\<in>{fst live, snd live}. observeMerge view = Some oid)"
  using assms by (auto simp: after_merge_def Let_def observeMerge_def split: answer.splits option.splits if_splits)

lemma session_row:
  assumes "readSessionRow ls url = Some (Some row)"
  shows "\<exists>p. ls = Answered p \<and> row \<in> set (array_or_empty (prop_of p ''sessions'')) \<and> prop_of row ''pr_url'' = url \<and>
    is_nonempty_string url"
  using assms by (auto simp: readSessionRow_def array_or_empty_def find_Some_iff split: answer.splits jsval.splits) 

lemma merge_session_run:
  assumes "merge_session cd opts w p h = (res, writes)" "Run_merge argv \<in> set writes"
  obtains row ident ms where "writes = [Run_merge argv]" "argv = [''merge'', ident, ''--yes'', ''--json'', ''--match-head'', h]"
    "readSessionRow (mw_sessions w) (prop_of p ''url'') = Some (Some row)" "prop_of row ''id'' = JStr ident" "trim ident \<noteq> []"
    "readOperatorMarkers cd (mw_gh w) = Some ms" "map_option fst (operatorDecision ms h) \<noteq> Some Sent_back_op"
    "res = (if mo_dryRun opts then Merge_planned else after_merge (mw_live w) (mw_boss w argv))"
proof -
  obtain row where row: "readSessionRow (mw_sessions w) (prop_of p ''url'') = Some row"
    using assms by (cases "readSessionRow (mw_sessions w) (prop_of p ''url'')") (auto simp: merge_session_def)
  obtain ms where ms: "readOperatorMarkers cd (mw_gh w) = Some ms"
    using assms row by (cases "readOperatorMarkers cd (mw_gh w)") (auto simp: merge_session_def)
  have sb: "map_option fst (operatorDecision ms h) \<noteq> Some Sent_back_op"
    using assms row ms by (auto simp: merge_session_def)
  obtain r where r: "row = Some r" "is_nonempty_string (prop_of r ''id'')"
    using assms row ms sb by (cases row) (auto simp: merge_session_def Let_def is_nonempty_string_def split: if_splits)
  then obtain ident where ident: "prop_of r ''id'' = JStr ident" "trim ident \<noteq> []"
    by (auto simp: is_nonempty_string_def split: jsval.splits)
  have "writes = [Run_merge argv]" "argv = [''merge'', ident, ''--yes'', ''--json'', ''--match-head'', h]"
    "res = (if mo_dryRun opts then Merge_planned else after_merge (mw_live w) (mw_boss w argv))"
    using assms row ms sb r ident by (auto simp: merge_session_def Let_def mergeArgv_def string_or_empty_def split: if_splits)
  then show thesis using that row r(1) ms sb ident by blast
qed


lemma partial_coalesce: "isPartial (coalesce v (JObj [])) = isPartial v"
  by (cases "nullish v") (auto simp: nullish_def isPartial_def coalesce_def)

lemma same_heads:
  assumes "headReasons (JArr [JStr h, x]) = []"
  shows "x = JStr h"
proof -
  obtain g where "{JStr g} = {JStr h, x}" using assms unfolding headReasons_Nil by (auto simp: array_or_empty_def)
  then have "JStr h \<in> {JStr g}" "x \<in> {JStr g}" by simp_all
  then show ?thesis by simp
qed

lemma merge_reasons_Nil:
  assumes "merge_reasons status p h ci = []"
  shows "j_settled ci" "j_green ci" "prop_of p ''state'' = JStr ''OPEN''" "prop_of p ''isDraft'' = JBool False"
    "prop_of p ''headRefOid'' = JStr h" "to_upper (string_or_empty (prop_of p ''mergeStateStatus'')) \<in> set ACCEPTED_STATES"
    "hs_description status \<noteq> vd_verifiedApproved \<Longrightarrow> \<not> isPartial p"
proof -
  let ?f = "JObj [(''ciWaitState'', JStr (if j_settled ci then ''settled'' else ''pending'')),
             (''checkVerdict'', verdict_obj (j_verdict ci)), (''headSha'', JStr h), (''prView'', p),
             (''heads'', JArr [JStr h, prop_of p ''headRefOid''])]"
  have kept: "\<forall>r\<in>set (shared_reasons ?f). hs_description status = vd_verifiedApproved \<and> r = ''partial-marker''"
    and ci: "j_settled ci \<longrightarrow> j_green ci \<or> ''ci-not-green-on-head'' \<in> set (shared_reasons ?f)"
    using assms unfolding merge_reasons_def sharedEligibility_def Let_def eligibility.select_convs append_is_Nil_conv filter_empty_conv
    by (simp_all split: if_splits)
  have f: "shared_reasons ?f = ciReasons (JStr (if j_settled ci then ''settled'' else ''pending'')) (verdict_obj (j_verdict ci)) (JStr h) @
      mergeStateReasons p @ prShapeReasons p @ headReasons (JArr [JStr h, prop_of p ''headRefOid''])"
    by (simp add: shared_reasons_def coalesce_def nullish_def)
  note only = bspec[OF kept]
  have not: "r \<notin> set (shared_reasons ?f)" if "r \<noteq> ''partial-marker''" for r using only[of r] that by blast
  have "''ci-not-settled'' \<notin> set (shared_reasons ?f)" by (rule not) simp
  then show s: "j_settled ci" unfolding f by (auto simp: ciReasons_def split: if_splits)
  have "''ci-not-green-on-head'' \<notin> set (shared_reasons ?f)" by (rule not) simp
  then show "j_green ci" using s ci by blast
  have "''pr-not-open'' \<notin> set (shared_reasons ?f)" "''pr-draft'' \<notin> set (shared_reasons ?f)" by (rule not; simp)+
  then show "prop_of p ''state'' = JStr ''OPEN''" "prop_of p ''isDraft'' = JBool False"
    unfolding f by (auto simp: prShapeReasons_def split: if_splits)
  have "headReasons (JArr [JStr h, prop_of p ''headRefOid'']) = []"
  proof -
    have "''head-unknown'' \<notin> set (shared_reasons ?f)" "''head-mismatch'' \<notin> set (shared_reasons ?f)" by (rule not; simp)+
    then show ?thesis unfolding f by (auto simp: headReasons_def split: if_splits)
  qed
  then show "prop_of p ''headRefOid'' = JStr h" by (rule same_heads)
  have "mergeStateReasons p = []"
  proof (rule ccontr)
    assume "mergeStateReasons p \<noteq> []"
    then obtain r where r: "r \<in> set (mergeStateReasons p)" by (cases "mergeStateReasons p") auto
    then have "r = ''partial-marker''" using kept unfolding f by auto
    moreover have "\<forall>r\<in>set (mergeStateReasons p). r \<in> set (map merge_state_reason MERGE_STATES)"
      using shared_reason_merge_state merge_state_unknown by (auto simp: mergeStateReasons_def Let_def)
    ultimately have "''partial-marker'' \<in> set (map merge_state_reason MERGE_STATES)" using r by blast
    moreover have "''partial-marker'' \<notin> set (map merge_state_reason MERGE_STATES)" by code_simp
    ultimately show False by blast
  qed
  then show "to_upper (string_or_empty (prop_of p ''mergeStateStatus'')) \<in> set ACCEPTED_STATES"
    by (simp add: mergeStateReasons_Nil)
  show "\<not> isPartial p" if "hs_description status \<noteq> vd_verifiedApproved"
  proof -
    have "''partial-marker'' \<notin> set (shared_reasons ?f)" using kept that by blast
    then show ?thesis unfolding f by (auto simp: prShapeReasons_def partial_coalesce split: if_splits)
  qed
qed

lemma merge_wait_None:
  assumes "merge_wait reasons ci = None"
  shows "reasons = []"
  using assms by (auto simp: merge_wait_def split: if_splits)

lemma merge_wait_waits: "merge_wait reasons ci \<noteq> Some (Merged oid via)"
  by (auto simp: merge_wait_def split: if_splits)


text \<open>The merge command is the last of the verb's steps, past every guard.\<close>

lemma merge_verb_run:
  assumes "merge_verb cd opts w = (res, writes)" "Run_merge argv \<in> set writes"
  obtains p h latest ci where "mw_pr w = Answered p" "merged_commit p = None" "h = to_lower (string_or_empty (mo_head opts))" "SHA h"
    "mergeStatus (mw_source w) h (an_latest (mw_gh w)) = Status_read latest"
    "\<not> claimLost latest (mo_token opts) (mo_now opts)" "isVerified latest"
    "readCiOnHead (mw_prior w) (mw_runs w) p h (mw_required w) = Inr ci"
    "merge_reasons (the latest) p h ci = []" "merge_session cd opts w p h = (res, writes)"
proof -
  let ?h = "to_lower (string_or_empty (mo_head opts))"
  obtain p where p: "SHA ?h" "mw_pr w = Answered p" "merged_commit p = None"
    using assms unfolding merge_verb_def Let_def by (auto split: if_splits answer.splits option.splits)
  obtain latest where latest: "mergeStatus (mw_source w) ?h (an_latest (mw_gh w)) = Status_read latest"
    using assms p unfolding merge_verb_def Let_def by (auto split: if_splits merge_status.splits)
  have v: "merge_verified cd opts w p ?h latest = (res, writes)"
    using assms p latest unfolding merge_verb_def Let_def by (auto split: if_splits)
  obtain ci where ci: "\<not> claimLost latest (mo_token opts) (mo_now opts)" "isVerified latest"
      "readCiOnHead (mw_prior w) (mw_runs w) p ?h (mw_required w) = Inr ci"
      "merge_wait (merge_reasons (the latest) p ?h ci) ci = None" "merge_session cd opts w p ?h = (res, writes)"
    using v assms(2) unfolding merge_verified_def by (auto split: if_splits sum.splits option.splits)
  show thesis by (rule that[OF p(2,3) refl p(1) latest ci(1-3) merge_wait_None[OF ci(4)] ci(5)])
qed

lemma merge_verb_merged:
  assumes "merge_verb cd opts w = (Merged oid via, writes)"
  shows "via = ''already-merged'' \<and> writes = [] \<and> observeMerge (mw_pr w) = Some oid \<or>
    via = [] \<and> (\<exists>argv. writes = [Run_merge argv]) \<and> \<not> mo_dryRun opts \<and>
    (\<exists>view\<in>{fst (mw_live w), snd (mw_live w)}. observeMerge view = Some oid)"
proof (cases "\<exists>argv. Run_merge argv \<in> set writes")
  case True
  then obtain argv where argv: "Run_merge argv \<in> set writes" by blast
  obtain p h where "merge_session cd opts w p h = (Merged oid via, writes)" using merge_verb_run[OF assms argv] by blast
  then obtain r where "writes = [Run_merge argv]" "Merged oid via = (if mo_dryRun opts then Merge_planned else after_merge (mw_live w) r)"
    using merge_session_run[OF _ argv] by blast
  then show ?thesis using after_merge_Merged[of "mw_live w" r oid via] by (auto split: if_splits)
next
  case False
  then have "mw_pr w = Answered p \<Longrightarrow> merged_commit p = Some oid \<and> via = ''already-merged'' \<and> writes = []" for p
    using assms merge_wait_waits
    by (auto simp: merge_verb_def merge_verified_def merge_session_def Let_def split: if_splits option.splits merge_status.splits sum.splits)
  moreover obtain p where "mw_pr w = Answered p"
    using assms by (cases "mw_pr w") (auto simp: merge_verb_def Let_def split: if_splits)
  ultimately show ?thesis by (auto simp: observeMerge_def)
qed

text \<open>C5:
  What the merge verb merges. The command it runs is one, pinned to the head it was asked for, in the
  session that owns the pull request; it runs only when the pull request is open, no draft, on that very
  head and mergeable, the status on the head is a pass and not a claim (a partial build needs an approved
  pass), CI on the head is settled and green by the judge's own reading, and the records of its writers
  could be read and the newest decision among them sends nothing back. And whatever the command printed,
  the verb reports a merge only with a commit that a view of the pull request shows as merged.\<close>

theorem merge_verb_sound:
  assumes "merge_verb cd opts w = (res, writes)"
  shows "(Run_merge argv \<in> set writes \<longrightarrow>
     (\<exists>p h ident sessions row status ci.
        mw_pr w = Answered p \<and> h = to_lower (string_or_empty (mo_head opts)) \<and> SHA h \<and> prop_of p ''headRefOid'' = JStr h \<and>
        writes = [Run_merge argv] \<and> argv = [''merge'', ident, ''--yes'', ''--json'', ''--match-head'', h] \<and>
        mw_sessions w = Answered sessions \<and> row \<in> set (array_or_empty (prop_of sessions ''sessions'')) \<and>
        prop_of row ''pr_url'' = prop_of p ''url'' \<and> prop_of row ''id'' = JStr ident \<and>
        prop_of p ''state'' = JStr ''OPEN'' \<and> prop_of p ''isDraft'' = JBool False \<and>
        to_upper (string_or_empty (prop_of p ''mergeStateStatus'')) \<in> set ACCEPTED_STATES \<and>
        mergeStatus (mw_source w) h (an_latest (mw_gh w)) = Status_read (Some status) \<and> hs_state status = ''success'' \<and>
        (hs_description status = vd_verified \<and> \<not> isPartial p \<or> hs_description status = vd_verifiedApproved) \<and>
        readCiOnHead (mw_prior w) (mw_runs w) p h (mw_required w) = Inr ci \<and> j_settled ci \<and> j_green ci \<and>
        (\<exists>d. readOperatorDecision cd (mw_gh w) h = Some d \<and> map_option fst d \<noteq> Some Sent_back_op))) \<and>
   (res = Merged oid via \<longrightarrow>
     via = ''already-merged'' \<and> writes = [] \<and> observeMerge (mw_pr w) = Some oid \<or>
     via = [] \<and> (\<exists>argv. writes = [Run_merge argv]) \<and> \<not> mo_dryRun opts \<and>
     (\<exists>view\<in>{fst (mw_live w), snd (mw_live w)}. observeMerge view = Some oid))" (is "(_ \<longrightarrow> ?guarded) \<and> (_ \<longrightarrow> ?observed)")
proof (intro conjI impI)
  assume run: "Run_merge argv \<in> set writes"
  obtain p h latest ci where g: "mw_pr w = Answered p" "h = to_lower (string_or_empty (mo_head opts))" "SHA h"
      "mergeStatus (mw_source w) h (an_latest (mw_gh w)) = Status_read latest" "isVerified latest"
      "readCiOnHead (mw_prior w) (mw_runs w) p h (mw_required w) = Inr ci"
      "merge_reasons (the latest) p h ci = []" "merge_session cd opts w p h = (res, writes)"
    using merge_verb_run[OF assms run] by metis
  obtain status where status: "latest = Some status" "hs_state status = ''success''"
      "hs_description status \<in> {vd_verified, vd_verifiedApproved}"
    using g(5) by (auto simp: isVerified_def split: option.splits)
  note reasons = merge_reasons_Nil[OF g(7)[unfolded status(1) option.sel]]
  obtain row ident ms where s: "writes = [Run_merge argv]" "argv = [''merge'', ident, ''--yes'', ''--json'', ''--match-head'', h]"
      "readSessionRow (mw_sessions w) (prop_of p ''url'') = Some (Some row)" "prop_of row ''id'' = JStr ident"
      "readOperatorMarkers cd (mw_gh w) = Some ms" "map_option fst (operatorDecision ms h) \<noteq> Some Sent_back_op"
    using merge_session_run[OF g(8) run] by metis
  obtain sessions where sessions: "mw_sessions w = Answered sessions" "row \<in> set (array_or_empty (prop_of sessions ''sessions''))"
      "prop_of row ''pr_url'' = prop_of p ''url''"
    using session_row[OF s(3)] by blast
  have "readOperatorDecision cd (mw_gh w) h = Some (operatorDecision ms h)" by (simp add: readOperatorDecision_def s(5))
  moreover have "hs_description status = vd_verified \<and> \<not> isPartial p \<or> hs_description status = vd_verifiedApproved"
    using status(3) reasons(7) by blast
  ultimately show ?guarded
    using g(1-4,6) status(1,2) reasons(1-6) s(1,2,4,6) sessions by blast
next
  assume "res = Merged oid via"
  then show ?observed
    using merge_verb_merged assms by blast
qed

section \<open>Instances\<close>

definition merge_oid :: string where "merge_oid = replicate 40 (CHR ''d'')"

definition demo_merge_view :: "string \<Rightarrow> jsval" where
  "demo_merge_view st =
     JObj [(''state'', JStr st), (''isDraft'', JBool False), (''headRefOid'', JStr merge_oid), (''mergeStateStatus'', JStr ''CLEAN''),
       (''url'', JStr ''https://forge/pull/7''), (''mergeCommit'', JObj [(''oid'', JStr (if st = ''MERGED'' then merge_oid else []))]),
       (''statusCheckRollup'', JArr [JObj [(''name'', JStr ''test''), (''status'', JStr ''COMPLETED''), (''conclusion'', JStr ''SUCCESS'')]])]"

definition demo_merge_world :: merge_world where
  "demo_merge_world =
     \<lparr>mw_pr = Answered (demo_merge_view ''OPEN''),
      mw_source = Daemon (JObj [(''head_sha'', JStr merge_oid), (''checks'', JArr [JObj [(''name'', JStr VERIFY_CONTEXT),
        (''status'', JStr ''completed''), (''conclusion'', JStr ''success''), (''description'', JStr vd_verified)]])]),
      mw_gh = \<lparr>an_pr = Failed JNull, an_latest = Failed JNull, an_nodes = Failed JNull, an_comments = Answered (JArr [JArr []]),
        an_permission = \<lambda>_. Failed JNull\<rparr>,
      mw_prior = Answered (JObj [(''data'', JObj [(''repository'', JObj [(''pullRequest'', JObj [(''timelineItems'',
        JObj [(''nodes'', JArr [])])])])])]),
      mw_runs = Answered (JArr [JObj [(''workflow_runs'', JArr [])]]), mw_required = JArr [],
      mw_sessions = Answered (JObj [(''sessions'', JArr [JObj [(''id'', JStr ''s1''), (''pr_url'', JStr ''https://forge/pull/7'')]])]),
      mw_posted = True, mw_boss = \<lambda>_. JObj [(''ok'', JBool True)],
      mw_live = (Answered (demo_merge_view ''MERGED''), Failed JNull)\<rparr>"

definition demo_merge_options :: merge_options where
  "demo_merge_options = \<lparr>mo_head = JStr merge_oid, mo_token = [], mo_dryRun = False, mo_now = 0\<rparr>"

theorem merge_verb_sound_witness:
  "\<exists>p h ci. mw_pr demo_merge_world = Answered p \<and> prop_of p ''headRefOid'' = JStr h \<and>
     readCiOnHead (mw_prior demo_merge_world) (mw_runs demo_merge_world) p h (mw_required demo_merge_world) = Inr ci \<and>
     j_green ci"
proof -
  let ?argv = "[''merge'', ''s1'', ''--yes'', ''--json'', ''--match-head'', merge_oid]"
  let ?cd = "\<lparr>cd_canonical = \<lambda>_. None, cd_any = \<lambda>_. None, cd_digest = \<lambda>_ _. []\<rparr>"
  have "merge_verb ?cd demo_merge_options demo_merge_world = (Merged merge_oid [], [Run_merge ?argv])"
    by code_simp
  from merge_verb_sound[OF this, of ?argv merge_oid "[]"] show ?thesis
    unfolding list.set by blast
qed

end
