(* ===== verification/VerifyPost.thy ===== *)
theory VerifyPost
  imports VerifyMerge RepairRounds CommitStatus
begin

text \<open>
  The \<open>post\<close> verb of \<open>verify/verify-gate.mjs\<close>, every verdict of it (claim, wait, pass, park, send back), with
  the helpers it has in \<open>verify/verify-review-request.mjs\<close>, \<open>verify/verify-stale-claim.mjs\<close>,
  \<open>verify/verify-post-pass.mjs\<close> and \<open>verify/verify-draft.mjs\<close>. A run is a function from what it reads and
  what each post answers (\<open>post_world\<close>) to its result and its writes in order. The lemmas follow the
  status through every branch; \<open>head_log\<close> is the log of one head under runs of several owners, and a live
  claim is exclusive in it.\<close>

section \<open>Writes\<close>







section \<open>Notes and reviewers\<close>









section \<open>The verdicts\<close>



subsection \<open>Claim\<close>


subsection \<open>Wait\<close>



subsection \<open>Pass\<close>




subsection \<open>Park\<close>








subsection \<open>Send back\<close>



section \<open>The post verb\<close>





section \<open>Where a status comes from\<close>















section \<open>Every status is accounted for\<close>





section \<open>The statuses of one head\<close>















section \<open>Instances\<close>












section \<open>What a status rests on\<close>









end
