(* ===== verification/Spec2Isabelle.thy ===== *)
theory Spec2Isabelle
  imports JsBase DagScheduler PrCheckState JsRegex MergeEligibility Selection EpicLib EpicState EpicDriver
    EpicRun EpicCycle EpicHealth Claims RankWork StageChain ReadyGate VerifyBlockers CompletionGate Confidence VerifyContract
    VerifyVerdict VerifyRecords VerifyApproval RepairRounds CommitStatus ReviewVerdict BlockerClearance
    VerifyMerge VerifyPost
begin

text \<open>
  Verification library of the bossanova agent toolbox, the JavaScript modules of
  \<open>src/skills-toolbox\<close> that decide what an autonomous run does next: which tickets it selects, when a
  pull request counts as green, what may be merged, and how an epic (a set of tickets with blocking
  edges) is driven to its end.

  \<^bold>\<open>The program's parts and how they interact.\<close> An epic run is a state (\<open>epic/epic-driver.mjs\<close>) that one
  reconciliation cycle advances. The cycle reads its tickets as a graph and asks the scheduler
  (\<open>epic/dag-scheduler.mjs\<close>) what is ready and what to merge; it reads every child session and asks
  \<open>epic/bs-epic-lib.mjs\<close> whether the child lives and has settled; it admits a child on the check verdict of
  \<open>pr-check-state.mjs\<close> and the draft and partial markers of \<open>epic/merge-eligibility.mjs\<close>; it arms watches
  and records everything in the state, which is normalized and stored after each step. Which tickets
  enter at all is decided by \<open>selection.mjs\<close> and the readers of \<open>bs-epic-lib.mjs\<close>, and
  \<open>rank-work.mjs\<close> says in which order.

  A single ticket runs through stages. A run claims the ticket by a comment (\<open>linear-claim.mjs\<close>), builds
  it, and may mark its head finished when the review stands for the pushed tree
  (\<open>build/ready-gate.mjs\<close>); it then starts the verify stage, as a chat and a callback
  (\<open>stage-chain.mjs\<close>), or runs it itself (\<open>build/completion-gate.mjs\<close>): the fast path asks the verify gate
  to judge the head, posts the verdict and merges. The gate's decision (\<open>verify/verify-gate.mjs\<close>) rests on
  the blockers it collects (\<open>verify/verify-blockers.mjs\<close>), the results of the verify extensions
  (\<open>verify/verify-contract.mjs\<close>) and the confidence level of the head (\<open>verify/verify-confidence.mjs\<close>,
  \<open>verify/verify-level.mjs\<close>); what it cannot decide it parks on codes that a person approves. The
  approval is a comment on the pull request, read back with every other record the comments carry, and it
  counts only when its author can write; it may follow the change over a rebase. A blocked head goes to
  repair, for at most two rounds between two decisions of the operator. The receipt that a build is
  finished is a commit status (\<open>commit-status.mjs\<close>) behind the ready gate, whose review verdict is
  pooled from the verdicts of several reviewers (\<open>review-verdict.mjs\<close>).

  \<^bold>\<open>Theories.\<close>
  \<^item> \<open>JsBase\<close>: JavaScript values (\<open>jsval\<close>: undefined, null, booleans, numbers, strings, arrays, objects
    with their key order), the language's coercions the code uses (\<open>??\<close>, truthiness, \<open>String\<close>,
    \<open>Number\<close>, \<open>Date.parse\<close>), insertion-ordered maps as association lists, first-seen deduplication, the
    stable sort by a comparator with its locale, and the library lemmas on them.
  \<^item> \<open>JsRegex\<close>: regular expressions of the source as a datatype with a backtracking-free matcher.
  \<^item> \<open>DagScheduler\<close> (\<open>epic/dag-scheduler.mjs\<close>): the graph, transitive dependents as a worklist function with
    a termination measure, unlock counts, the ready list, the merge choice. The lemmas identify the
    worklist with the transitive closure of the edges, and prove the ready list exact, held up only by
    external blockers on an acyclic epic, and independent of insertion order on readable dates.
  \<^item> \<open>PrCheckState\<close> (\<open>pr-check-state.mjs\<close>, \<open>ci/required-checks.mjs\<close>): reading and merging check entries,
    gates, the verdict. The lemmas show what a green verdict proves and when a verdict is failing.
  \<^item> \<open>MergeEligibility\<close> (\<open>epic/merge-eligibility.mjs\<close>): CI on the head, shared eligibility, Markdown
    sections, the pinned merge command.
  \<^item> \<open>Selection\<close> (\<open>selection.mjs\<close>): the selection block, its flags, the in-memory matcher and the rendered
    tracker filter. What the tracker makes of the filter is not modelled.
  \<^item> \<open>EpicLib\<close> (\<open>epic/bs-epic-lib.mjs\<close>): ticket readers and classification, command line, combined runs,
    liveness, settling, repair leases.
  \<^item> \<open>EpicState\<close> (\<open>epic/epic-driver.mjs\<close>, state model): the record \<open>epic_state\<close> with one field per key of
    the stored object, reading (\<open>normalizeEpicState\<close>), writing (\<open>encode_state\<close>), validation and the
    save as two file operations: a rename is one step, a write is any number of steps that leave anything
    in the file, and a crash stops after any of them.
  \<^item> \<open>EpicDriver\<close>: the terminal guard, every \<open>record*\<close> transition as a function returning an error or the
    next state, prompts, progress, and the readers of the cycle.
  \<^item> \<open>EpicRun\<close>: the transition system. \<open>transition\<close> has one constructor per state change of the driver,
    \<open>runs\<close> is the inductive relation of its runs, and the locale \<open>preserved\<close> lifts what each step keeps.
    Interpreted on the run invariant (ownership, needs-human, cascade closure, DONE only when settled)
    and on growth of the progress lists.
  \<^item> \<open>EpicCycle\<close>: \<open>scheduleReadyWork\<close>, \<open>ensureDurableCoverage\<close> and \<open>reconcileEpic\<close> as programs over an
    arbitrary world, with the injected I/O as a record of functions that may reject. \<open>wlp\<close> is the
    weakest liberal precondition; with it the whole cycle is shown to be a run of the transition system,
    so the invariants of \<open>EpicRun\<close> hold whatever the I/O answers.
  \<^item> \<open>EpicHealth\<close>: total correctness of the cycle on a host whose operations answer, whatever they answer,
    up to the two errors that remain: the refused DONE transition and a session without its ids.
  \<^item> \<open>Claims\<close> (\<open>linear-claim.mjs\<close>): the comment protocol by which one run holds a ticket: parsing, forfeiting,
    the winner, the verdicts. In the step relation of the race a second run wins only when the plan lease
    of the first is over.
  \<^item> \<open>RankWork\<close> (\<open>rank-work.mjs\<close>): the ranking of tickets; the breadth-first closure is bounded to ten steps by
    the code, and is proved to be exactly the tickets blocked within them.
  \<^item> \<open>StageChain\<close> (\<open>stage-chain.mjs\<close>, \<open>callback/epic-target.mjs\<close>): the verbs that arm and re-arm the verify
    stage, over a host that answers each command as an arbitrary function of the commands so far.
  \<^item> \<open>ReadyGate\<close> (\<open>build/ready-gate.mjs\<close>): the review reasons, the drift of the tree since the review over git as
    a function of its arguments, and the remapping of a reviewed head after a rebase.
  \<^item> \<open>VerifyBlockers\<close> (\<open>verify/verify-blockers.mjs\<close>): collecting, ordering and validating blockers, trailers, and
    the fold of extension outcomes. SHA-256 and base64url are arguments.
  \<^item> \<open>CompletionGate\<close> (\<open>build/completion-gate.mjs\<close>): the eligibility of an envelope and the verify fast path
    against an arbitrary host; the lemmas follow the questions put to the gate through every branch.
  \<^item> \<open>Confidence\<close>: the level of a head, the size percentiles, the park codes of a lowered level. Area
    detection over paths and \<open>localeCompare\<close> are arguments.
  \<^item> \<open>VerifyContract\<close>: the shape and the classification of an extension's result, and its context.
  \<^item> \<open>VerifyVerdict\<close> (the decisions of \<open>verify/verify-gate.mjs\<close>): claims on a head, park descriptions,
    extension records, approvals and \<open>decideVerdict\<close>, whose stages are the lemma \<open>decide_stages\<close>.
  \<^item> \<open>VerifyRecords\<close> (the records of \<open>verify/verify-gate.mjs\<close> and the readers of its siblings): every marker
    and trailer a comment can carry, the newest record of a head, the acceptances, and the carry of an
    approval to another head. Base64 with JSON, the digest and git are arguments.
  \<^item> \<open>VerifyApproval\<close> (the same module): the status that stands, whose comments count, the reading of an
    approval and the \<open>approve\<close> verb, with what GitHub answers at each moment as a record. The locale
    \<open>newest_choice\<close> states what the newest of a list is; it is interpreted on the order of the records.
  \<^item> \<open>RepairRounds\<close> (\<open>verify/verify-repair-rounds.mjs\<close>): the repair history and its bound.
  \<^item> \<open>CommitStatus\<close> (\<open>commit-status.mjs\<close>): posting and reading a commit status, with the ready gate in front
    of a build receipt.
  \<^item> \<open>ReviewVerdict\<close> (\<open>review-verdict.mjs\<close>): the check of a verdict, its status, the merge and the pool; the
    status of a pool is that of its worst member.
  \<^item> \<open>BlockerClearance\<close> (\<open>tracker/blocker-clearance.mjs\<close>, \<open>build/blocker-pr-facts.mjs\<close>): when a blocking
    ticket stops blocking, by its state or by the pull requests it links.
  \<^item> \<open>VerifyMerge\<close> (the \<open>merge\<close> verb of \<open>verify/verify-gate.mjs\<close>): the status, CI and session it reads, the
    guards before the pinned merge command, and what counts as a merge afterwards.
  \<^item> \<open>VerifyPost\<close> (the \<open>post\<close> verb): claim, wait, pass, park and send back, each with its writes in order.
    The log of a head under runs of several owners is an inductive relation in which a live claim is
    exclusive.

  \<^bold>\<open>Conventions.\<close> Strings are byte strings (UTF-8); letter case, white space and word characters are the
  ASCII ones. Numbers are integers, NaN and the infinities. A field the module always writes as a string
  is a string, and a value of another type read there becomes the empty string. Exceptions are \<open>Inl\<close> of a
  sum; a dictionary is an association list in key order, and keys inherited from \<open>Object.prototype\<close> are
  not modelled. \<open>path.join\<close> is an argument of the storage functions. All recursion is structural or has
  a measure, so there is no fuel.

  \<^bold>\<open>Not modelled.\<close> The command lines of the modules (argument plumbing over the modelled functions), the
  scan for Set and Map values inside a state about to be stored (the record type has none), the
  configuration loader, the tracker, session and callback clients, the planning, review, retro and
  finalize tools, the fact gathering of the verify gate, its routes and its tracker writes after a merge, and the Go
  services: they read git, HTTP and process output, and the modelled modules take what they produce as
  arguments. Markdown comments (the notes a park leaves, the rendered review, the progress comment) are
  texts given to the model, except the approval that is read back.
\<close>

end
